(* ===== verification/Prelude.thy ===== *)
theory Prelude
  imports Main "HOL-Library.Sublist" "HOL-Library.Char_ord" "HOL-Library.List_Lexorder"
begin

text \<open>
  What the components share: the Python string operations the server applies to
  every address, name and key (\<^verbatim>\<open>strip\<close>, \<^verbatim>\<open>lower\<close>, \<^verbatim>\<open>partition\<close>,
  \<^verbatim>\<open>startswith\<close>, \<^verbatim>\<open>endswith\<close>), the falsy-value idioms (\<^verbatim>\<open>v or ""\<close>), the
  exceptions of the services as values of a sum type, and the list lemmas that
  the component proofs use.

  Text is modelled as lists of characters. Case folding and white space are the
  ASCII ones, which is what every address, key and status of the program is
  made of; characters beyond them are carried unchanged. Instants and durations
  are integers, in microseconds.
\<close>

section \<open>Collections of facts\<close>

named_theorems pystr \<open>normal forms of Python string operations\<close>
named_theorems sqldefs \<open>definitions of the SQL statements of the services\<close>

section \<open>Exceptions as values\<close>

datatype exc =
    ValueError
  | TypeError
  | NameError
  | UniqueViolation
  | CheckViolation
  | VersionConflict "string option" string
  | OwnershipConflict string "string option"
  | ForgetDenied string "string option"
  | HTTPException nat

type_synonym 'a res = "exc + 'a"

type_synonym instant = int

abbreviation seconds :: "int \<Rightarrow> int" where
  "seconds s \<equiv> s * 1000000"

abbreviation hours :: "int \<Rightarrow> int" where
  "hours h \<equiv> h * 3600000000"

section \<open>Strings\<close>

definition is_space :: "char \<Rightarrow> bool" where
  "is_space c \<longleftrightarrow> (let n = (of_char c :: nat) in (9 \<le> n \<and> n \<le> 13) \<or> (28 \<le> n \<and> n \<le> 32))"

definition lower_char :: "char \<Rightarrow> char" where
  "lower_char c = (if 65 \<le> (of_char c :: nat) \<and> (of_char c :: nat) \<le> 90
                   then char_of ((of_char c :: nat) + 32) else c)"

definition py_lower :: "string \<Rightarrow> string" where
  "py_lower s = map lower_char s"

definition py_lstrip :: "string \<Rightarrow> string" where
  "py_lstrip s = dropWhile is_space s"

definition py_rstrip :: "string \<Rightarrow> string" where
  "py_rstrip s = rev (dropWhile is_space (rev s))"

definition py_strip :: "string \<Rightarrow> string" where
  "py_strip s = py_rstrip (py_lstrip s)"

text \<open>The idiom \<^verbatim>\<open>(v or "")\<close> on an optional string.\<close>

definition or_empty :: "string option \<Rightarrow> string" where
  "or_empty v = (case v of None \<Rightarrow> '''' | Some s \<Rightarrow> s)"

text \<open>The idiom \<^verbatim>\<open>s or None\<close>: an empty string counts as absent.\<close>

definition or_none :: "string \<Rightarrow> string option" where
  "or_none s = (if s = '''' then None else Some s)"

text \<open>\<^verbatim>\<open>(v or "").strip().lower()\<close>, the normal form of every name and address.\<close>

definition norm :: "string option \<Rightarrow> string" where
  "norm v = py_lower (py_strip (or_empty v))"

text \<open>\<^verbatim>\<open>s.partition(c)\<close> for a one-character separator: the part before it, and
  the separator together with the part after it.\<close>

definition py_partition :: "char \<Rightarrow> string \<Rightarrow> string \<times> string" where
  "py_partition c s = (takeWhile (\<lambda>x. x \<noteq> c) s, dropWhile (\<lambda>x. x \<noteq> c) s)"

text \<open>\<^verbatim>\<open>s.split(c, 1)[0]\<close> and \<^verbatim>\<open>s.split(c, 1)[1]\<close> (the latter where the separator occurs).\<close>

definition before :: "char \<Rightarrow> string \<Rightarrow> string" where
  "before c s = takeWhile (\<lambda>x. x \<noteq> c) s"

definition after :: "char \<Rightarrow> string \<Rightarrow> string" where
  "after c s = tl (dropWhile (\<lambda>x. x \<noteq> c) s)"

text \<open>\<^verbatim>\<open>s.split(c)\<close>.\<close>

fun py_split :: "char \<Rightarrow> string \<Rightarrow> string list" where
  "py_split c [] = [[]]"
| "py_split c (x # xs) =
     (if x = c then [] # py_split c xs
      else case py_split c xs of [] \<Rightarrow> [[x]] | w # ws \<Rightarrow> (x # w) # ws)"

definition startswith :: "string \<Rightarrow> string \<Rightarrow> bool" where
  "startswith s p \<longleftrightarrow> prefix p s"

definition endswith :: "string \<Rightarrow> string \<Rightarrow> bool" where
  "endswith s p \<longleftrightarrow> prefix (rev p) (rev s)"

text \<open>\<^verbatim>\<open>s.removeprefix(p)\<close>.\<close>

definition removeprefix :: "string \<Rightarrow> string \<Rightarrow> string" where
  "removeprefix p s = (if startswith s p then drop (length p) s else s)"

text \<open>Python's \<^verbatim>\<open>str(n)\<close> for a natural number.\<close>

fun nat_str :: "nat \<Rightarrow> string" where
  "nat_str n = (if n < 10 then [char_of (48 + n)]
                else nat_str (n div 10) @ [char_of (48 + n mod 10)])"

declare nat_str.simps [simp del]

section \<open>Lemmas on strings\<close>

lemma of_char_less_256: "(of_char c :: nat) < 256"
  by (rule nat_of_char_less_256)

lemma lower_char_idem [simp]: "lower_char (lower_char c) = lower_char c"
  by (simp add: lower_char_def)

lemma is_space_lower_char [simp]: "is_space (lower_char c) = is_space c"
  by (auto simp: lower_char_def is_space_def Let_def)

lemma py_lower_Nil [simp]: "py_lower [] = []"
  by (simp add: py_lower_def)

lemma py_lower_Cons [simp]: "py_lower (c # s) = lower_char c # py_lower s"
  by (simp add: py_lower_def)

lemma py_lower_eq_Nil [simp]: "py_lower s = [] \<longleftrightarrow> s = []"
  by (simp add: py_lower_def)

lemma py_lower_append [simp]: "py_lower (s @ t) = py_lower s @ py_lower t"
  by (simp add: py_lower_def)

lemma py_lower_idem [simp]: "py_lower (py_lower s) = py_lower s"
  by (simp add: py_lower_def)

lemma length_py_lower [simp]: "length (py_lower s) = length s"
  by (simp add: py_lower_def)

lemma dropWhile_map_lower:
  "(\<And>c. P (lower_char c) = P c) \<Longrightarrow> dropWhile P (py_lower s) = py_lower (dropWhile P s)"
  by (induction s) auto

lemma rev_py_lower: "rev (py_lower s) = py_lower (rev s)"
  by (simp add: py_lower_def rev_map)

lemma py_strip_lower: "py_strip (py_lower s) = py_lower (py_strip s)"
  by (simp add: py_strip_def py_rstrip_def py_lstrip_def dropWhile_map_lower rev_py_lower)

lemma dropWhile_idem_hd: "dropWhile P s = [] \<or> \<not> P (hd (dropWhile P s))"
  using hd_dropWhile by blast

lemma py_rstrip_last: "py_rstrip s = [] \<or> \<not> is_space (last (py_rstrip s))"
  using dropWhile_idem_hd [of is_space "rev s"] by (auto simp: py_rstrip_def last_rev)

lemma py_rstrip_prefix: "prefix (py_rstrip s) s"
proof -
  have "suffix (dropWhile is_space (rev s)) (rev s)" by (rule suffix_dropWhile)
  then show ?thesis by (simp add: py_rstrip_def suffix_to_prefix)
qed

lemma py_rstrip_idem [simp]: "py_rstrip (py_rstrip s) = py_rstrip s"
  by (simp add: py_rstrip_def)

lemma py_lstrip_idem [simp]: "py_lstrip (py_lstrip s) = py_lstrip s"
  by (simp add: py_lstrip_def)

lemma py_strip_hd: "py_strip s \<noteq> [] \<Longrightarrow> \<not> is_space (hd (py_strip s))"
proof -
  assume ne: "py_strip s \<noteq> []"
  have pre: "prefix (py_strip s) (py_lstrip s)"
    by (simp add: py_strip_def py_rstrip_prefix)
  then have "hd (py_strip s) = hd (py_lstrip s)" and "py_lstrip s \<noteq> []"
    using ne by (auto simp: prefix_def)
  then show ?thesis using dropWhile_idem_hd [of is_space s] unfolding py_lstrip_def by metis
qed

lemma py_strip_idem [simp]: "py_strip (py_strip s) = py_strip s"
proof -
  have "py_lstrip (py_strip s) = py_strip s"
    using py_strip_hd [of s] by (cases "py_strip s") (auto simp: py_lstrip_def)
  then show ?thesis by (simp add: py_strip_def)
qed

lemma norm_idem [simp]: "norm (Some (norm v)) = norm v"
  by (simp add: norm_def or_empty_def py_strip_lower)

lemma norm_None [simp]: "norm None = []"
  by (simp add: norm_def or_empty_def py_strip_def py_lstrip_def py_rstrip_def)

lemma norm_lower [simp]: "py_lower (norm v) = norm v"
  by (simp add: norm_def)

lemma norm_strip [simp]: "py_strip (norm v) = norm v"
  by (simp add: norm_def py_strip_lower)

lemma partition_append: "fst (py_partition c s) @ snd (py_partition c s) = s"
  by (simp add: py_partition_def)

lemma before_not_in: "c \<notin> set (before c s)"
  by (auto simp: before_def dest: set_takeWhileD)

lemma before_idem [simp]: "before c (before c s) = before c s"
  by (simp add: before_def)

lemma before_id: "c \<notin> set s \<Longrightarrow> before c s = s"
  by (auto simp: before_def takeWhile_eq_all_conv)

lemma startswith_append [simp]: "startswith (p @ s) p"
  by (simp add: startswith_def)

lemma removeprefix_append [simp]: "removeprefix p (p @ s) = s"
  by (simp add: removeprefix_def)

lemma startswith_code [pystr, code]:
  "startswith s [] = True"
  "startswith [] (c # p) = False"
  "startswith (d # s) (c # p) = (c = d \<and> startswith s p)"
  by (auto simp: startswith_def)

section \<open>Lemmas on lists\<close>

lemma map_if_filter_id: "(\<And>x. x \<in> set xs \<Longrightarrow> \<not> P x) \<Longrightarrow> map (\<lambda>x. if P x then f x else x) xs = xs"
  by (simp add: map_idI)

lemma distinct_map_inj: "distinct (map f xs) \<Longrightarrow> x \<in> set xs \<Longrightarrow> y \<in> set xs \<Longrightarrow> f x = f y \<Longrightarrow> x = y"
  by (metis distinct_map inj_onD)

lemma filter_unique:
  assumes "distinct (map f xs)" and "x \<in> set xs"
  shows "filter (\<lambda>y. f y = f x) xs = [x]"
  using assms
proof (induction xs)
  case Nil
  then show ?case by simp
next
  case (Cons a xs)
  show ?case
  proof (cases "a = x")
    case True
    with Cons.prems(1) have "f x \<notin> f ` set xs" by simp
    then have "\<forall>y \<in> set xs. f y \<noteq> f x" by (metis imageI)
    then have "filter (\<lambda>y. f y = f x) xs = []" by (simp add: filter_empty_conv)
    with True show ?thesis by simp
  next
    case False
    with Cons.prems have "x \<in> set xs" and "f a \<noteq> f x" by (auto simp: image_iff)
    with Cons show ?thesis by simp
  qed
qed

end
