(* ===== verification/Identity.thy ===== *)
theory Identity
  imports Prelude
begin

text \<open>
  Inbox addressing (\<^verbatim>\<open>server/services/identity.py\<close>): which strings are addresses,
  the rewriting of common addressing mistakes, and the shared \<^verbatim>\<open>admin\<close> role with
  its declared broadcast form \<^verbatim>\<open>admin@fleet\<close>. The locale \<open>listen_expansion\<close> is the
  contract of every read-time widening of a reader's listen set: it only ever
  adds addresses that were not there.
\<close>

section \<open>Definitions\<close>

definition RESERVED_PREFIXES :: "string list" where
  "RESERVED_PREFIXES = [''machine:'', ''topic:'']"

definition ADMIN_ROLE :: string where
  "ADMIN_ROLE = ''admin''"

definition FLEET_QUALIFIER :: string where
  "FLEET_QUALIFIER = ''fleet''"

definition ADMIN_FLEET :: string where
  "ADMIN_FLEET = ADMIN_ROLE @ ''@'' @ FLEET_QUALIFIER"

definition is_alnum :: "char \<Rightarrow> bool" where
  "is_alnum c \<longleftrightarrow> (let n = (of_char c :: nat) in
     (48 \<le> n \<and> n \<le> 57) \<or> (65 \<le> n \<and> n \<le> 90) \<or> (97 \<le> n \<and> n \<le> 122))"

definition addr_char :: "char \<Rightarrow> bool" where
  "addr_char c \<longleftrightarrow> is_alnum c \<or> c \<in> set ''_.-:@''"

text \<open>\<^verbatim>\<open>^#?[a-zA-Z0-9][a-zA-Z0-9_.\-:@]{0,127}$\<close>, applied to a stripped string.\<close>

definition ADDRESS_RE :: "string \<Rightarrow> bool" where
  "ADDRESS_RE s =
     (case (if startswith s ''#'' then tl s else s) of
        [] \<Rightarrow> False
      | c # cs \<Rightarrow> is_alnum c \<and> length cs \<le> 127 \<and> list_all addr_char cs)"

definition validate_address :: "string \<Rightarrow> string res" where
  "validate_address address =
     (if py_strip address = '''' then Inl ValueError
      else let a = py_lower (py_strip address)
           in if ADDRESS_RE a then Inr a else Inl ValueError)"

definition autocorrect_address :: "string \<Rightarrow> (string \<times> string option) res" where
  "autocorrect_address address =
     (case validate_address address of
        Inl e \<Rightarrow> Inl e
      | Inr clean \<Rightarrow>
          (if CHR '':'' \<notin> set clean then Inr (clean, None)
           else if list_ex (startswith clean) RESERVED_PREFIXES then Inr (clean, None)
           else let left = before (CHR '':'') clean; right = after (CHR '':'') clean
                in if left = ''admin'' then Inr (''machine:'' @ right, Some clean)
                   else if right = ''admin'' then Inr (''machine:'' @ left, Some clean)
                   else Inr (right, Some clean)))"

definition is_unqualified_admin :: "string \<Rightarrow> bool" where
  "is_unqualified_admin address \<longleftrightarrow> py_lower (py_strip address) = ADMIN_ROLE"

definition admin_listen_expansion :: "string list \<Rightarrow> string list" where
  "admin_listen_expansion listen_set =
     (if list_ex is_unqualified_admin listen_set \<and> ADMIN_FLEET \<notin> set listen_set
      then [ADMIN_FLEET] else [])"

fun validate_listen_set :: "string list \<Rightarrow> string list res" where
  "validate_listen_set [] = Inr []"
| "validate_listen_set (a # as) =
     (case validate_address a of
        Inl e \<Rightarrow> Inl e
      | Inr b \<Rightarrow> (case validate_listen_set as of Inl e \<Rightarrow> Inl e | Inr bs \<Rightarrow> Inr (b # bs)))"

section \<open>Widening a listen set\<close>

locale listen_expansion =
  fixes expand :: "string list \<Rightarrow> string list"
  assumes expand_new: "map py_lower l = l \<Longrightarrow> a \<in> set (expand l) \<Longrightarrow> a \<notin> set l"
    and expand_distinct: "map py_lower l = l \<Longrightarrow> distinct (expand l)"
begin

lemma widened_distinct: "map py_lower l = l \<Longrightarrow> distinct l \<Longrightarrow> distinct (l @ expand l)"
  using expand_new expand_distinct by fastforce

lemma widened_keeps: "set l \<subseteq> set (l @ expand l)"
  by simp

lemma widened_count:
  assumes "map py_lower l = l"
  shows "card (set (l @ expand l)) = card (set l) + length (expand l)"
proof -
  have "set l \<inter> set (expand l) = {}" using assms expand_new by blast
  then show ?thesis
    using assms expand_distinct [OF assms] by (simp add: card_Un_disjoint distinct_card)
qed

end

interpretation admin_widening: listen_expansion admin_listen_expansion
  by unfold_locales (auto simp: admin_listen_expansion_def split: if_splits)

section \<open>Lemmas\<close>

lemma lower_alnum: "is_alnum c \<Longrightarrow> is_alnum (lower_char c)"
  by (auto simp: is_alnum_def lower_char_def Let_def)

lemma ADDRESS_RE_nonempty: "ADDRESS_RE s \<Longrightarrow> s \<noteq> []"
  by (auto simp: ADDRESS_RE_def startswith_code)

lemma ADDRESS_RE_chars: "ADDRESS_RE s \<Longrightarrow> c \<in> set s \<Longrightarrow> c = CHR ''#'' \<or> addr_char c"
  by (cases s) (auto simp: ADDRESS_RE_def startswith_code addr_char_def list_all_iff split: list.splits if_splits)

lemma space_not_addr: "addr_char c \<or> c = CHR ''#'' \<Longrightarrow> \<not> is_space c"
  by (auto simp: addr_char_def is_alnum_def is_space_def Let_def)

lemma ADDRESS_RE_strip: "ADDRESS_RE s \<Longrightarrow> py_strip s = s"
proof -
  assume re: "ADDRESS_RE s"
  then have ns: "\<And>c. c \<in> set s \<Longrightarrow> \<not> is_space c"
    using ADDRESS_RE_chars space_not_addr by blast
  then have "dropWhile is_space s = s" by (simp add: dropWhile_eq_self_iff)
  moreover have "dropWhile is_space (rev s) = rev s"
    using ns by (simp add: dropWhile_eq_self_iff) (metis list.set_sel(1) rev_is_Nil_conv set_rev)
  ultimately show ?thesis by (simp add: py_strip_def py_lstrip_def py_rstrip_def)
qed

lemma validate_address_Inr:
  "validate_address a = Inr b \<longleftrightarrow> b = py_lower (py_strip a) \<and> ADDRESS_RE b"
  by (auto simp: validate_address_def Let_def ADDRESS_RE_def startswith_code)

lemma validate_address_idem: "validate_address a = Inr b \<Longrightarrow> validate_address b = Inr b"
  by (auto simp: validate_address_Inr ADDRESS_RE_strip)

lemma validate_listen_set_Inr:
  "validate_listen_set as = Inr bs \<Longrightarrow> map validate_address as = map Inr bs"
  by (induction as arbitrary: bs) (auto split: sum.splits)

lemma ADDRESS_RE_length: "ADDRESS_RE s \<Longrightarrow> length s \<le> 129"
  by (cases s) (auto simp: ADDRESS_RE_def startswith_code split: list.splits if_splits)

lemma before_after: "c \<in> set s \<Longrightarrow> before c s @ [c] @ after c s = s"
  by (induction s) (auto simp: before_def after_def)

section \<open>Properties\<close>

text \<open>A string accepted as an address comes out in its one normal form: lower
  case, without surrounding white space, non-empty, at most 129 characters (128,
  and one more for a leading \<^verbatim>\<open>#\<close>), and accepted again unchanged.\<close>

theorem validate_address_normal_form:
  assumes "validate_address a = Inr b"
  shows "validate_address b = Inr b \<and> py_lower b = b \<and> py_strip b = b \<and> b \<noteq> [] \<and> length b \<le> 129"
proof -
  from assms have "b = py_lower (py_strip a)" and re: "ADDRESS_RE b"
    by (auto simp: validate_address_Inr)
  then have "py_lower b = b" by simp
  with validate_address_idem [OF assms] re show ?thesis
    by (simp add: ADDRESS_RE_nonempty ADDRESS_RE_length ADDRESS_RE_strip)
qed

theorem validate_address_normal_form_witness:
  "validate_address '' Engram@HostA '' = Inr ''engram@hosta'' \<and>
   validate_address ''engram@hosta'' = Inr ''engram@hosta''"
proof -
  have h: "validate_address '' Engram@HostA '' = Inr ''engram@hosta''" by code_simp
  show ?thesis using h validate_address_normal_form [OF h] by blast
qed

text \<open>What the correction of an address can do: leave a valid address alone,
  turn \<^verbatim>\<open>admin:host\<close> or \<^verbatim>\<open>host:admin\<close> into \<^verbatim>\<open>machine:host\<close>, or drop everything up to the
  first colon; and it reports the original exactly when it changed something.\<close>

lemma autocorrect_address_cases:
  assumes "autocorrect_address a = Inr (b, orig)"
  shows "(orig = None \<and> validate_address a = Inr b) \<or>
         (\<exists>c h. orig = Some c \<and> validate_address a = Inr c \<and> b \<noteq> c \<and>
            ((c = ''admin:'' @ h \<and> b = ''machine:'' @ h) \<or>
             (c = h @ '':admin'' \<and> b = ''machine:'' @ h) \<or>
             c = h @ '':'' @ b))"
proof (cases "validate_address a")
  case (Inl e)
  with assms show ?thesis by (simp add: autocorrect_address_def)
next
  case (Inr c)
  show ?thesis
  proof (cases "CHR '':'' \<notin> set c \<or> list_ex (startswith c) RESERVED_PREFIXES")
    case True
    with assms Inr show ?thesis by (auto simp: autocorrect_address_def split: if_splits)
  next
    case False
    then have c: "before (CHR '':'') c @ '':'' @ after (CHR '':'') c = c"
      using before_after [of "CHR '':''" c] by simp
    have nres: "\<not> startswith c ''machine:''" using False by (simp add: RESERVED_PREFIXES_def)
    from assms Inr False have orig: "orig = Some c" and
      b: "(before (CHR '':'') c = ''admin'' \<and> b = ''machine:'' @ after (CHR '':'') c) \<or>
          (after (CHR '':'') c = ''admin'' \<and> b = ''machine:'' @ before (CHR '':'') c) \<or>
          b = after (CHR '':'') c"
      by (auto simp: autocorrect_address_def Let_def split: if_splits)
    have "b \<noteq> c"
    proof
      assume "b = c"
      then have "b = after (CHR '':'') c"
        using b nres startswith_append by metis
      with \<open>b = c\<close> c have "length (before (CHR '':'') c @ '':'' @ b) = length b" by simp
      then show False by simp
    qed
    have "(\<exists>h. (c = ''admin:'' @ h \<and> b = ''machine:'' @ h) \<or>
               (c = h @ '':admin'' \<and> b = ''machine:'' @ h) \<or> c = h @ '':'' @ b)"
      using b
    proof (elim disjE conjE)
      assume "before (CHR '':'') c = ''admin''" "b = ''machine:'' @ after (CHR '':'') c"
      moreover from this c have "c = ''admin:'' @ after (CHR '':'') c" by simp
      ultimately show ?thesis by blast
    next
      assume "after (CHR '':'') c = ''admin''" "b = ''machine:'' @ before (CHR '':'') c"
      moreover from this c have "c = before (CHR '':'') c @ '':admin''" by simp
      ultimately show ?thesis by blast
    next
      assume "b = after (CHR '':'') c"
      with c show ?thesis by metis
    qed
    with \<open>b \<noteq> c\<close> orig Inr show ?thesis by blast
  qed
qed

lemma autocorrect_address_cases_witness:
  "autocorrect_address ''hostb:engram'' = Inr (''engram'', Some ''hostb:engram'') \<and>
   (\<exists>h. ''hostb:engram'' = h @ '':'' @ ''engram'')"
proof -
  have h: "autocorrect_address ''hostb:engram'' = Inr (''engram'', Some ''hostb:engram'')"
    by code_simp
  show ?thesis using h autocorrect_address_cases [OF h] by auto
qed

text \<open>The corrected address is not validated again: a valid address that ends in
  a colon is corrected to the empty string, which is no address.\<close>

lemma autocorrect_address_can_be_empty:
  "validate_address ''host:'' = Inr ''host:'' \<and>
   autocorrect_address ''host:'' = Inr ('''', Some ''host:'') \<and>
   validate_address '''' = Inl ValueError"
  by code_simp

end
