(* ===== verification/Jsonb.thy ===== *)
theory Jsonb
  imports Prelude "HOL-Library.AList"
begin

text \<open>
  The \<^verbatim>\<open>metadata\<close> column of the store is a JSONB document, read and written with
  PostgreSQL's operators (\<^verbatim>\<open>->\<close>, \<^verbatim>\<open>->>\<close>, \<^verbatim>\<open>||\<close>, \<^verbatim>\<open>-\<close>, \<^verbatim>\<open>?\<close>, \<^verbatim>\<open>jsonb_set\<close>) and, once
  decoded, with Python's \<^verbatim>\<open>dict.get\<close>. This theory holds the documents and those
  operators.

  A JSON string that is an ISO timestamp (what \<^verbatim>\<open>datetime.isoformat()\<close>,
  \<^verbatim>\<open>NOW()::text\<close> and \<^verbatim>\<open>to_jsonb(now())\<close> write) is kept as the instant it denotes,
  \<open>JTime\<close>; any other string is a \<open>JStr\<close>. So \<^verbatim>\<open>::timestamptz\<close> and
  \<^verbatim>\<open>datetime.fromisoformat\<close> succeed exactly on \<open>JTime\<close>, and the order of two
  timestamps is the order of the instants. Numbers keep their literal.
\<close>

datatype json =
    JNull
  | JBool bool
  | JNum string
  | JStr string
  | JTime int
  | JArr "json list"
  | JObj "(string \<times> json) list"

type_synonym jobj = "(string \<times> json) list"

section \<open>Rendering\<close>

text \<open>\<^verbatim>\<open>datetime.isoformat()\<close> of a UTC instant (microseconds since the epoch).\<close>

definition pad :: "nat \<Rightarrow> nat \<Rightarrow> string" where
  "pad w n = (let s = nat_str n in replicate (w - length s) (CHR ''0'') @ s)"

definition civil :: "int \<Rightarrow> int \<times> int \<times> int" where
  "civil days =
     (let z = days + 719468; era = z div 146097; doe = z mod 146097;
          yoe = (doe - doe div 1460 + doe div 36524 - doe div 146096) div 365;
          doy = doe - (365 * yoe + yoe div 4 - yoe div 100);
          mp = (5 * doy + 2) div 153;
          m = (if mp < 10 then mp + 3 else mp - 9)
      in (yoe + era * 400 + (if m \<le> 2 then 1 else 0), m, doy - (153 * mp + 2) div 5 + 1))"

definition isoformat :: "instant \<Rightarrow> string" where
  "isoformat t =
     (let (y, m, d) = civil (t div 86400000000); us = t mod 86400000000; s = us div 1000000
      in pad 4 (nat y) @ ''-'' @ pad 2 (nat m) @ ''-'' @ pad 2 (nat d) @ ''T'' @
         pad 2 (nat (s div 3600)) @ '':'' @ pad 2 (nat (s div 60 mod 60)) @ '':'' @
         pad 2 (nat (s mod 60)) @
         (if us mod 1000000 = 0 then '''' else ''.'' @ pad 6 (nat (us mod 1000000))) @ ''+00:00'')"

text \<open>The text PostgreSQL prints for a document (\<^verbatim>\<open>jsonb::text\<close>).\<close>

definition esc_char :: "char \<Rightarrow> string" where
  "esc_char c =
     (if c = CHR 0x22 then [CHR 0x5C, CHR 0x22]
      else if c = CHR 0x5C then [CHR 0x5C, CHR 0x5C]
      else if c = CHR 0x0A then [CHR 0x5C, CHR ''n'']
      else if c = CHR 0x0D then [CHR 0x5C, CHR ''r'']
      else if c = CHR 0x09 then [CHR 0x5C, CHR ''t'']
      else [c])"

definition quoted :: "string \<Rightarrow> string" where
  "quoted s = [CHR 0x22] @ concat (map esc_char s) @ [CHR 0x22]"

fun join :: "string \<Rightarrow> string list \<Rightarrow> string" where
  "join sep [] = ''''"
| "join sep [x] = x"
| "join sep (x # y # xs) = x @ sep @ join sep (y # xs)"

fun json_show :: "json \<Rightarrow> string" where
  "json_show JNull = ''null''"
| "json_show (JBool b) = (if b then ''true'' else ''false'')"
| "json_show (JNum n) = n"
| "json_show (JStr s) = quoted s"
| "json_show (JTime t) = quoted (isoformat t)"
| "json_show (JArr xs) = ''['' @ join '', '' (map json_show xs) @ '']''"
| "json_show (JObj kvs) = ''{'' @ join '', '' (map (\<lambda>(k, v). quoted k @ '': '' @ json_show v) kvs) @ ''}''"

section \<open>Operators\<close>

text \<open>\<^verbatim>\<open>doc->'k'\<close>: \<open>None\<close> is the SQL \<^verbatim>\<open>NULL\<close> of an absent key.\<close>

definition jget :: "jobj \<Rightarrow> string \<Rightarrow> json option" where
  "jget m k = map_of m k"

text \<open>\<^verbatim>\<open>doc->>'k'\<close>.\<close>

fun jtext :: "json \<Rightarrow> string option" where
  "jtext JNull = None"
| "jtext (JStr s) = Some s"
| "jtext (JTime t) = Some (isoformat t)"
| "jtext j = Some (json_show j)"

definition jget_text :: "jobj \<Rightarrow> string \<Rightarrow> string option" where
  "jget_text m k = Option.bind (jget m k) jtext"

text \<open>\<^verbatim>\<open>(doc->>'k')::timestamptz\<close>, also Python's guarded \<^verbatim>\<open>datetime.fromisoformat\<close>.\<close>

definition jget_time :: "jobj \<Rightarrow> string \<Rightarrow> instant option" where
  "jget_time m k = (case jget m k of Some (JTime t) \<Rightarrow> Some t | _ \<Rightarrow> None)"

text \<open>\<^verbatim>\<open>COALESCE((doc->>'k')::bool, false)\<close>.\<close>

definition jget_bool :: "jobj \<Rightarrow> string \<Rightarrow> bool" where
  "jget_bool m k = (case jget_text m k of None \<Rightarrow> False
     | Some s \<Rightarrow> norm (Some s) \<in> set [''true'', ''t'', ''yes'', ''y'', ''on'', ''1''])"

text \<open>Python's \<^verbatim>\<open>md.get(k)\<close> where the program stores a string or null.\<close>

definition jget_str :: "jobj \<Rightarrow> string \<Rightarrow> string option" where
  "jget_str m k = (case jget m k of Some (JStr s) \<Rightarrow> Some s | Some (JTime t) \<Rightarrow> Some (isoformat t) | _ \<Rightarrow> None)"

definition jput :: "string \<Rightarrow> json \<Rightarrow> jobj \<Rightarrow> jobj" where
  "jput k v m = AList.update k v m"

definition jdel :: "string \<Rightarrow> jobj \<Rightarrow> jobj" where
  "jdel k m = AList.delete k m"

text \<open>\<^verbatim>\<open>doc || doc'\<close> on objects: the right operand wins.\<close>

definition jmerge :: "jobj \<Rightarrow> jobj \<Rightarrow> jobj" where
  "jmerge m n = AList.merge m n"

text \<open>\<^verbatim>\<open>doc ? 'x'\<close>: element of an array, key of an object, or equal string.\<close>

fun jexists :: "json \<Rightarrow> string \<Rightarrow> bool" where
  "jexists (JArr xs) x = (JStr x \<in> set xs)"
| "jexists (JObj kvs) x = (x \<in> set (map fst kvs))"
| "jexists (JStr s) x = (s = x)"
| "jexists _ x = False"

text \<open>\<^verbatim>\<open>doc || to_jsonb(x::text)\<close>: an array gains an element, any other value
  becomes a one-element array first.\<close>

fun jappend :: "json \<Rightarrow> string \<Rightarrow> json" where
  "jappend (JArr xs) x = JArr (xs @ [JStr x])"
| "jappend j x = JArr [j, JStr x]"

definition jarray :: "jobj \<Rightarrow> string \<Rightarrow> json" where
  \<comment> \<open>\<^verbatim>\<open>COALESCE(doc->k, '[]'::jsonb)\<close>\<close>
  "jarray m k = (case jget m k of None \<Rightarrow> JArr [] | Some j \<Rightarrow> j)"

text \<open>\<^verbatim>\<open>jsonb_array_length\<close>; it raises on a value that is not an array.\<close>

fun jlength :: "json \<Rightarrow> nat option" where
  "jlength (JArr xs) = Some (length xs)"
| "jlength _ = None"

definition jopt :: "string option \<Rightarrow> json" where
  "jopt v = (case v of None \<Rightarrow> JNull | Some s \<Rightarrow> JStr s)"

section \<open>Lemmas\<close>

lemma jget_jput [simp]: "jget (jput k v m) k' = (if k' = k then Some v else jget m k')"
  by (simp add: jget_def jput_def update_conv)

lemma jget_jdel [simp]: "jget (jdel k m) k' = (if k' = k then None else jget m k')"
  by (simp add: jget_def jdel_def delete_conv)

lemma jget_jmerge [simp]:
  "jget (jmerge m n) k = (case jget n k of None \<Rightarrow> jget m k | Some v \<Rightarrow> Some v)"
  by (simp add: jget_def jmerge_def merge_conv' map_add_def split: option.split)

lemma jget_Nil [simp]: "jget [] k = None"
  by (simp add: jget_def)

lemma jget_Cons [simp]: "jget ((k, v) # m) k' = (if k' = k then Some v else jget m k')"
  by (simp add: jget_def)

lemma jget_append [simp]: "jget (m @ n) k = (case jget m k of None \<Rightarrow> jget n k | Some v \<Rightarrow> Some v)"
  by (simp add: jget_def map_add_def split: option.split)

lemma jmerge_Nil [simp]: "jmerge m [] = m"
  by (simp add: jmerge_def AList.merge_def)

lemma jtext_jopt [simp]: "jtext (jopt v) = v"
  by (cases v) (simp_all add: jopt_def)

lemma jexists_jappend [simp]: "jexists (jappend (JArr xs) x) y \<longleftrightarrow> y = x \<or> jexists (JArr xs) y"
  by auto

lemma jget_text_jput [simp]:
  "jget_text (jput k v m) k' = (if k' = k then jtext v else jget_text m k')"
  by (simp add: jget_text_def)

lemma jget_text_jdel [simp]: "jget_text (jdel k m) k' = (if k' = k then None else jget_text m k')"
  by (simp add: jget_text_def)

lemma jget_text_jmerge [simp]:
  "jget_text (jmerge m n) k = (case jget n k of None \<Rightarrow> jget_text m k | Some v \<Rightarrow> jtext v)"
  by (simp add: jget_text_def split: option.split)

lemma jget_time_jput [simp]:
  "jget_time (jput k v m) k' =
     (if k' = k then (case v of JTime t \<Rightarrow> Some t | _ \<Rightarrow> None) else jget_time m k')"
  by (simp add: jget_time_def split: json.split)

end
