(* ===== verification/Store.thy ===== *)
theory Store
  imports Jsonb
begin

text \<open>
  The \<^verbatim>\<open>memories\<close> table of \<^verbatim>\<open>server/db.py\<close>: its rows, its unique index over
  \<^verbatim>\<open>(namespace, key, scope, user_id, project)\<close> with \<^verbatim>\<open>NULLS NOT DISTINCT\<close>, and the SQL
  statements the services issue, as functions on the list of rows. The locale
  \<open>row_writer\<close> states what the services rely on when an \<^verbatim>\<open>UPDATE\<close> changes no column
  of the index: the index stays unique and a row is found where it was.
\<close>

record row =
  r_id :: nat
  r_namespace :: string
  r_key :: string
  r_value :: string
  r_scope :: string
  r_user_id :: string
  r_project :: "string option"
  r_tags :: string
  r_tags_search :: string
  r_embedded :: "string option"
    \<comment> \<open>the text whose embedding the \<^verbatim>\<open>embedding\<close> column holds, \<open>None\<close> for \<^verbatim>\<open>NULL\<close>\<close>
  r_search_text :: string
  r_created_at :: instant
  r_last_used_at :: instant
  r_expires_at :: "instant option"
  r_metadata :: "jobj option"
  r_owner :: "string option"
  r_custodian :: "string option"

type_synonym table = "row list"

type_synonym ukey = "string \<times> string \<times> string \<times> string \<times> string option"

definition ukey_of :: "row \<Rightarrow> ukey" where
  "ukey_of r = (r_namespace r, r_key r, r_scope r, r_user_id r, r_project r)"

text \<open>The two constraints of the table.\<close>

definition table_ok :: "table \<Rightarrow> bool" where
  "table_ok t \<longleftrightarrow> distinct (map ukey_of t) \<and> distinct (map r_id t)"

text \<open>\<^verbatim>\<open>COALESCE(metadata, '{}'::jsonb)\<close>; every read of a \<^verbatim>\<open>NULL\<close> document gives \<^verbatim>\<open>NULL\<close>,
  as a read of the empty one does.\<close>

definition md :: "row \<Rightarrow> jobj" where
  "md r = (case r_metadata r of None \<Rightarrow> [] | Some m \<Rightarrow> m)"

definition set_md :: "jobj \<Rightarrow> row \<Rightarrow> row" where
  "set_md m r = r\<lparr>r_metadata := Some m\<rparr>"

text \<open>\<^verbatim>\<open>SET metadata = COALESCE(metadata, '{}'::jsonb) || stamp\<close>.\<close>

definition stamp_md :: "jobj \<Rightarrow> row \<Rightarrow> row" where
  "stamp_md stamp r = set_md (jmerge (md r) stamp) r"

text \<open>\<^verbatim>\<open>SET last_used_at = NOW()\<close>.\<close>

definition touch :: "instant \<Rightarrow> row \<Rightarrow> row" where
  "touch now r = r\<lparr>r_last_used_at := now\<rparr>"

text \<open>The row an \<^verbatim>\<open>INSERT\<close> of the columns given writes: the other columns take the
  defaults of the schema, the id is set by the insert.\<close>

definition new_row ::
  "string \<Rightarrow> string \<Rightarrow> string \<Rightarrow> string \<Rightarrow> string \<Rightarrow> string option \<Rightarrow> instant \<Rightarrow> row" where
  "new_row ns k v sc uid pr now =
     \<lparr>r_id = 0, r_namespace = ns, r_key = k, r_value = v, r_scope = sc, r_user_id = uid,
      r_project = pr, r_tags = [], r_tags_search = [], r_embedded = None, r_search_text = [],
      r_created_at = now, r_last_used_at = now, r_expires_at = None, r_metadata = None,
      r_owner = None, r_custodian = None\<rparr>"

text \<open>The \<^verbatim>\<open>BIGSERIAL\<close> of the table: the next id is above every id in use.\<close>

definition next_id :: "table \<Rightarrow> nat" where
  "next_id t = Suc (fold max (map r_id t) 0)"

section \<open>Statements\<close>

definition sql_select :: "(row \<Rightarrow> bool) \<Rightarrow> table \<Rightarrow> table" where
  "sql_select P t = filter P t"

definition fetchrow :: "(row \<Rightarrow> bool) \<Rightarrow> table \<Rightarrow> row option" where
  "fetchrow P t = find P t"

definition sql_count :: "(row \<Rightarrow> bool) \<Rightarrow> table \<Rightarrow> nat" where
  "sql_count P t = length (filter P t)"

definition sql_update :: "(row \<Rightarrow> bool) \<Rightarrow> (row \<Rightarrow> row) \<Rightarrow> table \<Rightarrow> table" where
  "sql_update P f t = map (\<lambda>r. if P r then f r else r) t"

definition sql_delete :: "(row \<Rightarrow> bool) \<Rightarrow> table \<Rightarrow> table" where
  "sql_delete P t = filter (\<lambda>r. \<not> P r) t"

text \<open>A row exists under the unique key.\<close>

definition row_at :: "ukey \<Rightarrow> table \<Rightarrow> row option" where
  "row_at k t = find (\<lambda>r. ukey_of r = k) t"

text \<open>\<^verbatim>\<open>INSERT ... ON CONFLICT (...) DO NOTHING RETURNING id\<close>: the id, or nothing
  when the key is taken.\<close>

definition insert_do_nothing :: "row \<Rightarrow> table \<Rightarrow> nat option \<times> table" where
  "insert_do_nothing r t =
     (case row_at (ukey_of r) t of
        None \<Rightarrow> (Some (next_id t), t @ [r\<lparr>r_id := next_id t\<rparr>])
      | Some _ \<Rightarrow> (None, t))"

text \<open>\<^verbatim>\<open>INSERT ... ON CONFLICT (...) DO UPDATE SET ...\<close>: \<open>upd\<close> takes the excluded row
  and the stored one; the flag is \<^verbatim>\<open>xmax = 0\<close>, a fresh insert.\<close>

definition insert_do_update :: "(row \<Rightarrow> row \<Rightarrow> row) \<Rightarrow> row \<Rightarrow> table \<Rightarrow> bool \<times> table" where
  "insert_do_update upd r t =
     (case row_at (ukey_of r) t of
        None \<Rightarrow> (True, t @ [r\<lparr>r_id := next_id t\<rparr>])
      | Some _ \<Rightarrow> (False, sql_update (\<lambda>s. ukey_of s = ukey_of r) (upd r) t))"

lemmas sql_defs [sqldefs] = sql_select_def fetchrow_def sql_count_def sql_update_def sql_delete_def

section \<open>Lemmas on the table\<close>

lemma md_set_md [simp]: "md (set_md m r) = m"
  by (simp add: md_def set_md_def)

lemma md_stamp_md [simp]: "md (stamp_md s r) = jmerge (md r) s"
  by (simp add: stamp_md_def)

lemma md_touch [simp]: "md (touch now r) = md r"
  by (simp add: md_def touch_def)

lemma ukey_of_simps [simp]:
  "ukey_of (set_md m r) = ukey_of r"
  "ukey_of (stamp_md m r) = ukey_of r"
  "ukey_of (touch now r) = ukey_of r"
  "ukey_of (r\<lparr>r_id := i\<rparr>) = ukey_of r"
  "ukey_of (r\<lparr>r_value := v\<rparr>) = ukey_of r"
  "ukey_of (r\<lparr>r_metadata := m'\<rparr>) = ukey_of r"
  "ukey_of (r\<lparr>r_custodian := c\<rparr>) = ukey_of r"
  "ukey_of (r\<lparr>r_last_used_at := n\<rparr>) = ukey_of r"
  by (simp_all add: ukey_of_def set_md_def stamp_md_def touch_def)

lemma md_updates [simp]:
  "md (r\<lparr>r_id := i\<rparr>) = md r" "md (r\<lparr>r_key := k\<rparr>) = md r" "md (r\<lparr>r_value := v\<rparr>) = md r"
  "md (r\<lparr>r_project := p\<rparr>) = md r" "md (r\<lparr>r_custodian := c\<rparr>) = md r"
  "md (r\<lparr>r_last_used_at := n\<rparr>) = md r" "md (r\<lparr>r_metadata := Some m\<rparr>) = m"
  by (simp_all add: md_def)

lemma touch_simps [simp]:
  "r_namespace (touch now r) = r_namespace r" "r_key (touch now r) = r_key r"
  "r_scope (touch now r) = r_scope r" "r_user_id (touch now r) = r_user_id r"
  "r_project (touch now r) = r_project r" "r_value (touch now r) = r_value r"
  "r_owner (touch now r) = r_owner r" "r_id (touch now r) = r_id r"
  "r_custodian (touch now r) = r_custodian r" "r_created_at (touch now r) = r_created_at r"
  "r_metadata (touch now r) = r_metadata r" "r_expires_at (touch now r) = r_expires_at r"
  "r_last_used_at (touch now r) = now"
  by (simp_all add: touch_def)

lemma set_md_simps [simp]:
  "r_namespace (set_md m r) = r_namespace r" "r_key (set_md m r) = r_key r"
  "r_scope (set_md m r) = r_scope r" "r_user_id (set_md m r) = r_user_id r"
  "r_project (set_md m r) = r_project r" "r_value (set_md m r) = r_value r"
  "r_owner (set_md m r) = r_owner r" "r_id (set_md m r) = r_id r"
  "r_custodian (set_md m r) = r_custodian r" "r_created_at (set_md m r) = r_created_at r"
  "r_last_used_at (set_md m r) = r_last_used_at r" "r_expires_at (set_md m r) = r_expires_at r"
  by (simp_all add: set_md_def)

lemma stamp_md_simps [simp]:
  "r_namespace (stamp_md m r) = r_namespace r" "r_key (stamp_md m r) = r_key r"
  "r_scope (stamp_md m r) = r_scope r" "r_user_id (stamp_md m r) = r_user_id r"
  "r_project (stamp_md m r) = r_project r" "r_value (stamp_md m r) = r_value r"
  "r_owner (stamp_md m r) = r_owner r" "r_id (stamp_md m r) = r_id r"
  "r_custodian (stamp_md m r) = r_custodian r" "r_created_at (stamp_md m r) = r_created_at r"
  "r_last_used_at (stamp_md m r) = r_last_used_at r" "r_expires_at (stamp_md m r) = r_expires_at r"
  by (simp_all add: stamp_md_def)

lemma fold_max_ge: "(x::nat) \<in> set xs \<or> x \<le> a \<Longrightarrow> x \<le> fold max xs a"
proof (induction xs arbitrary: a)
  case Nil
  then show ?case by simp
next
  case (Cons y xs)
  from Cons.prems have "x \<in> set xs \<or> x \<le> max y a" by auto
  then have "x \<le> fold max xs (max y a)" by (rule Cons.IH)
  then show ?case by simp
qed

lemma next_id_fresh: "next_id t \<notin> set (map r_id t)"
proof
  assume "next_id t \<in> set (map r_id t)"
  then have "next_id t \<le> fold max (map r_id t) 0" using fold_max_ge by blast
  then show False by (simp add: next_id_def)
qed

lemma row_at_Some: "row_at k t = Some r \<Longrightarrow> r \<in> set t \<and> ukey_of r = k"
  by (auto simp: row_at_def find_Some_iff)

lemma row_at_None: "row_at k t = None \<longleftrightarrow> k \<notin> ukey_of ` set t"
  by (auto simp: row_at_def find_None_iff)

lemma row_at_eq: "table_ok t \<Longrightarrow> r \<in> set t \<Longrightarrow> row_at (ukey_of r) t = Some r"
proof -
  assume ok: "table_ok t" and r: "r \<in> set t"
  then have "row_at (ukey_of r) t \<noteq> None" by (auto simp: row_at_None)
  then obtain s where s: "row_at (ukey_of r) t = Some s" by auto
  then have "s \<in> set t" and "ukey_of s = ukey_of r" by (auto dest: row_at_Some)
  with ok r have "s = r" by (auto simp: table_ok_def intro: distinct_map_inj)
  with s show ?thesis by simp
qed

lemma row_at_append:
  "row_at k (t @ [r]) = (case row_at k t of None \<Rightarrow> if ukey_of r = k then Some r else None | s \<Rightarrow> s)"
  by (induction t) (auto simp: row_at_def)

lemma table_ok_append:
  "table_ok t \<Longrightarrow> row_at (ukey_of r) t = None \<Longrightarrow> table_ok (t @ [r\<lparr>r_id := next_id t\<rparr>])"
  using next_id_fresh [of t] by (auto simp: table_ok_def row_at_None)

lemma table_ok_delete [simp]: "table_ok t \<Longrightarrow> table_ok (sql_delete P t)"
  by (simp add: table_ok_def sql_delete_def distinct_map_filter)

lemma table_ok_insert_do_nothing: "table_ok t \<Longrightarrow> table_ok (snd (insert_do_nothing r t))"
  by (auto simp: insert_do_nothing_def table_ok_append split: option.split)

section \<open>Writers that leave the index alone\<close>

locale row_writer =
  fixes f :: "row \<Rightarrow> row"
  assumes keeps_ukey: "ukey_of (f r) = ukey_of r"
    and keeps_id: "r_id (f r) = r_id r"
begin

lemma map_ukey_update: "map ukey_of (sql_update P f t) = map ukey_of t"
  by (simp add: sql_update_def keeps_ukey)

lemma table_ok_update: "table_ok t \<Longrightarrow> table_ok (sql_update P f t)"
proof -
  have "map r_id (sql_update P f t) = map r_id t"
    by (simp add: sql_update_def keeps_id)
  then show "table_ok t \<Longrightarrow> table_ok (sql_update P f t)"
    by (simp add: table_ok_def map_ukey_update)
qed

lemma row_at_update:
  "row_at k (sql_update P f t) = map_option (\<lambda>r. if P r then f r else r) (row_at k t)"
  by (induction t) (auto simp: row_at_def sql_update_def keeps_ukey)

end

interpretation set_doc: row_writer "set_md m" for m
  by unfold_locales simp_all

interpretation stamp_doc: row_writer "stamp_md m" for m
  by unfold_locales simp_all

interpretation touching: row_writer "touch now" for now
  by unfold_locales simp_all

lemma table_ok_insert_do_update:
  assumes "table_ok t" and "row_writer (upd r)"
  shows "table_ok (snd (insert_do_update upd r t))"
  using assms
  by (auto simp: insert_do_update_def table_ok_append row_writer.table_ok_update split: option.split)

lemma fetchrow_Some: "fetchrow P t = Some r \<Longrightarrow> r \<in> set t \<and> P r"
  by (auto simp: fetchrow_def find_Some_iff)

lemma fetchrow_None: "fetchrow P t = None \<longleftrightarrow> (\<forall>r \<in> set t. \<not> P r)"
  by (auto simp: fetchrow_def find_None_iff)

lemma sql_update_none: "\<forall>r \<in> set t. \<not> P r \<Longrightarrow> sql_update P f t = t"
  by (simp add: sql_update_def map_idI)

lemma filter_update_outside:
  "(\<And>r. P r \<Longrightarrow> \<not> Q r \<and> \<not> Q (f r)) \<Longrightarrow> filter Q (sql_update P f t) = filter Q t"
  by (induction t) (auto simp: sql_update_def)

lemma filter_update_same: "(\<And>r. Q (f r) = Q r) \<Longrightarrow> filter Q (sql_update Q f t) = map f (filter Q t)"
  by (induction t) (auto simp: sql_update_def)

lemma list_all_update: "list_all P (sql_update Q f t) = list_all (\<lambda>r. P (if Q r then f r else r)) t"
  by (induction t) (simp_all add: sql_update_def)

lemma list_ex_update: "list_ex P (sql_update Q f t) = list_ex (\<lambda>r. P (if Q r then f r else r)) t"
  by (induction t) (simp_all add: sql_update_def)

lemma set_sql_delete [simp]: "set (sql_delete P t) = {r \<in> set t. \<not> P r}"
  by (auto simp: sql_delete_def)

lemma set_sql_select [simp]: "set (sql_select P t) = {r \<in> set t. P r}"
  by (auto simp: sql_select_def)

end
