(* ===== verification/Database.thy ===== *)
theory Database
  imports Store
begin

text \<open>
  The state of the server: the tables of \<^verbatim>\<open>server/db.py\<close> and the caches of the
  process (the alias map of \<^verbatim>\<open>project_alias.py\<close>, the role map of
  \<^verbatim>\<open>address_roles.py\<close>, the poll clock of \<^verbatim>\<open>mail_signal.py\<close>, the verified tokens of
  \<^verbatim>\<open>principal_service.py\<close>), and the settings of
  \<^verbatim>\<open>server/config.py\<close> the services consult.
\<close>

record principal =
  p_name :: string
  p_type :: string
  p_is_admin :: bool
  p_token_hash :: "string option"
  p_token_lookup :: "string option"
  p_password_hash :: "string option"
  p_read_namespaces :: "string list"
  p_write_namespaces :: "string list"
  p_active :: bool
  p_created_at :: instant
  p_updated_at :: "instant option"

record alias_row =
  al_old :: string
  al_new :: string
  al_created_by :: "string option"
  al_created_at :: instant

record role_row =
  ro_role :: string
  ro_holder :: string
  ro_assigned_by :: "string option"
  ro_assigned_at :: instant

record history_row =
  hi_role :: string
  hi_holder :: string
  hi_assigned_by :: "string option"
  hi_assigned_at :: instant
  hi_ended_at :: "instant option"

record signal_row =
  sg_id :: nat
  sg_address :: string
  sg_principal :: string
  sg_key_hash :: string
  sg_issued_by :: "string option"
  sg_created_at :: instant
  sg_revoked_at :: "instant option"
  sg_last_polled_at :: "instant option"
  sg_poll_count :: nat

record audit_row =
  au_principal :: "string option"
  au_action :: string
  au_target :: "string option"
  au_detail :: jobj
  au_created_at :: instant

record server =
  memories :: table
  principals :: "principal list"
  principal_aliases :: "(string \<times> string \<times> string) list"
    \<comment> \<open>alias, source, and the name of its principal\<close>
  project_aliases :: "alias_row list"
  address_roles :: "role_row list"
  address_role_history :: "history_row list"
  mail_signal :: "signal_row list"
  audit_log :: "audit_row list"
  alias_cache :: "(string \<times> string) list"
  alias_loaded_at :: instant
  role_cache :: "(string \<times> string) list"
  role_loaded_at :: instant
  last_poll :: "(string \<times> instant) list"
  verified :: "(string \<times> string \<times> instant) list"
    \<comment> \<open>token lookup, the hash it matched, and until when the match is trusted\<close>

record settings =
  cfg_primary_namespace :: string
  cfg_namespace_aliases :: string
  cfg_host :: string
  cfg_api_token :: string
  cfg_require_auth :: bool
  cfg_public_proxy_header :: string
  cfg_owner_principal_name :: string
  cfg_owner_relay_principals :: string
  cfg_lane_reservation_enabled :: bool
  cfg_huddle_fanout_refusal_enabled :: bool
  cfg_require_qualified_admin :: bool

text \<open>A server on a fresh database.\<close>

definition empty_server :: server where
  "empty_server =
     \<lparr>memories = [], principals = [], principal_aliases = [], project_aliases = [],
      address_roles = [], address_role_history = [], mail_signal = [], audit_log = [], alias_cache = [],
      alias_loaded_at = 0, role_cache = [], role_loaded_at = 0, last_poll = [],
      verified = []\<rparr>"

definition default_settings :: settings where
  "default_settings =
     \<lparr>cfg_primary_namespace = ''fleet'', cfg_namespace_aliases = [], cfg_host = ''127.0.0.1'',
      cfg_api_token = [], cfg_require_auth = False, cfg_public_proxy_header = ''x-engram-public'',
      cfg_owner_principal_name = [], cfg_owner_relay_principals = [],
      cfg_lane_reservation_enabled = False, cfg_huddle_fanout_refusal_enabled = False,
      cfg_require_qualified_admin = False\<rparr>"

end
