(* ===== verification/Project_Alias.thy ===== *)
theory Project_Alias
  imports Database Identity
begin

text \<open>
  Project renames (\<^verbatim>\<open>server/services/project_alias.py\<close>): the alias table and its
  cache, resolution of an old name, the merge of several projects into one
  (\<^verbatim>\<open>relabel\<close>) and its undo (\<^verbatim>\<open>reverse\<close>). The lemmas show that the alias table stays
  flat, so resolution is one hop, that the merge loses no row and never breaks the
  unique index, and what \<^verbatim>\<open>reverse\<close> restores.
\<close>

section \<open>Names and the cache\<close>

definition name_first :: "char \<Rightarrow> bool" where
  "name_first c \<longleftrightarrow> (let n = (of_char c :: nat) in (48 \<le> n \<and> n \<le> 57) \<or> (97 \<le> n \<and> n \<le> 122))"

text \<open>\<^verbatim>\<open>^[a-z0-9][a-z0-9._-]{0,127}$\<close>, applied to a stripped string.\<close>

definition PROJECT_NAME_RE :: "string \<Rightarrow> bool" where
  "PROJECT_NAME_RE s =
     (case s of [] \<Rightarrow> False
      | c # cs \<Rightarrow> name_first c \<and> length cs \<le> 127 \<and> list_all (\<lambda>d. name_first d \<or> d \<in> set ''._-'') cs)"

definition ARCHIVE_PREFIX :: string where
  "ARCHIVE_PREFIX = ''archive/''"

definition CACHE_TTL_SECONDS :: int where
  "CACHE_TTL_SECONDS = 30"

definition validate_project_name :: "string \<Rightarrow> string res" where
  "validate_project_name name =
     (let n = norm (Some name) in if PROJECT_NAME_RE n then Inr n else Inl ValueError)"

definition alias_map :: "alias_row list \<Rightarrow> (string \<times> string) list" where
  "alias_map rows = map (\<lambda>r. (al_old r, al_new r)) rows"

definition alias_refresh :: "bool \<Rightarrow> instant \<Rightarrow> server \<Rightarrow> server" where
  "alias_refresh force now s =
     (if \<not> force \<and> alias_loaded_at s \<noteq> 0 \<and> now - alias_loaded_at s < seconds CACHE_TTL_SECONDS then s
      else s\<lparr>alias_cache := alias_map (project_aliases s), alias_loaded_at := now\<rparr>)"

text \<open>The loop of \<^verbatim>\<open>canonical\<close>: follow the map, stop at a name seen before.\<close>

function canonical_loop :: "(string \<times> string) list \<Rightarrow> string \<Rightarrow> string list \<Rightarrow> string" where
  "canonical_loop al n seen =
     (case map_of al n of
        None \<Rightarrow> n
      | Some m \<Rightarrow> if m \<in> set seen then m else canonical_loop al m (m # seen))"
  by pat_completeness auto
termination
proof (relation "measure (\<lambda>(al, n, seen). card (snd ` set al - set seen))")
  fix al :: "(string \<times> string) list" and n seen m
  assume m: "map_of al n = Some m" "m \<notin> set seen"
  then have "m \<in> snd ` set al" by (force dest: map_of_SomeD)
  with m have "snd ` set al - set (m # seen) \<subset> snd ` set al - set seen" by auto
  then show "((al, m, m # seen), al, n, seen) \<in> measure (\<lambda>(al, n, seen). card (snd ` set al - set seen))"
    by (simp add: psubset_card_mono)
qed simp

declare canonical_loop.simps [simp del]

definition canonical :: "(string \<times> string) list \<Rightarrow> string \<Rightarrow> string" where
  "canonical al name =
     (if name = '''' then name else let n = norm (Some name) in canonical_loop al n [n])"

definition family :: "(string \<times> string) list \<Rightarrow> string \<Rightarrow> string list" where
  "family al name =
     (if name = '''' then []
      else let c = canonical al name
           in c # sort (filter (\<lambda>p. p \<noteq> c \<and> canonical al p = c) (map fst al)))"

definition old_names :: "(string \<times> string) list \<Rightarrow> string \<Rightarrow> string list" where
  "old_names al name = filter (\<lambda>m. m \<noteq> canonical al name) (family al name)"

definition addr_split :: "string \<Rightarrow> string \<times> string" where
  "addr_split addr = py_partition (CHR ''@'') addr"

definition canonical_address :: "(string \<times> string) list \<Rightarrow> string \<Rightarrow> string" where
  "canonical_address al addr =
     (if addr = '''' then addr
      else let a = py_lower (py_strip addr); (base, qual) = addr_split a
           in if base \<in> set (map fst al) then canonical al base @ qual else a)"

section \<open>The merge plan\<close>

text \<open>\<^verbatim>\<open>while (ns, uid, cand) in taken\<close>: the first free key among \<open>base\<close>,
  \<open>base-2\<close>, \<open>base-3\<close>, \dots\<close>

type_synonym slot = "string \<times> string \<times> string"

definition numbered :: "string \<Rightarrow> nat \<Rightarrow> string" where
  "numbered base n = base @ ''-'' @ nat_str n"

definition nat_of_str :: "string \<Rightarrow> nat" where
  "nat_of_str s = foldl (\<lambda>a c. 10 * a + ((of_char c :: nat) - 48)) 0 s"

lemma nat_of_str_nat_str: "nat_of_str (nat_str n) = n"
proof (induction n rule: nat_str.induct)
  case (1 n)
  show ?case
  proof (cases "n < 10")
    case True
    then show ?thesis by (simp add: nat_str.simps [of n] nat_of_str_def)
  next
    case False
    with 1 have IH: "nat_of_str (nat_str (n div 10)) = n div 10" by simp
    have "n mod 10 < 10" by simp
    then have "(48 + n mod 10) mod 256 - 48 = n mod 10" by simp
    with False IH show ?thesis by (simp add: nat_str.simps [of n] nat_of_str_def)
  qed
qed

lemma nat_str_inj: "nat_str m = nat_str n \<longleftrightarrow> m = n"
  by (metis nat_of_str_nat_str)

lemma finite_numbered: "finite {k. (ns, uid, numbered base k) \<in> set taken}"
proof -
  have "inj (\<lambda>k. (ns, uid, numbered base k))"
    by (auto simp: inj_def numbered_def nat_str_inj)
  then show ?thesis using finite_vimageI [of "set taken"] by (simp add: vimage_def)
qed

function free_key :: "slot list \<Rightarrow> string \<Rightarrow> string \<Rightarrow> string \<Rightarrow> string \<Rightarrow> nat \<Rightarrow> string" where
  "free_key taken ns uid base cand n =
     (if (ns, uid, cand) \<in> set taken then free_key taken ns uid base (numbered base n) (Suc n)
      else cand)"
  by pat_completeness auto
termination
proof (relation "measure (\<lambda>(taken, ns, uid, base, cand, n).
    (if (ns, uid, cand) \<in> set taken then 1 else 0) +
    card {k. n \<le> k \<and> (ns, uid, numbered base k) \<in> set taken})")
  fix taken :: "slot list" and ns uid base cand :: string and n :: nat
  assume "(ns, uid, cand) \<in> set taken"
  let ?S = "\<lambda>n. {k. n \<le> k \<and> (ns, uid, numbered base k) \<in> set taken}"
  have fin: "finite (?S n)" by (rule finite_subset [OF _ finite_numbered [of ns uid base taken]]) auto
  have sub: "?S (Suc n) \<subseteq> ?S n - {n}" by auto
  have "(if (ns, uid, numbered base n) \<in> set taken then 1 else 0) + card (?S (Suc n)) \<le> card (?S n)"
  proof (cases "(ns, uid, numbered base n) \<in> set taken")
    case True
    then have "card (?S n) = Suc (card (?S n - {n}))"
      using fin by (intro card.remove) simp_all
    moreover have "card (?S (Suc n)) \<le> card (?S n - {n})"
      using sub fin by (intro card_mono) auto
    ultimately show ?thesis using True by simp
  next
    case False
    have "?S (Suc n) \<subseteq> ?S n" by auto
    with fin have "card (?S (Suc n)) \<le> card (?S n)" by (rule card_mono)
    with False show ?thesis by simp
  qed
  with \<open>(ns, uid, cand) \<in> set taken\<close>
  show "((taken, ns, uid, base, numbered base n, Suc n), taken, ns, uid, base, cand, n)
      \<in> measure (\<lambda>(taken, ns, uid, base, cand, n).
        (if (ns, uid, cand) \<in> set taken then 1 else 0) +
        card {k. n \<le> k \<and> (ns, uid, numbered base k) \<in> set taken})"
    by simp
qed simp

declare free_key.simps [simp del]

lemma free_key_free: "(ns, uid, free_key taken ns uid base cand n) \<notin> set taken"
  by (induction taken ns uid base cand n rule: free_key.induct)
     (subst free_key.simps, simp)

definition slot_of :: "row \<Rightarrow> slot" where
  "slot_of r = (r_namespace r, r_user_id r, r_key r)"

definition proj :: "row \<Rightarrow> string" where
  "proj r = or_empty (r_project r)"

definition rank :: "string list \<Rightarrow> string \<Rightarrow> string \<Rightarrow> nat" where
  "rank sources target p =
     (if p = target then 0 else Suc (length (takeWhile (\<lambda>s. s \<noteq> p) sources)))"

definition slots :: "row list \<Rightarrow> slot list" where
  "slots rows = rev (remdups (rev (map slot_of rows)))"

definition members :: "string list \<Rightarrow> string \<Rightarrow> row list \<Rightarrow> slot \<Rightarrow> row list" where
  "members sources target rows sl =
     sort_key (\<lambda>r. rank sources target (proj r)) (filter (\<lambda>r. slot_of r = sl) rows)"

definition losers :: "string list \<Rightarrow> string \<Rightarrow> row list \<Rightarrow> row list" where
  "losers sources target rows = concat (map (\<lambda>sl. tl (members sources target rows sl)) (slots rows))"

definition archive_base :: "row \<Rightarrow> string" where
  "archive_base r = ARCHIVE_PREFIX @ proj r @ ''/'' @ r_key r"

fun assign_keys :: "slot list \<Rightarrow> row list \<Rightarrow> (nat \<times> string) list" where
  "assign_keys taken [] = []"
| "assign_keys taken (l # ls) =
     (let base = archive_base l;
          cand = free_key taken (r_namespace l) (r_user_id l) base base 2
      in (r_id l, cand) # assign_keys ((r_namespace l, r_user_id l, cand) # taken) ls)"

record plan =
  pl_counts :: "(string \<times> nat) list"
  pl_new_key :: "(nat \<times> string) list"
  pl_renames :: "(string \<times> string \<times> string \<times> string) list"
    \<comment> \<open>\<^verbatim>\<open>from_project\<close>, \<^verbatim>\<open>key\<close>, \<^verbatim>\<open>new_key\<close>, \<^verbatim>\<open>user_id\<close>\<close>

definition plan_of :: "row list \<Rightarrow> string list \<Rightarrow> string \<Rightarrow> plan" where
  "plan_of rows sources target =
     (let ls = losers sources target rows; nk = assign_keys (map slot_of rows) ls
      in \<lparr>pl_counts = map (\<lambda>s. (s, length (filter (\<lambda>r. proj r = s) rows))) sources,
          pl_new_key = nk,
          pl_renames = map2 (\<lambda>l (i, k). (proj l, r_key l, k, r_user_id l)) ls nk\<rparr>)"

section \<open>Relabel and reverse\<close>

fun collect_sources :: "string \<Rightarrow> string list \<Rightarrow> string list \<Rightarrow> string list res" where
  "collect_sources target [] srcs = Inr srcs"
| "collect_sources target (s # ss) srcs =
     (case validate_project_name s of
        Inl e \<Rightarrow> Inl e
      | Inr n \<Rightarrow> collect_sources target ss (if n \<noteq> target \<and> n \<notin> set srcs then srcs @ [n] else srcs))"

definition in_family :: "string list \<Rightarrow> row \<Rightarrow> bool" where
  "in_family names r \<longleftrightarrow> r_scope r = ''project'' \<and>
     (case r_project r of None \<Rightarrow> False | Some p \<Rightarrow> p \<in> set names)"

lemma in_family_iff:
  "in_family names r \<longleftrightarrow> r_scope r = ''project'' \<and> (\<exists>p. r_project r = Some p \<and> p \<in> set names)"
  by (simp add: in_family_def split: option.split)

definition set_key :: "string \<Rightarrow> row \<Rightarrow> row" where
  "set_key k r = r\<lparr>r_key := k\<rparr>"

definition rename_rows :: "(nat \<times> string) list \<Rightarrow> table \<Rightarrow> table" where
  "rename_rows nk t = foldl (\<lambda>t (i, k). sql_update (\<lambda>r. r_id r = i) (set_key k) t) t nk"

definition move_row :: "string \<Rightarrow> instant \<Rightarrow> row \<Rightarrow> row" where
  "move_row target now r =
     stamp_md [(''project'', JStr target), (''moved_from'', jopt (r_project r)), (''moved_at'', JTime now)]
       (r\<lparr>r_project := Some target\<rparr>)"

definition alias_upsert :: "string \<Rightarrow> string option \<Rightarrow> instant \<Rightarrow> string \<Rightarrow> alias_row list \<Rightarrow> alias_row list" where
  "alias_upsert target actor now s rows =
     (let new = \<lparr>al_old = s, al_new = target, al_created_by = actor, al_created_at = now\<rparr>
      in if s \<in> al_old ` set rows then map (\<lambda>r. if al_old r = s then new else r) rows
         else rows @ [new])"

definition alias_flatten :: "string list \<Rightarrow> string \<Rightarrow> alias_row list \<Rightarrow> alias_row list" where
  "alias_flatten srcs target rows =
     map (\<lambda>r. if al_new r \<in> set srcs then r\<lparr>al_new := target\<rparr> else r) rows"

definition clashing_names :: "settings \<Rightarrow> server \<Rightarrow> string list \<Rightarrow> string list" where
  "clashing_names cfg s srcs =
     filter (\<lambda>n. n \<in> (py_lower \<circ> p_name) ` set (principals s)
               \<or> n \<in> (py_lower \<circ> fst) ` set (principal_aliases s)
               \<or> n = norm (Some (cfg_owner_principal_name cfg))) srcs"

record relabel_result =
  rr_dry_run :: bool
  rr_target :: string
  rr_moved :: "(string \<times> nat) list"
  rr_total_moved :: nat
  rr_renamed :: "(string \<times> string \<times> string \<times> string) list"
  rr_aliases :: "(string \<times> string) list"

definition relabel ::
  "settings \<Rightarrow> string list \<Rightarrow> string \<Rightarrow> bool \<Rightarrow> string option \<Rightarrow> instant \<Rightarrow> server
     \<Rightarrow> relabel_result res \<times> server" where
  "relabel cfg sources target0 dry_run actor now s0 =
     (case validate_project_name target0 of
        Inl e \<Rightarrow> (Inl e, s0)
      | Inr target \<Rightarrow>
     (case collect_sources target sources [] of
        Inl e \<Rightarrow> (Inl e, s0)
      | Inr srcs \<Rightarrow>
          if srcs = [] then (Inl ValueError, s0)
          else let s = alias_refresh True now s0 in
          if target \<in> set (map fst (alias_cache s)) then (Inl ValueError, s)
          else if clashing_names cfg s srcs \<noteq> [] then (Inl ValueError, s)
          else let rows = sql_select (in_family (srcs @ [target])) (memories s);
                   p = plan_of rows srcs target;
                   result = \<lparr>rr_dry_run = dry_run, rr_target = target, rr_moved = pl_counts p,
                             rr_total_moved = sum_list (map snd (pl_counts p)),
                             rr_renamed = pl_renames p,
                             rr_aliases = map (\<lambda>x. (x, target)) srcs\<rparr>
               in if dry_run then (Inr result, s)
               else (Inr result,
                     alias_refresh True now
                       (s\<lparr>memories := sql_update (in_family srcs) (move_row target now)
                                       (rename_rows (pl_new_key p) (memories s)),
                          project_aliases := fold (alias_upsert target actor now) srcs
                                       (alias_flatten srcs target (project_aliases s))\<rparr>))))"

definition unarchive_key :: "string \<Rightarrow> string \<Rightarrow> string" where
  "unarchive_key source k = removeprefix (ARCHIVE_PREFIX @ source @ ''/'') k"

definition moved_here :: "string \<Rightarrow> string \<Rightarrow> row \<Rightarrow> bool" where
  "moved_here source target r \<longleftrightarrow>
     r_scope r = ''project'' \<and> r_project r = Some target \<and> jget_text (md r) ''moved_from'' = Some source"

definition restore_row :: "string \<Rightarrow> row \<Rightarrow> row" where
  "restore_row source r =
     set_md (jmerge (jdel ''moved_at'' (jdel ''moved_from'' (md r))) [(''project'', JStr source)])
       (r\<lparr>r_project := Some source, r_key := unarchive_key source (r_key r)\<rparr>)"

text \<open>The rows of \<^verbatim>\<open>reverse\<close> go back one at a time; a key that is taken there violates
  the unique index, which aborts the transaction (\<open>None\<close>, an internal server error).\<close>

fun restore_rows :: "string \<Rightarrow> nat list \<Rightarrow> table \<Rightarrow> table option" where
  "restore_rows source [] t = Some t"
| "restore_rows source (i # is) t =
     (let t' = sql_update (\<lambda>r. r_id r = i) (restore_row source) t
      in if distinct (map ukey_of t') then restore_rows source is t' else None)"

definition reverse ::
  "string \<Rightarrow> string \<Rightarrow> string option \<Rightarrow> instant \<Rightarrow> server \<Rightarrow> (nat \<times> bool) res \<times> server" where
  "reverse source0 target0 actor now s =
     (case validate_project_name source0 of
        Inl e \<Rightarrow> (Inl e, s)
      | Inr source \<Rightarrow>
     (case validate_project_name target0 of
        Inl e \<Rightarrow> (Inl e, s)
      | Inr target \<Rightarrow>
          let rows = sql_select (moved_here source target) (memories s);
              dropped = (source \<in> al_old ` set (project_aliases s))
          in (case restore_rows source (map r_id rows) (memories s) of
                None \<Rightarrow> (Inl (HTTPException 500), s)
              | Some t' \<Rightarrow>
                  (Inr (length rows, dropped),
                   alias_refresh True now
                     (s\<lparr>memories := t',
                        project_aliases := filter (\<lambda>r. al_old r \<noteq> source) (project_aliases s)\<rparr>)))))"

record described =
  de_project :: string
  de_canonical :: string
  de_renamed :: bool
  de_old_names :: "string list"

definition describe :: "(string \<times> string) list \<Rightarrow> string option \<Rightarrow> described" where
  "describe al name =
     (let n = norm name; c = canonical al n
      in \<lparr>de_project = n, de_canonical = c, de_renamed = (c \<noteq> n), de_old_names = old_names al n\<rparr>)"

text \<open>\<^verbatim>\<open>ORDER BY new_name, old_name\<close>.\<close>

definition list_aliases :: "server \<Rightarrow> alias_row list" where
  "list_aliases s = sort_key al_new (sort_key al_old (project_aliases s))"

section \<open>Resolution of names\<close>

definition aliases_flat :: "(string \<times> string) list \<Rightarrow> bool" where
  "aliases_flat al \<longleftrightarrow> distinct (map fst al) \<and> snd ` set al \<inter> fst ` set al = {}"

lemma canonical_loop_flat:
  assumes "aliases_flat al"
  shows "canonical_loop al n [n] = (case map_of al n of None \<Rightarrow> n | Some m \<Rightarrow> m)"
proof (cases "map_of al n")
  case None
  then show ?thesis by (simp add: canonical_loop.simps)
next
  case (Some m)
  then have m: "m \<in> snd ` set al" by (force dest: map_of_SomeD)
  with assms have "map_of al m = None" by (auto simp: aliases_flat_def map_of_eq_None_iff)
  with Some show ?thesis by (simp add: canonical_loop.simps)
qed

lemma canonical_flat:
  "aliases_flat al \<Longrightarrow> name \<noteq> '''' \<Longrightarrow> canonical al name =
     (case map_of al (norm (Some name)) of None \<Rightarrow> norm (Some name) | Some m \<Rightarrow> m)"
  by (simp add: canonical_def canonical_loop_flat Let_def)

lemma canonical_loop_in:
  "canonical_loop al n seen = n \<or> canonical_loop al n seen \<in> snd ` set al"
proof (induction al n seen rule: canonical_loop.induct)
  case (1 al n seen)
  show ?case
  proof (cases "map_of al n")
    case None
    then show ?thesis by (simp add: canonical_loop.simps [of al n seen])
  next
    case (Some m)
    then have "m \<in> snd ` set al" by (force dest: map_of_SomeD)
    with Some 1 show ?thesis by (auto simp: canonical_loop.simps [of al n seen])
  qed
qed

section \<open>The plan gives every row a key of its own\<close>

lemma set_slots [simp]: "set (slots rows) = slot_of ` set rows"
  by (simp add: slots_def)

lemma distinct_slots [simp]: "distinct (slots rows)"
  by (simp add: slots_def)

lemma set_members [simp]:
  "set (members sources target rows sl) = {r \<in> set rows. slot_of r = sl}"
  by (auto simp: members_def)

lemma distinct_members: "distinct rows \<Longrightarrow> distinct (members sources target rows sl)"
  by (simp add: members_def)

lemma tl_members:
  assumes "r \<in> set (tl (members sources target rows sl))"
  shows "r \<in> set rows \<and> slot_of r = sl"
proof -
  from assms have "r \<in> set (members sources target rows sl)" by (metis list.set_sel(2) tl_Nil)
  then show ?thesis by simp
qed

lemma losers_subset: "set (losers sources target rows) \<subseteq> set rows"
  by (auto simp: losers_def dest: tl_members)

lemma distinct_losers:
  assumes "distinct rows"
  shows "distinct (losers sources target rows)"
proof -
  let ?m = "members sources target rows"
  have sub: "distinct (tl (?m sl))" for sl
    using distinct_members [OF assms] by (simp add: distinct_tl)
  have "distinct (concat (map (\<lambda>sl. tl (?m sl)) sls))" if "distinct sls" for sls
    using that
  proof (induction sls)
    case (Cons sl sls)
    have "set (tl (?m sl)) \<inter> set (concat (map (\<lambda>sl. tl (?m sl)) sls)) = {}"
    proof (rule ccontr)
      assume "\<not> ?thesis"
      then obtain r sl' where "r \<in> set (tl (?m sl))" "r \<in> set (tl (?m sl'))" "sl' \<in> set sls" by auto
      then have "sl = sl'" by (metis tl_members)
      with Cons.prems \<open>sl' \<in> set sls\<close> show False by simp
    qed
    with Cons sub show ?case by simp
  qed simp
  then show ?thesis by (simp add: losers_def)
qed

lemma two_in_slot_one_loses:
  assumes "r \<in> set rows" and "q \<in> set rows" and "r \<noteq> q" and "slot_of r = slot_of q"
  shows "r \<in> set (losers sources target rows) \<or> q \<in> set (losers sources target rows)"
proof -
  let ?m = "members sources target rows (slot_of q)"
  have "r \<in> set ?m" "q \<in> set ?m" using assms by simp_all
  then have "r \<in> set (tl ?m) \<or> q \<in> set (tl ?m)"
    using assms(3) by (cases ?m) auto
  then show ?thesis using assms(2) by (auto simp: losers_def)
qed

definition assigned :: "row list \<Rightarrow> (nat \<times> string) list \<Rightarrow> slot list" where
  "assigned ls nk = map2 (\<lambda>l p. (r_namespace l, r_user_id l, snd p)) ls nk"

lemma assign_keys_ids: "map fst (assign_keys taken ls) = map r_id ls"
  by (induction ls arbitrary: taken) (simp_all add: Let_def)

lemma assign_keys_length [simp]: "length (assign_keys taken ls) = length ls"
  by (metis assign_keys_ids length_map)

lemma assign_keys_fresh:
  "distinct (assigned ls (assign_keys taken ls)) \<and>
   set (assigned ls (assign_keys taken ls)) \<inter> set taken = {}"
proof (induction ls arbitrary: taken)
  case Nil
  then show ?case by (simp add: assigned_def)
next
  case (Cons l ls)
  let ?c = "free_key taken (r_namespace l) (r_user_id l) (archive_base l) (archive_base l) 2"
  let ?taken = "(r_namespace l, r_user_id l, ?c) # taken"
  have "assigned (l # ls) (assign_keys taken (l # ls)) =
      (r_namespace l, r_user_id l, ?c) # assigned ls (assign_keys ?taken ls)"
    by (simp add: assigned_def Let_def)
  moreover have "(r_namespace l, r_user_id l, ?c) \<notin> set taken" by (rule free_key_free)
  ultimately show ?case using Cons.IH [of ?taken] by auto
qed

section \<open>The merge keeps the index\<close>

definition final_key :: "(nat \<times> string) list \<Rightarrow> row \<Rightarrow> row" where
  "final_key nk r = (case map_of nk (r_id r) of None \<Rightarrow> r | Some k \<Rightarrow> set_key k r)"

lemma set_key_simps [simp]:
  "r_id (set_key k r) = r_id r" "r_namespace (set_key k r) = r_namespace r"
  "r_user_id (set_key k r) = r_user_id r" "r_scope (set_key k r) = r_scope r"
  "r_project (set_key k r) = r_project r" "r_value (set_key k r) = r_value r"
  "r_owner (set_key k r) = r_owner r" "r_key (set_key k r) = k" "md (set_key k r) = md r"
  by (simp_all add: set_key_def md_def)

lemma final_key_simps [simp]:
  "r_id (final_key nk r) = r_id r" "r_namespace (final_key nk r) = r_namespace r"
  "r_user_id (final_key nk r) = r_user_id r" "r_scope (final_key nk r) = r_scope r"
  "r_project (final_key nk r) = r_project r" "r_value (final_key nk r) = r_value r"
  "r_owner (final_key nk r) = r_owner r" "md (final_key nk r) = md r"
  by (simp_all add: final_key_def split: option.split)

lemma assigned_final_key:
  assumes "distinct (map r_id ls)"
  shows "assigned ls (assign_keys taken ls) = map (\<lambda>l. slot_of (final_key (assign_keys taken ls) l)) ls"
proof (rule nth_equalityI)
  let ?nk = "assign_keys taken ls"
  show "length (assigned ls ?nk) = length (map (\<lambda>l. slot_of (final_key ?nk l)) ls)"
    by (simp add: assigned_def)
  fix i assume "i < length (assigned ls ?nk)"
  then have i: "i < length ls" by (simp add: assigned_def)
  have d: "distinct (map fst ?nk)" using assms by (simp add: assign_keys_ids)
  have fst_i: "fst (?nk ! i) = r_id (ls ! i)"
    using i assign_keys_ids [of taken ls] by (metis assign_keys_length nth_map)
  have "?nk ! i \<in> set ?nk" using i by simp
  then have "map_of ?nk (r_id (ls ! i)) = Some (snd (?nk ! i))"
    using d fst_i by (metis map_of_is_SomeI prod.collapse)
  then show "assigned ls ?nk ! i = map (\<lambda>l. slot_of (final_key ?nk l)) ls ! i"
    using i by (simp add: assigned_def final_key_def slot_of_def)
qed

lemma rename_rows_map:
  "distinct (map fst nk) \<Longrightarrow> rename_rows nk t = map (final_key nk) t"
proof (induction nk arbitrary: t)
  case Nil
  then show ?case by (simp add: rename_rows_def final_key_def)
next
  case (Cons p nk)
  obtain i k where p: "p = (i, k)" by (cases p)
  with Cons.prems have "map_of nk i = None" and d: "distinct (map fst nk)"
    by (auto simp: map_of_eq_None_iff)
  have "rename_rows (p # nk) t = rename_rows nk (sql_update (\<lambda>r. r_id r = i) (set_key k) t)"
    by (simp add: rename_rows_def p)
  also have "\<dots> = map (final_key nk) (sql_update (\<lambda>r. r_id r = i) (set_key k) t)"
    using d by (rule Cons.IH)
  also have "\<dots> = map (final_key (p # nk)) t"
    using \<open>map_of nk i = None\<close> by (simp add: sql_update_def final_key_def p)
  finally show ?case .
qed

lemma move_row_simps [simp]:
  "r_id (move_row target now r) = r_id r" "r_namespace (move_row target now r) = r_namespace r"
  "r_user_id (move_row target now r) = r_user_id r" "r_scope (move_row target now r) = r_scope r"
  "r_project (move_row target now r) = Some target" "r_value (move_row target now r) = r_value r"
  "r_owner (move_row target now r) = r_owner r" "r_key (move_row target now r) = r_key r"
  by (simp_all add: move_row_def)

definition merged :: "(nat \<times> string) list \<Rightarrow> string list \<Rightarrow> string \<Rightarrow> instant \<Rightarrow> row \<Rightarrow> row" where
  "merged nk srcs target now r =
     (if in_family srcs r then move_row target now (final_key nk r) else final_key nk r)"

lemma merged_simps [simp]:
  "r_id (merged nk srcs target now r) = r_id r" "r_value (merged nk srcs target now r) = r_value r"
  "r_scope (merged nk srcs target now r) = r_scope r" "r_owner (merged nk srcs target now r) = r_owner r"
  "r_namespace (merged nk srcs target now r) = r_namespace r"
  "r_user_id (merged nk srcs target now r) = r_user_id r"
  by (simp_all add: merged_def)

lemma in_family_final_key [simp]: "in_family names (final_key nk r) = in_family names r"
  by (simp add: in_family_iff)

lemma merged_map:
  "distinct (map fst nk) \<Longrightarrow>
   sql_update (in_family srcs) (move_row target now) (rename_rows nk t) = map (merged nk srcs target now) t"
  by (simp add: rename_rows_map sql_update_def merged_def)

lemma distinct_map_ids: "table_ok t \<Longrightarrow> distinct (map r_id (sql_select P t))"
  by (simp add: table_ok_def sql_select_def distinct_map_filter)

lemma plan_distinct_ids:
  assumes "table_ok t" and "rows = sql_select P t"
  shows "distinct (map r_id (losers srcs target rows))"
proof -
  have d: "distinct (map r_id rows)" using assms by (simp add: distinct_map_ids)
  then have "distinct rows" by (simp add: distinct_map)
  then have "distinct (losers srcs target rows)" by (rule distinct_losers)
  moreover have "inj_on r_id (set (losers srcs target rows))"
    using d losers_subset by (metis distinct_map inj_on_subset)
  ultimately show ?thesis by (simp add: distinct_map)
qed

lemma merged_slots_distinct:
  assumes ok: "table_ok t" and rows: "rows = sql_select (in_family (srcs @ [target])) t"
    and nk: "nk = assign_keys (map slot_of rows) (losers srcs target rows)"
    and r: "r \<in> set rows" and q: "q \<in> set rows" and ne: "r \<noteq> q"
  shows "slot_of (final_key nk r) \<noteq> slot_of (final_key nk q)"
proof -
  let ?ls = "losers srcs target rows"
  have ids: "distinct (map r_id ?ls)" using ok rows by (rule plan_distinct_ids)
  have inj: "r_id x = r_id y \<Longrightarrow> x \<in> set rows \<Longrightarrow> y \<in> set rows \<Longrightarrow> x = y" for x y
    using distinct_map_ids [OF ok] rows by (metis distinct_map_inj)
  have fresh: "distinct (assigned ?ls nk)" "set (assigned ?ls nk) \<inter> slot_of ` set rows = {}"
    using assign_keys_fresh [of ?ls "map slot_of rows"] by (simp_all add: nk)
  have win: "slot_of (final_key nk x) = slot_of x" if "x \<in> set rows" "x \<notin> set ?ls" for x
  proof -
    have "r_id x \<notin> r_id ` set ?ls" using that inj losers_subset by fastforce
    then have "map_of nk (r_id x) = None"
      using assign_keys_ids [of "map slot_of rows" ?ls] by (metis list.set_map map_of_eq_None_iff nk)
    then show ?thesis by (simp add: final_key_def)
  qed
  have lost: "assigned ?ls nk = map (\<lambda>l. slot_of (final_key nk l)) ?ls"
    using assigned_final_key [OF ids] by (simp add: nk)
  consider (ww) "r \<notin> set ?ls" "q \<notin> set ?ls" | (wl) "r \<notin> set ?ls" "q \<in> set ?ls"
    | (lw) "r \<in> set ?ls" "q \<notin> set ?ls" | (ll) "r \<in> set ?ls" "q \<in> set ?ls" by blast
  then show ?thesis
  proof cases
    case ww
    then show ?thesis using win [OF r] win [OF q] two_in_slot_one_loses [OF r q ne] by metis
  next
    case wl
    then have "slot_of (final_key nk q) \<in> set (assigned ?ls nk)" using lost by simp
    then show ?thesis using win [OF r] wl fresh(2) r by (metis IntI empty_iff imageI)
  next
    case lw
    then have "slot_of (final_key nk r) \<in> set (assigned ?ls nk)" using lost by simp
    then show ?thesis using win [OF q] lw fresh(2) q by (metis IntI empty_iff imageI)
  next
    case ll
    then show ?thesis using fresh(1) lost ne by (metis distinct_map_inj)
  qed
qed

lemma merged_ukey_distinct:
  assumes ok: "table_ok t" and rows: "rows = sql_select (in_family (srcs @ [target])) t"
    and nk: "nk = assign_keys (map slot_of rows) (losers srcs target rows)"
    and r: "r \<in> set t" and q: "q \<in> set t" and ne: "r \<noteq> q"
  shows "ukey_of (merged nk srcs target now r) \<noteq> ukey_of (merged nk srcs target now q)"
proof -
  let ?F = "in_family (srcs @ [target])" and ?g = "merged nk srcs target now"
  have fam: "r_scope (?g x) = ''project'' \<and> r_project (?g x) = Some target \<and>
      r_key (?g x) = r_key (final_key nk x)" if "?F x" for x
    using that by (auto simp: merged_def in_family_iff)
  have out: "?g x = x" if "x \<in> set t" "\<not> ?F x" for x
  proof -
    have "r_id x \<notin> r_id ` set rows"
    proof
      assume "r_id x \<in> r_id ` set rows"
      then obtain y where "y \<in> set rows" "r_id x = r_id y" by auto
      with that ok rows have "x = y"
        using distinct_map_inj [of r_id t x y] by (simp add: table_ok_def)
      with \<open>y \<in> set rows\<close> rows that show False by simp
    qed
    moreover have "fst ` set nk \<subseteq> r_id ` set rows"
    proof -
      have "fst ` set nk = r_id ` set (losers srcs target rows)"
        using arg_cong [OF assign_keys_ids [of "map slot_of rows" "losers srcs target rows"], of set]
        by (simp add: nk)
      then show ?thesis using losers_subset by blast
    qed
    ultimately have "r_id x \<notin> fst ` set nk" by blast
    then have "map_of nk (r_id x) = None" by (simp add: map_of_eq_None_iff)
    then have "final_key nk x = x" by (simp add: final_key_def)
    with that show ?thesis by (auto simp: merged_def in_family_iff)
  qed
  have outside: "ukey_of (?g x) \<noteq> ukey_of y" if "?F x" "\<not> ?F y" for x y
  proof
    assume "ukey_of (?g x) = ukey_of y"
    then have "r_scope y = ''project''" and "r_project y = Some target"
      using fam [OF that(1)] by (auto simp: ukey_of_def)
    with that(2) show False by (simp add: in_family_iff)
  qed
  consider (both) "?F r" "?F q" | (left) "?F r" "\<not> ?F q" | (right) "\<not> ?F r" "?F q"
    | (none) "\<not> ?F r" "\<not> ?F q" by blast
  then show ?thesis
  proof cases
    case both
    then have "r \<in> set rows" "q \<in> set rows" using r q rows by simp_all
    then have "slot_of (final_key nk r) \<noteq> slot_of (final_key nk q)"
      using merged_slots_distinct [OF ok rows nk] ne by blast
    with fam [OF both(1)] fam [OF both(2)] show ?thesis by (auto simp: ukey_of_def slot_of_def)
  next
    case left
    then show ?thesis using outside out [OF q] by simp
  next
    case right
    then show ?thesis using outside [OF right(2,1)] out [OF r] by metis
  next
    case none
    then show ?thesis using out r q ok ne by (metis distinct_map_inj table_ok_def)
  qed
qed

lemma merged_table_ok:
  assumes ok: "table_ok t" and rows: "rows = sql_select (in_family (srcs @ [target])) t"
    and nk: "nk = assign_keys (map slot_of rows) (losers srcs target rows)"
  shows "table_ok (map (merged nk srcs target now) t)"
proof -
  have ids: "distinct (map r_id t)" and "distinct (map ukey_of t)" using ok by (simp_all add: table_ok_def)
  then have "distinct t" by (simp add: distinct_map)
  moreover have "inj_on (\<lambda>r. ukey_of (merged nk srcs target now r)) (set t)"
    using merged_ukey_distinct [OF assms] by (meson inj_onI)
  ultimately have "distinct (map (\<lambda>r. ukey_of (merged nk srcs target now r)) t)"
    by (simp add: distinct_map)
  with ids show ?thesis by (simp add: table_ok_def comp_def)
qed

section \<open>The alias table stays flat\<close>

definition alias_rows_flat :: "alias_row list \<Rightarrow> bool" where
  "alias_rows_flat rows \<longleftrightarrow> aliases_flat (alias_map rows)"

lemma alias_rows_flat_iff:
  "alias_rows_flat rows \<longleftrightarrow> distinct (map al_old rows) \<and> al_new ` set rows \<inter> al_old ` set rows = {}"
  by (simp add: alias_rows_flat_def aliases_flat_def alias_map_def image_image comp_def)

lemma alias_upsert_map:
  "map al_old (alias_upsert target actor now s rows) =
     (if s \<in> al_old ` set rows then map al_old rows else map al_old rows @ [s])"
  by (simp add: alias_upsert_def Let_def)

lemma alias_upsert_old: "al_old ` set (alias_upsert target actor now s rows) = insert s (al_old ` set rows)"
  using arg_cong [OF alias_upsert_map [of target actor now s rows], of set] by (auto split: if_splits)

lemma alias_upsert_new:
  "al_new ` set (alias_upsert target actor now s rows) \<subseteq> insert target (al_new ` set rows)"
  by (auto simp: alias_upsert_def Let_def)

lemma alias_upsert_distinct:
  "distinct (map al_old rows) \<Longrightarrow> distinct (map al_old (alias_upsert target actor now s rows))"
  by (simp add: alias_upsert_map)

lemma alias_upserts:
  "distinct (map al_old rows) \<Longrightarrow>
   distinct (map al_old (fold (alias_upsert target actor now) srcs rows)) \<and>
   al_old ` set (fold (alias_upsert target actor now) srcs rows) = set srcs \<union> al_old ` set rows \<and>
   al_new ` set (fold (alias_upsert target actor now) srcs rows) \<subseteq> insert target (al_new ` set rows)"
proof (induction srcs arbitrary: rows)
  case (Cons s srcs)
  let ?rows = "alias_upsert target actor now s rows"
  let ?done = "fold (alias_upsert target actor now) srcs ?rows"
  have "distinct (map al_old ?rows)" using Cons.prems by (rule alias_upsert_distinct)
  note IH = Cons.IH [OF this]
  have "al_new ` set ?done \<subseteq> insert target (insert target (al_new ` set rows))"
    using IH alias_upsert_new [of target actor now s rows] by blast
  then show ?case using IH alias_upsert_old [of target actor now s rows] by simp
qed auto

lemma alias_flatten_sets:
  "map al_old (alias_flatten srcs target rows) = map al_old rows"
  "al_new ` set (alias_flatten srcs target rows) \<subseteq> insert target (al_new ` set rows - set srcs)"
  by (auto simp: alias_flatten_def)

lemma relabel_aliases_flat:
  assumes "alias_rows_flat rows" and "target \<notin> al_old ` set rows" and "target \<notin> set srcs"
  shows "alias_rows_flat (fold (alias_upsert target actor now) srcs (alias_flatten srcs target rows))"
proof -
  let ?f = "alias_flatten srcs target rows"
  have d: "distinct (map al_old ?f)"
    using assms(1) by (simp add: alias_rows_flat_iff alias_flatten_sets)
  have old: "al_old ` set ?f = al_old ` set rows"
    by (metis alias_flatten_sets(1) list.set_map)
  have "al_new ` set (fold (alias_upsert target actor now) srcs ?f)
      \<subseteq> insert target (al_new ` set rows - set srcs)"
    using alias_upserts [OF d, of target actor now srcs] alias_flatten_sets(2) [of srcs target rows] by blast
  moreover have "insert target (al_new ` set rows - set srcs) \<inter> (set srcs \<union> al_old ` set rows) = {}"
    using assms by (auto simp: alias_rows_flat_iff)
  ultimately have "al_new ` set (fold (alias_upsert target actor now) srcs ?f)
      \<inter> (set srcs \<union> al_old ` set rows) = {}" by blast
  then show ?thesis
    using alias_upserts [OF d, of target actor now srcs] old by (simp add: alias_rows_flat_iff)
qed

lemma alias_rows_flat_filter: "alias_rows_flat rows \<Longrightarrow> alias_rows_flat (filter P rows)"
  by (auto simp: alias_rows_flat_iff distinct_map_filter)

lemma alias_refresh_simps [simp]:
  "memories (alias_refresh f now s) = memories s"
  "project_aliases (alias_refresh f now s) = project_aliases s"
  "principals (alias_refresh f now s) = principals s"
  "principal_aliases (alias_refresh f now s) = principal_aliases s"
  by (simp_all add: alias_refresh_def)

lemma alias_refresh_forced [simp]: "alias_cache (alias_refresh True now s) = alias_map (project_aliases s)"
  by (simp add: alias_refresh_def)

lemma collect_sources_props:
  "collect_sources target ss acc = Inr srcs \<Longrightarrow> target \<notin> set acc \<Longrightarrow> distinct acc \<Longrightarrow>
   target \<notin> set srcs \<and> distinct srcs"
  by (induction ss arbitrary: acc) (auto split: sum.splits if_splits)

text \<open>What a successful merge does, as one statement: it passed the checks, and its
  tables are the ones below.\<close>

lemma relabel_Inr:
  assumes "relabel cfg sources target0 dry actor now s = (Inr res, s')"
  obtains target srcs rows where
    "validate_project_name target0 = Inr target" "collect_sources target sources [] = Inr srcs"
    "srcs \<noteq> []" "target \<notin> al_old ` set (project_aliases s)" "target \<notin> set srcs" "distinct srcs"
    "rows = sql_select (in_family (srcs @ [target])) (memories s)"
    "memories s' = (if dry then memories s else
       sql_update (in_family srcs) (move_row target now)
         (rename_rows (pl_new_key (plan_of rows srcs target)) (memories s)))"
    "project_aliases s' = (if dry then project_aliases s else
       fold (alias_upsert target actor now) srcs (alias_flatten srcs target (project_aliases s)))"
    "alias_cache s' = alias_map (project_aliases s')"
    "rr_moved res = pl_counts (plan_of rows srcs target)"
    "rr_renamed res = pl_renames (plan_of rows srcs target)" "rr_target res = target"
proof -
  from assms obtain target where t: "validate_project_name target0 = Inr target"
    by (auto simp: relabel_def split: sum.splits)
  with assms obtain srcs where c: "collect_sources target sources [] = Inr srcs"
    by (auto simp: relabel_def split: sum.splits)
  note p = collect_sources_props [OF c]
  have fst_map: "fst ` set (alias_map rows) = al_old ` set rows" for rows
    by (simp add: alias_map_def image_image)
  from assms t c p show ?thesis
    by (intro that [of target srcs "sql_select (in_family (srcs @ [target])) (memories s)"])
       (auto simp: relabel_def Let_def fst_map split: if_splits)
qed

lemma plan_new_key:
  "pl_new_key (plan_of rows srcs target) = assign_keys (map slot_of rows) (losers srcs target rows)"
  by (simp add: plan_of_def Let_def)

lemma relabel_memories:
  assumes "relabel cfg sources target0 dry actor now s = (res, s')" and "table_ok (memories s)"
  shows "table_ok (memories s') \<and>
    map (\<lambda>r. (r_id r, r_value r, r_owner r)) (memories s') = map (\<lambda>r. (r_id r, r_value r, r_owner r)) (memories s)"
proof (cases "memories s' = memories s")
  case True
  with assms(2) show ?thesis by simp
next
  case False
  have "\<exists>v. res = Inr v"
    using assms(1) False by (auto simp: relabel_def Let_def split: sum.splits if_splits)
  then obtain v where "relabel cfg sources target0 dry actor now s = (Inr v, s')" using assms(1) by blast
  then obtain target srcs rows where
    rows: "rows = sql_select (in_family (srcs @ [target])) (memories s)" and
    m: "memories s' = (if dry then memories s else
       sql_update (in_family srcs) (move_row target now)
         (rename_rows (pl_new_key (plan_of rows srcs target)) (memories s)))"
    by (rule relabel_Inr)
  let ?nk = "assign_keys (map slot_of rows) (losers srcs target rows)"
  have "distinct (map fst ?nk)"
    using plan_distinct_ids [OF assms(2) rows] by (simp add: assign_keys_ids)
  then have "memories s' = map (merged ?nk srcs target now) (memories s)"
    using m False by (simp add: merged_map plan_new_key split: if_splits)
  then show ?thesis using merged_table_ok [OF assms(2) rows refl] by (simp add: comp_def)
qed

section \<open>Runs of rename operations\<close>

definition alias_inv :: "alias_row list \<Rightarrow> bool" where
  "alias_inv rows \<longleftrightarrow> alias_rows_flat rows \<and> (\<forall>r \<in> set rows. norm (Some (al_new r)) = al_new r)"

inductive alias_reach :: "settings \<Rightarrow> server \<Rightarrow> bool" for cfg where
  fresh: "project_aliases s = [] \<Longrightarrow> alias_reach cfg s"
| relabelled: "alias_reach cfg s \<Longrightarrow> relabel cfg sources target dry actor now s = (res, s') \<Longrightarrow> alias_reach cfg s'"
| reversed: "alias_reach cfg s \<Longrightarrow> reverse source target actor now s = (res', s') \<Longrightarrow> alias_reach cfg s'"
| refreshed: "alias_reach cfg s \<Longrightarrow> alias_reach cfg (alias_refresh force now s)"

lemma validate_project_name_norm: "validate_project_name n = Inr m \<Longrightarrow> norm (Some m) = m"
  by (auto simp: validate_project_name_def Let_def split: if_splits)

lemma relabel_alias_inv:
  assumes "relabel cfg sources target0 dry actor now s = (res, s')" and "alias_inv (project_aliases s)"
  shows "alias_inv (project_aliases s')"
proof (cases "project_aliases s' = project_aliases s")
  case True
  with assms(2) show ?thesis by simp
next
  case False
  have "\<exists>v. res = Inr v"
    using assms(1) False by (auto simp: relabel_def Let_def split: sum.splits if_splits)
  then obtain v where "relabel cfg sources target0 dry actor now s = (Inr v, s')" using assms(1) by blast
  then obtain target srcs rows where t: "validate_project_name target0 = Inr target" and
    nt: "target \<notin> al_old ` set (project_aliases s)" "target \<notin> set srcs" and
    al: "project_aliases s' = (if dry then project_aliases s else
       fold (alias_upsert target actor now) srcs (alias_flatten srcs target (project_aliases s)))"
    by (rule relabel_Inr)
  let ?f = "alias_flatten srcs target (project_aliases s)"
  have flat: "alias_rows_flat (project_aliases s)" using assms(2) by (simp add: alias_inv_def)
  then have "distinct (map al_old ?f)" by (simp add: alias_rows_flat_iff alias_flatten_sets)
  then have "al_new ` set (fold (alias_upsert target actor now) srcs ?f)
      \<subseteq> insert target (al_new ` set (project_aliases s))"
    using alias_upserts [of ?f target actor now srcs] alias_flatten_sets(2) [of srcs target "project_aliases s"]
    by blast
  then have "\<forall>n \<in> al_new ` set (fold (alias_upsert target actor now) srcs ?f). norm (Some n) = n"
    using assms(2) validate_project_name_norm [OF t] by (auto simp: alias_inv_def)
  moreover have "alias_rows_flat (fold (alias_upsert target actor now) srcs ?f)"
    using flat nt by (rule relabel_aliases_flat)
  ultimately show ?thesis using al False by (auto simp: alias_inv_def split: if_splits)
qed

lemma reverse_alias_inv:
  assumes "reverse source target actor now s = (res, s')" and "alias_inv (project_aliases s)"
  shows "alias_inv (project_aliases s')"
  using assms
  by (auto simp: reverse_def Let_def alias_inv_def alias_rows_flat_filter split: sum.splits option.splits)

lemma alias_reach_inv: "alias_reach cfg s \<Longrightarrow> alias_inv (project_aliases s)"
proof (induction rule: alias_reach.induct)
  case (fresh s)
  then show ?case by (simp add: alias_inv_def alias_rows_flat_iff)
next
  case (relabelled s sources target dry actor now res s')
  then show ?case by (blast intro: relabel_alias_inv)
next
  case (reversed s source target actor now res' s')
  then show ?case by (blast intro: reverse_alias_inv)
next
  case (refreshed s force now)
  then show ?case by simp
qed

section \<open>Properties\<close>

text \<open>A store with two projects that share a key, for the concrete runs below.\<close>

definition rename_demo :: server where
  "rename_demo = empty_server\<lparr>memories :=
    [(new_row ''fleet'' ''wip'' ''a'' ''project'' ''owner'' (Some ''old'') 1)\<lparr>r_id := 1\<rparr>,
     (new_row ''fleet'' ''wip'' ''b'' ''project'' ''owner'' (Some ''new'') 2)\<lparr>r_id := 2\<rparr>,
     (new_row ''fleet'' ''archive/old/wip'' ''c'' ''project'' ''owner'' (Some ''new'') 3)\<lparr>r_id := 3\<rparr>]\<rparr>"

text \<open>C38. However renames and undos follow one another, the alias table stays flat
  (no target of an alias is itself an alias), so resolving a name takes one hop at
  most, the cycle branch of the loop is never taken, and resolving is idempotent.\<close>

theorem rename_runs_resolve_in_one_hop:
  assumes "alias_reach cfg s" and "name \<noteq> ''''" and "al = alias_map (project_aliases s)"
  shows "aliases_flat al \<and>
    canonical al name = (case map_of al (norm (Some name)) of None \<Rightarrow> norm (Some name) | Some m \<Rightarrow> m) \<and>
    canonical al (canonical al name) = canonical al name"
proof -
  have inv: "alias_inv (project_aliases s)" using assms(1) by (rule alias_reach_inv)
  then have flat: "aliases_flat al" using assms(3) by (simp add: alias_inv_def alias_rows_flat_def)
  note hop = canonical_flat [OF flat assms(2)]
  have fixed: "canonical al c = c" if "norm (Some c) = c" "map_of al c = None" for c
    using that flat by (cases "c = ''''") (simp_all add: canonical_flat, simp add: canonical_def)
  have "canonical al (canonical al name) = canonical al name"
  proof (cases "map_of al (norm (Some name))")
    case None
    then show ?thesis using hop fixed [of "norm (Some name)"] by simp
  next
    case (Some m)
    then have m: "m \<in> snd ` set al" by (force dest: map_of_SomeD)
    with flat have "map_of al m = None" by (auto simp: aliases_flat_def map_of_eq_None_iff)
    moreover have "norm (Some m) = m"
      using m inv assms(3) by (auto simp: alias_inv_def alias_map_def)
    ultimately show ?thesis using Some hop fixed [of m] by simp
  qed
  with flat hop show ?thesis by simp
qed

theorem rename_runs_resolve_in_one_hop_witness:
  "canonical (alias_map (project_aliases (snd (relabel default_settings [''old''] ''new'' False None 1 empty_server))))
     ''old'' = ''new'' \<and>
   canonical (alias_map (project_aliases (snd (relabel default_settings [''old''] ''new'' False None 1 empty_server))))
     ''new'' = ''new''"
proof -
  let ?s = "snd (relabel default_settings [''old''] ''new'' False None 1 empty_server)"
  have "alias_reach default_settings ?s"
    by (rule alias_reach.relabelled [OF alias_reach.fresh prod.collapse [symmetric]])
       (simp add: empty_server_def)
  then have "canonical (alias_map (project_aliases ?s)) (canonical (alias_map (project_aliases ?s)) ''old'')
      = canonical (alias_map (project_aliases ?s)) ''old''"
    using rename_runs_resolve_in_one_hop [OF _ list.discI refl, where name = "''old''"] by blast
  moreover have *: "canonical (alias_map (project_aliases ?s)) ''old'' = ''new''" by code_simp
  ultimately have "canonical (alias_map (project_aliases ?s)) ''new'' = ''new''" unfolding * by blast
  with * show ?thesis by (rule conjI)
qed

text \<open>Merging projects never breaks the unique index of the store and loses
  nothing: every row keeps its id, its value and its author, in place.\<close>

theorem relabel_keeps_index_and_rows:
  assumes "table_ok (memories s)"
  shows "table_ok (memories (snd (relabel cfg sources target dry actor now s))) \<and>
    map (\<lambda>r. (r_id r, r_value r, r_owner r)) (memories (snd (relabel cfg sources target dry actor now s)))
      = map (\<lambda>r. (r_id r, r_value r, r_owner r)) (memories s)"
  using relabel_memories [OF prod.collapse [symmetric] assms] by blast

theorem relabel_keeps_index_and_rows_witness:
  "table_ok (memories rename_demo) \<and>
   table_ok (memories (snd (relabel default_settings [''old''] ''new'' False None 7 rename_demo)))"
proof -
  have h: "table_ok (memories rename_demo)" by code_simp
  show ?thesis using h relabel_keeps_index_and_rows [OF h] by blast
qed

text \<open>The dry run shows what the real run does: both report the same moves,
  renames and target, both fail together, and the dry run changes no table.\<close>

theorem relabel_dry_run_agrees:
  "(case (fst (relabel cfg sources target True actor now s), fst (relabel cfg sources target False actor now s)) of
      (Inr d, Inr r) \<Rightarrow> r = d\<lparr>rr_dry_run := False\<rparr>
    | (Inl e, Inl f) \<Rightarrow> e = f
    | _ \<Rightarrow> False) \<and>
   memories (snd (relabel cfg sources target True actor now s)) = memories s \<and>
   project_aliases (snd (relabel cfg sources target True actor now s)) = project_aliases s"
  by (simp add: relabel_def Let_def split: sum.split)

text \<open>Undo at the level of a row: a row that was moved, either under its own key
  or under the plain archive key, comes back to its project and its key, with its
  value and its other metadata.\<close>

theorem reverse_restores_moved_row:
  assumes "r_project r = Some source"
    and "k = r_key r \<and> \<not> startswith k (ARCHIVE_PREFIX @ source @ ''/'') \<or> k = archive_base r"
  shows "moved_here source target (move_row target now (set_key k r)) = (r_scope r = ''project'') \<and>
    ukey_of (restore_row source (move_row target now (set_key k r))) = ukey_of r \<and>
    r_value (restore_row source (move_row target now (set_key k r))) = r_value r \<and>
    (\<forall>f. f \<notin> set [''project'', ''moved_from'', ''moved_at''] \<longrightarrow>
       jget (md (restore_row source (move_row target now (set_key k r)))) f = jget (md r) f)"
proof -
  have base: "archive_base r = (ARCHIVE_PREFIX @ source @ ''/'') @ r_key r"
    using assms(1) by (simp add: archive_base_def proj_def or_empty_def)
  have key: "unarchive_key source k = r_key r"
    using assms(2) unfolding base unarchive_key_def by (auto simp: removeprefix_def simp del: append_assoc)
  have m: "md (move_row target now (set_key k r)) =
      jmerge (md r) [(''project'', JStr target), (''moved_from'', JStr source), (''moved_at'', JTime now)]"
    using assms(1) by (simp add: move_row_def jopt_def set_key_def)
  show ?thesis
    using assms(1) by (simp add: moved_here_def m jget_text_def restore_row_def key ukey_of_def)
qed

theorem reverse_restores_moved_row_witness:
  "ukey_of (restore_row ''old'' (move_row ''new'' 7 (set_key ''archive/old/wip''
      (new_row ''fleet'' ''wip'' ''a'' ''project'' ''owner'' (Some ''old'') 1))))
    = (''fleet'', ''wip'', ''project'', ''owner'', Some ''old'')"
proof -
  let ?r = "new_row ''fleet'' ''wip'' ''a'' ''project'' ''owner'' (Some ''old'') 1"
  have "r_project ?r = Some ''old''" and "''archive/old/wip'' = archive_base ?r"
    by (simp_all add: new_row_def archive_base_def ARCHIVE_PREFIX_def proj_def or_empty_def)
  with reverse_restores_moved_row [of ?r "''old''" "''archive/old/wip''" "''new''" 7]
  have "ukey_of (restore_row ''old'' (move_row ''new'' 7 (set_key ''archive/old/wip'' ?r))) = ukey_of ?r"
    by blast
  then show ?thesis by (simp add: ukey_of_def new_row_def)
qed

text \<open>The undo is not exact when the archive key was itself taken: the row then
  got a numbered archive key, and \<^verbatim>\<open>reverse\<close> strips the prefix but keeps the number, so
  the row comes back under a key it never had.\<close>

lemma reverse_keeps_archive_number:
  "map r_key (memories rename_demo) = [''wip'', ''wip'', ''archive/old/wip''] \<and>
   map r_key (memories (snd (reverse ''old'' ''new'' None 8
     (snd (relabel default_settings [''old''] ''new'' False None 7 rename_demo)))))
     = [''wip-2'', ''wip'', ''archive/old/wip'']"
  by code_simp

end
