(* ===== verification/Address_Roles.thy ===== *)
theory Address_Roles
  imports Project_Alias
begin

text \<open>
  Owner-assigned roles (\<^verbatim>\<open>server/services/address_roles.py\<close>): an address with one
  holder at a time, its history, and the read-time widening of a listen set by the
  names of a renamed project and by the roles a listened address holds
  (\<^verbatim>\<open>expand_listen_set\<close> of \<^verbatim>\<open>project_alias.py\<close>). The lemmas show that the history has
  exactly one open entry per assigned role and none for a retired one, that a
  handover moves the mailbox from one holder to the next, and that the widening
  obeys the contract \<open>listen_expansion\<close>.
\<close>

section \<open>Definitions\<close>

definition role_map :: "role_row list \<Rightarrow> (string \<times> string) list" where
  "role_map rows = map (\<lambda>r. (ro_role r, ro_holder r)) rows"

definition role_refresh :: "bool \<Rightarrow> instant \<Rightarrow> server \<Rightarrow> server" where
  "role_refresh force now s =
     (if \<not> force \<and> role_loaded_at s \<noteq> 0 \<and> now - role_loaded_at s < seconds 30 then s
      else s\<lparr>role_cache := role_map (address_roles s), role_loaded_at := now\<rparr>)"

definition holder :: "(string \<times> string) list \<Rightarrow> string option \<Rightarrow> string option" where
  "holder roles role = map_of roles (before (CHR ''@'') (norm role))"

definition roles_held_by :: "(string \<times> string) list \<Rightarrow> string option \<Rightarrow> string list" where
  "roles_held_by roles address =
     (let base = before (CHR ''@'') (norm address)
      in sort (map fst (filter (\<lambda>(r, h). h = base) roles)))"

definition list_roles :: "server \<Rightarrow> role_row list" where
  "list_roles s = sort_key ro_role (address_roles s)"

definition role_history :: "string \<Rightarrow> server \<Rightarrow> history_row list" where
  "role_history role s =
     sort_key hi_assigned_at (filter (\<lambda>h. hi_role h = norm (Some role)) (address_role_history s))"

text \<open>The names a role may not take (\<^verbatim>\<open>_refuse_role_name\<close>): \<open>True\<close> is a refusal.\<close>

definition refuse_role_name :: "settings \<Rightarrow> string \<Rightarrow> server \<Rightarrow> bool" where
  "refuse_role_name cfg role s \<longleftrightarrow>
     \<not> PROJECT_NAME_RE role \<or>
     role = norm (Some (cfg_owner_principal_name cfg)) \<or>
     role \<in> (py_lower \<circ> p_name) ` set (principals s) \<or>
     role \<in> (py_lower \<circ> fst) ` set (principal_aliases s) \<or>
     list_ex (\<lambda>r. r_project r = Some role) (memories s) \<or>
     role \<in> set (map fst (alias_cache s)) \<or>
     list_ex (\<lambda>r. r_scope r = ''presence'' \<and> r_key r = ''presence/'' @ role) (memories s)"

definition role_upsert :: "string \<Rightarrow> string \<Rightarrow> string option \<Rightarrow> instant \<Rightarrow> role_row list \<Rightarrow> role_row list" where
  "role_upsert role h actor now rows =
     (let new = \<lparr>ro_role = role, ro_holder = h, ro_assigned_by = actor, ro_assigned_at = now\<rparr>
      in if role \<in> ro_role ` set rows then map (\<lambda>r. if ro_role r = role then new else r) rows
         else rows @ [new])"

definition end_history :: "string \<Rightarrow> instant \<Rightarrow> history_row list \<Rightarrow> history_row list" where
  "end_history role now rows =
     map (\<lambda>h. if hi_role h = role \<and> hi_ended_at h = None then h\<lparr>hi_ended_at := Some now\<rparr> else h) rows"

record assigned =
  as_role :: string
  as_holder :: string
  as_previous :: "string option"
  as_changed :: bool
  as_note :: bool
    \<comment> \<open>the holder is not an active principal\<close>

definition active_principal :: "string \<Rightarrow> server \<Rightarrow> bool" where
  "active_principal n s =
     (case find (\<lambda>p. py_lower (p_name p) = n) (principals s) of None \<Rightarrow> False | Some p \<Rightarrow> p_active p)"

definition assign ::
  "settings \<Rightarrow> string \<Rightarrow> string \<Rightarrow> string option \<Rightarrow> instant \<Rightarrow> server \<Rightarrow> assigned res \<times> server" where
  "assign cfg role0 holder0 actor now s0 =
     (let role = norm (Some role0); h = norm (Some holder0)
      in if h = '''' \<or> CHR ''@'' \<in> set h then (Inl ValueError, s0)
      else let s = role_refresh True now s0 in
      if h \<in> set (map fst (role_cache s)) then (Inl ValueError, s)
      else let current = map_option ro_holder (find (\<lambda>r. ro_role r = role) (address_roles s)) in
      if current = None \<and> refuse_role_name cfg role s then (Inl ValueError, s)
      else if current = Some h
      then (Inr \<lparr>as_role = role, as_holder = h, as_previous = Some h, as_changed = False, as_note = False\<rparr>, s)
      else let s' = s\<lparr>address_roles := role_upsert role h actor now (address_roles s),
                      address_role_history := end_history role now (address_role_history s)
                        @ [\<lparr>hi_role = role, hi_holder = h, hi_assigned_by = actor,
                            hi_assigned_at = now, hi_ended_at = None\<rparr>]\<rparr>
           in (Inr \<lparr>as_role = role, as_holder = h, as_previous = current, as_changed = True,
                    as_note = (\<not> active_principal h s)\<rparr>,
               role_refresh True now s'))"

definition unassign :: "string \<Rightarrow> instant \<Rightarrow> server \<Rightarrow> bool \<times> server" where
  "unassign role0 now s =
     (let role = norm (Some role0)
      in (role \<in> ro_role ` set (address_roles s),
          role_refresh True now
            (s\<lparr>address_roles := filter (\<lambda>r. ro_role r \<noteq> role) (address_roles s),
               address_role_history := end_history role now (address_role_history s)\<rparr>)))"

text \<open>\<^verbatim>\<open>expand_listen_set\<close>, on the two maps it reads after refreshing them.\<close>

definition add_new :: "string \<Rightarrow> string list \<times> string list \<Rightarrow> string list \<times> string list" where
  "add_new cand st = (case st of (have, extra) \<Rightarrow>
     if cand \<in> set have then (have, extra) else (cand # have, extra @ [cand]))"

definition listen_candidates :: "(string \<times> string) list \<Rightarrow> (string \<times> string) list \<Rightarrow> string \<Rightarrow> string list" where
  "listen_candidates al roles a =
     (let (base, qual) = addr_split (py_lower a); fam = family al base
      in (if 2 \<le> length fam then map (\<lambda>m. m @ qual) fam else []) @ roles_held_by roles (Some base))"

definition expand_listen :: "(string \<times> string) list \<Rightarrow> (string \<times> string) list \<Rightarrow> string list \<Rightarrow> string list" where
  "expand_listen al roles ls =
     snd (fold add_new (concat (map (listen_candidates al roles) ls)) (map py_lower ls, []))"

definition expand_listen_set :: "instant \<Rightarrow> string list \<Rightarrow> server \<Rightarrow> string list \<times> server" where
  "expand_listen_set now ls s0 =
     (let s = role_refresh False now (alias_refresh False now s0)
      in (expand_listen (alias_cache s) (role_cache s) ls, s))"

section \<open>The widening of a listen set\<close>

lemma add_new_pair [simp]:
  "add_new c (have, extra) = (if c \<in> set have then (have, extra) else (c # have, extra @ [c]))"
  by (simp add: add_new_def)

lemma fold_add_new:
  "fold add_new cs (have, extra) = (have', extra') \<Longrightarrow> distinct extra \<Longrightarrow> set extra \<subseteq> set have \<Longrightarrow>
   (\<exists>new. extra' = extra @ new \<and> distinct new \<and> set have' = set have \<union> set new \<and>
      set new = set cs - set have)"
proof (induction cs arbitrary: "have" extra)
  case Nil
  then show ?case by simp
next
  case (Cons c cs)
  show ?case
  proof (cases "c \<in> set have")
    case True
    with Cons show ?thesis by (auto simp: insert_absorb)
  next
    case False
    with Cons.prems have "fold add_new cs (c # have, extra @ [c]) = (have', extra')" by simp
    moreover have "distinct (extra @ [c])" "set (extra @ [c]) \<subseteq> set (c # have)"
      using Cons.prems False by auto
    ultimately obtain new where
      "extra' = (extra @ [c]) @ new" "distinct new" "set have' = set (c # have) \<union> set new"
      "set new = set cs - set (c # have)" using Cons.IH by blast
    then show ?thesis using False by (intro exI [of _ "c # new"]) auto
  qed
qed

lemma expand_listen_set_eq:
  "distinct (expand_listen al roles ls) \<and>
   set (expand_listen al roles ls) = (\<Union>a \<in> set ls. set (listen_candidates al roles a)) - py_lower ` set ls"
proof -
  obtain h e where f: "fold add_new (concat (map (listen_candidates al roles) ls)) (map py_lower ls, []) = (h, e)"
    by fastforce
  from fold_add_new [OF f] show ?thesis by (auto simp: expand_listen_def f)
qed

interpretation role_widening: listen_expansion "expand_listen al roles" for al roles
proof
  fix l :: "string list" and a
  assume l: "map py_lower l = l" and a: "a \<in> set (expand_listen al roles l)"
  from l have "py_lower ` set l = set l" by (metis set_map)
  with a show "a \<notin> set l" by (simp add: expand_listen_set_eq)
next
  fix l :: "string list"
  show "distinct (expand_listen al roles l)" by (simp add: expand_listen_set_eq)
qed

section \<open>One holder, one open history entry\<close>

definition open_holders :: "string \<Rightarrow> history_row list \<Rightarrow> string list" where
  "open_holders role rows = map hi_holder (filter (\<lambda>h. hi_role h = role \<and> hi_ended_at h = None) rows)"

definition role_inv :: "server \<Rightarrow> bool" where
  "role_inv s \<longleftrightarrow> distinct (map ro_role (address_roles s)) \<and>
     (\<forall>role. open_holders role (address_role_history s) =
        (case map_of (role_map (address_roles s)) role of None \<Rightarrow> [] | Some h \<Rightarrow> [h]))"

inductive role_reach :: "settings \<Rightarrow> server \<Rightarrow> bool" for cfg where
  fresh: "role_reach cfg empty_server"
| assigned: "role_reach cfg s \<Longrightarrow> assign cfg role h actor now s = (r, s') \<Longrightarrow> role_reach cfg s'"
| retired: "role_reach cfg s \<Longrightarrow> unassign role now s = (b, s') \<Longrightarrow> role_reach cfg s'"
| elsewhere: "role_reach cfg s \<Longrightarrow> address_roles s' = address_roles s \<Longrightarrow>
    address_role_history s' = address_role_history s \<Longrightarrow> role_reach cfg s'"

lemma role_refresh_tables [simp]:
  "address_roles (role_refresh f now s) = address_roles s"
  "address_role_history (role_refresh f now s) = address_role_history s"
  "memories (role_refresh f now s) = memories s"
  "project_aliases (role_refresh f now s) = project_aliases s"
  "alias_cache (role_refresh f now s) = alias_cache s"
  "principals (role_refresh f now s) = principals s"
  by (simp_all add: role_refresh_def)

lemma role_refresh_force [simp]: "role_cache (role_refresh True now s) = role_map (address_roles s)"
  by (simp add: role_refresh_def)

lemma map_of_role_map:
  "map_of (role_map rows) role = map_option ro_holder (find (\<lambda>r. ro_role r = role) rows)"
  by (induction rows) (auto simp: role_map_def)

lemma set_role_map: "set (role_map rows) = (\<lambda>r. (ro_role r, ro_holder r)) ` set rows"
  by (simp add: role_map_def)

lemma map_of_role_map_app:
  "map_of (role_map (rows @ [r])) x =
     (case map_of (role_map rows) x of None \<Rightarrow> if x = ro_role r then Some (ro_holder r) else None | Some h \<Rightarrow> Some h)"
  by (simp add: role_map_def map_add_def split: option.split)

lemma map_of_role_replace:
  "ro_role new = role \<Longrightarrow>
   map_of (role_map (map (\<lambda>r. if ro_role r = role then new else r) rows)) x =
     (if x = role then if role \<in> ro_role ` set rows then Some (ro_holder new) else None
      else map_of (role_map rows) x)"
  by (induction rows) (auto simp: role_map_def)

lemma map_of_role_upsert:
  "map_of (role_map (role_upsert role h actor now rows)) x =
     (if x = role then Some h else map_of (role_map rows) x)"
proof (cases "role \<in> ro_role ` set rows")
  case True
  then show ?thesis by (simp add: role_upsert_def Let_def map_of_role_replace)
next
  case False
  then have "map_of (role_map rows) role = None"
    by (auto simp: map_of_eq_None_iff role_map_def)
  with False show ?thesis
    by (auto simp: role_upsert_def Let_def map_of_role_map_app split: option.split)
qed

lemma distinct_role_upsert:
  "distinct (map ro_role rows) \<Longrightarrow> distinct (map ro_role (role_upsert role h actor now rows))"
proof -
  let ?new = "\<lparr>ro_role = role, ro_holder = h, ro_assigned_by = actor, ro_assigned_at = now\<rparr>"
  have "map ro_role (map (\<lambda>r. if ro_role r = role then ?new else r) rows) = map ro_role rows"
    by auto
  then show "distinct (map ro_role rows) \<Longrightarrow> ?thesis"
    unfolding role_upsert_def Let_def by (simp del: map_map)
qed

lemma open_holders_end_history:
  "open_holders x (end_history role now rows) = (if x = role then [] else open_holders x rows)"
  by (induction rows) (auto simp: open_holders_def end_history_def)

lemma open_holders_append: "open_holders x (rows @ rows') = open_holders x rows @ open_holders x rows'"
  by (simp add: open_holders_def)

lemma map_of_role_retire:
  "map_of (role_map (filter (\<lambda>r. ro_role r \<noteq> role) rows)) x =
     (if x = role then None else map_of (role_map rows) x)"
  by (induction rows) (auto simp: role_map_def)

lemma assign_effect:
  assumes "assign cfg role0 holder0 actor now s = (res, s')"
  shows "(address_roles s' = address_roles s \<and> address_role_history s' = address_role_history s) \<or>
    (\<exists>h. address_roles s' = role_upsert (norm (Some role0)) h actor now (address_roles s) \<and>
         address_role_history s' = end_history (norm (Some role0)) now (address_role_history s) @
           [\<lparr>hi_role = norm (Some role0), hi_holder = h, hi_assigned_by = actor,
             hi_assigned_at = now, hi_ended_at = None\<rparr>])"
  using assms by (auto simp: assign_def Let_def split: if_splits)

lemma assign_inv:
  assumes "role_inv s" and "assign cfg role0 holder0 actor now s = (res, s')"
  shows "role_inv s'"
  using assign_effect [OF assms(2)]
proof (elim disjE exE conjE)
  fix h
  assume "address_roles s' = role_upsert (norm (Some role0)) h actor now (address_roles s)"
    and "address_role_history s' = end_history (norm (Some role0)) now (address_role_history s) @
           [\<lparr>hi_role = norm (Some role0), hi_holder = h, hi_assigned_by = actor,
             hi_assigned_at = now, hi_ended_at = None\<rparr>]"
  with assms(1) show ?thesis
    by (simp add: role_inv_def distinct_role_upsert map_of_role_upsert open_holders_append
        open_holders_end_history) (simp add: open_holders_def)
qed (use assms(1) in \<open>simp add: role_inv_def\<close>)

lemma unassign_inv:
  assumes "role_inv s" and "unassign role0 now s = (res, s')"
  shows "role_inv s'"
proof -
  from assms(2) have "address_roles s' = filter (\<lambda>r. ro_role r \<noteq> norm (Some role0)) (address_roles s)"
    and "address_role_history s' = end_history (norm (Some role0)) now (address_role_history s)"
    by (auto simp: unassign_def Let_def)
  with assms(1) show ?thesis
    by (simp add: role_inv_def map_of_role_retire open_holders_end_history distinct_map_filter)
qed

lemma role_reach_inv: "role_reach cfg s \<Longrightarrow> role_inv s"
proof (induction rule: role_reach.induct)
  case fresh
  show ?case by (simp add: role_inv_def empty_server_def role_map_def open_holders_def)
next
  case (assigned s role h actor now r s')
  then show ?case by (blast intro: assign_inv)
next
  case (retired s role now b s')
  then show ?case by (blast intro: unassign_inv)
next
  case (elsewhere s s')
  then show ?case by (simp add: role_inv_def)
qed

lemma role_held_iff:
  "distinct (map fst roles) \<Longrightarrow>
   r \<in> set (roles_held_by roles a) \<longleftrightarrow> map_of roles r = Some (before (CHR ''@'') (norm a))"
  by (force simp: roles_held_by_def Let_def)

lemma distinct_role_map: "distinct (map fst (role_map rows)) = distinct (map ro_role rows)"
  by (simp add: role_map_def comp_def)

section \<open>Properties\<close>

text \<open>Through any sequence of assignments and retirements a role has at most one
  holder, and its history has exactly one open entry, naming that holder, while the
  role is assigned and none once it is retired.\<close>

theorem role_history_has_one_open_entry:
  assumes "role_reach cfg s"
  shows "distinct (map ro_role (address_roles s)) \<and>
    open_holders role (address_role_history s) =
      (case map_of (role_map (address_roles s)) role of None \<Rightarrow> [] | Some h \<Rightarrow> [h])"
  using role_reach_inv [OF assms] by (simp add: role_inv_def)

definition handover_demo :: server where
  "handover_demo = snd (assign default_settings ''hand'' ''codex'' None 2
     (snd (assign default_settings ''hand'' ''grokbot'' None 1 empty_server)))"

theorem role_history_has_one_open_entry_witness:
  "map hi_holder (address_role_history handover_demo) = [''grokbot'', ''codex''] \<and>
   open_holders ''hand'' (address_role_history handover_demo) = [''codex'']"
proof -
  have "role_reach default_settings handover_demo"
    unfolding handover_demo_def
    by (intro role_reach.assigned [OF _ prod.collapse [symmetric]] role_reach.fresh)
  note r = role_history_has_one_open_entry [OF this, of "''hand''"]
  have m: "map_of (role_map (address_roles handover_demo)) ''hand'' = Some ''codex''"
    and h: "map hi_holder (address_role_history handover_demo) = [''grokbot'', ''codex'']"
    by code_simp+
  show ?thesis using r unfolding m option.case by (intro conjI h) blast
qed

text \<open>A handover moves the mailbox: after a successful assignment an address hears
  the role exactly when it is the new holder (bare or on any host), whoever held it
  before.\<close>

theorem assign_moves_the_mailbox:
  assumes "distinct (map ro_role (address_roles s))"
    and "assign cfg role h actor now s = (Inr a, s')"
  shows "as_holder a = norm (Some h) \<and>
    (as_role a \<in> set (roles_held_by (role_cache s') (Some x)) \<longleftrightarrow>
       before (CHR ''@'') (norm (Some x)) = norm (Some h))"
proof -
  have a: "as_holder a = norm (Some h)" "as_role a = norm (Some role)"
    and c: "role_cache s' = role_map (address_roles s')"
    and m: "map_of (role_map (address_roles s')) (norm (Some role)) = Some (norm (Some h))"
    and d: "distinct (map ro_role (address_roles s'))"
    using assms by (auto simp: assign_def Let_def map_of_role_upsert distinct_role_upsert
      map_of_role_map [symmetric] split: if_splits simp del: map_option_eq_Some)
  have "distinct (map fst (role_cache s'))" using c d by (simp add: distinct_role_map)
  from role_held_iff [OF this] show ?thesis using a c m by auto
qed

theorem assign_moves_the_mailbox_witness:
  "roles_held_by (role_cache handover_demo) (Some ''codex@hosta'') = [''hand''] \<and>
   \<not> (''hand'' \<in> set (roles_held_by (role_cache handover_demo) (Some ''grokbot'')))"
proof -
  let ?s = "snd (assign default_settings ''hand'' ''grokbot'' None 1 empty_server)"
  have d: "distinct (map ro_role (address_roles ?s))"
    and f: "assign default_settings ''hand'' ''codex'' None 2 ?s =
       (Inr \<lparr>as_role = ''hand'', as_holder = ''codex'', as_previous = Some ''grokbot'',
             as_changed = True, as_note = True\<rparr>, handover_demo)"
    and n: "(before (CHR ''@'') (norm (Some ''grokbot'')) = norm (Some ''codex'')) = False"
    and k: "roles_held_by (role_cache handover_demo) (Some ''codex@hosta'') = [''hand'']"
    by code_simp+
  show ?thesis
    using k assign_moves_the_mailbox [OF d f, of "''grokbot''"] n by auto
qed

text \<open>The guard against chained roles looks one way only: it refuses a holder that
  is a role, but not a role whose name already holds another role, so two admitted
  assignments build the chain \<^verbatim>\<open>hand -> foo -> bar\<close>.\<close>

lemma roles_can_chain:
  "let s1 = assign default_settings ''hand'' ''foo'' None 1 empty_server;
       s2 = assign default_settings ''foo'' ''bar'' None 2 (snd s1)
   in \<not> isl (fst s1) \<and> \<not> isl (fst s2) \<and>
      holder (role_cache (snd s2)) (Some ''hand'') = Some ''foo'' \<and>
      holder (role_cache (snd s2)) (Some ''foo'') = Some ''bar''"
  by code_simp

text \<open>The widening of a listen set adds exactly the sibling names of renamed
  projects and the roles held, each once, and nothing that was listened to already.\<close>

theorem expand_listen_adds_exactly:
  "distinct (expand_listen al roles ls) \<and>
   set (expand_listen al roles ls) =
     {m @ snd (addr_split (py_lower a)) | a m. a \<in> set ls \<and>
        m \<in> set (family al (fst (addr_split (py_lower a)))) \<and>
        2 \<le> length (family al (fst (addr_split (py_lower a))))} \<union>
     {r | a r. a \<in> set ls \<and> r \<in> set (roles_held_by roles (Some (fst (addr_split (py_lower a)))))}
     - py_lower ` set ls"
proof -
  have c: "set (listen_candidates al roles a) =
      {m @ snd (addr_split (py_lower a)) | m.
        m \<in> set (family al (fst (addr_split (py_lower a)))) \<and>
        2 \<le> length (family al (fst (addr_split (py_lower a))))} \<union>
      set (roles_held_by roles (Some (fst (addr_split (py_lower a)))))" for a
    by (auto simp: listen_candidates_def Let_def split_beta)
  show ?thesis by (auto simp: expand_listen_set_eq c)
qed

end
