(* ===== verification/Memory_Text.thy ===== *)
theory Memory_Text
  imports Prelude
begin

text \<open>
  The text preparation of \<^verbatim>\<open>server/services/memory_service.py\<close>: dropping tool-call
  closing tags from the end of a message, the expansion of a key into the words
  that are embedded and indexed, and the \<^verbatim>\<open>LIKE\<close> pattern of the key listing.
\<close>

section \<open>Trailing tool-call tags\<close>

definition TRAILER_TAGS :: "string list" where
  "TRAILER_TAGS = [''</body>'', ''</invoke>'', ''</parameter>'']"

text \<open>The text without its last tag, if it ends in one (in any case).\<close>

definition drop_tag :: "string \<Rightarrow> string option" where
  "drop_tag s =
     (case find (\<lambda>tag. endswith (py_lower s) tag) TRAILER_TAGS of
        None \<Rightarrow> None
      | Some tag \<Rightarrow> Some (take (length s - length tag) s))"

lemma drop_tag_shorter: "drop_tag s = Some t \<Longrightarrow> length t < length s"
proof -
  assume "drop_tag s = Some t"
  then obtain tag where "find (\<lambda>tag. endswith (py_lower s) tag) TRAILER_TAGS = Some tag"
    and t: "t = take (length s - length tag) s" by (auto simp: drop_tag_def split: option.splits)
  then have "endswith (py_lower s) tag" and "tag \<in> set TRAILER_TAGS"
    by (auto simp: find_Some_iff)
  then have "length tag \<le> length s" and "length tag > 0"
    using prefix_length_le by (fastforce simp: endswith_def TRAILER_TAGS_def)+
  with t show ?thesis by (cases "length s") simp_all
qed

text \<open>\<^verbatim>\<open>(?:</body>|</invoke>|</parameter>)*$\<close>: the tags at the very end go.\<close>

function drop_tags :: "string \<Rightarrow> string" where
  "drop_tags s = (case drop_tag s of None \<Rightarrow> s | Some t \<Rightarrow> drop_tags t)"
  by pat_completeness auto
termination by (relation "measure length") (simp_all add: drop_tag_shorter)

declare drop_tags.simps [simp del]

text \<open>One \<^verbatim>\<open>_TOOLCALL_TRAILER_RE.sub("", text)\<close>: white space, at least one tag, white
  space, end of text.\<close>

definition sub_trailer :: "string \<Rightarrow> string" where
  "sub_trailer s =
     (let r = py_rstrip s in case drop_tag r of None \<Rightarrow> s | Some t \<Rightarrow> py_rstrip (drop_tags t))"

lemma drop_tag_prefix: "drop_tag s = Some t \<Longrightarrow> prefix t s"
  by (auto simp: drop_tag_def take_is_prefix split: option.splits)

lemma drop_tags_prefix: "prefix (drop_tags s) s"
proof (induction s rule: drop_tags.induct)
  case (1 s)
  show ?case
  proof (cases "drop_tag s")
    case None
    then show ?thesis by (simp add: drop_tags.simps [of s])
  next
    case (Some t)
    with 1 have "prefix (drop_tags t) t" by simp
    also have "prefix t s" using Some by (rule drop_tag_prefix)
    finally show ?thesis using Some by (simp add: drop_tags.simps [of s])
  qed
qed

lemma sub_trailer_prefix: "prefix (sub_trailer s) s"
proof (cases "drop_tag (py_rstrip s)")
  case None
  then show ?thesis by (simp add: sub_trailer_def)
next
  case (Some t)
  have "prefix (py_rstrip (drop_tags t)) (drop_tags t)" by (rule py_rstrip_prefix)
  also have "prefix (drop_tags t) t" by (rule drop_tags_prefix)
  also have "prefix t (py_rstrip s)" using Some by (rule drop_tag_prefix)
  also have "prefix (py_rstrip s) s" by (rule py_rstrip_prefix)
  finally show ?thesis using Some by (simp add: sub_trailer_def)
qed

lemma sub_trailer_shorter: "sub_trailer s \<noteq> s \<Longrightarrow> length (sub_trailer s) < length s"
  using sub_trailer_prefix [of s] by (intro prefix_length_less) (simp add: strict_prefix_def)

text \<open>\<^verbatim>\<open>_strip_toolcall_trailer\<close>: the substitution until nothing changes.\<close>

function strip_toolcall_trailer :: "string \<Rightarrow> string" where
  "strip_toolcall_trailer text =
     (if sub_trailer text = text then text else strip_toolcall_trailer (sub_trailer text))"
  by pat_completeness auto
termination by (relation "measure length") (simp_all add: sub_trailer_shorter)

declare strip_toolcall_trailer.simps [simp del]

lemma strip_toolcall_trailer_fix: "sub_trailer (strip_toolcall_trailer s) = strip_toolcall_trailer s"
proof (induction s rule: strip_toolcall_trailer.induct)
  case (1 s)
  then show ?case
    by (cases "sub_trailer s = s") (simp_all add: strip_toolcall_trailer.simps [of s])
qed

lemma strip_toolcall_trailer_prefix: "prefix (strip_toolcall_trailer s) s"
proof (induction s rule: strip_toolcall_trailer.induct)
  case (1 s)
  show ?case
  proof (cases "sub_trailer s = s")
    case True
    then show ?thesis by (simp add: strip_toolcall_trailer.simps [of s])
  next
    case False
    with 1 have "prefix (strip_toolcall_trailer (sub_trailer s)) (sub_trailer s)" by simp
    also have "prefix (sub_trailer s) s" by (rule sub_trailer_prefix)
    finally show ?thesis using False by (simp add: strip_toolcall_trailer.simps [of s])
  qed
qed

lemma sub_trailer_fix_iff: "sub_trailer s = s \<longleftrightarrow> drop_tag (py_rstrip s) = None"
proof (cases "drop_tag (py_rstrip s)")
  case None
  then show ?thesis by (simp add: sub_trailer_def)
next
  case (Some t)
  have "length (py_rstrip (drop_tags t)) \<le> length t"
    using py_rstrip_prefix [THEN prefix_length_le] drop_tags_prefix [THEN prefix_length_le]
    by (rule order_trans)
  also have "length t < length (py_rstrip s)" using Some by (rule drop_tag_shorter)
  also have "\<dots> \<le> length s" by (rule prefix_length_le [OF py_rstrip_prefix])
  finally show ?thesis using Some by (auto simp: sub_trailer_def)
qed

section \<open>Search text\<close>

definition is_lower_az :: "char \<Rightarrow> bool" where
  "is_lower_az c \<longleftrightarrow> (let n = (of_char c :: nat) in 97 \<le> n \<and> n \<le> 122)"

definition is_upper_az :: "char \<Rightarrow> bool" where
  "is_upper_az c \<longleftrightarrow> (let n = (of_char c :: nat) in 65 \<le> n \<and> n \<le> 90)"

text \<open>\<^verbatim>\<open>re.sub(r"([a-z])([A-Z])", r"\1 \2", s)\<close>.\<close>

fun camel_split :: "string \<Rightarrow> string" where
  "camel_split (c # d # s) =
     (if is_lower_az c \<and> is_upper_az d then c # CHR '' '' # camel_split (d # s)
      else c # camel_split (d # s))"
| "camel_split s = s"

definition key_words :: "string \<Rightarrow> string" where
  "key_words key = map (\<lambda>c. if c = CHR ''_'' \<or> c = CHR ''-'' then CHR '' '' else c) key"

definition expand_key :: "string \<Rightarrow> string" where
  "expand_key key = py_strip (py_lower (camel_split (key_words key)))"

definition build_search_text :: "string \<Rightarrow> string \<Rightarrow> string \<Rightarrow> string" where
  "build_search_text key val tags =
     expand_key key @ '' '' @ key @ '' '' @ val @ (if tags = '''' then '''' else '' '' @ tags)"

lemma camel_split_lower: "\<forall>c \<in> set s. \<not> is_upper_az c \<Longrightarrow> camel_split s = s"
  by (induction s rule: camel_split.induct) auto

lemma lower_not_upper: "\<not> is_upper_az (lower_char c)"
  by (auto simp: is_upper_az_def lower_char_def Let_def)

lemma expand_key_lower: "expand_key (py_lower k) = py_strip (key_words (py_lower k))"
proof -
  have "\<forall>c \<in> set (key_words (py_lower k)). \<not> is_upper_az c"
    by (auto simp: key_words_def py_lower_def lower_not_upper) (simp_all add: is_upper_az_def)
  moreover have "py_lower (key_words (py_lower k)) = key_words (py_lower k)"
    by (induction k) (auto simp: key_words_def py_lower_def, simp_all add: lower_char_def)
  ultimately show ?thesis by (simp add: expand_key_def camel_split_lower)
qed

section \<open>Patterns\<close>

text \<open>SQL's \<^verbatim>\<open>s LIKE pattern ESCAPE '\'\<close>: \<^verbatim>\<open>%\<close> is any text, \<^verbatim>\<open>_\<close> any character, a
  backslash takes the next character literally (a pattern that ends in a lone
  backslash is an error, here no match).\<close>

fun sql_like :: "string \<Rightarrow> string \<Rightarrow> bool" where
  "sql_like s [] = (s = [])"
| "sql_like s (p # ps) =
     (if p = CHR ''%'' then list_ex (\<lambda>n. sql_like (drop n s) ps) [0 ..< Suc (length s)]
      else if p = CHR 0x5C then
        (case ps of [] \<Rightarrow> False
         | q # qs \<Rightarrow> (case s of [] \<Rightarrow> False | c # cs \<Rightarrow> c = q \<and> sql_like cs qs))
      else (case s of [] \<Rightarrow> False | c # cs \<Rightarrow> (p = CHR ''_'' \<or> c = p) \<and> sql_like cs ps))"

definition like_escape :: "string \<Rightarrow> string" where
  "like_escape pre =
     concat (map (\<lambda>c. if c \<in> set [CHR 0x5C, CHR ''%'', CHR ''_''] then [CHR 0x5C, c] else [c]) pre)"

definition prefix_pattern :: "string \<Rightarrow> string" where
  "prefix_pattern pre = like_escape pre @ ''%''"

lemma sql_like_any [simp]: "sql_like s ''%''"
proof -
  have "length s \<in> set [0 ..< Suc (length s)]" and "sql_like (drop (length s) s) []" by auto
  then show ?thesis by (auto simp: list_ex_iff simp del: upt_Suc)
qed

lemma sql_like_prefix: "sql_like s (prefix_pattern pre) \<longleftrightarrow> startswith s pre"
proof (induction pre arbitrary: s)
  case Nil
  then show ?case by (simp add: prefix_pattern_def like_escape_def startswith_code)
next
  case (Cons c pre)
  have IH: "sql_like cs (concat (map (\<lambda>c. if c \<in> set [CHR 0x5C, CHR ''%'', CHR ''_''] then [CHR 0x5C, c] else [c]) pre) @ ''%'')
      = startswith cs pre" for cs
    using Cons.IH [of cs] by (simp add: prefix_pattern_def like_escape_def)
  show ?case
    using IH by (cases s) (auto simp: prefix_pattern_def like_escape_def startswith_code)
qed

end
