(* ===== verification/Memory.thy ===== *)
theory Memory
  imports Database Memory_Text
begin

text \<open>
  The memory operations of \<^verbatim>\<open>server/services/memory_service.py\<close> on the table
  \<^verbatim>\<open>memories\<close>: the guarded write (optimistic concurrency, ownership, collapse of the
  rows other writers hold under the same project key), the reads, and the four verbs
  of retirement and destruction.

  Two things the code calls are parameters: \<open>sha\<close>, the hash behind a version token,
  and the two measures of the database's search extensions, \<open>vdist\<close> (the distance of
  two embeddings, given by the texts embedded) and \<open>sim\<close> (the similarity of trigrams),
  with values in any ordered domain. The score shown with a hit is not modelled, only
  the order it gives.
\<close>

section \<open>Versions and lifecycle\<close>

definition VERSION_LEN :: nat where
  "VERSION_LEN = 16"

definition compute_version :: "(string \<Rightarrow> string) \<Rightarrow> string option \<Rightarrow> string" where
  "compute_version sha v = (case v of None \<Rightarrow> '''' | Some x \<Rightarrow> take VERSION_LEN (sha x))"

definition HIDDEN_STATUSES :: "string list" where
  "HIDDEN_STATUSES = [''superseded'', ''deletion_requested'']"

definition DATA_SCOPES :: "string list" where
  "DATA_SCOPES = [''project'', ''shared'', ''user'', ''machine'']"

definition status :: "row \<Rightarrow> string option" where
  "status r = jget_text (md r) ''status''"

definition drained :: "row \<Rightarrow> bool" where
  "drained r \<longleftrightarrow> or_empty (status r) \<in> set HIDDEN_STATUSES"

definition unexpired :: "instant \<Rightarrow> row \<Rightarrow> bool" where
  "unexpired now r = (case r_expires_at r of None \<Rightarrow> True | Some e \<Rightarrow> now < e)"

definition normalize_key_fields :: "ukey \<Rightarrow> ukey" where
  "normalize_key_fields k =
     (case k of (ns, key, sc, uid, pr) \<Rightarrow>
        (py_lower ns, py_lower key, py_lower sc, py_lower uid, map_option py_lower pr))"

section \<open>The write\<close>

record set_req =
  wr_value :: string
  wr_tags :: string
  wr_tags_search :: string
  wr_expiration_days :: int
  wr_metadata :: "jobj option"
  wr_owner :: "string option"
  wr_if_match :: "string option"
  wr_is_admin :: bool

definition written_row :: "ukey \<Rightarrow> set_req \<Rightarrow> instant \<Rightarrow> row" where
  "written_row k w now =
     (case k of (ns, key, sc, uid, pr) \<Rightarrow>
        let txt = build_search_text key (wr_value w) (wr_tags w)
        in (new_row ns key (wr_value w) sc uid pr now)
           \<lparr>r_tags := wr_tags w, r_tags_search := wr_tags_search w,
            r_embedded := Some txt, r_search_text := txt,
            r_expires_at := (if 0 < wr_expiration_days w
                             then Some (now + hours (24 * wr_expiration_days w)) else None),
            r_metadata := (if wr_metadata w = Some [] then None else wr_metadata w),
            r_owner := wr_owner w\<rparr>)"

text \<open>\<^verbatim>\<open>_insert_if_absent\<close> and \<^verbatim>\<open>_upsert_memory\<close>.\<close>

definition insert_if_absent :: "row \<Rightarrow> table \<Rightarrow> nat option \<times> table" where
  "insert_if_absent r t = insert_do_nothing r t"

definition overwrite :: "row \<Rightarrow> row \<Rightarrow> row" where
  "overwrite new old =
     old\<lparr>r_value := r_value new, r_tags := r_tags new, r_tags_search := r_tags_search new,
         r_embedded := r_embedded new, r_search_text := r_search_text new,
         r_expires_at := r_expires_at new, r_metadata := r_metadata new,
         r_owner := r_owner new, r_last_used_at := r_last_used_at new\<rparr>"

definition upsert_memory :: "row \<Rightarrow> table \<Rightarrow> bool \<times> table" where
  "upsert_memory r t = insert_do_update overwrite r t"

definition enforce_owner :: "ukey \<Rightarrow> set_req \<Rightarrow> bool" where
  "enforce_owner k w \<longleftrightarrow> fst (snd (snd k)) = ''project'' \<and> \<not> wr_is_admin w"

definition ownership_conflict :: "set_req \<Rightarrow> row option \<Rightarrow> string option" where
  "ownership_conflict w existing =
     (case existing of None \<Rightarrow> None
      | Some e \<Rightarrow> (case r_owner e of None \<Rightarrow> None
                 | Some o' \<Rightarrow> if Some o' \<noteq> wr_owner w \<and> \<not> drained e then Some o' else None))"

text \<open>The transaction of \<^verbatim>\<open>memory_set\<close>: the created flag, and whether the code goes on
  to collapse the rows of other writers (the create-only branch returns before).\<close>

definition memory_write ::
  "(string \<Rightarrow> string) \<Rightarrow> ukey \<Rightarrow> set_req \<Rightarrow> instant \<Rightarrow> table \<Rightarrow> (bool \<times> bool) res \<times> table" where
  "memory_write sha k w now t =
     (let r = written_row k w now;
          existing = (if enforce_owner k w \<or> wr_if_match w = Some '''' then row_at k t else None)
      in case (if enforce_owner k w then ownership_conflict w existing else None) of
           Some o' \<Rightarrow> (Inl (OwnershipConflict o' (wr_owner w)), t)
         | None \<Rightarrow>
             if wr_if_match w = Some '''' then
               (if (case existing of None \<Rightarrow> False | Some e \<Rightarrow> drained e)
                then (Inr (True, False), snd (upsert_memory r t))
                else case insert_if_absent r t of
                       (None, _) \<Rightarrow>
                         let current = map_option r_value (row_at k t)
                         in (Inl (VersionConflict current (compute_version sha current)), t)
                     | (Some _, t') \<Rightarrow> (Inr (True, False), t'))
             else let current = map_option r_value (row_at k t) in
               if wr_if_match w \<noteq> None \<and> Some (compute_version sha current) \<noteq> wr_if_match w
               then (Inl (VersionConflict current (compute_version sha current)), t)
               else case upsert_memory r t of (created, t') \<Rightarrow> (Inr (created, True), t'))"

text \<open>The collapse of the rows of other writers under the same project key.\<close>

definition twin_of :: "ukey \<Rightarrow> row \<Rightarrow> bool" where
  "twin_of k r =
     (case k of (ns, key, sc, uid, pr) \<Rightarrow>
        r_namespace r = ns \<and> r_key r = key \<and> r_scope r = sc \<and> r_project r = pr \<and> r_user_id r \<noteq> uid)"

definition collapse_stamp :: "ukey \<Rightarrow> set_req \<Rightarrow> instant \<Rightarrow> jobj" where
  "collapse_stamp k w now =
     [(''status'', JStr ''superseded''), (''superseded_at'', JTime now),
      (''superseded_by_principal'', jopt (wr_owner w)),
      (''superseded_by_user_id'', JStr (fst (snd (snd (snd k))))),
      (''superseded_reason'',
        JStr ''a newer write of this project key by another writer (MEM-6 cross-writer collapse)''),
      (''superseded_by_key'', JStr (fst (snd k)))]"

definition collapse_twins :: "ukey \<Rightarrow> set_req \<Rightarrow> instant \<Rightarrow> table \<Rightarrow> table" where
  "collapse_twins k w now t =
     sql_update (\<lambda>r. twin_of k r \<and> \<not> drained r) (stamp_md (collapse_stamp k w now)) t"

definition memory_set ::
  "(string \<Rightarrow> string) \<Rightarrow> ukey \<Rightarrow> set_req \<Rightarrow> instant \<Rightarrow> table
     \<Rightarrow> (string \<times> bool \<times> string) res \<times> table" where
  "memory_set sha k0 w now t =
     (let k = normalize_key_fields k0
      in case memory_write sha k w now t of
           (Inl e, t') \<Rightarrow> (Inl e, t')
         | (Inr (created, goes_on), t') \<Rightarrow>
             (Inr (fst (snd k), created, compute_version sha (Some (wr_value w))),
              if goes_on \<and> fst (snd (snd k)) = ''project'' then collapse_twins k w now t' else t'))"

section \<open>The reads\<close>

record memory_item =
  mi_row :: row
  mi_version :: string

text \<open>\<^verbatim>\<open>ORDER BY created_at DESC LIMIT 1\<close>.\<close>

definition newest :: "row list \<Rightarrow> row option" where
  "newest rs = (case sort_key (\<lambda>r. - r_created_at r) rs of [] \<Rightarrow> None | r # _ \<Rightarrow> Some r)"

definition logical_row :: "ukey \<Rightarrow> row \<Rightarrow> bool" where
  "logical_row k r =
     (case k of (ns, key, sc, uid, pr) \<Rightarrow>
        r_namespace r = ns \<and> r_key r = key \<and> r_scope r = sc \<and> r_project r = pr)"

definition all_writers :: "ukey \<Rightarrow> bool" where
  "all_writers k = (case k of (ns, key, sc, uid, pr) \<Rightarrow> uid = ''*'' \<and> sc = ''project'')"

definition memory_get ::
  "(string \<Rightarrow> string) \<Rightarrow> ukey \<Rightarrow> instant \<Rightarrow> table \<Rightarrow> memory_item option \<times> table" where
  "memory_get sha k0 now t =
     (let k = normalize_key_fields k0;
          found = (if all_writers k
                   then newest (filter (\<lambda>r. logical_row k r \<and> unexpired now r \<and> \<not> drained r) t)
                   else fetchrow (\<lambda>r. ukey_of r = k \<and> unexpired now r
                                   \<and> or_empty (status r) \<noteq> ''deletion_requested'') t)
      in case found of
           None \<Rightarrow> (None, t)
         | Some r \<Rightarrow>
             (Some \<lparr>mi_row = r, mi_version = compute_version sha (Some (r_value r))\<rparr>,
              sql_update (\<lambda>s. ukey_of s = ukey_of r) (touch now) t))"

text \<open>The visibility predicate the search and the key listing share.\<close>

definition in_partition ::
  "string list \<Rightarrow> string \<Rightarrow> string \<Rightarrow> string option \<Rightarrow> instant \<Rightarrow> row \<Rightarrow> bool" where
  "in_partition nss sc uid pr now r \<longleftrightarrow>
     unexpired now r \<and> r_namespace r \<in> set nss \<and> r_scope r = sc \<and> r_scope r \<noteq> ''inbox'' \<and>
     (uid = ''*'' \<and> sc = ''project'' \<or> r_user_id r = uid) \<and> r_project r = pr"

record 'a search_cfg =
  sc_vector_threshold :: 'a
  sc_trigram_weight :: 'a
  sc_trigram_threshold :: 'a

text \<open>An absent embedding makes every expression over it \<^verbatim>\<open>NULL\<close>: such a row sorts last
  by distance, first by descending score, and its score cannot be converted to a
  float.\<close>

definition vec_score :: "(string \<Rightarrow> string \<Rightarrow> 'a::linordered_idom) \<Rightarrow> string \<Rightarrow> row \<Rightarrow> 'a option" where
  "vec_score vdist q r = map_option (\<lambda>e. 1 - vdist e q) (r_embedded r)"

definition by_distance :: "(string \<Rightarrow> string \<Rightarrow> 'a::linordered_idom) \<Rightarrow> string \<Rightarrow> row list \<Rightarrow> row list" where
  "by_distance vdist q rs =
     sort_key (\<lambda>r. case r_embedded r of Some e \<Rightarrow> vdist e q | None \<Rightarrow> 0) (filter (\<lambda>r. r_embedded r \<noteq> None) rs)
     @ filter (\<lambda>r. r_embedded r = None) rs"

definition by_score ::
  "(string \<Rightarrow> string \<Rightarrow> 'a) \<Rightarrow> (string \<Rightarrow> string \<Rightarrow> 'a) \<Rightarrow> 'a::linordered_idom \<Rightarrow> string \<Rightarrow> row list \<Rightarrow> row list" where
  "by_score vdist sim wgt q rs =
     filter (\<lambda>r. vec_score vdist q r = None) rs @
     sort_key (\<lambda>r. - (the (vec_score vdist q r) + wgt * sim (r_search_text r) q))
       (filter (\<lambda>r. vec_score vdist q r \<noteq> None) rs)"

definition search_hit ::
  "'a search_cfg \<Rightarrow> (string \<Rightarrow> string \<Rightarrow> 'a::linordered_idom) \<Rightarrow> (string \<Rightarrow> string \<Rightarrow> 'a) \<Rightarrow> string \<Rightarrow> row \<Rightarrow> bool" where
  "search_hit cfg vdist sim q r \<longleftrightarrow>
     (case vec_score vdist q r of None \<Rightarrow> False | Some v \<Rightarrow> sc_vector_threshold cfg \<le> v) \<or>
     sc_trigram_threshold cfg \<le> sim (r_search_text r) q"

definition memory_search ::
  "'a search_cfg \<Rightarrow> (string \<Rightarrow> string \<Rightarrow> 'a::linordered_idom) \<Rightarrow> (string \<Rightarrow> string \<Rightarrow> 'a) \<Rightarrow>
   string list \<Rightarrow> string \<Rightarrow> string \<Rightarrow> string \<Rightarrow> string option \<Rightarrow> nat \<Rightarrow> bool \<Rightarrow> instant \<Rightarrow> table
     \<Rightarrow> row list res \<times> table" where
  "memory_search cfg vdist sim nss0 q sc0 uid0 pr0 lim include_superseded now t =
     (let sc = py_lower sc0; uid = py_lower uid0; pr = map_option py_lower pr0;
          nss = map py_lower nss0;
          cands = filter (\<lambda>r. in_partition nss sc uid pr now r \<and> (include_superseded \<or> \<not> drained r)) t;
          near = take (lim * 3) (by_distance vdist q cands);
          rows = take lim (by_score vdist sim (sc_trigram_weight cfg) q
                            (filter (search_hit cfg vdist sim q) near))
      in if list_ex (\<lambda>r. r_embedded r = None) rows then (Inl TypeError, t)
         else (Inr rows,
               sql_update (\<lambda>r. list_ex (\<lambda>h. r_namespace h = r_namespace r \<and> r_key h = r_key r) rows
                     \<and> r_scope r = sc \<and> (uid = ''*'' \<and> sc = ''project'' \<or> r_user_id r = uid)
                     \<and> r_project r = pr) (touch now) t))"

definition memory_keys ::
  "string list \<Rightarrow> string \<Rightarrow> string \<Rightarrow> string \<Rightarrow> string option \<Rightarrow> nat \<Rightarrow> instant \<Rightarrow> table
     \<Rightarrow> row list \<times> nat" where
  "memory_keys nss0 pre sc0 uid0 pr0 lim now t =
     (let sc = py_lower sc0; uid = py_lower uid0; pr = map_option py_lower pr0;
          matches = filter (\<lambda>r. in_partition (map py_lower nss0) sc uid pr now r
                                 \<and> sql_like (r_key r) (prefix_pattern pre)) t;
          rows = take lim (sort_key (\<lambda>r. [r_key r, r_namespace r, r_user_id r]) matches)
      in (rows, if rows = [] then 0 else length matches))"

section \<open>Retirement and destruction\<close>

definition controller :: "row \<Rightarrow> string option" where
  "controller r = (case or_none (or_empty (r_custodian r)) of Some c \<Rightarrow> Some c | None \<Rightarrow> r_owner r)"

definition memory_forget ::
  "ukey \<Rightarrow> string option \<Rightarrow> bool \<Rightarrow> table \<Rightarrow> bool res \<times> table" where
  "memory_forget k0 actor is_admin t =
     (let k = normalize_key_fields k0;
          denied = (if actor \<noteq> None \<and> \<not> is_admin
                    then case row_at k t of None \<Rightarrow> None
                         | Some r \<Rightarrow> (case controller r of None \<Rightarrow> None
                                     | Some c \<Rightarrow> if Some c \<noteq> actor then Some c else None)
                    else None)
      in case denied of
           Some c \<Rightarrow> (Inl (ForgetDenied c actor), t)
         | None \<Rightarrow> (Inr (sql_count (\<lambda>r. ukey_of r = k) t = 1), sql_delete (\<lambda>r. ukey_of r = k) t))"

definition flag_stamp :: "string option \<Rightarrow> string \<Rightarrow> string option \<Rightarrow> instant \<Rightarrow> jobj" where
  "flag_stamp actor reason prior now =
     [(''status'', JStr ''deletion_requested''), (''deletion_flagged_at'', JTime now),
      (''deletion_flagged_by_principal'', jopt actor), (''deletion_reason'', JStr (py_strip reason))]
     @ (case prior of None \<Rightarrow> []
        | Some p \<Rightarrow> if p = '''' then [] else [(''deletion_prior_status'', JStr p)])"

definition memory_flag_deletion ::
  "ukey \<Rightarrow> string option \<Rightarrow> string \<Rightarrow> instant \<Rightarrow> table \<Rightarrow> row option res \<times> table" where
  "memory_flag_deletion k0 actor reason now t =
     (let k = normalize_key_fields k0
      in if fst (snd (snd k)) \<notin> set DATA_SCOPES then (Inl ValueError, t)
         else if py_strip reason = '''' then (Inl ValueError, t)
         else let prior = Option.bind (row_at k t) status;
                  hit = (\<lambda>r. ukey_of r = k \<and> or_empty (status r) \<noteq> ''deletion_requested'')
              in (Inr (fetchrow hit t), sql_update hit (stamp_md (flag_stamp actor reason prior now)) t))"

text \<open>\<^verbatim>\<open>ORDER BY metadata->>'deletion_flagged_at' NULLS LAST\<close>.\<close>

definition deletion_queue_list :: "nat \<Rightarrow> table \<Rightarrow> row list" where
  "deletion_queue_list lim t =
     (let q = filter (\<lambda>r. status r = Some ''deletion_requested'') t;
          at = (\<lambda>r. jget_text (md r) ''deletion_flagged_at'')
      in take lim (sort_key (\<lambda>r. or_empty (at r)) (filter (\<lambda>r. at r \<noteq> None) q)
                   @ filter (\<lambda>r. at r = None) q))"

definition rejected_md :: "string option \<Rightarrow> string \<Rightarrow> instant \<Rightarrow> jobj \<Rightarrow> jobj" where
  "rejected_md actor reason now m =
     (let m1 = jdel ''deletion_prior_status'' m;
          m2 = (case jget_str m ''deletion_prior_status'' of
                  None \<Rightarrow> jdel ''status'' m1
                | Some p \<Rightarrow> if p = '''' then jdel ''status'' m1 else jput ''status'' (JStr p) m1)
      in jput ''deletion_rejected_reason'' (JStr (py_strip reason))
           (jput ''deletion_rejected_by_principal'' (jopt actor)
             (jput ''deletion_rejected_at'' (JTime now) m2)))"

definition deletion_queue_reject ::
  "ukey \<Rightarrow> string option \<Rightarrow> string \<Rightarrow> instant \<Rightarrow> table \<Rightarrow> row option res \<times> table" where
  "deletion_queue_reject k0 actor reason now t =
     (let k = normalize_key_fields k0
      in if py_strip reason = '''' then (Inl ValueError, t)
         else case fetchrow (\<lambda>r. ukey_of r = k \<and> status r = Some ''deletion_requested'') t of
                None \<Rightarrow> (Inr None, t)
              | Some r \<Rightarrow> (Inr (Some r),
                  sql_update (\<lambda>s. ukey_of s = k) (set_md (rejected_md actor reason now (md r))) t))"

definition in_estate :: "string \<Rightarrow> string option \<Rightarrow> string option \<Rightarrow> row \<Rightarrow> bool" where
  "in_estate from_p ns pr r \<longleftrightarrow>
     (r_custodian r = Some from_p \<or> (r_custodian r = None \<and> r_owner r = Some from_p)) \<and>
     r_scope r \<in> set DATA_SCOPES \<and>
     (ns = None \<or> Some (r_namespace r) = ns) \<and>
     (pr = None \<or> r_project r = pr)"

definition set_custodian :: "string \<Rightarrow> row \<Rightarrow> row" where
  "set_custodian c r = r\<lparr>r_custodian := Some c\<rparr>"

definition estate_transfer ::
  "string option \<Rightarrow> string option \<Rightarrow> string option \<Rightarrow> string option \<Rightarrow> bool \<Rightarrow> table
     \<Rightarrow> nat res \<times> table" where
  "estate_transfer from_principal to_principal ns pr dry_run t =
     (let from_p = norm from_principal; to_p = norm to_principal
      in if from_p = '''' \<or> to_p = '''' then (Inl ValueError, t)
         else if from_p = to_p then (Inl ValueError, t)
         else (Inr (sql_count (in_estate from_p ns pr) t),
               if dry_run then t
               else sql_update (in_estate from_p ns pr) (set_custodian to_p) t))"

definition partition_siblings ::
  "string list \<Rightarrow> string \<Rightarrow> string option \<Rightarrow> string option \<Rightarrow> instant \<Rightarrow> table \<Rightarrow> string list" where
  "partition_siblings nss0 key0 pr0 exclude now t =
     (let ex = or_none (py_lower (or_empty exclude))
      in sort (map r_user_id (filter (\<lambda>r. r_namespace r \<in> set (map py_lower nss0)
              \<and> r_key r = py_lower key0 \<and> r_scope r = ''project''
              \<and> r_project r = map_option py_lower pr0 \<and> Some (r_user_id r) \<noteq> ex
              \<and> unexpired now r) t)))"

definition supersede_target ::
  "string list \<Rightarrow> string \<Rightarrow> string option \<Rightarrow> string \<Rightarrow> string \<Rightarrow> row \<Rightarrow> bool" where
  "supersede_target nss key pr target sc r \<longleftrightarrow>
     r_namespace r \<in> set nss \<and> r_key r = key \<and> r_scope r = sc \<and> r_user_id r = target \<and> r_project r = pr"

definition lifecycle_stamp :: "string option \<Rightarrow> string \<Rightarrow> string option \<Rightarrow> instant \<Rightarrow> jobj" where
  "lifecycle_stamp actor reason replacement now =
     [(''status'', JStr ''superseded''), (''superseded_at'', JTime now),
      (''superseded_by_principal'', jopt actor), (''superseded_reason'', JStr (py_strip reason))]
     @ (case replacement of None \<Rightarrow> []
        | Some k \<Rightarrow> if k = '''' then [] else [(''superseded_by_key'', JStr (py_strip k))])"

definition supersede_scope :: "string option \<Rightarrow> string" where
  "supersede_scope sc = py_lower (case sc of None \<Rightarrow> ''project'' | Some x \<Rightarrow> if x = '''' then ''project'' else x)"

definition memory_supersede ::
  "string list \<Rightarrow> string \<Rightarrow> string option \<Rightarrow> string \<Rightarrow> string option \<Rightarrow> string \<Rightarrow> string option
     \<Rightarrow> string option \<Rightarrow> instant \<Rightarrow> table \<Rightarrow> row option res \<times> table" where
  "memory_supersede nss0 key0 pr0 target0 actor reason replacement sc0 now t =
     (let sc = supersede_scope sc0
      in if sc \<noteq> ''project'' \<and> sc \<noteq> ''shared'' then (Inl ValueError, t)
         else let pr = (if sc = ''shared'' then None else map_option py_lower pr0);
                  hit = (\<lambda>r. supersede_target (map py_lower nss0) (py_lower key0) pr (py_lower target0) sc r
                             \<and> or_empty (status r) \<noteq> ''superseded'')
         in if py_strip reason = '''' then (Inl ValueError, t)
         else (Inr (fetchrow hit t), sql_update hit (stamp_md (lifecycle_stamp actor reason replacement now)) t))"

definition supersede_stamp ::
  "string list \<Rightarrow> string \<Rightarrow> string option \<Rightarrow> string \<Rightarrow> string option \<Rightarrow> table
     \<Rightarrow> (string option \<times> string option \<times> string option \<times> string option) option" where
  "supersede_stamp nss0 key0 pr0 target0 sc0 t =
     (let sc = supersede_scope sc0; pr = (if sc = ''shared'' then None else map_option py_lower pr0)
      in map_option (\<lambda>r. (jget_str (md r) ''superseded_at'', jget_str (md r) ''superseded_by_principal'',
                          jget_str (md r) ''superseded_reason'', jget_str (md r) ''superseded_by_key''))
           (fetchrow (\<lambda>r. supersede_target (map py_lower nss0) (py_lower key0) pr (py_lower target0) sc r
                           \<and> status r = Some ''superseded'') t))"

section \<open>Writers and the unique index\<close>

interpretation heir: row_writer "set_custodian c" for c
  by unfold_locales (simp_all add: set_custodian_def)

interpretation overwriting: row_writer "overwrite r" for r
  by unfold_locales (simp_all add: overwrite_def ukey_of_def)

lemma ukey_written_row [simp]: "ukey_of (written_row k w now) = k"
  by (cases k) (simp add: written_row_def Let_def new_row_def ukey_of_def)

lemma written_row_simps [simp]:
  "r_value (written_row k w now) = wr_value w" "r_owner (written_row k w now) = wr_owner w"
  "r_metadata (written_row k w now) = (if wr_metadata w = Some [] then None else wr_metadata w)"
  "r_expires_at (written_row k w now) =
     (if 0 < wr_expiration_days w then Some (now + hours (24 * wr_expiration_days w)) else None)"
  by (cases k; simp add: written_row_def Let_def new_row_def)+

definition stored :: "row \<Rightarrow> table \<Rightarrow> row" where
  "stored r t = (case row_at (ukey_of r) t of None \<Rightarrow> r\<lparr>r_id := next_id t\<rparr> | Some old \<Rightarrow> overwrite r old)"

lemma stored_simps [simp]:
  "ukey_of (stored r t) = ukey_of r" "r_value (stored r t) = r_value r" "r_owner (stored r t) = r_owner r"
  "r_metadata (stored r t) = r_metadata r" "r_expires_at (stored r t) = r_expires_at r"
  by (auto simp: stored_def overwrite_def ukey_of_def split: option.split dest!: row_at_Some)

lemma upsert_memory_table:
  "snd (upsert_memory r t) =
     (case row_at (ukey_of r) t of None \<Rightarrow> t @ [stored r t]
      | Some old \<Rightarrow> sql_update (\<lambda>s. ukey_of s = ukey_of r) (overwrite r) t)"
  by (simp add: upsert_memory_def insert_do_update_def stored_def split: option.split)

lemma upsert_memory_row_at:
  "row_at k (snd (upsert_memory r t)) = (if k = ukey_of r then Some (stored r t) else row_at k t)"
proof (cases "row_at (ukey_of r) t")
  case None
  then show ?thesis by (auto simp: upsert_memory_table row_at_append split: option.split)
next
  case (Some old)
  have "map_option (\<lambda>s. if ukey_of s = ukey_of r then overwrite r s else s) (row_at k t) = row_at k t"
    if "k \<noteq> ukey_of r"
    using that by (cases "row_at k t") (auto dest: row_at_Some)
  moreover have "ukey_of old = ukey_of r" using Some by (simp add: row_at_Some)
  ultimately show ?thesis
    using Some by (simp add: upsert_memory_table overwriting.row_at_update stored_def)
qed

lemma upsert_memory_ok: "table_ok t \<Longrightarrow> table_ok (snd (upsert_memory r t))"
  unfolding upsert_memory_def
  by (rule table_ok_insert_do_update [OF _ overwriting.row_writer_axioms])

lemma insert_if_absent_None: "insert_if_absent r t = (None, t') \<Longrightarrow> row_at (ukey_of r) t \<noteq> None \<and> t' = t"
  by (auto simp: insert_if_absent_def insert_do_nothing_def split: option.splits)

lemma insert_if_absent_Some:
  "insert_if_absent r t = (Some i, t') \<Longrightarrow> row_at (ukey_of r) t = None \<and> t' = snd (upsert_memory r t)"
  by (auto simp: insert_if_absent_def insert_do_nothing_def upsert_memory_def insert_do_update_def
      split: option.splits)

lemma memory_write_Inl: "memory_write sha k w now t = (Inl e, t') \<Longrightarrow> t' = t"
  by (auto simp: memory_write_def Let_def split: option.splits if_splits prod.splits)

text \<open>Every write that is not refused stores the row, and goes on to the collapse
  unless it was create-only.\<close>

lemma memory_write_Inr:
  assumes "memory_write sha k w now t = (Inr (c, g), t')"
  shows "t' = snd (upsert_memory (written_row k w now) t) \<and> (g \<longleftrightarrow> wr_if_match w \<noteq> Some '''')"
proof (cases "wr_if_match w = Some ''''")
  case True
  with assms show ?thesis
    by (auto simp: memory_write_def Let_def split: option.splits if_splits prod.splits
        dest!: insert_if_absent_Some)
next
  case False
  with assms show ?thesis
    by (auto simp: memory_write_def Let_def split: option.splits if_splits prod.splits)
qed

lemma twin_not_self: "twin_of k r \<Longrightarrow> ukey_of r \<noteq> k"
  by (cases k) (simp add: twin_of_def ukey_of_def)

lemma collapse_row_at: "row_at k (collapse_twins k w now t) = row_at k t"
  unfolding collapse_twins_def stamp_doc.row_at_update
  by (cases "row_at k t") (auto dest!: row_at_Some twin_not_self)

lemma collapse_ok [simp]: "table_ok t \<Longrightarrow> table_ok (collapse_twins k w now t)"
  by (simp add: collapse_twins_def stamp_doc.table_ok_update)

lemma memory_set_Inl: "memory_set sha k w now t = (Inl e, t') \<Longrightarrow> t' = t"
  by (auto simp: memory_set_def Let_def split: sum.splits prod.splits dest: memory_write_Inl)

lemma memory_set_Inr:
  assumes "memory_set sha k w now t = (Inr out, t')"
  shows "let n = normalize_key_fields k; t1 = snd (upsert_memory (written_row n w now) t)
    in t' = (if wr_if_match w \<noteq> Some '''' \<and> fst (snd (snd n)) = ''project'' then collapse_twins n w now t1 else t1)
       \<and> snd (snd out) = compute_version sha (Some (wr_value w))"
  using assms by (auto simp: memory_set_def Let_def split: sum.splits prod.splits if_splits
      dest!: memory_write_Inr)

lemma memory_set_ok: "table_ok t \<Longrightarrow> memory_set sha k w now t = (r, t') \<Longrightarrow> table_ok t'"
proof (cases r)
  case (Inl e)
  assume "table_ok t" "memory_set sha k w now t = (r, t')"
  with Inl show ?thesis using memory_set_Inl by blast
next
  case (Inr out)
  assume ok: "table_ok t" and m: "memory_set sha k w now t = (r, t')"
  from memory_set_Inr [OF m [unfolded Inr]] upsert_memory_ok [OF ok] show ?thesis
    by (simp add: Let_def)
qed

lemma memory_set_row_at:
  assumes "memory_set sha k w now t = (Inr out, t')"
  shows "row_at (normalize_key_fields k) t' =
    Some (stored (written_row (normalize_key_fields k) w now) t)"
  using memory_set_Inr [OF assms] by (auto simp: Let_def collapse_row_at upsert_memory_row_at)

section \<open>Reads after writes\<close>

definition written_status :: "set_req \<Rightarrow> string" where
  "written_status w = or_empty (Option.bind (wr_metadata w) (\<lambda>m. jget_text m ''status''))"

lemma stored_status: "or_empty (status (stored (written_row k w now) t)) = written_status w"
  by (cases "wr_metadata w")
     (simp_all add: status_def md_def written_status_def jget_text_def)

lemma fetchrow_row_at:
  assumes "table_ok t" and "row_at k t = Some r" and "P r"
  shows "fetchrow (\<lambda>s. ukey_of s = k \<and> P s) t = Some r"
proof -
  from assms(2) have r: "r \<in> set t" "ukey_of r = k" by (simp_all add: row_at_Some)
  then obtain s where s: "fetchrow (\<lambda>s. ukey_of s = k \<and> P s) t = Some s"
    using assms(3) fetchrow_None [of "\<lambda>s. ukey_of s = k \<and> P s" t]
    by (cases "fetchrow (\<lambda>s. ukey_of s = k \<and> P s) t") auto
  then have "s \<in> set t" "ukey_of s = k" by (auto dest: fetchrow_Some)
  with r assms(1) have "s = r" by (auto simp: table_ok_def intro: distinct_map_inj)
  with s show ?thesis by simp
qed

lemma normalize_idem [simp]: "normalize_key_fields (normalize_key_fields k) = normalize_key_fields k"
  by (cases k) (simp add: normalize_key_fields_def option.map_comp comp_def)

lemma py_lower_literals: "py_lower ''project'' = ''project''" "py_lower ''*'' = ''*''"
  by code_simp+

lemma normalize_project:
  "normalize_key_fields (ns, key, ''project'', uid, pr) =
     (py_lower ns, py_lower key, ''project'', py_lower uid, map_option py_lower pr)"
  unfolding normalize_key_fields_def prod.case py_lower_literals by (rule refl)

lemma memory_get_exact:
  assumes "table_ok t" and "row_at (normalize_key_fields k) t = Some r"
    and "\<not> all_writers (normalize_key_fields k)" and "unexpired now r"
    and "or_empty (status r) \<noteq> ''deletion_requested''"
  shows "fst (memory_get sha k now t) = Some \<lparr>mi_row = r, mi_version = compute_version sha (Some (r_value r))\<rparr>"
  using assms fetchrow_row_at [of t "normalize_key_fields k" r
      "\<lambda>s. unexpired now s \<and> or_empty (status s) \<noteq> ''deletion_requested''"]
  by (simp add: memory_get_def Let_def)

lemma logical_row_split: "logical_row k r \<longleftrightarrow> ukey_of r = k \<or> twin_of k r"
  by (cases k) (auto simp: logical_row_def ukey_of_def twin_of_def)

lemma drained_collapsed [simp]: "drained (stamp_md (collapse_stamp k w now) r)"
  by (simp add: drained_def status_def collapse_stamp_def or_empty_def HIDDEN_STATUSES_def)

lemma filter_ukey:
  assumes "table_ok t" and "row_at k t = Some r"
  shows "filter (\<lambda>s. ukey_of s = k) t = [r]"
  using assms filter_unique [of ukey_of t r] row_at_Some [OF assms(2)] by (simp add: table_ok_def)

lemma collapse_live_rows:
  assumes "table_ok t" and "row_at k t = Some r" and "\<not> drained r"
  shows "filter (\<lambda>s. logical_row k s \<and> \<not> drained s) (collapse_twins k w now t) = [r]"
proof -
  let ?f = "\<lambda>s. if twin_of k s \<and> \<not> drained s then stamp_md (collapse_stamp k w now) s else s"
  have "filter (\<lambda>s. logical_row k s \<and> \<not> drained s) (map ?f t) = filter (\<lambda>s. ukey_of s = k \<and> \<not> drained s) t"
  proof (induction t)
    case (Cons s t)
    then show ?case using twin_not_self [of k s] by (auto simp: logical_row_split)
  qed simp
  also have "\<dots> = filter (\<lambda>s. \<not> drained s) (filter (\<lambda>s. ukey_of s = k) t)" by (simp add: conj_commute)
  finally show ?thesis using filter_ukey [OF assms(1,2)] assms(3)
    by (simp add: collapse_twins_def sql_update_def)
qed

section \<open>Properties of the write\<close>

definition demo_write :: "string \<Rightarrow> string \<Rightarrow> string option \<Rightarrow> set_req" where
  "demo_write who v m = \<lparr>wr_value = v, wr_tags = [], wr_tags_search = [], wr_expiration_days = 0,
     wr_metadata = None, wr_owner = Some who, wr_if_match = m, wr_is_admin = False\<rparr>"

definition demo_key :: "string \<Rightarrow> ukey" where
  "demo_key uid = (''fleet'', ''startup/next'', ''project'', uid, Some ''engram'')"

text \<open>C27. Read after write: whatever an accepted write stored under a partition, an
  exact read of that partition returns, with the version the write reported, until it
  expires.\<close>

theorem memory_set_then_get:
  assumes "table_ok t" and "memory_set sha k w now t = (Inr out, t')"
    and "\<not> all_writers (normalize_key_fields k)"
    and "written_status w \<noteq> ''deletion_requested''"
    and "0 < wr_expiration_days w \<Longrightarrow> later < now + hours (24 * wr_expiration_days w)"
  shows "\<exists>i. fst (memory_get sha k later t') = Some i \<and> r_value (mi_row i) = wr_value w \<and>
     r_owner (mi_row i) = wr_owner w \<and> mi_version i = snd (snd out)"
proof -
  let ?r = "stored (written_row (normalize_key_fields k) w now) t"
  have "unexpired later ?r" using assms(5) by (simp add: unexpired_def)
  moreover have "or_empty (status ?r) \<noteq> ''deletion_requested''"
    using assms(4) by (simp add: stored_status)
  ultimately show ?thesis
    using memory_get_exact [OF memory_set_ok [OF assms(1,2)] memory_set_row_at [OF assms(2)] assms(3)]
      memory_set_Inr [OF assms(2)] by (simp add: Let_def)
qed

theorem memory_set_then_get_witness:
  "\<exists>i. fst (memory_get id (demo_key ''codex'') 9 (snd (memory_set id (demo_key ''codex'')
      (demo_write ''codex'' ''ship it'' None) 5 []))) = Some i \<and>
     r_value (mi_row i) = ''ship it'' \<and> mi_version i = ''ship it''"
proof -
  let ?w = "demo_write ''codex'' ''ship it'' None"
  have m: "memory_set id (demo_key ''codex'') ?w 5 [] =
      (Inr (''startup/next'', True, ''ship it''), snd (memory_set id (demo_key ''codex'') ?w 5 []))"
    and a: "all_writers (normalize_key_fields (demo_key ''codex'')) = False"
    and s: "(written_status ?w = ''deletion_requested'') = False"
    and o: "table_ok []" by code_simp+
  have e: "wr_expiration_days ?w = 0" and v: "wr_value ?w = ''ship it''" by (simp_all add: demo_write_def)
  from memory_set_then_get [OF o m, of 9] show ?thesis by (auto simp: a s e v)
qed

text \<open>C4. No lost update: after an accepted write, a second write of the same partition
  that presents any other version than the one just reported (or asserts that the
  partition is empty while the row is live) is refused and changes nothing; a version
  refusal carries the value it lost to.\<close>

theorem stale_version_is_refused:
  assumes "memory_set sha k w now t = (Inr out, t')"
    and "wr_if_match w2 = Some v" and "v \<noteq> snd (snd out)"
    and "v = '''' \<Longrightarrow> written_status w \<notin> set HIDDEN_STATUSES"
  shows "\<exists>e. memory_set sha k w2 now2 t' = (Inl e, t') \<and>
    (e = VersionConflict (Some (wr_value w)) (snd (snd out)) \<or>
     (\<exists>o'. wr_owner w = Some o' \<and> e = OwnershipConflict o' (wr_owner w2)))"
proof -
  let ?n = "normalize_key_fields k"
  let ?r = "stored (written_row ?n w now) t"
  have at: "row_at ?n t' = Some ?r" by (rule memory_set_row_at [OF assms(1)])
  have ver: "snd (snd out) = compute_version sha (Some (wr_value w))"
    using memory_set_Inr [OF assms(1)] by (simp add: Let_def)
  have dr: "v = '''' \<Longrightarrow> \<not> drained ?r" using assms(4) by (simp add: drained_def stored_status)
  have ins: "insert_if_absent (written_row ?n w2 now2) t' = (None, t')"
    using at by (simp add: insert_if_absent_def insert_do_nothing_def)
  show ?thesis
    using assms(2,3) at dr ver ins
    by (auto simp: memory_set_def memory_write_def Let_def ownership_conflict_def split: option.splits)
qed

theorem stale_version_is_refused_witness:
  "\<exists>e. memory_set id (demo_key ''codex'') (demo_write ''codex'' ''mine'' (Some ''old'')) 6
       (snd (memory_set id (demo_key ''codex'') (demo_write ''codex'' ''ship it'' None) 5 [])) =
     (Inl e, snd (memory_set id (demo_key ''codex'') (demo_write ''codex'' ''ship it'' None) 5 []))"
proof -
  let ?w = "demo_write ''codex'' ''ship it'' None"
  have m: "memory_set id (demo_key ''codex'') ?w 5 [] =
      (Inr (''startup/next'', True, ''ship it''), snd (memory_set id (demo_key ''codex'') ?w 5 []))"
    by code_simp
  have i: "wr_if_match (demo_write ''codex'' ''mine'' (Some ''old'')) = Some ''old''"
    by (simp add: demo_write_def)
  from stale_version_is_refused [OF m i] show ?thesis by auto
qed

text \<open>Project memory belongs to its writer: an accepted write by anyone but an
  admin replaced a row of the writer's own, one without a recorded author, or one that
  was already retired.\<close>

theorem project_write_respects_owner:
  assumes "memory_set sha k w now t = (Inr out, t')"
    and "fst (snd (snd (normalize_key_fields k))) = ''project''" and "\<not> wr_is_admin w"
    and "row_at (normalize_key_fields k) t = Some r"
  shows "r_owner r = None \<or> r_owner r = wr_owner w \<or> drained r"
proof (rule ccontr)
  assume c: "\<not> ?thesis"
  then obtain o' where "r_owner r = Some o'" by auto
  with c assms show False
    by (auto simp: memory_set_def memory_write_def Let_def enforce_owner_def ownership_conflict_def)
qed

theorem project_write_respects_owner_witness:
  "r_owner (the (row_at (demo_key ''codex'')
      (snd (memory_set id (demo_key ''codex'') (demo_write ''codex'' ''a'' None) 5 [])))) = Some ''codex''"
proof -
  let ?t = "snd (memory_set id (demo_key ''codex'') (demo_write ''codex'' ''a'' None) 5 [])"
  let ?w = "demo_write ''codex'' ''b'' None"
  have m: "memory_set id (demo_key ''codex'') ?w 6 ?t =
      (Inr (''startup/next'', False, ''b''), snd (memory_set id (demo_key ''codex'') ?w 6 ?t))"
    and p: "fst (snd (snd (normalize_key_fields (demo_key ''codex'')))) = ''project''"
    and n: "normalize_key_fields (demo_key ''codex'') = demo_key ''codex''"
    and d: "drained (the (row_at (demo_key ''codex'') ?t)) = False"
    and o: "(r_owner (the (row_at (demo_key ''codex'') ?t)) = None) = False"
    and s: "(row_at (demo_key ''codex'') ?t = None) = False"
    by code_simp+
  have a: "\<not> wr_is_admin ?w" and ow: "wr_owner ?w = Some ''codex''" by (simp_all add: demo_write_def)
  from s have r: "row_at (normalize_key_fields (demo_key ''codex'')) ?t = Some (the (row_at (demo_key ''codex'') ?t))"
    unfolding n by simp
  from project_write_respects_owner [OF m p a r] show ?thesis unfolding ow using d o by blast
qed

text \<open>C5. Project memory has one current value: after an accepted project write that is not create-only
  and does not give its row a hidden status itself, the row just written is the only live row of its key in the
  project, whoever wrote the others, and a read across all writers returns it until it expires. (A
  create-only write retires no row of another writer: \<open>create_only_leaves_twin\<close> below.)\<close>

theorem project_write_is_the_one_live_row:
  assumes "table_ok t" and "memory_set sha (ns, key, ''project'', uid, pr) w now t = (Inr out, t')"
    and "wr_if_match w \<noteq> Some ''''" and "written_status w \<notin> set HIDDEN_STATUSES"
    and "0 < wr_expiration_days w \<Longrightarrow> later < now + hours (24 * wr_expiration_days w)"
  shows "\<exists>r. filter (\<lambda>s. logical_row (normalize_key_fields (ns, key, ''project'', uid, pr)) s \<and> \<not> drained s) t' = [r] \<and>
    r_user_id r = py_lower uid \<and> r_value r = wr_value w \<and>
    map_option mi_row (fst (memory_get sha (ns, key, ''project'', ''*'', pr) later t')) = Some r"
proof -
  let ?k = "normalize_key_fields (ns, key, ''project'', uid, pr)"
  let ?a = "normalize_key_fields (ns, key, ''project'', ''*'', pr)"
  let ?t = "snd (upsert_memory (written_row ?k w now) t)"
  let ?r = "stored (written_row ?k w now) t"
  have star: "?a = (py_lower ns, py_lower key, ''project'', ''*'', map_option py_lower pr)"
    unfolding normalize_project py_lower_literals by (rule refl)
  have t': "t' = collapse_twins ?k w now ?t"
    using memory_set_Inr [OF assms(2)] assms(3) by (simp add: Let_def normalize_project)
  have dr: "\<not> drained ?r" using assms(4) by (simp add: drained_def stored_status)
  have ok: "table_ok ?t" by (rule upsert_memory_ok [OF assms(1)])
  have at: "row_at ?k ?t = Some ?r" by (simp add: upsert_memory_row_at)
  have one: "filter (\<lambda>s. logical_row ?k s \<and> \<not> drained s) t' = [?r]"
    unfolding t' by (rule collapse_live_rows [OF ok at dr])
  have log: "logical_row ?a = logical_row ?k" unfolding star normalize_project by (simp add: logical_row_def fun_eq_iff)
  have un: "unexpired later ?r" using assms(5) by (simp add: unexpired_def)
  have "filter (\<lambda>s. logical_row ?k s \<and> unexpired later s \<and> \<not> drained s) t'
      = filter (unexpired later) (filter (\<lambda>s. logical_row ?k s \<and> \<not> drained s) t')"
    by (simp add: conj_ac)
  then have live: "filter (\<lambda>s. logical_row ?k s \<and> unexpired later s \<and> \<not> drained s) t' = [?r]"
    using one un by simp
  have all: "all_writers ?a" unfolding star by (simp add: all_writers_def)
  have "ukey_of ?r = ?k" by simp
  then have "r_user_id ?r = py_lower uid" by (simp add: ukey_of_def normalize_project)
  moreover have "map_option mi_row (fst (memory_get sha (ns, key, ''project'', ''*'', pr) later t')) = Some ?r"
    by (simp add: memory_get_def Let_def all log live newest_def)
  ultimately show ?thesis using one by simp
qed

theorem project_write_is_the_one_live_row_witness:
  "\<exists>r. map_option mi_row (fst (memory_get id (demo_key ''*'') 9
      (snd (memory_set id (demo_key ''claude'') (demo_write ''claude'' ''b'' None) 6
        (snd (memory_set id (demo_key ''codex'') (demo_write ''codex'' ''a'' None) 5 [])))))) = Some r \<and>
     r_value r = ''b''"
proof -
  let ?t = "snd (memory_set id (demo_key ''codex'') (demo_write ''codex'' ''a'' None) 5 [])"
  let ?w = "demo_write ''claude'' ''b'' None"
  have m: "memory_set id (''fleet'', ''startup/next'', ''project'', ''claude'', Some ''engram'') ?w 6 ?t =
      (Inr (''startup/next'', True, ''b''), snd (memory_set id (demo_key ''claude'') ?w 6 ?t))"
    and o: "table_ok ?t" and h: "(written_status ?w \<in> set HIDDEN_STATUSES) = False" by code_simp+
  have i: "wr_if_match ?w \<noteq> Some ''''" and e: "wr_expiration_days ?w = 0" and v: "wr_value ?w = ''b''"
    by (simp_all add: demo_write_def)
  from project_write_is_the_one_live_row [OF o m i, of 9] h show ?thesis
    by (auto simp: e v demo_key_def)
qed

text \<open>The collapse runs after the transaction of the write, so two writers of one
  project key can interleave: each stores its row, then each retires the other's. No live
  row remains and a read across all writers finds nothing.\<close>

theorem collapse_race_loses_both:
  "let a = demo_key ''codex''; b = demo_key ''claude'';
       wa = demo_write ''codex'' ''x'' None; wb = demo_write ''claude'' ''y'' None;
       t2 = snd (memory_write id b wb 6 (snd (memory_write id a wa 5 [])));
       t4 = collapse_twins b wb 8 (collapse_twins a wa 7 t2)
   in map r_value t4 = [''x'', ''y''] \<and> list_all drained t4 \<and>
      fst (memory_get id (demo_key ''*'') 9 t4) = None"
  by code_simp

text \<open>A create-only write skips the collapse: it leaves the row another writer holds
  under the same project key live beside the new one.\<close>

lemma create_only_leaves_twin:
  "let t1 = snd (memory_set id (demo_key ''codex'') (demo_write ''codex'' ''x'' None) 5 []);
       t2 = snd (memory_set id (demo_key ''claude'') (demo_write ''claude'' ''y'' (Some '''')) 6 t1)
   in map (\<lambda>r. (r_value r, drained r)) t2 = [(''x'', False), (''y'', False)]"
  by code_simp

section \<open>Retirement and destruction\<close>

lemma forget_cases:
  assumes "row_at (normalize_key_fields k) t = Some r"
  shows "memory_forget k actor adm t =
    (if actor = None \<or> adm \<or> controller r = None \<or> controller r = actor
     then (Inr (sql_count (\<lambda>s. ukey_of s = normalize_key_fields k) t = 1),
           sql_delete (\<lambda>s. ukey_of s = normalize_key_fields k) t)
     else (Inl (ForgetDenied (the (controller r)) actor), t))"
  using assms by (cases "controller r") (auto simp: memory_forget_def Let_def)

lemma flag_row_at:
  assumes "row_at (normalize_key_fields k) t = Some r" and "fst (snd (snd (normalize_key_fields k))) \<in> set DATA_SCOPES"
    and "py_strip reason \<noteq> ''''" and "or_empty (status r) \<noteq> ''deletion_requested''"
  shows "row_at (normalize_key_fields k) (snd (memory_flag_deletion k actor reason now t)) =
    Some (stamp_md (flag_stamp actor reason (status r) now) r)"
  using assms row_at_Some [OF assms(1)]
  by (simp add: memory_flag_deletion_def Let_def stamp_doc.row_at_update)

lemma reject_row_at:
  assumes "table_ok t" and "row_at (normalize_key_fields k) t = Some r" and "status r = Some ''deletion_requested''"
    and "py_strip reason \<noteq> ''''"
  shows "row_at (normalize_key_fields k) (snd (deletion_queue_reject k actor reason now t)) =
    Some (set_md (rejected_md actor reason now (md r)) r)"
  using assms(2-4) row_at_Some [OF assms(2)] fetchrow_row_at [OF assms(1,2), of "\<lambda>s. status s = Some ''deletion_requested''"]
  by (simp add: deletion_queue_reject_def Let_def set_doc.row_at_update)

lemma status_flagged [simp]:
  "status (stamp_md (flag_stamp actor reason prior now) r) = Some ''deletion_requested''"
  by (simp add: status_def flag_stamp_def jget_text_def)

lemma flagged_prior:
  "jget_str (md (stamp_md (flag_stamp actor reason prior now) r)) ''deletion_prior_status'' =
     (if or_empty prior = '''' then jget_str (md r) ''deletion_prior_status'' else prior)"
  by (cases prior) (simp_all add: flag_stamp_def jget_str_def or_empty_def)

lemma rejected_status:
  "status (set_md (rejected_md actor reason now m) r) = or_none (or_empty (jget_str m ''deletion_prior_status''))"
  by (cases "jget_str m ''deletion_prior_status''")
     (simp_all add: status_def rejected_md_def Let_def or_none_def or_empty_def)

lemma flag_ok: "table_ok t \<Longrightarrow> table_ok (snd (memory_flag_deletion k actor reason now t))"
  by (simp add: memory_flag_deletion_def Let_def stamp_doc.table_ok_update)

lemma estate_real:
  assumes "norm from_p \<noteq> ''''" and "norm to_p \<noteq> ''''" and "norm from_p \<noteq> norm to_p"
  shows "estate_transfer from_p to_p ns pr dry t =
    (Inr (sql_count (in_estate (norm from_p) ns pr) t),
     if dry then t else sql_update (in_estate (norm from_p) ns pr) (set_custodian (norm to_p)) t)"
  using assms by (simp add: estate_transfer_def Let_def)

section \<open>Properties of retirement and destruction\<close>

text \<open>C9. Destruction is self-only: a hard delete by an identified principal that is not
  an admin is refused, and changes nothing, unless that principal controls the row (or
  no controller was ever recorded); an admitted one removes that row and no other.\<close>

theorem memory_forget_is_self_only:
  assumes "table_ok t" and "row_at (normalize_key_fields k) t = Some r"
  shows "if actor = None \<or> adm \<or> controller r = None \<or> controller r = actor
    then fst (memory_forget k actor adm t) = Inr True \<and>
         row_at (normalize_key_fields k) (snd (memory_forget k actor adm t)) = None \<and>
         (\<forall>s. s \<in> set t \<and> s \<noteq> r \<longleftrightarrow> s \<in> set (snd (memory_forget k actor adm t)))
    else memory_forget k actor adm t = (Inl (ForgetDenied (the (controller r)) actor), t)"
proof -
  let ?n = "normalize_key_fields k"
  have r: "r \<in> set t" "ukey_of r = ?n" using row_at_Some [OF assms(2)] by auto
  have uniq: "ukey_of s = ?n \<longleftrightarrow> s = r" if "s \<in> set t" for s
    using that r assms(1) by (auto simp: table_ok_def intro: distinct_map_inj)
  have "sql_count (\<lambda>s. ukey_of s = ?n) t = 1"
    using filter_ukey [OF assms] by (simp add: sql_count_def)
  moreover have "row_at ?n (sql_delete (\<lambda>s. ukey_of s = ?n) t) = None" by (auto simp: row_at_None)
  ultimately show ?thesis using uniq by (auto simp: forget_cases [OF assms(2)])
qed

theorem memory_forget_is_self_only_witness:
  "memory_forget (demo_key ''codex'') (Some ''claude'') False
      (snd (memory_set id (demo_key ''codex'') (demo_write ''codex'' ''x'' None) 5 [])) =
     (Inl (ForgetDenied ''codex'' (Some ''claude'')),
      snd (memory_set id (demo_key ''codex'') (demo_write ''codex'' ''x'' None) 5 []))"
proof -
  let ?t = "snd (memory_set id (demo_key ''codex'') (demo_write ''codex'' ''x'' None) 5 [])"
  let ?r = "the (row_at (demo_key ''codex'') ?t)"
  have o: "table_ok ?t" and n: "normalize_key_fields (demo_key ''codex'') = demo_key ''codex''"
    and s: "(row_at (demo_key ''codex'') ?t = None) = False"
    and c: "controller ?r = Some ''codex''" by code_simp+
  from s have r: "row_at (normalize_key_fields (demo_key ''codex'')) ?t = Some ?r" unfolding n by simp
  from memory_forget_is_self_only [OF o r, of "Some ''claude''" False] show ?thesis by (simp add: c)
qed

text \<open>C29. A deletion request is reversible: flagging hides the row from an exact read at
  once, and rejecting the request brings back its lifecycle status, with its value and
  author untouched throughout.\<close>

theorem flag_then_reject_restores:
  assumes "table_ok t" and "row_at (normalize_key_fields k) t = Some r"
    and "fst (snd (snd (normalize_key_fields k))) \<in> set DATA_SCOPES"
    and "\<not> all_writers (normalize_key_fields k)"
    and "py_strip why \<noteq> ''''" and "py_strip why_not \<noteq> ''''"
    and "or_empty (status r) \<noteq> ''deletion_requested''"
    and "or_empty (status r) \<noteq> '''' \<or> jget (md r) ''deletion_prior_status'' = None"
  shows "fst (memory_get sha k n1 (snd (memory_flag_deletion k a why n0 t))) = None \<and>
    (\<exists>s. row_at (normalize_key_fields k)
          (snd (deletion_queue_reject k b why_not n2 (snd (memory_flag_deletion k a why n0 t)))) = Some s \<and>
       or_empty (status s) = or_empty (status r) \<and> r_value s = r_value r \<and> r_owner s = r_owner r)"
proof -
  let ?k = "normalize_key_fields k"
  let ?t1 = "snd (memory_flag_deletion k a why n0 t)"
  let ?f = "stamp_md (flag_stamp a why (status r) n0) r"
  let ?s = "set_md (rejected_md b why_not n2 (md ?f)) ?f"
  have at1: "row_at ?k ?t1 = Some ?f" by (rule flag_row_at [OF assms(2,3,5,7)])
  have ok1: "table_ok ?t1" by (rule flag_ok [OF assms(1)])
  have "fetchrow (\<lambda>x. ukey_of x = ?k \<and> unexpired n1 x \<and> or_empty (status x) \<noteq> ''deletion_requested'') ?t1 = None"
    unfolding fetchrow_None
  proof (intro ballI)
    fix x assume "x \<in> set ?t1"
    then have "x = ?f" if "ukey_of x = ?k" using that row_at_eq [OF ok1, of x] at1 by simp
    then show "\<not> (ukey_of x = ?k \<and> unexpired n1 x \<and> or_empty (status x) \<noteq> ''deletion_requested'')"
      by (auto simp: or_empty_def)
  qed
  then have hidden: "fst (memory_get sha k n1 ?t1) = None" using assms(4) by (simp add: memory_get_def Let_def)
  have at2: "row_at ?k (snd (deletion_queue_reject k b why_not n2 ?t1)) = Some ?s"
    by (rule reject_row_at [OF ok1 at1 _ assms(6)]) simp
  have prior: "jget_str (md ?f) ''deletion_prior_status'' = or_none (or_empty (status r))"
    using assms(8) unfolding flagged_prior
    by (cases "status r") (auto simp: or_none_def or_empty_def jget_str_def)
  have "or_empty (status ?s) = or_empty (status r)"
    unfolding rejected_status prior by (simp add: or_none_def or_empty_def)
  with hidden at2 show ?thesis by auto
qed

definition flag_demo :: table where
  "flag_demo = snd (memory_set id (demo_key ''codex'') (demo_write ''codex'' ''secret'' None) 5 [])"

theorem flag_then_reject_restores_witness:
  "fst (memory_get id (demo_key ''codex'') 7
      (snd (memory_flag_deletion (demo_key ''codex'') (Some ''claude'') ''leaked'' 6 flag_demo))) = None"
proof -
  let ?r = "the (row_at (demo_key ''codex'') flag_demo)"
  have o: "table_ok flag_demo" and n: "normalize_key_fields (demo_key ''codex'') = demo_key ''codex''"
    and s: "(row_at (demo_key ''codex'') flag_demo = None) = False"
    and d: "fst (snd (snd (normalize_key_fields (demo_key ''codex'')))) \<in> set DATA_SCOPES"
    and a: "\<not> all_writers (normalize_key_fields (demo_key ''codex''))"
    and w: "py_strip ''leaked'' \<noteq> ''''" and st: "or_empty (status ?r) \<noteq> ''deletion_requested''"
    and p: "or_empty (status ?r) \<noteq> '''' \<or> jget (md ?r) ''deletion_prior_status'' = None"
    by code_simp+
  from s have r: "row_at (normalize_key_fields (demo_key ''codex'')) flag_demo = Some ?r" unfolding n by simp
  from flag_then_reject_restores [OF o r d a w w st p] show ?thesis by blast
qed

text \<open>Superseding a row that awaits destruction takes it out of the queue and makes
  its value readable again: the guard of \<^verbatim>\<open>memory_supersede\<close> only skips rows that are
  already superseded.\<close>

theorem supersede_reopens_flagged_row:
  "let t1 = snd (memory_flag_deletion (demo_key ''codex'') (Some ''claude'') ''leaked credential'' 6 flag_demo);
       t2 = snd (memory_supersede [''fleet''] ''startup/next'' (Some ''engram'') ''codex''
              (Some ''anyone'') ''outdated'' None None 7 t1)
   in length (deletion_queue_list 10 t1) = 1 \<and> fst (memory_get id (demo_key ''codex'') 8 t1) = None \<and>
      deletion_queue_list 10 t2 = [] \<and>
      map_option (\<lambda>i. r_value (mi_row i)) (fst (memory_get id (demo_key ''codex'') 8 t2)) = Some ''secret''"
  by code_simp

text \<open>An estate transfer moves the right to destroy and nothing else: the dry run
  counts the rows the real run changes, authorship stays, and for each of those rows the
  heir becomes the controller, so the departed principal can no longer delete it.\<close>

theorem estate_transfer_moves_control:
  assumes "norm (Some dep) \<noteq> ''''" and "norm (Some hr) \<noteq> ''''" and "norm (Some dep) \<noteq> norm (Some hr)"
    and "row_at (normalize_key_fields k) t = Some r" and "in_estate (norm (Some dep)) ns pr r"
  shows "let (n, t') = estate_transfer (Some dep) (Some hr) ns pr False t
    in estate_transfer (Some dep) (Some hr) ns pr True t = (n, t) \<and>
       map r_owner t' = map r_owner t \<and> map ukey_of t' = map ukey_of t \<and>
       (\<exists>s. row_at (normalize_key_fields k) t' = Some s \<and> controller s = Some (norm (Some hr)) \<and>
            memory_forget k (Some (norm (Some dep))) False t' =
              (Inl (ForgetDenied (norm (Some hr)) (Some (norm (Some dep)))), t'))"
proof -
  let ?f = "set_custodian (norm (Some hr))"
  let ?t = "sql_update (in_estate (norm (Some dep)) ns pr) ?f t"
  have at: "row_at (normalize_key_fields k) ?t = Some (?f r)"
    using assms(4,5) by (simp add: heir.row_at_update)
  have c: "controller (?f r) = Some (norm (Some hr))"
    using assms(2) by (simp add: controller_def set_custodian_def or_empty_def or_none_def)
  have "map r_owner ?t = map r_owner t"
    by (simp add: sql_update_def set_custodian_def)
  then show ?thesis
    using assms(3) at c forget_cases [OF at, of "Some (norm (Some dep))" False]
    by (simp add: estate_real [OF assms(1-3)] heir.map_ukey_update)
qed

theorem estate_transfer_moves_control_witness:
  "fst (memory_forget (demo_key ''codex'') (Some ''codex'') False
      (snd (estate_transfer (Some ''codex'') (Some ''claude'') None None False flag_demo))) =
   Inl (ForgetDenied ''claude'' (Some ''codex''))"
proof -
  let ?r = "the (row_at (demo_key ''codex'') flag_demo)"
  have n: "normalize_key_fields (demo_key ''codex'') = demo_key ''codex''"
    and s: "(row_at (demo_key ''codex'') flag_demo = None) = False"
    and f: "norm (Some ''codex'') \<noteq> ''''" and h: "norm (Some ''claude'') \<noteq> ''''"
    and d: "norm (Some ''codex'') \<noteq> norm (Some ''claude'')"
    and e: "in_estate (norm (Some ''codex'')) None None ?r"
    and v: "norm (Some ''codex'') = ''codex''" "norm (Some ''claude'') = ''claude''"
    by code_simp+
  from s have r: "row_at (normalize_key_fields (demo_key ''codex'')) flag_demo = Some ?r" unfolding n by simp
  from estate_transfer_moves_control [OF f h d r e] show ?thesis
    unfolding v by (auto simp: Let_def split_beta)
qed

text \<open>The key listing is exact: with room for all matches it lists, in key order,
  precisely the unexpired rows of the partition whose key starts with the prefix (taken
  literally, wildcards included), and whatever the limit a non-empty listing reports how
  many there are.\<close>

theorem memory_keys_lists_exact_prefix:
  fixes nss pre sc uid pr lim now t
  defines "m \<equiv> filter (\<lambda>r. in_partition (map py_lower nss) (py_lower sc) (py_lower uid) (map_option py_lower pr) now r
                 \<and> startswith (r_key r) pre) t"
  assumes "0 < lim"
  shows "snd (memory_keys nss pre sc uid pr lim now t) = length m \<and>
    length (fst (memory_keys nss pre sc uid pr lim now t)) = min lim (length m) \<and>
    set (fst (memory_keys nss pre sc uid pr lim now t)) \<subseteq> set m \<and>
    sorted (map (\<lambda>r. [r_key r, r_namespace r, r_user_id r]) (fst (memory_keys nss pre sc uid pr lim now t)))"
proof -
  let ?s = "sort_key (\<lambda>r. [r_key r, r_namespace r, r_user_id r]) m"
  have k: "memory_keys nss pre sc uid pr lim now t = (take lim ?s, if take lim ?s = [] then 0 else length m)"
    by (simp add: memory_keys_def Let_def m_def sql_like_prefix)
  have "sorted (map (\<lambda>r. [r_key r, r_namespace r, r_user_id r]) (take lim ?s))"
    unfolding take_map [symmetric] by (intro sorted_wrt_take) simp
  moreover have "set (take lim ?s) \<subseteq> set m" using set_take_subset [of lim ?s] by simp
  moreover have "take lim ?s = [] \<longleftrightarrow> m = []"
    using assms(2) length_sort [of "\<lambda>r. [r_key r, r_namespace r, r_user_id r]" m] by (cases m) auto
  ultimately show ?thesis unfolding k by auto
qed

theorem memory_keys_lists_exact_prefix_witness:
  "snd (memory_keys [''fleet''] ''startup/'' ''project'' ''codex'' (Some ''engram'') 5 9 flag_demo) = 1"
proof -
  have "length (filter (\<lambda>r. in_partition (map py_lower [''fleet'']) (py_lower ''project'') (py_lower ''codex'')
      (map_option py_lower (Some ''engram'')) 9 r \<and> startswith (r_key r) ''startup/'') flag_demo) = 1"
    by code_simp
  with memory_keys_lists_exact_prefix [of 5 "[''fleet'']" "''startup/''" "''project''" "''codex''" "Some ''engram''" 9 flag_demo]
  show ?thesis by simp
qed

end
