(* ===== verification/Inbox.thy ===== *)
theory Inbox
  imports Memory Address_Roles
begin

text \<open>
  Messages between agents (\<^verbatim>\<open>server/services/memory_service.py\<close>, the inbox and wake
  operations). A message is a row of the table \<^verbatim>\<open>memories\<close> with scope \<^verbatim>\<open>inbox\<close>, the
  address it went to in \<^verbatim>\<open>user_id\<close> and its envelope in \<^verbatim>\<open>metadata\<close>. The identifiers the
  code draws with \<^verbatim>\<open>uuid4\<close> are arguments.
\<close>

section \<open>Envelopes\<close>

definition INBOX_SCOPE :: string where
  "INBOX_SCOPE = ''inbox''"

definition INBOX_STALE_AFTER_HOURS :: int where
  "INBOX_STALE_AFTER_HOURS = 72"

definition INBOX_OPEN :: string where
  "INBOX_OPEN = ''open''"

definition INBOX_RESOLVED :: string where
  "INBOX_RESOLVED = ''resolved''"

definition INBOX_SUPERSEDED :: string where
  "INBOX_SUPERSEDED = ''superseded''"

definition INBOX_STALE_SWEEP_ACTOR :: string where
  "INBOX_STALE_SWEEP_ACTOR = ''system:stale-sweep''"

definition ASK_INTENTS :: "string list" where
  "ASK_INTENTS = [''action'', ''proceed'', ''escalate'', ''authority-directive'']"

text \<open>Rows of the inbox, and what the SQL of this component reads from them.\<close>

definition inbox_row :: "settings \<Rightarrow> row \<Rightarrow> bool" where
  "inbox_row cfg r \<longleftrightarrow> r_namespace r = cfg_primary_namespace cfg \<and> r_scope r = INBOX_SCOPE"

definition inbox_status :: "row \<Rightarrow> string" where
  "inbox_status r = (case status r of None \<Rightarrow> INBOX_OPEN | Some s \<Rightarrow> s)"

definition archived :: "row \<Rightarrow> bool" where
  "archived r = jget_bool (md r) ''archived''"

definition read_by :: "row \<Rightarrow> json" where
  "read_by r = jarray (md r) ''read_by''"

text \<open>Python's truth value of a decoded JSON value.\<close>

fun jtruthy :: "json \<Rightarrow> bool" where
  "jtruthy JNull = False"
| "jtruthy (JBool b) = b"
| "jtruthy (JNum n) = list_ex (\<lambda>c. c \<in> set ''123456789'') (takeWhile (\<lambda>c. c \<notin> set ''eE'') n)"
| "jtruthy (JStr s) = (s \<noteq> [])"
| "jtruthy (JTime t) = True"
| "jtruthy (JArr xs) = (xs \<noteq> [])"
| "jtruthy (JObj kvs) = (kvs \<noteq> [])"

definition jlist :: "jobj \<Rightarrow> string \<Rightarrow> json list" where
  \<comment> \<open>\<^verbatim>\<open>md.get(k) or []\<close>\<close>
  "jlist m k = (case jget m k of Some (JArr xs) \<Rightarrow> xs | _ \<Rightarrow> [])"

text \<open>\<^verbatim>\<open>round(x, 1)\<close> of a duration in hours, in tenths, half to even.\<close>

definition age_tenths :: "int \<Rightarrow> int" where
  "age_tenths d =
     (let q = 10 * d div hours 1; r = 10 * d mod hours 1
      in if 2 * r < hours 1 \<or> (2 * r = hours 1 \<and> even q) then q else q + 1)"

record inbox_message =
  im_id :: string
  im_to :: string
  im_from :: "string option"
  im_from_principal :: "string option"
  im_authority :: bool
  im_relayed_from :: "string option"
  im_machine :: "string option"
  im_model :: "string option"
  im_model_source :: "string option"
  im_from_lane :: "string option"
  im_from_project :: "string option"
  im_in_reply_to :: "string option"
  im_intent :: "string option"
  im_subject :: string
  im_body :: string
  im_thread_id :: "string option"
  im_participants :: "json list"
  im_read_by :: "json list"
  im_archived :: bool
  im_created_at :: instant
  im_status :: string
  im_resolved_by :: "string option"
  im_resolved_at :: "string option"
  im_supersedes :: "string option"
  im_superseded_by :: "string option"
  im_is_stale :: bool
  im_age_tenths :: int
  im_handled :: "bool option"
  im_handled_via :: "string option"

definition row_to_inbox_message :: "instant \<Rightarrow> row \<Rightarrow> inbox_message" where
  "row_to_inbox_message now r =
     (let m = md r; s = jget_str m; age = age_tenths (now - r_created_at r)
      in \<lparr>im_id = r_key r, im_to = r_user_id r, im_from = s ''from'',
          im_from_principal = s ''from_principal'',
          im_authority = (case jget m ''authority'' of None \<Rightarrow> False | Some j \<Rightarrow> jtruthy j),
          im_relayed_from = s ''relayed_from'', im_machine = s ''machine'', im_model = s ''model'',
          im_model_source = s ''model_source'', im_from_lane = s ''from_lane'',
          im_from_project = s ''from_project'', im_in_reply_to = s ''in_reply_to'',
          im_intent = s ''intent'', im_subject = or_empty (s ''subject''), im_body = r_value r,
          im_thread_id = s ''thread_id'', im_participants = jlist m ''participants'',
          im_read_by = jlist m ''read_by'',
          im_archived = (case jget m ''archived'' of None \<Rightarrow> False | Some j \<Rightarrow> jtruthy j),
          im_created_at = r_created_at r,
          im_status = (case Option.bind (s ''status'') or_none of None \<Rightarrow> INBOX_OPEN | Some x \<Rightarrow> x),
          im_resolved_by = s ''resolved_by'', im_resolved_at = s ''resolved_at'',
          im_supersedes = s ''supersedes'', im_superseded_by = s ''superseded_by'',
          im_is_stale = (10 * INBOX_STALE_AFTER_HOURS \<le> age), im_age_tenths = age,
          im_handled = None, im_handled_via = None\<rparr>)"

section \<open>Sending\<close>

record letter =
  lt_to :: string
  lt_body :: string
  lt_subject :: string
  lt_from :: "string option"
  lt_thread_id :: "string option"
  lt_supersedes :: "string option"
  lt_from_principal :: "string option"
  lt_authority :: bool
  lt_intent :: "string option"
  lt_participants :: "string list option"
  lt_machine :: "string option"
  lt_model :: "string option"
  lt_model_source :: "string option"
  lt_from_lane :: "string option"
  lt_from_project :: "string option"
  lt_in_reply_to :: "string option"
  lt_huddle_lifecycle :: bool
  lt_relayed_from :: "string option"

definition letter_metadata :: "letter \<Rightarrow> jobj" where
  "letter_metadata l =
     [(''kind'', JStr ''inbox''), (''from'', jopt (lt_from l)),
      (''from_principal'', jopt (lt_from_principal l)), (''authority'', JBool (lt_authority l)),
      (''relayed_from'', jopt (lt_relayed_from l)), (''machine'', jopt (lt_machine l)),
      (''model'', jopt (lt_model l)), (''model_source'', jopt (lt_model_source l)),
      (''from_lane'', jopt (lt_from_lane l)), (''from_project'', jopt (lt_from_project l)),
      (''in_reply_to'', jopt (lt_in_reply_to l)),
      (''huddle_lifecycle'', if lt_huddle_lifecycle l then JBool True else JNull),
      (''intent'', jopt (lt_intent l)), (''subject'', JStr (strip_toolcall_trailer (lt_subject l))),
      (''thread_id'', jopt (lt_thread_id l)), (''read_by'', JArr []), (''archived'', JBool False),
      (''status'', JStr INBOX_OPEN), (''supersedes'', jopt (lt_supersedes l)),
      (''participants'', case lt_participants l of None \<Rightarrow> JNull
          | Some ps \<Rightarrow> if ps = [] then JNull else JArr (map JStr ps))]"

definition letter_row :: "settings \<Rightarrow> string \<Rightarrow> letter \<Rightarrow> instant \<Rightarrow> row" where
  "letter_row cfg msg_id l now =
     (let body = strip_toolcall_trailer (lt_body l);
          txt = strip_toolcall_trailer (lt_subject l) @ '' '' @ body
      in (new_row (cfg_primary_namespace cfg) msg_id body INBOX_SCOPE (py_lower (lt_to l)) None now)
         \<lparr>r_embedded := Some txt, r_search_text := txt, r_metadata := Some (letter_metadata l)\<rparr>)"

text \<open>A plain \<^verbatim>\<open>INSERT\<close>: a key that is taken violates the unique index, which aborts
  the transaction.\<close>

definition sql_insert :: "row \<Rightarrow> table \<Rightarrow> table option" where
  "sql_insert r t = (case insert_do_nothing r t of (None, _) \<Rightarrow> None | (Some _, t') \<Rightarrow> Some t')"

definition message_at :: "settings \<Rightarrow> string \<Rightarrow> row \<Rightarrow> bool" where
  "message_at cfg i r \<longleftrightarrow> inbox_row cfg r \<and> r_key r = i"

definition inbox_send :: "settings \<Rightarrow> string \<Rightarrow> letter \<Rightarrow> instant \<Rightarrow> table \<Rightarrow> string res \<times> table" where
  "inbox_send cfg uuid l now t =
     (let msg_id = ''inbox/'' @ uuid
      in case sql_insert (letter_row cfg msg_id l now) t of
           None \<Rightarrow> (Inl (HTTPException 500), t)
         | Some t' \<Rightarrow>
             (Inr msg_id,
              case Option.bind (lt_supersedes l) or_none of
                None \<Rightarrow> t'
              | Some old \<Rightarrow>
                  sql_update (message_at cfg old)
                    (stamp_md [(''status'', JStr INBOX_SUPERSEDED), (''superseded_by'', JStr msg_id)]) t'))"

section \<open>Listing\<close>

definition speaker :: "string option \<Rightarrow> string option \<Rightarrow> string" where
  "speaker lane sender = (if norm lane \<noteq> '''' then norm lane else norm sender)"

definition is_meeting_thread :: "string option \<Rightarrow> bool" where
  "is_meeting_thread thread_id = (case thread_id of None \<Rightarrow> False | Some x \<Rightarrow> startswith x ''huddle/'')"

definition is_ask :: "inbox_message \<Rightarrow> bool" where
  "is_ask m \<longleftrightarrow> norm (im_intent m) \<in> set ASK_INTENTS"

text \<open>An answer-class row that names the message in the given field, by another speaker.\<close>

definition answers :: "settings \<Rightarrow> string \<Rightarrow> inbox_message \<Rightarrow> row \<Rightarrow> bool" where
  "answers cfg field m r \<longleftrightarrow>
     inbox_row cfg r \<and> jget_text (md r) field = Some (im_id m) \<and>
     py_lower (or_empty (jget_text (md r) ''intent'')) \<in> set ASK_INTENTS \<and>
     speaker (jget_text (md r) ''from_lane'') (jget_text (md r) ''from'')
       \<noteq> speaker (im_from_lane m) (im_from m)"

text \<open>The verdict of \<^verbatim>\<open>_mark_handled\<close> on one message (message ids are unique, so the
  dictionary of the code by id is a map over the messages).\<close>

definition mark_handled_one :: "settings \<Rightarrow> table \<Rightarrow> inbox_message \<Rightarrow> inbox_message" where
  "mark_handled_one cfg t m =
     (if \<not> is_ask m \<or> is_meeting_thread (im_thread_id m) then m
      else if im_status m = INBOX_RESOLVED \<or> im_status m = INBOX_SUPERSEDED
      then m\<lparr>im_handled := Some True, im_handled_via := Some (im_status m)\<rparr>
      else if list_ex (answers cfg ''in_reply_to'' m) t
      then m\<lparr>im_handled := Some True, im_handled_via := Some ''replied''\<rparr>
      else if or_empty (im_thread_id m) = '''' \<or> im_thread_id m = Some (im_id m)
      then (if list_ex (\<lambda>r. answers cfg ''thread_id'' m r \<and> r_key r \<noteq> im_id m) t
            then m\<lparr>im_handled := Some True, im_handled_via := Some ''replied''\<rparr>
            else m\<lparr>im_handled := Some False\<rparr>)
      else m)"

definition mark_handled :: "settings \<Rightarrow> table \<Rightarrow> inbox_message list \<Rightarrow> inbox_message list" where
  "mark_handled cfg t ms = map (mark_handled_one cfg t) ms"

definition mark_delivered :: "inbox_message list \<Rightarrow> string option \<Rightarrow> table \<Rightarrow> table" where
  "mark_delivered ms reader t =
     (case Option.bind reader or_none of
        None \<Rightarrow> t
      | Some who \<Rightarrow>
          if ms = [] then t
          else map (\<lambda>r. if r_key r \<in> set (map im_id ms) \<and> \<not> jexists (jarray (md r) ''delivered_to'') who
                        then set_md (jput ''delivered_to'' (jappend (jarray (md r) ''delivered_to'') who) (md r)) r
                        else r) t)"

definition unread_for :: "string option \<Rightarrow> row \<Rightarrow> bool" where
  "unread_for reader r = (case reader of None \<Rightarrow> True | Some who \<Rightarrow> \<not> jexists (read_by r) who)"

definition addressed :: "settings \<Rightarrow> string list \<Rightarrow> row \<Rightarrow> bool" where
  "addressed cfg listen r \<longleftrightarrow> inbox_row cfg r \<and> r_user_id r \<in> set listen \<and> \<not> archived r"

record listing =
  ls_unread_only :: bool
  ls_limit :: nat
  ls_include_resolved :: bool
  ls_newest_first :: bool
  ls_unhandled_only :: bool
  ls_mark_delivered :: bool

definition list_rows :: "settings \<Rightarrow> string list \<Rightarrow> string option \<Rightarrow> listing \<Rightarrow> table \<Rightarrow> row list" where
  "list_rows cfg listen reader q t =
     (let recent = take (ls_limit q) (sort_key (\<lambda>r. - r_created_at r)
            (filter (\<lambda>r. addressed cfg listen r
                          \<and> (ls_include_resolved q \<or> inbox_status r = INBOX_OPEN)
                          \<and> (\<not> ls_unread_only q \<or> unread_for reader r)) t))
      in if ls_newest_first q then recent else sort_key r_created_at recent)"

definition inbox_list ::
  "settings \<Rightarrow> string list \<Rightarrow> string option \<Rightarrow> listing \<Rightarrow> instant \<Rightarrow> server
     \<Rightarrow> inbox_message list \<times> server" where
  "inbox_list cfg ls reader q now s0 =
     (let low = map py_lower ls
      in if low = [] then ([], s0)
         else let l1 = low @ admin_listen_expansion low;
                  (extra, s) = expand_listen_set now l1 s0;
                  ms = mark_handled cfg (memories s)
                         (map (row_to_inbox_message now) (list_rows cfg (l1 @ extra) reader q (memories s)));
                  s' = (if ls_mark_delivered q then s\<lparr>memories := mark_delivered ms reader (memories s)\<rparr> else s)
              in (if ls_unhandled_only q
                  then filter (\<lambda>m. is_ask m \<and> im_handled m \<noteq> Some True \<and> im_status m = INBOX_OPEN) ms
                  else ms, s'))"

text \<open>Grouping by sender: the senders of the rows with their counts and latest times,
  latest first.\<close>

definition sender_of :: "row \<Rightarrow> string" where
  "sender_of r = (case jget_text (md r) ''from'' of None \<Rightarrow> ''(unknown)'' | Some x \<Rightarrow> x)"

definition direct_mail :: "row \<Rightarrow> bool" where
  "direct_mail r \<longleftrightarrow>
     (case jget (md r) ''participants'' of Some (JArr xs) \<Rightarrow> xs = [] | _ \<Rightarrow> True) \<and>
     \<not> sql_like (or_empty (jget_text (md r) ''thread_id'')) ''huddle/%''"

definition inbox_unread_by_sender ::
  "settings \<Rightarrow> string list \<Rightarrow> string \<Rightarrow> instant \<Rightarrow> server
     \<Rightarrow> (string \<times> nat \<times> instant) list \<times> server" where
  "inbox_unread_by_sender cfg ls reader now s0 =
     (let low = map py_lower ls; (extra, s) = expand_listen_set now low s0; listen = low @ extra
      in if listen = [] \<or> reader = '''' then ([], s)
         else let rows = filter (\<lambda>r. addressed cfg listen r \<and> inbox_status r = INBOX_OPEN
                           \<and> unread_for (Some (py_lower reader)) r \<and> direct_mail r) (memories s);
                  by = (\<lambda>f. filter (\<lambda>r. sender_of r = f) rows)
              in (sort_key (\<lambda>(f, n, latest). - latest)
                    (map (\<lambda>f. (f, length (by f), Max (r_created_at ` set (by f))))
                      (remdups (map sender_of rows))), s))"

definition inbox_unread_count ::
  "settings \<Rightarrow> string list \<Rightarrow> string option \<Rightarrow> instant \<Rightarrow> server \<Rightarrow> nat \<times> server" where
  "inbox_unread_count cfg ls reader now s0 =
     (let low = map py_lower ls; (extra, s) = expand_listen_set now low s0; listen = low @ extra;
          who = map_option py_lower (Option.bind reader or_none)
      in if listen = [] then (0, s)
         else (sql_count (\<lambda>r. addressed cfg listen r \<and> inbox_status r = INBOX_OPEN \<and> unread_for who r)
                 (memories s), s))"

record digest =
  dg_open :: nat
  dg_resolved :: nat
  dg_superseded :: nat
  dg_stale :: nat

definition inbox_counts ::
  "settings \<Rightarrow> string list \<Rightarrow> instant \<Rightarrow> server \<Rightarrow> digest \<times> server" where
  "inbox_counts cfg ls now s0 =
     (let low = map py_lower ls; (extra, s) = expand_listen_set now low s0; listen = low @ extra;
          n = (\<lambda>P. sql_count (\<lambda>r. addressed cfg listen r \<and> P r) (memories s))
      in if listen = [] then (\<lparr>dg_open = 0, dg_resolved = 0, dg_superseded = 0, dg_stale = 0\<rparr>, s)
         else (\<lparr>dg_open = n (\<lambda>r. inbox_status r = INBOX_OPEN),
                dg_resolved = n (\<lambda>r. inbox_status r = INBOX_RESOLVED),
                dg_superseded = n (\<lambda>r. inbox_status r = INBOX_SUPERSEDED),
                dg_stale = n (\<lambda>r. inbox_status r = INBOX_OPEN
                                  \<and> r_created_at r < now - hours INBOX_STALE_AFTER_HOURS)\<rparr>, s))"

section \<open>Acknowledging, archiving, resolving\<close>

definition ack_row :: "string \<Rightarrow> row \<Rightarrow> row" where
  "ack_row who r =
     set_md (jput ''read_by''
       (case jget (md r) ''read_by'' of
          None \<Rightarrow> JArr [JStr who]
        | Some j \<Rightarrow> if jexists j who then j else jappend j who) (md r)) r"

definition inbox_ack :: "settings \<Rightarrow> string \<Rightarrow> string \<Rightarrow> table \<Rightarrow> bool \<times> table" where
  "inbox_ack cfg i who t =
     (sql_count (message_at cfg i) t = 1, sql_update (message_at cfg i) (ack_row who) t)"

definition archive_row :: "row \<Rightarrow> row" where
  "archive_row r = set_md (jput ''archived'' (JBool True) (md r)) r"

definition inbox_archive :: "settings \<Rightarrow> string \<Rightarrow> string option \<Rightarrow> table \<Rightarrow> bool \<times> table" where
  "inbox_archive cfg i reader t =
     (let t1 = sql_update (message_at cfg i) archive_row t; found = (sql_count (message_at cfg i) t = 1)
      in case Option.bind reader or_none of
           Some who \<Rightarrow> if found then (found, sql_update (message_at cfg i) (ack_row who) t1) else (found, t1)
         | None \<Rightarrow> (found, t1))"

definition resolve_row :: "string option \<Rightarrow> instant \<Rightarrow> row \<Rightarrow> row" where
  "resolve_row resolver now r =
     set_md (jmerge (jmerge (jmerge (md r) [(''status'', JStr INBOX_RESOLVED), (''resolved_at'', JTime now)])
               (case resolver of None \<Rightarrow> [] | Some who \<Rightarrow> [(''resolved_by'', JStr who)]))
               (case resolver of None \<Rightarrow> []
                | Some who \<Rightarrow> if jexists (read_by r) who then []
                              else [(''read_by'', jappend (read_by r) who)])) r"

definition inbox_resolve :: "settings \<Rightarrow> string \<Rightarrow> string option \<Rightarrow> instant \<Rightarrow> table \<Rightarrow> bool \<times> table" where
  "inbox_resolve cfg i resolver now t =
     (sql_count (message_at cfg i) t = 1, sql_update (message_at cfg i) (resolve_row resolver now) t)"

definition in_thread :: "settings \<Rightarrow> string list \<Rightarrow> string \<Rightarrow> row \<Rightarrow> bool" where
  "in_thread cfg listen thread_id r \<longleftrightarrow>
     inbox_row cfg r \<and> r_user_id r \<in> set listen \<and>
     jget_text (md r) ''thread_id'' = Some thread_id \<and> inbox_status r = INBOX_OPEN"

definition inbox_resolve_thread ::
  "settings \<Rightarrow> string \<Rightarrow> string list \<Rightarrow> string option \<Rightarrow> instant \<Rightarrow> server \<Rightarrow> nat \<times> server" where
  "inbox_resolve_thread cfg thread_id ls resolver now s0 =
     (let low = map py_lower (filter (\<lambda>a. a \<noteq> '''') ls);
          (extra, s) = expand_listen_set now low s0; listen = low @ extra
      in if thread_id = '''' \<or> listen = [] then (0, s)
         else (sql_count (in_thread cfg listen thread_id) (memories s),
               s\<lparr>memories := sql_update (in_thread cfg listen thread_id) (resolve_row resolver now) (memories s)\<rparr>))"

text \<open>The sweep of stale mail. \<^verbatim>\<open>jsonb_array_length\<close> raises on a \<^verbatim>\<open>read_by\<close> that is not an
  array, which aborts the statement.\<close>

definition sweepable :: "settings \<Rightarrow> int \<Rightarrow> instant \<Rightarrow> row \<Rightarrow> bool" where
  "sweepable cfg older_than now r \<longleftrightarrow>
     inbox_row cfg r \<and> inbox_status r = INBOX_OPEN \<and> \<not> archived r \<and>
     (case jlength (read_by r) of None \<Rightarrow> False | Some n \<Rightarrow> 0 < n) \<and>
     r_created_at r < now - hours older_than"

definition unsweepable :: "settings \<Rightarrow> row \<Rightarrow> bool" where
  "unsweepable cfg r \<longleftrightarrow>
     inbox_row cfg r \<and> inbox_status r = INBOX_OPEN \<and> \<not> archived r \<and> jlength (read_by r) = None"

definition inbox_autoresolve_stale ::
  "settings \<Rightarrow> int \<Rightarrow> string \<Rightarrow> nat \<Rightarrow> instant \<Rightarrow> table \<Rightarrow> nat res \<times> table" where
  "inbox_autoresolve_stale cfg older_than resolver batch now t =
     (if list_ex (unsweepable cfg) t then (Inl (HTTPException 500), t)
      else let keys = map r_key (take batch (sort_key r_created_at (filter (sweepable cfg older_than now) t)));
               hit = (\<lambda>r. r_key r \<in> set keys \<and> inbox_row cfg r)
           in (Inr (sql_count hit t),
               sql_update hit (stamp_md [(''status'', JStr INBOX_RESOLVED), (''resolved_at'', JTime now),
                                         (''resolved_by'', JStr resolver)]) t))"

section \<open>Banner, replies, unanswered asks\<close>

definition preview_line :: "inbox_message \<Rightarrow> string \<times> string \<times> string \<times> int option" where
  "preview_line m =
     (case Option.bind (im_from m) or_none of None \<Rightarrow> ''unknown'' | Some f \<Rightarrow> f,
      im_to m,
      if im_subject m \<noteq> '''' then im_subject m else take 60 (im_body m),
      if im_is_stale m then Some (im_age_tenths m div 240) else None)"

definition inbox_banner ::
  "settings \<Rightarrow> string list \<Rightarrow> string option \<Rightarrow> nat \<Rightarrow> instant \<Rightarrow> server
     \<Rightarrow> (nat \<times> nat \<times> (string \<times> string \<times> string \<times> int option) list) option \<times> server" where
  "inbox_banner cfg ls reader preview_limit now s0 =
     (let low = map py_lower ls
      in if low = [] then (None, s0)
         else case inbox_unread_count cfg low reader now s0 of
           (unread, s) \<Rightarrow>
             if unread = 0 then (None, s)
             else case inbox_list cfg low reader
                    \<lparr>ls_unread_only = True, ls_limit = preview_limit, ls_include_resolved = False,
                     ls_newest_first = True, ls_unhandled_only = False, ls_mark_delivered = False\<rparr> now s of
               (ms, s') \<Rightarrow> (let preview = map preview_line (take preview_limit ms)
                           in (Some (unread, length preview, preview), s')))"

definition reply_thread_of :: "settings \<Rightarrow> string option \<Rightarrow> table \<Rightarrow> string option" where
  "reply_thread_of cfg in_reply_to t =
     (case Option.bind in_reply_to or_none of
        None \<Rightarrow> None
      | Some p \<Rightarrow>
          (case fetchrow (message_at cfg p) t of
             None \<Rightarrow> None
           | Some r \<Rightarrow> (case Option.bind (jget_str (md r) ''thread_id'') or_none of
                          None \<Rightarrow> Some p | Some th \<Rightarrow> Some th)))"

text \<open>\<^verbatim>\<open>metadata->>'thread_id' = ...\<close> is \<^verbatim>\<open>NULL\<close>, hence not true, when either side is.\<close>

definition later_in_thread :: "settings \<Rightarrow> row \<Rightarrow> row \<Rightarrow> bool" where
  "later_in_thread cfg ask r \<longleftrightarrow>
     r_namespace r = r_namespace ask \<and> r_scope r = r_scope ask \<and>
     jget_text (md r) ''thread_id'' \<noteq> None \<and>
     jget_text (md r) ''thread_id'' = jget_text (md ask) ''thread_id'' \<and>
     r_created_at ask < r_created_at r"

definition open_ask :: "settings \<Rightarrow> row \<Rightarrow> bool" where
  "open_ask cfg r \<longleftrightarrow>
     inbox_row cfg r \<and> \<not> archived r \<and> inbox_status r = INBOX_OPEN \<and>
     (case jget_text (md r) ''intent'' of None \<Rightarrow> False | Some i \<Rightarrow> i \<in> set ASK_INTENTS)"

definition unanswered_asks ::
  "settings \<Rightarrow> int \<Rightarrow> nat \<Rightarrow> instant \<Rightarrow> table \<Rightarrow> row list res" where
  "unanswered_asks cfg min_age lim now t =
     (if list_ex (\<lambda>r. open_ask cfg r \<and> jlength (read_by r) = None) t then Inl (HTTPException 500)
      else Inr (take lim (sort_key r_created_at (filter (\<lambda>r.
             open_ask cfg r \<and> jlength (read_by r) = Some 0 \<and>
             \<not> list_ex (later_in_thread cfg r) t \<and>
             max 0 min_age \<le> now - r_created_at r) t))))"

section \<open>Wakes\<close>

definition WAKE_SCOPE :: string where
  "WAKE_SCOPE = ''wake''"

definition WAKE_TTL_SECONDS :: int where
  "WAKE_TTL_SECONDS = 300"

record wake =
  wk_ref :: string
  wk_note :: string
  wk_from :: "string option"
  wk_from_principal :: "string option"
  wk_relayed_from :: "string option"

definition wake_row :: "settings \<Rightarrow> string \<Rightarrow> string \<Rightarrow> wake \<Rightarrow> instant \<Rightarrow> row" where
  "wake_row cfg uuid target w now =
     (new_row (cfg_primary_namespace cfg) (''wake/'' @ uuid) (take 280 (wk_note w)) WAKE_SCOPE target None now)
     \<lparr>r_expires_at := Some (now + seconds WAKE_TTL_SECONDS),
      r_metadata := Some [(''kind'', JStr ''wake''), (''ref'', JStr (take 256 (wk_ref w))),
        (''from'', jopt (wk_from w)), (''from_principal'', jopt (wk_from_principal w)),
        (''relayed_from'', jopt (or_none (norm (wk_relayed_from w)))), (''created_at'', JTime now)]\<rparr>"

text \<open>One row per target, drawn with the given identifiers; each insert commits on its
  own, so a clash leaves the rows before it.\<close>

fun wake_inserts ::
  "settings \<Rightarrow> wake \<Rightarrow> instant \<Rightarrow> (string \<times> string) list \<Rightarrow> table \<Rightarrow> string list res \<times> table" where
  "wake_inserts cfg w now [] t = (Inr [], t)"
| "wake_inserts cfg w now ((target, uuid) # ts) t =
     (case sql_insert (wake_row cfg uuid target w now) t of
        None \<Rightarrow> (Inl (HTTPException 500), t)
      | Some t' \<Rightarrow> (case wake_inserts cfg w now ts t' of
                      (Inl e, t'') \<Rightarrow> (Inl e, t'')
                    | (Inr ids, t'') \<Rightarrow> (Inr ((''wake/'' @ uuid) # ids), t'')))"

definition wake_send ::
  "settings \<Rightarrow> string list \<Rightarrow> string list \<Rightarrow> wake \<Rightarrow> instant \<Rightarrow> table \<Rightarrow> string list res \<times> table" where
  "wake_send cfg uuids to w now t =
     wake_inserts cfg w now
       (zip (map (\<lambda>a. py_lower (py_strip a)) (filter (\<lambda>a. py_strip a \<noteq> '''') to)) uuids) t"

definition own_echo :: "string option \<Rightarrow> string list" where
  "own_echo reader =
     (case Option.bind reader or_none of None \<Rightarrow> []
      | Some r \<Rightarrow> [norm (Some r), before (CHR ''@'') (norm (Some r))])"

definition wake_list_fresh ::
  "settings \<Rightarrow> string list \<Rightarrow> instant option \<Rightarrow> string option \<Rightarrow> instant \<Rightarrow> server
     \<Rightarrow> row list \<times> server" where
  "wake_list_fresh cfg ls since reader now s0 =
     (let low = map py_lower (filter (\<lambda>a. a \<noteq> '''') ls);
          (extra, s) = expand_listen_set now low s0; listen = low @ extra
      in if listen = [] then ([], s)
         else (filter (\<lambda>r. (case since of None \<Rightarrow> True | Some c \<Rightarrow> c < r_created_at r)
                     \<and> norm (jget_str (md r) ''from'') \<notin> set (own_echo reader)
                     \<and> norm (jget_str (md r) ''relayed_from'') \<notin> set (own_echo reader))
                 (take 50 (sort_key (\<lambda>r. - r_created_at r)
                   (filter (\<lambda>r. r_namespace r = cfg_primary_namespace cfg \<and> r_scope r = WAKE_SCOPE
                       \<and> r_user_id r \<in> set listen
                       \<and> (case r_expires_at r of None \<Rightarrow> False | Some e \<Rightarrow> now < e)) (memories s)))), s))"

section \<open>Writers of the inbox\<close>

interpretation acking: row_writer "ack_row who" for who
  by unfold_locales (simp_all add: ack_row_def)

interpretation archiving: row_writer archive_row
  by unfold_locales (simp_all add: archive_row_def)

interpretation resolving: row_writer "resolve_row resolver now" for resolver now
  by unfold_locales (simp_all add: resolve_row_def)

text \<open>What a message is, apart from its lifecycle.\<close>

definition content :: "row \<Rightarrow> nat \<times> ukey \<times> string \<times> instant" where
  "content r = (r_id r, ukey_of r, r_value r, r_created_at r)"

lemma content_simps [simp]:
  "content (set_md m r) = content r" "content (stamp_md m r) = content r"
  "content (ack_row who r) = content r" "content (archive_row r) = content r"
  "content (resolve_row rs now r) = content r"
  by (simp_all add: content_def ack_row_def archive_row_def resolve_row_def)

lemma content_update: "(\<And>r. content (f r) = content r) \<Longrightarrow> map content (sql_update P f t) = map content t"
  by (simp add: sql_update_def)

lemma table_ok_content: "map content t' = map content t \<Longrightarrow> table_ok t' = table_ok t"
proof -
  assume c: "map content t' = map content t"
  then have "map (fst \<circ> snd) (map content t') = map (fst \<circ> snd) (map content t)"
    and "map fst (map content t') = map fst (map content t)" by simp_all
  then have "map ukey_of t' = map ukey_of t" and "map r_id t' = map r_id t"
    by (simp_all add: content_def comp_def)
  then show ?thesis by (simp add: table_ok_def)
qed

lemma sql_insert_Some:
  "sql_insert r t = Some t' \<Longrightarrow> row_at (ukey_of r) t = None \<and> t' = t @ [r\<lparr>r_id := next_id t\<rparr>]"
  by (auto simp: sql_insert_def insert_do_nothing_def split: option.splits)

lemma sql_insert_fresh:
  "row_at (ukey_of r) t = None \<Longrightarrow> sql_insert r t = Some (t @ [r\<lparr>r_id := next_id t\<rparr>])"
  by (simp add: sql_insert_def insert_do_nothing_def)

lemma letter_row_simps [simp]:
  "ukey_of (letter_row cfg i l now) = (cfg_primary_namespace cfg, i, INBOX_SCOPE, py_lower (lt_to l), None)"
  "md (letter_row cfg i l now) = letter_metadata l" "r_key (letter_row cfg i l now) = i"
  "r_user_id (letter_row cfg i l now) = py_lower (lt_to l)" "r_created_at (letter_row cfg i l now) = now"
  "r_value (letter_row cfg i l now) = strip_toolcall_trailer (lt_body l)"
  "r_namespace (letter_row cfg i l now) = cfg_primary_namespace cfg"
  "r_scope (letter_row cfg i l now) = INBOX_SCOPE"
  by (simp_all add: letter_row_def Let_def ukey_of_def new_row_def md_def)

lemma inbox_send_ok: "table_ok t \<Longrightarrow> table_ok (snd (inbox_send cfg uuid l now t))"
  by (auto simp: inbox_send_def Let_def stamp_doc.table_ok_update table_ok_append
      split: option.splits dest!: sql_insert_Some)

lemma inbox_send_prefix: "prefix (map content t) (map content (snd (inbox_send cfg uuid l now t)))"
  by (auto simp: inbox_send_def Let_def content_update split: option.splits dest!: sql_insert_Some)

lemma mark_delivered_content: "map content (mark_delivered ms reader t) = map content t"
  by (simp add: mark_delivered_def split: option.split)

lemma inbox_list_content:
  "map content (memories (snd (inbox_list cfg ls reader q now s))) = map content (memories s)"
proof -
  have "memories (snd (expand_listen_set now l s)) = memories s" for l
    by (simp add: expand_listen_set_def Let_def alias_refresh_def role_refresh_def)
  then show ?thesis
    by (simp add: inbox_list_def Let_def split_beta mark_delivered_content)
qed

section \<open>Newest first\<close>

lemma newest_in_take:
  fixes f :: "'a \<Rightarrow> int"
  assumes "x \<in> set xs" and "\<And>y. y \<in> set xs \<Longrightarrow> y \<noteq> x \<Longrightarrow> f y < f x" and "0 < n"
  shows "x \<in> set (take n (sort_key (\<lambda>y. - f y) xs))"
proof -
  obtain y ys where s: "sort_key (\<lambda>y. - f y) xs = y # ys"
    using assms(1) by (metis list.exhaust list.set(1) empty_iff set_sort)
  have "sorted (map (\<lambda>y. - f y) (y # ys))" using sorted_sort_key [of "\<lambda>y. - f y" xs] s by simp
  moreover have "x \<in> set (y # ys)" "y \<in> set xs" using assms(1) s by (metis set_sort list.set_intros(1))+
  ultimately have "y = x" using assms(2) [of y] by fastforce
  with s assms(3) show ?thesis by (cases n) auto
qed

lemma inbox_status_letter [simp]: "inbox_status (letter_row cfg i l now) = INBOX_OPEN"
  by (simp add: inbox_status_def status_def letter_metadata_def jget_text_def)

lemma archived_letter [simp]: "\<not> archived (letter_row cfg i l now)"
proof -
  have "\<not> norm (Some ''false'') \<in> set [''true'', ''t'', ''yes'', ''y'', ''on'', ''1'']" by code_simp
  then show ?thesis by (simp add: archived_def jget_bool_def letter_metadata_def jget_text_def)
qed

lemma read_by_letter [simp]: "read_by (letter_row cfg i l now) = JArr []"
  by (simp add: read_by_def jarray_def letter_metadata_def)

lemma row_reads_id [simp]:
  "inbox_row cfg (r\<lparr>r_id := i\<rparr>) = inbox_row cfg r" "inbox_status (r\<lparr>r_id := i\<rparr>) = inbox_status r"
  "archived (r\<lparr>r_id := i\<rparr>) = archived r" "read_by (r\<lparr>r_id := i\<rparr>) = read_by r"
  by (simp_all add: inbox_row_def inbox_status_def status_def archived_def read_by_def)

section \<open>Properties\<close>

lemma mark_handled_one_keeps [simp]:
  "im_id (mark_handled_one cfg t m) = im_id m" "im_body (mark_handled_one cfg t m) = im_body m"
  "im_to (mark_handled_one cfg t m) = im_to m" "im_status (mark_handled_one cfg t m) = im_status m"
  by (simp_all add: mark_handled_one_def)

lemma expand_memories [simp]: "memories (snd (expand_listen_set now l s)) = memories s"
  by (simp add: expand_listen_set_def Let_def alias_refresh_def role_refresh_def)

lemma list_rows_newest:
  assumes "r \<in> set t" and "\<And>x. x \<in> set t \<Longrightarrow> x \<noteq> r \<Longrightarrow> r_created_at x < r_created_at r"
    and "0 < ls_limit q" and "addressed cfg listen r" and "inbox_status r = INBOX_OPEN" and "unread_for reader r"
  shows "r \<in> set (list_rows cfg listen reader q t)"
proof -
  let ?f = "filter (\<lambda>r. addressed cfg listen r \<and> (ls_include_resolved q \<or> inbox_status r = INBOX_OPEN)
      \<and> (\<not> ls_unread_only q \<or> unread_for reader r)) t"
  have "r \<in> set (take (ls_limit q) (sort_key (\<lambda>r. - r_created_at r) ?f))"
    using assms by (intro newest_in_take) auto
  then show ?thesis by (simp add: list_rows_def Let_def)
qed

lemma inbox_list_shows:
  assumes "r \<in> set (list_rows cfg (low @ admin_listen_expansion low @
      fst (expand_listen_set now (low @ admin_listen_expansion low) s)) reader q (memories s))"
    and "low = map py_lower ls" and "low \<noteq> []" and "\<not> ls_unhandled_only q"
  shows "mark_handled_one cfg (memories s) (row_to_inbox_message now r) \<in> set (fst (inbox_list cfg ls reader q now s))"
  using assms by (simp add: inbox_list_def Let_def split_beta mark_handled_def)

text \<open>C28. Sent mail arrives: a message whose id is new is listed, open, unread and with its
  body cleaned, by every reader that listens on the address, however small the listing.\<close>

theorem sent_mail_is_listed:
  assumes "row_at (cfg_primary_namespace cfg, ''inbox/'' @ uuid, INBOX_SCOPE, py_lower (lt_to l), None) (memories s) = None"
    and "lt_supersedes l \<noteq> Some (''inbox/'' @ uuid)"
    and "\<And>x. x \<in> set (memories s) \<Longrightarrow> r_created_at x < now"
    and "py_lower (lt_to l) \<in> set (map py_lower ls)" and "0 < ls_limit q" and "\<not> ls_unhandled_only q"
  shows "\<exists>m. m \<in> set (fst (inbox_list cfg ls reader q later
        (s\<lparr>memories := snd (inbox_send cfg uuid l now (memories s))\<rparr>))) \<and>
      im_id m = ''inbox/'' @ uuid \<and> im_to m = py_lower (lt_to l) \<and> im_status m = ''open'' \<and>
      im_body m = strip_toolcall_trailer (lt_body l)"
proof -
  let ?i = "''inbox/'' @ uuid"
  let ?r = "(letter_row cfg ?i l now)\<lparr>r_id := next_id (memories s)\<rparr>"
  let ?t' = "snd (inbox_send cfg uuid l now (memories s))"
  let ?s = "s\<lparr>memories := ?t'\<rparr>"
  let ?low = "map py_lower ls"
  have ins: "sql_insert (letter_row cfg ?i l now) (memories s) = Some (memories s @ [?r])"
    using assms(1) by (intro sql_insert_fresh) simp
  have "?t' = memories s @ [?r] \<or> (\<exists>old d. old \<noteq> ?i \<and>
      ?t' = sql_update (message_at cfg old) (stamp_md d) (memories s @ [?r]))"
    using assms(2) ins
    by (auto simp: inbox_send_def Let_def or_none_def split: option.splits bind_splits if_splits)
  then have mem: "?r \<in> set ?t'" and new: "\<And>x. x \<in> set ?t' \<Longrightarrow> x \<noteq> ?r \<Longrightarrow> r_created_at x < now"
    using assms(3) by (auto simp: sql_update_def message_at_def)
  have "?r \<in> set (list_rows cfg (?low @ admin_listen_expansion ?low @
      fst (expand_listen_set later (?low @ admin_listen_expansion ?low) ?s)) reader q (memories ?s))"
    using mem new assms(4,5)
    by (intro list_rows_newest) (auto simp: addressed_def inbox_row_def unread_for_def split: option.split)
  from inbox_list_shows [OF this refl _ assms(6)] assms(4)
  have "mark_handled_one cfg ?t' (row_to_inbox_message later ?r) \<in> set (fst (inbox_list cfg ls reader q later ?s))"
    by force
  moreover have "im_status (row_to_inbox_message later ?r) = ''open''"
    by (simp add: row_to_inbox_message_def Let_def jget_str_def letter_metadata_def or_none_def INBOX_OPEN_def)
  ultimately show ?thesis
    by (intro exI [of _ "mark_handled_one cfg ?t' (row_to_inbox_message later ?r)"])
       (simp add: row_to_inbox_message_def Let_def)
qed

definition demo_letter :: "string \<Rightarrow> string \<Rightarrow> letter" where
  "demo_letter to body = \<lparr>lt_to = to, lt_body = body, lt_subject = ''hi'', lt_from = Some ''engram'',
     lt_thread_id = None, lt_supersedes = None, lt_from_principal = None, lt_authority = False,
     lt_intent = Some ''action'', lt_participants = None, lt_machine = None, lt_model = None,
     lt_model_source = None, lt_from_lane = None, lt_from_project = None, lt_in_reply_to = None,
     lt_huddle_lifecycle = False, lt_relayed_from = None\<rparr>"

definition unread_page :: "nat \<Rightarrow> listing" where
  "unread_page n = \<lparr>ls_unread_only = True, ls_limit = n, ls_include_resolved = False, ls_newest_first = False,
     ls_unhandled_only = False, ls_mark_delivered = False\<rparr>"

definition mail_demo :: "string \<Rightarrow> server" where
  "mail_demo to = empty_server\<lparr>memories := snd (inbox_send default_settings ''u1'' (demo_letter to ''ping</body>'') 5 [])\<rparr>"

theorem sent_mail_is_listed_witness:
  "\<exists>m. m \<in> set (fst (inbox_list default_settings [''hostb''] (Some ''hostb'') (unread_page 1) 9 (mail_demo ''hostb''))) \<and>
     im_body m = strip_toolcall_trailer ''ping</body>''"
proof -
  let ?l = "demo_letter ''hostb'' ''ping</body>''"
  have "\<exists>m. m \<in> set (fst (inbox_list default_settings [''hostb''] (Some ''hostb'') (unread_page 1) 9
        (empty_server\<lparr>memories := snd (inbox_send default_settings ''u1'' ?l 5 (memories empty_server))\<rparr>))) \<and>
      im_id m = ''inbox/'' @ ''u1'' \<and> im_to m = py_lower (lt_to ?l) \<and> im_status m = ''open'' \<and>
      im_body m = strip_toolcall_trailer (lt_body ?l)"
    by (rule sent_mail_is_listed)
       (simp_all add: empty_server_def row_at_def demo_letter_def unread_page_def)
  then show ?thesis by (auto simp: mail_demo_def demo_letter_def empty_server_def)
qed

lemma jexists_append_self [simp]: "jexists (jappend j who) who"
  by (cases j) auto

lemma jput_last [simp]: "jput k v (jput k w m) = jput k v m"
  by (simp add: jput_def)

lemma set_md_set_md [simp]: "set_md m (set_md n r) = set_md m r"
  by (simp add: set_md_def)

lemma ack_row_idem [simp]: "ack_row who (ack_row who r) = ack_row who r"
  by (auto simp: ack_row_def split: option.split)

lemma read_by_ack: "read_by r = JArr xs \<Longrightarrow> jexists (read_by (ack_row who r)) x \<longleftrightarrow> x = who \<or> jexists (read_by r) x"
  by (auto simp: read_by_def jarray_def ack_row_def split: option.splits if_splits)

lemma ack_reads [simp]:
  "inbox_row cfg (ack_row who r) = inbox_row cfg r" "r_key (ack_row who r) = r_key r"
  "message_at cfg i (ack_row who r) = message_at cfg i r"
  "status (ack_row who r) = status r" "archived (ack_row who r) = archived r"
  "r_user_id (ack_row who r) = r_user_id r"
  by (simp_all add: inbox_row_def ack_row_def message_at_def status_def archived_def jget_bool_def)

text \<open>An acknowledgement is private and idempotent: it makes the message read for that
  reader and for nobody else, changes no other row, and repeating it changes nothing.\<close>

theorem ack_is_private_and_idempotent:
  assumes "r \<in> set t" and "message_at cfg i r" and "read_by r = JArr xs"
  shows "ack_row who r \<in> set (snd (inbox_ack cfg i who t)) \<and>
    unread_for (Some x) (ack_row who r) = (x \<noteq> who \<and> unread_for (Some x) r) \<and>
    status (ack_row who r) = status r \<and>
    snd (inbox_ack cfg i who (snd (inbox_ack cfg i who t))) = snd (inbox_ack cfg i who t) \<and>
    filter (\<lambda>y. \<not> message_at cfg i y) (snd (inbox_ack cfg i who t)) = filter (\<lambda>y. \<not> message_at cfg i y) t"
proof -
  have "filter (\<lambda>y. \<not> message_at cfg i y) (sql_update (message_at cfg i) (ack_row who) t)
      = filter (\<lambda>y. \<not> message_at cfg i y) t"
    by (rule filter_update_outside) simp
  moreover have "sql_update (message_at cfg i) (ack_row who) (sql_update (message_at cfg i) (ack_row who) t)
      = sql_update (message_at cfg i) (ack_row who) t"
    by (simp add: sql_update_def)
  moreover have "ack_row who r \<in> set (sql_update (message_at cfg i) (ack_row who) t)"
    using assms(1,2) by (force simp: sql_update_def)
  ultimately show ?thesis using assms(3) by (auto simp: inbox_ack_def unread_for_def read_by_ack)
qed

theorem ack_is_private_and_idempotent_witness:
  "let t = memories (mail_demo ''hostb''); r = hd t
   in unread_for (Some ''hostb'') (ack_row ''hostb'' r) = False \<and> unread_for (Some ''other'') (ack_row ''hostb'' r) = True"
proof -
  let ?t = "memories (mail_demo ''hostb'')"
  have r: "hd ?t \<in> set ?t" and a: "message_at default_settings ''inbox/u1'' (hd ?t)" and b: "read_by (hd ?t) = JArr []"
    and u: "unread_for (Some ''other'') (hd ?t) = True"
    by code_simp+
  note p = ack_is_private_and_idempotent [OF r a b, of "''hostb''"]
  from p [of "''hostb''"] p [of "''other''"] u show ?thesis unfolding Let_def by simp
qed

lemma sweepable_read:
  "sweepable cfg h now r \<Longrightarrow> inbox_row cfg r \<and> inbox_status r = INBOX_OPEN \<and> \<not> archived r \<and>
     (\<exists>x xs. read_by r = JArr (x # xs)) \<and> r_created_at r < now - hours h"
  by (cases "read_by r") (auto simp: sweepable_def neq_Nil_conv)

text \<open>The sweep of stale mail never hides mail nobody has read: where message ids are
  unique, every row it changes was open, unarchived, read by at least one reader and older
  than the horizon; it resolves at most a batch, and loses nothing.\<close>

theorem stale_sweep_is_safe:
  assumes "inbox_autoresolve_stale cfg h resolver batch now t = (Inr n, t')"
    and "distinct (map r_key (filter (inbox_row cfg) t))"
  shows "n \<le> batch \<and> length t' = length t \<and>
    (\<forall>k < length t. t' ! k = t ! k \<or>
       (inbox_row cfg (t ! k) \<and> inbox_status (t ! k) = INBOX_OPEN \<and> \<not> archived (t ! k) \<and>
        (\<exists>x xs. read_by (t ! k) = JArr (x # xs)) \<and> r_created_at (t ! k) < now - hours h \<and>
        inbox_status (t' ! k) = INBOX_RESOLVED \<and> content (t' ! k) = content (t ! k)))"
proof -
  let ?old = "take batch (sort_key r_created_at (filter (sweepable cfg h now) t))"
  let ?hit = "\<lambda>r. r_key r \<in> set (map r_key ?old) \<and> inbox_row cfg r"
  let ?st = "stamp_md [(''status'', JStr INBOX_RESOLVED), (''resolved_at'', JTime now), (''resolved_by'', JStr resolver)]"
  have n: "n = sql_count ?hit t" and t': "t' = sql_update ?hit ?st t"
    using assms(1) by (auto simp: inbox_autoresolve_stale_def Let_def split: if_splits)
  have old: "set ?old \<subseteq> {r \<in> set t. sweepable cfg h now r}"
    using set_take_subset [of batch "sort_key r_created_at (filter (sweepable cfg h now) t)"] by auto
  have in_old: "r \<in> set ?old" if "r \<in> set t" "?hit r" for r
  proof -
    from that(2) obtain o' where o': "o' \<in> set ?old" "r_key o' = r_key r" by auto
    with old have "o' \<in> set t" "inbox_row cfg o'" by (auto simp: sweepable_def)
    with that o'(2) assms(2) have "o' = r" by (intro distinct_map_inj [OF assms(2)]) auto
    with o'(1) show ?thesis by simp
  qed
  have "distinct (map r_key (filter ?hit (filter (inbox_row cfg) t)))"
    using assms(2) by (rule distinct_map_filter)
  moreover have "filter ?hit (filter (inbox_row cfg) t) = filter ?hit t"
    unfolding filter_filter by (rule filter_cong) auto
  ultimately have "distinct (filter ?hit t)" by (simp add: distinct_map)
  then have "sql_count ?hit t = card (set (filter ?hit t))" by (simp only: sql_count_def distinct_card)
  also have "\<dots> \<le> card (set ?old)" using in_old by (intro card_mono) auto
  also have "\<dots> \<le> batch" using card_length [of ?old] by (rule order_trans) simp
  finally have "n \<le> batch" using n by simp
  moreover have "inbox_status (?st r) = INBOX_RESOLVED" for r
    by (simp add: inbox_status_def status_def)
  moreover have "inbox_row cfg (t ! k) \<and> inbox_status (t ! k) = INBOX_OPEN \<and> \<not> archived (t ! k) \<and>
      (\<exists>x xs. read_by (t ! k) = JArr (x # xs)) \<and> r_created_at (t ! k) < now - hours h"
    if "k < length t" "?hit (t ! k)" for k
    using in_old [OF nth_mem [OF that(1)] that(2)] old sweepable_read [of cfg h now "t ! k"] by blast
  ultimately show ?thesis unfolding t' by (auto simp: sql_update_def)
qed

theorem stale_sweep_is_safe_witness:
  "let t = snd (inbox_ack default_settings ''inbox/u1'' ''hostb'' (memories (mail_demo ''hostb'')));
       u = inbox_autoresolve_stale default_settings 72 INBOX_STALE_SWEEP_ACTOR 10 (hours 100) t
   in fst u = Inr 1 \<and> (snd u ! 0 = t ! 0 \<or> content (snd u ! 0) = content (t ! 0))"
proof -
  let ?t = "snd (inbox_ack default_settings ''inbox/u1'' ''hostb'' (memories (mail_demo ''hostb'')))"
  let ?u = "inbox_autoresolve_stale default_settings 72 INBOX_STALE_SWEEP_ACTOR 10 (hours 100) ?t"
  have u: "fst ?u = Inr 1" and d: "distinct (map r_key (filter (inbox_row default_settings) ?t))"
    and k: "length ?t = 1" by code_simp+
  from u have "?u = (Inr 1, snd ?u)" by (metis prod.collapse)
  from stale_sweep_is_safe [OF this d] have "\<forall>k < length ?t. snd ?u ! k = ?t ! k \<or> content (snd ?u ! k) = content (?t ! k)"
    by blast
  with k u show ?thesis unfolding Let_def by (metis less_one)
qed

text \<open>The count and the listing describe the same mail: for a listen set that does not
  include the bare admin role and a reader given in lower case, the unread count is the
  number of messages an unread listing with room for them returns.\<close>

theorem unread_count_is_the_listing:
  assumes "admin_listen_expansion (map py_lower ls) = []" and "ls \<noteq> []"
    and "reader = None \<or> (\<exists>who. reader = Some who \<and> who \<noteq> '''' \<and> py_lower who = who)"
    and "length (memories s) \<le> ls_limit q" and "ls_unread_only q" and "\<not> ls_include_resolved q"
    and "\<not> ls_unhandled_only q"
  shows "fst (inbox_unread_count cfg ls reader now s) = length (fst (inbox_list cfg ls reader q now s))"
proof -
  let ?low = "map py_lower ls"
  let ?listen = "?low @ fst (expand_listen_set now ?low s)"
  let ?P = "\<lambda>r. addressed cfg ?listen r \<and> inbox_status r = INBOX_OPEN \<and> unread_for reader r"
  have who: "map_option py_lower (Option.bind reader or_none) = reader"
    using assms(3) by (auto simp: or_none_def)
  have "length (filter ?P (memories s)) \<le> ls_limit q" using assms(4) length_filter_le order_trans by blast
  then have "length (list_rows cfg ?listen reader q (memories s)) = length (filter ?P (memories s))"
    using assms(5,6) by (simp add: list_rows_def Let_def)
  moreover have "length (fst (inbox_list cfg ls reader q now s)) = length (list_rows cfg ?listen reader q (memories s))"
    using assms(1,2,7) by (simp add: inbox_list_def Let_def split_beta mark_handled_def)
  moreover have "fst (inbox_unread_count cfg ls reader now s) = length (filter ?P (memories s))"
    using assms(2) who by (simp add: inbox_unread_count_def Let_def split_beta sql_count_def)
  ultimately show ?thesis by simp
qed

theorem unread_count_is_the_listing_witness:
  "fst (inbox_unread_count default_settings [''hostb''] (Some ''hostb'') 9 (mail_demo ''hostb'')) =
   length (fst (inbox_list default_settings [''hostb''] (Some ''hostb'') (unread_page 5) 9 (mail_demo ''hostb'')))"
proof -
  have a: "admin_listen_expansion (map py_lower [''hostb'']) = []" and l: "py_lower ''hostb'' = ''hostb''"
    and n: "length (memories (mail_demo ''hostb'')) \<le> ls_limit (unread_page 5)" by code_simp+
  show ?thesis
    by (rule unread_count_is_the_listing [OF a]) (use l n in \<open>simp_all add: unread_page_def\<close>)
qed

text \<open>For a reader on the bare admin role they differ: the listing is widened by the
  fleet-wide admin address and the count is not, so mail to it is listed but counted as
  nothing, and the banner built on the count stays silent.\<close>

theorem admin_mail_is_listed_but_not_counted:
  "length (fst (inbox_list default_settings [''admin''] (Some ''hostb'') (unread_page 5) 9 (mail_demo ADMIN_FLEET))) = 1 \<and>
   fst (inbox_unread_count default_settings [''admin''] (Some ''hostb'') 9 (mail_demo ADMIN_FLEET)) = 0 \<and>
   fst (inbox_banner default_settings [''admin''] (Some ''hostb'') 5 9 (mail_demo ADMIN_FLEET)) = None"
  by code_simp

lemma expand_twice:
  "fst (expand_listen_set now l ((snd (expand_listen_set now l s))\<lparr>memories := t\<rparr>)) = fst (expand_listen_set now l s)"
  by (auto simp: expand_listen_set_def Let_def alias_refresh_def role_refresh_def)

lemma expand_again: "fst (expand_listen_set now l (snd (expand_listen_set now l s))) = fst (expand_listen_set now l s)"
  by (auto simp: expand_listen_set_def Let_def alias_refresh_def role_refresh_def)

lemma resolve_row_closed: "\<not> in_thread cfg listen th (resolve_row resolver now r)"
proof -
  have "status (resolve_row resolver now r) = Some INBOX_RESOLVED"
    by (auto simp: status_def resolve_row_def jget_text_def split: option.split)
  then show ?thesis by (simp add: in_thread_def inbox_status_def INBOX_OPEN_def INBOX_RESOLVED_def)
qed

text \<open>Resolving a thread is a statement about one's own mail: copies addressed to
  others stay as they are, no open copy addressed to the reader remains, and a second
  call finds nothing left to do.\<close>

theorem resolve_thread_is_scoped_and_idempotent:
  fixes cfg th ls who now s
  defines "low \<equiv> map py_lower (filter (\<lambda>a. a \<noteq> '''') ls)"
  defines "listen \<equiv> low @ fst (expand_listen_set now low s)"
    and "s' \<equiv> snd (inbox_resolve_thread cfg th ls who now s)"
  shows "map content (memories s') = map content (memories s) \<and>
    filter (\<lambda>r. r_user_id r \<notin> set listen) (memories s') = filter (\<lambda>r. r_user_id r \<notin> set listen) (memories s) \<and>
    fst (inbox_resolve_thread cfg th ls who now s') = 0"
proof (cases "th = '''' \<or> listen = []")
  case True
  then have s': "s' = snd (expand_listen_set now low s)"
    by (auto simp: s'_def inbox_resolve_thread_def Let_def split_beta listen_def simp flip: low_def)
  have "fst (expand_listen_set now low s') = fst (expand_listen_set now low s)"
    unfolding s' by (rule expand_again)
  with True show ?thesis unfolding s'
    by (auto simp: inbox_resolve_thread_def Let_def split_beta listen_def simp flip: low_def)
next
  case False
  let ?f = "resolve_row who now"
  have s': "s' = (snd (expand_listen_set now low s))\<lparr>memories := sql_update (in_thread cfg listen th) ?f (memories s)\<rparr>"
    using False by (auto simp: s'_def inbox_resolve_thread_def Let_def split_beta listen_def simp flip: low_def)
  have e: "fst (expand_listen_set now low s') = fst (expand_listen_set now low s)"
    unfolding s' by (rule expand_twice)
  have m: "memories s' = sql_update (in_thread cfg listen th) ?f (memories s)" by (simp add: s')
  have other: "filter (\<lambda>r. r_user_id r \<notin> set listen) (memories s') = filter (\<lambda>r. r_user_id r \<notin> set listen) (memories s)"
    unfolding m by (rule filter_update_outside) (simp add: in_thread_def resolve_row_def)
  have "sql_count (in_thread cfg listen th) (memories s') = 0"
    unfolding m sql_count_def sql_update_def using resolve_row_closed by (auto simp: filter_empty_conv)
  then have "fst (inbox_resolve_thread cfg th ls who now s') = 0"
    using False e by (auto simp: inbox_resolve_thread_def Let_def split_beta listen_def simp flip: low_def)
  with other show ?thesis unfolding m by (simp add: content_update)
qed

text \<open>An ask that started its thread carries no thread id of its own, and its answers
  carry the id of the ask; the report of unanswered asks compares thread ids only, so an
  ask that was answered in its thread is still reported as never replied to.\<close>

lemma answered_root_ask_is_reported:
  "let t1 = memories (mail_demo ''hostb'');
       reply = (demo_letter ''engram'' ''done'')\<lparr>lt_from := Some ''hostb'', lt_in_reply_to := Some ''inbox/u1'',
                 lt_thread_id := reply_thread_of default_settings (Some ''inbox/u1'') t1\<rparr>;
       t2 = snd (inbox_send default_settings ''u2'' reply 6 t1)
   in im_handled (mark_handled_one default_settings t2 (row_to_inbox_message 7 (hd t2))) = Some True \<and>
      map_sum id (map r_key) (unanswered_asks default_settings 0 10 7 t2) = Inr [''inbox/u1'', ''inbox/u2'']"
  by code_simp

section \<open>Mail is never lost\<close>

text \<open>The operations of this component as steps of the table.\<close>

inductive mail_step :: "settings \<Rightarrow> server \<Rightarrow> server \<Rightarrow> bool" for cfg where
  send: "mail_step cfg s (s\<lparr>memories := snd (inbox_send cfg uuid l now (memories s))\<rparr>)"
| list: "mail_step cfg s (snd (inbox_list cfg ls reader q now s))"
| ack: "mail_step cfg s (s\<lparr>memories := snd (inbox_ack cfg i who (memories s))\<rparr>)"
| archive: "mail_step cfg s (s\<lparr>memories := snd (inbox_archive cfg i reader (memories s))\<rparr>)"
| resolve: "mail_step cfg s (s\<lparr>memories := snd (inbox_resolve cfg i resolver now (memories s))\<rparr>)"
| resolve_thread: "mail_step cfg s (snd (inbox_resolve_thread cfg th ls resolver now s))"
| sweep: "mail_step cfg s (s\<lparr>memories := snd (inbox_autoresolve_stale cfg h resolver batch now (memories s))\<rparr>)"
| wakes: "mail_step cfg s (s\<lparr>memories := snd (wake_send cfg uuids to w now (memories s))\<rparr>)"

lemma wake_inserts_content:
  "table_ok t \<Longrightarrow> table_ok (snd (wake_inserts cfg w now ts t)) \<and>
   prefix (map content t) (map content (snd (wake_inserts cfg w now ts t)))"
proof (induction ts arbitrary: t)
  case Nil
  then show ?case by simp
next
  case (Cons a ts)
  obtain target uuid where a: "a = (target, uuid)" by fastforce
  let ?r = "wake_row cfg uuid target w now"
  show ?case
  proof (cases "sql_insert ?r t")
    case None
    with Cons.prems a show ?thesis by simp
  next
    case (Some t')
    then have t': "row_at (ukey_of ?r) t = None" "t' = t @ [?r\<lparr>r_id := next_id t\<rparr>]"
      by (auto dest: sql_insert_Some)
    then have "table_ok t'" using Cons.prems by (simp add: table_ok_append)
    with Cons.IH [of t'] t'(2) have "table_ok (snd (wake_inserts cfg w now ts t'))"
      and "prefix (map content t) (map content (snd (wake_inserts cfg w now ts t')))"
      by (auto simp: prefix_def)
    with Some a show ?thesis by (auto split: prod.splits sum.splits)
  qed
qed

lemma resolve_thread_content:
  "map content (memories (snd (inbox_resolve_thread cfg th ls who now s))) = map content (memories s)"
  by (simp add: inbox_resolve_thread_def Let_def split_beta content_update)

lemma mail_step_keeps:
  assumes "mail_step cfg s s'" and "table_ok (memories s)"
  shows "table_ok (memories s') \<and> prefix (map content (memories s)) (map content (memories s'))"
proof -
  have keep: "table_ok t' \<and> prefix (map content (memories s)) (map content t')"
    if "map content t' = map content (memories s)" for t'
    using that table_ok_content [OF that] assms(2) by simp
  from assms(1) show ?thesis
  proof cases
    case (send uuid l now)
    then show ?thesis using inbox_send_ok [OF assms(2)] inbox_send_prefix by simp
  next
    case (list ls reader q now)
    then show ?thesis using keep [OF inbox_list_content] by simp
  next
    case (ack i who)
    then show ?thesis by (simp add: keep inbox_ack_def content_update)
  next
    case (archive i reader)
    then show ?thesis by (simp add: keep inbox_archive_def Let_def content_update split: option.split)
  next
    case (resolve i resolver now)
    then show ?thesis by (simp add: keep inbox_resolve_def content_update)
  next
    case (resolve_thread th ls resolver now)
    then show ?thesis using keep [OF resolve_thread_content] by simp
  next
    case (sweep h resolver batch now)
    then show ?thesis by (simp add: keep inbox_autoresolve_stale_def Let_def content_update)
  next
    case (wakes uuids to w now)
    then show ?thesis using wake_inserts_content [OF assms(2)] by (simp add: wake_send_def)
  qed
qed

text \<open>C8. Mail is never lost: along any run of inbox operations, every row present at the
  start keeps its place, id, address, text and time, and the unique index holds.\<close>

theorem mail_runs_lose_nothing:
  assumes "(mail_step cfg)\<^sup>*\<^sup>* s s'" and "table_ok (memories s)"
  shows "table_ok (memories s') \<and> prefix (map content (memories s)) (map content (memories s'))"
  using assms(1)
proof (induction rule: rtranclp_induct)
  case base
  show ?case using assms(2) by simp
next
  case (step s1 s2)
  then show ?case using mail_step_keeps [of cfg s1 s2] prefix_order.trans by blast
qed

theorem mail_runs_lose_nothing_witness:
  "let s1 = mail_demo ''hostb''; s2 = s1\<lparr>memories := snd (inbox_archive default_settings ''inbox/u1'' None (memories s1))\<rparr>
   in table_ok (memories s1) \<and> prefix (map content (memories s1)) (map content (memories s2))"
proof -
  let ?s1 = "mail_demo ''hostb''"
  let ?s2 = "?s1\<lparr>memories := snd (inbox_archive default_settings ''inbox/u1'' None (memories ?s1))\<rparr>"
  have r: "(mail_step default_settings)\<^sup>*\<^sup>* ?s1 ?s2" by (rule r_into_rtranclp) (rule mail_step.archive)
  have o: "table_ok (memories ?s1)" by code_simp
  from mail_runs_lose_nothing [OF r o] o show ?thesis unfolding Let_def by blast
qed

end
