(* ===== verification/Watch_Claim.thy ===== *)
theory Watch_Claim
  imports Inbox
begin

text \<open>
  The watch claim (\<^verbatim>\<open>server/services/watch_claim.py\<close>): one process at a time watches the
  mail of a seat. A claim is a row of the table \<^verbatim>\<open>memories\<close> that carries the random nonce
  of its holder; beats and releases are compare-and-swap on the nonce, and a claim on an
  occupied seat succeeds only if the holder is silent, deaf to waiting mail, or no longer
  the occupant of the seat. The locale \<open>nonce_lease\<close> is the contract a holder relies on.

  \<^verbatim>\<open>fetched_through\<close> is a timestamp here; the text a client sends is cast by the database.
\<close>

section \<open>Keys and hosts\<close>

definition WATCH_SCOPE :: string where
  "WATCH_SCOPE = ''watch''"

definition WATCH_USER_ID :: string where
  "WATCH_USER_ID = ''global''"

definition WATCH_EXPIRY_SECONDS :: int where
  "WATCH_EXPIRY_SECONDS = 150"

definition MUTE_GRACE_SECONDS :: int where
  "MUTE_GRACE_SECONDS = 600"

definition MUTE_LOOKBACK_SECONDS :: int where
  "MUTE_LOOKBACK_SECONDS = 6 * 3600"

definition SEAT_EXEMPT_IDENTITIES :: "string list" where
  "SEAT_EXEMPT_IDENTITIES = [''admin'']"

definition machine_of :: "string \<Rightarrow> string option" where
  "machine_of a = (if startswith a ''machine:'' then or_none (drop 8 a) else None)"

definition seat_host_of :: "string \<Rightarrow> string \<Rightarrow> string option" where
  "seat_host_of seat a =
     (if startswith a (seat @ ''@'') \<and> drop (length seat + 1) a \<noteq> ''fleet''
      then or_none (drop (length seat + 1) a) else None)"

definition first_some :: "('a \<Rightarrow> 'b option) \<Rightarrow> 'a list \<Rightarrow> 'b option" where
  "first_some f xs = Option.bind (find (\<lambda>x. f x \<noteq> None) xs) f"

definition short_host :: "string option \<Rightarrow> string option" where
  "short_host host = or_none (before (CHR ''.'') (norm host))"

definition watch_host_of :: "string \<Rightarrow> string list \<Rightarrow> string option \<Rightarrow> string option" where
  "watch_host_of seat listen_set host =
     (let ls = map (\<lambda>a. norm (Some a)) listen_set
      in case first_some machine_of ls of
           Some h \<Rightarrow> Some h
         | None \<Rightarrow> (case first_some (seat_host_of seat) ls of Some h \<Rightarrow> Some h | None \<Rightarrow> short_host host))"

definition claim_key :: "string \<Rightarrow> string list \<Rightarrow> string option \<Rightarrow> string" where
  "claim_key seat listen_set host =
     (if seat \<in> set SEAT_EXEMPT_IDENTITIES
      then case watch_host_of seat listen_set host of
             Some h \<Rightarrow> ''watch/'' @ seat @ ''@'' @ h | None \<Rightarrow> ''watch/'' @ seat
      else ''watch/'' @ seat)"

definition shared_key_clause :: "string \<Rightarrow> string \<Rightarrow> bool" where
  "shared_key_clause seat key \<longleftrightarrow>
     key = ''watch/'' @ seat \<or>
     (seat \<in> set SEAT_EXEMPT_IDENTITIES \<and> sql_like key (''watch/'' @ seat @ ''@%''))"

section \<open>Claim, beat, release, status\<close>

definition watch_row_meta ::
  "string \<Rightarrow> string \<Rightarrow> string \<Rightarrow> string \<Rightarrow> string list \<Rightarrow> string option \<Rightarrow> string option \<Rightarrow> instant \<Rightarrow> jobj" where
  "watch_row_meta seat nonce armed_by project_dir listen_set host seat_nonce now =
     [(''kind'', JStr ''watch''), (''seat'', JStr seat), (''nonce'', JStr nonce),
      (''armed_by'', JStr armed_by), (''project_dir'', JStr project_dir),
      (''listen_set'', JArr (map JStr listen_set)), (''host'', jopt host),
      (''seat_nonce'', jopt seat_nonce), (''claimed_at'', JTime now), (''last_beat'', JTime now)]"

definition watch_row :: "settings \<Rightarrow> row \<Rightarrow> bool" where
  "watch_row cfg r \<longleftrightarrow> r_namespace r = cfg_primary_namespace cfg \<and> r_scope r = WATCH_SCOPE \<and> r_user_id r = WATCH_USER_ID"

definition new_watch :: "settings \<Rightarrow> string \<Rightarrow> jobj \<Rightarrow> instant \<Rightarrow> row" where
  "new_watch cfg key meta now =
     (new_row (cfg_primary_namespace cfg) key ''watch'' WATCH_SCOPE WATCH_USER_ID (Some '''') now)
     \<lparr>r_metadata := Some meta\<rparr>"

definition elements_text :: "json option \<Rightarrow> string list" where
  "elements_text j = (case j of Some (JArr xs) \<Rightarrow> map (\<lambda>x. or_empty (jtext x)) (filter (\<lambda>x. jtext x \<noteq> None) xs) | _ \<Rightarrow> [])"

text \<open>The three ways a claim can be lost.\<close>

definition beat_expired :: "instant \<Rightarrow> row \<Rightarrow> bool" where
  "beat_expired now w =
     (case jget_time (md w) ''last_beat'' of None \<Rightarrow> False | Some b \<Rightarrow> b < now - seconds WATCH_EXPIRY_SECONDS)"

definition seat_occupant :: "settings \<Rightarrow> string \<Rightarrow> string \<Rightarrow> table \<Rightarrow> bool" where
  "seat_occupant cfg seat nonce t =
     list_ex (\<lambda>s. r_namespace s = cfg_primary_namespace cfg \<and> r_scope s = ''seat'' \<and> r_user_id s = ''global''
                  \<and> r_key s = ''seat/'' @ seat \<and> jget_text (md s) ''session_nonce'' = Some nonce) t"

definition follows_seat :: "settings \<Rightarrow> string \<Rightarrow> string option \<Rightarrow> row \<Rightarrow> table \<Rightarrow> bool" where
  "follows_seat cfg seat seat_nonce w t =
     (case seat_nonce of None \<Rightarrow> False
      | Some n \<Rightarrow> jget_text (md w) ''seat_nonce'' \<noteq> Some n \<and> seat_occupant cfg seat n t)"

definition mute_since :: "instant \<Rightarrow> row \<Rightarrow> instant" where
  "mute_since now w =
     (let back = now - seconds MUTE_LOOKBACK_SECONDS
      in case jget_time (md w) ''fetched_through'' of
           Some f \<Rightarrow> max f back
         | None \<Rightarrow> (case jget_time (md w) ''claimed_at'' of Some c \<Rightarrow> max c back | None \<Rightarrow> back))"

definition mute :: "settings \<Rightarrow> instant \<Rightarrow> row \<Rightarrow> table \<Rightarrow> bool" where
  "mute cfg now w t =
     list_ex (\<lambda>m. inbox_row cfg m \<and> r_user_id m \<in> set (elements_text (jget (md w) ''listen_set'')) \<and> \<not> archived m
                  \<and> r_created_at m < now - seconds MUTE_GRACE_SECONDS \<and> mute_since now w < r_created_at m) t"

definition stealable :: "settings \<Rightarrow> string \<Rightarrow> string option \<Rightarrow> instant \<Rightarrow> table \<Rightarrow> row \<Rightarrow> bool" where
  "stealable cfg seat seat_nonce now t w \<longleftrightarrow>
     beat_expired now w \<or> follows_seat cfg seat seat_nonce w t \<or> mute cfg now w t"

datatype claim_verdict =
    PartialRefused
  | Granted string
  | Stolen string bool "string option"
    \<comment> \<open>key, whether the reason given is that the claim follows the seat, where to catch up from\<close>
  | Held string "string option" "string option" "string option" int
    \<comment> \<open>key, holder's provenance, since, last beat, retry after (tenths of a second)\<close>

text \<open>\<^verbatim>\<open>round(x, 1)\<close> of a number of seconds given in microseconds, in tenths.\<close>

definition round_tenths :: "int \<Rightarrow> int" where
  "round_tenths us =
     (let q = us div 100000; r = us mod 100000
      in if r < 50000 \<or> (r = 50000 \<and> even q) then q else q + 1)"

definition retry_after :: "instant \<Rightarrow> row option \<Rightarrow> int" where
  "retry_after now w =
     round_tenths (case Option.bind w (\<lambda>r. jget_time (md r) ''last_beat'') of
        None \<Rightarrow> seconds WATCH_EXPIRY_SECONDS
      | Some b \<Rightarrow> max (seconds 5) (min (seconds WATCH_EXPIRY_SECONDS)
                        (b + seconds WATCH_EXPIRY_SECONDS - now + seconds 2)))"

record claim_req =
  cl_seat :: "string option"
  cl_nonce :: string
  cl_armed_by :: string
  cl_project_dir :: string
  cl_listen_set :: "string list"
  cl_host :: "string option"
  cl_seat_nonce :: "string option"

definition normalized_listen :: "string list \<Rightarrow> string list" where
  "normalized_listen ls = map (\<lambda>a. norm (Some a)) (filter (\<lambda>a. py_strip a \<noteq> '''') ls)"

definition watch_at :: "settings \<Rightarrow> string \<Rightarrow> row \<Rightarrow> bool" where
  "watch_at cfg key r \<longleftrightarrow> watch_row cfg r \<and> r_key r = key"

definition watch_claim :: "settings \<Rightarrow> claim_req \<Rightarrow> instant \<Rightarrow> table \<Rightarrow> claim_verdict \<times> table" where
  "watch_claim cfg c now t =
     (let seat = norm (cl_seat c); ls = normalized_listen (cl_listen_set c)
      in if seat = '''' then (PartialRefused, t)
         else if seat \<notin> set ls \<and> seat \<notin> set (map (before (CHR ''@'')) ls) then (PartialRefused, t)
         else let sn = or_none (py_strip (or_empty (cl_seat_nonce c)));
                  meta = watch_row_meta seat (cl_nonce c) (cl_armed_by c) (cl_project_dir c) ls (cl_host c) sn now;
                  key = claim_key seat ls (cl_host c)
              in case insert_do_nothing (new_watch cfg key meta now) t of
                   (Some _, t') \<Rightarrow> (Granted key, t')
                 | (None, _) \<Rightarrow>
                     let prior = fetchrow (watch_at cfg key) t;
                         pmd = (case prior of None \<Rightarrow> [] | Some r \<Rightarrow> md r);
                         hit = (\<lambda>w. watch_at cfg key w \<and> stealable cfg seat sn now t w)
                     in if list_ex hit t
                        then (Stolen key (sn \<noteq> None \<and> jget_str pmd ''seat_nonce'' \<noteq> sn)
                                (case Option.bind (jget_str pmd ''fetched_through'') or_none of
                                   Some f \<Rightarrow> Some f | None \<Rightarrow> jget_str pmd ''claimed_at''),
                              sql_update hit (\<lambda>w. touch now (set_md meta w)) t)
                        else (Held key (jget_str pmd ''armed_by'') (jget_str pmd ''claimed_at'')
                                (jget_str pmd ''last_beat'') (retry_after now prior), t))"

definition holds_watch :: "settings \<Rightarrow> string \<Rightarrow> string \<Rightarrow> row \<Rightarrow> bool" where
  "holds_watch cfg seat nonce r \<longleftrightarrow>
     watch_row cfg r \<and> shared_key_clause seat (r_key r) \<and> jget_text (md r) ''nonce'' = Some nonce"

definition beat_row :: "instant option \<Rightarrow> instant \<Rightarrow> row \<Rightarrow> row" where
  "beat_row fetched_through now r =
     touch now (stamp_md ([(''last_beat'', JTime now)] @
       (case fetched_through of None \<Rightarrow> [] | Some f \<Rightarrow> [(''fetched_through'', JTime f)])) r)"

definition watch_beat ::
  "settings \<Rightarrow> string option \<Rightarrow> string \<Rightarrow> instant option \<Rightarrow> instant \<Rightarrow> table \<Rightarrow> bool \<times> table" where
  "watch_beat cfg seat nonce fetched_through now t =
     (list_ex (holds_watch cfg (norm seat) nonce) t,
      sql_update (holds_watch cfg (norm seat) nonce) (beat_row fetched_through now) t)"

definition watch_release :: "settings \<Rightarrow> string option \<Rightarrow> string \<Rightarrow> table \<Rightarrow> bool \<times> table" where
  "watch_release cfg seat nonce t =
     (list_ex (holds_watch cfg (norm seat) nonce) t, sql_delete (holds_watch cfg (norm seat) nonce) t)"

datatype watch_state = Covered | Expired | Unheld

record watch_report =
  ws_state :: watch_state
  ws_row :: "row option"
  ws_host :: "string option"
  ws_elsewhere :: "string list"

definition row_host :: "string \<Rightarrow> row \<Rightarrow> string option" where
  "row_host seat r =
     (if CHR ''@'' \<in> set (r_key r) then Some (after (CHR ''@'') (r_key r))
      else watch_host_of seat (elements_text (jget (md r) ''listen_set'')) (jget_str (md r) ''host''))"

definition beat_fresh :: "instant \<Rightarrow> row \<Rightarrow> bool" where
  "beat_fresh now w =
     (case jget_time (md w) ''last_beat'' of None \<Rightarrow> False | Some b \<Rightarrow> now - seconds WATCH_EXPIRY_SECONDS \<le> b)"

definition watch_status :: "settings \<Rightarrow> string option \<Rightarrow> string option \<Rightarrow> instant \<Rightarrow> table \<Rightarrow> watch_report" where
  "watch_status cfg seat0 host now t =
     (let seat = norm seat0; h = short_host host;
          rows = filter (\<lambda>r. watch_row cfg r \<and> shared_key_clause seat (r_key r)) t;
          per_box = (seat \<in> set SEAT_EXEMPT_IDENTITIES \<and> h \<noteq> None);
          mine = (if per_box then filter (\<lambda>r. row_host seat r = h) rows else rows);
          elsewhere = (if per_box
            then sort (remdups (map (\<lambda>r. case Option.bind (row_host seat r) or_none of
                                             None \<Rightarrow> ''unknown'' | Some x \<Rightarrow> x)
                    (filter (\<lambda>r. row_host seat r \<noteq> h \<and> beat_fresh now r) rows)))
            else [])
      in case sort_key (\<lambda>r. if beat_fresh now r then 0 else (1::nat)) mine of
           [] \<Rightarrow> \<lparr>ws_state = Unheld, ws_row = None, ws_host = None, ws_elsewhere = elsewhere\<rparr>
         | r # _ \<Rightarrow> \<lparr>ws_state = (if beat_fresh now r then Covered else Expired), ws_row = Some r,
                     ws_host = (if seat \<in> set SEAT_EXEMPT_IDENTITIES then row_host seat r else None),
                     ws_elsewhere = elsewhere\<rparr>)"

section \<open>The contract of a lease\<close>

text \<open>What a process relies on that holds, or no longer holds, something by its nonce:
  beating and releasing answer exactly whether it is the holder, do nothing at all when it
  is not, and never affect another holder.\<close>

locale nonce_lease =
  fixes holds :: "string \<Rightarrow> 's \<Rightarrow> bool"
    and beat :: "string \<Rightarrow> 's \<Rightarrow> bool \<times> 's"
    and release :: "string \<Rightarrow> 's \<Rightarrow> bool \<times> 's"
  assumes beat_verdict: "fst (beat n s) = holds n s"
    and beat_miss: "\<not> holds n s \<Longrightarrow> snd (beat n s) = s"
    and beat_keeps: "holds m (snd (beat n s)) = holds m s"
    and release_verdict: "fst (release n s) = holds n s"
    and release_miss: "\<not> holds n s \<Longrightarrow> snd (release n s) = s"
    and release_frees: "holds m (snd (release n s)) \<longleftrightarrow> holds m s \<and> m \<noteq> n"
begin

text \<open>A displaced process is harmless: whatever it goes on to send, in any order, changes
  nothing and is answered with a refusal.\<close>

lemma displaced_harmless:
  "\<not> holds n s \<Longrightarrow> fold (\<lambda>b s. snd (if b then beat n s else release n s)) calls s = s"
  by (induction calls) (auto simp: beat_miss release_miss)

lemma release_final: "\<not> holds n (snd (release n s)) \<and> \<not> fst (beat n (snd (release n s)))"
  by (simp add: release_frees beat_verdict)

end

lemma beat_row_simps [simp]:
  "ukey_of (beat_row f now r) = ukey_of r" "r_key (beat_row f now r) = r_key r"
  "r_id (beat_row f now r) = r_id r" "watch_row cfg (beat_row f now r) = watch_row cfg r"
  "jget_text (md (beat_row f now r)) ''nonce'' = jget_text (md r) ''nonce''"
  "holds_watch cfg seat m (beat_row f now r) = holds_watch cfg seat m r"
  by (auto simp: beat_row_def watch_row_def holds_watch_def split: option.split)

interpretation watch: nonce_lease
  "\<lambda>n t. list_ex (holds_watch cfg (norm seat) n) t"
  "\<lambda>n t. watch_beat cfg seat n f now t"
  "\<lambda>n t. watch_release cfg seat n t" for cfg seat f now
proof
  fix n m :: string and s :: table
  show "\<not> list_ex (holds_watch cfg (norm seat) n) s \<Longrightarrow> snd (watch_beat cfg seat n f now s) = s"
    by (simp add: watch_beat_def sql_update_none Bex_set [symmetric])
  show "\<not> list_ex (holds_watch cfg (norm seat) n) s \<Longrightarrow> snd (watch_release cfg seat n s) = s"
    by (auto simp: watch_release_def sql_delete_def list_ex_iff)
  show "list_ex (holds_watch cfg (norm seat) m) (snd (watch_beat cfg seat n f now s))
      = list_ex (holds_watch cfg (norm seat) m) s"
    unfolding watch_beat_def snd_conv list_ex_update by (auto simp: list_ex_iff)
  show "list_ex (holds_watch cfg (norm seat) m) (snd (watch_release cfg seat n s)) \<longleftrightarrow>
      list_ex (holds_watch cfg (norm seat) m) s \<and> m \<noteq> n"
    by (auto simp: watch_release_def list_ex_iff holds_watch_def)
qed (simp_all add: watch_beat_def watch_release_def)

interpretation beating: row_writer "beat_row f now" for f now
  by unfold_locales simp_all

section \<open>One holder per seat\<close>

definition watch_ok :: "settings \<Rightarrow> table \<Rightarrow> bool" where
  "watch_ok cfg t \<longleftrightarrow> table_ok t \<and> list_all (\<lambda>r. watch_row cfg r \<longrightarrow> r_project r = Some '''') t"

lemma watch_at_unique:
  assumes "watch_ok cfg t" and "r \<in> set t" "watch_at cfg k r" and "s \<in> set t" "watch_at cfg k s"
  shows "r = s"
proof -
  have "ukey_of r = ukey_of s"
    using assms by (auto simp: watch_ok_def watch_at_def watch_row_def ukey_of_def list_all_iff)
  with assms show ?thesis by (auto simp: watch_ok_def table_ok_def intro: distinct_map_inj)
qed

lemma watch_at_filter:
  assumes "watch_ok cfg t" and "w \<in> set t" and "watch_at cfg k w"
  shows "filter (watch_at cfg k) t = [w]"
proof -
  have "filter (watch_at cfg k) t = filter (\<lambda>y. r_id y = r_id w) t"
    using assms watch_at_unique [OF assms(1)]
    by (intro filter_cong refl) (auto simp: watch_ok_def table_ok_def dest: distinct_map_inj)
  also have "\<dots> = [w]" using assms(1,2) by (intro filter_unique) (simp_all add: watch_ok_def table_ok_def)
  finally show ?thesis .
qed

lemma new_watch_simps [simp]:
  "ukey_of (new_watch cfg k m now) = (cfg_primary_namespace cfg, k, WATCH_SCOPE, WATCH_USER_ID, Some '''')"
  "md (new_watch cfg k m now) = m" "r_key (new_watch cfg k m now) = k"
  "watch_row cfg (new_watch cfg k m now)" "r_project (new_watch cfg k m now) = Some ''''"
  by (simp_all add: new_watch_def new_row_def ukey_of_def md_def watch_row_def)

lemma row_at_watch:
  assumes "watch_ok cfg t"
  shows "row_at (cfg_primary_namespace cfg, k, WATCH_SCOPE, WATCH_USER_ID, Some '''') t = None
    \<longleftrightarrow> (\<forall>r \<in> set t. \<not> watch_at cfg k r)"
  using assms by (force simp: row_at_None watch_ok_def watch_at_def watch_row_def ukey_of_def list_all_iff image_iff)

definition rewatch :: "jobj \<Rightarrow> instant \<Rightarrow> row \<Rightarrow> row" where
  "rewatch m now w = touch now (set_md m w)"

interpretation stealing: row_writer "rewatch m now" for m now
  by unfold_locales (simp_all add: rewatch_def)

lemma rewatch_simps [simp]:
  "md (rewatch m now w) = m" "r_key (rewatch m now w) = r_key w" "r_project (rewatch m now w) = r_project w"
  "watch_row cfg (rewatch m now w) = watch_row cfg w" "watch_at cfg k (rewatch m now w) = watch_at cfg k w"
  by (simp_all add: rewatch_def watch_row_def watch_at_def)

text \<open>What a claim does to the table, in one place.\<close>

lemma watch_claim_cases:
  assumes "watch_claim cfg c now t = (v, t')" and "watch_ok cfg t"
  obtains
    (refused) "v = PartialRefused" "t' = t"
  | (granted) k m where "v = Granted k" "\<forall>r \<in> set t. \<not> watch_at cfg k r"
      "jget_text m ''nonce'' = Some (cl_nonce c)" "norm (cl_seat c) \<noteq> ''''"
      "k = claim_key (norm (cl_seat c)) (normalized_listen (cl_listen_set c)) (cl_host c)"
      "t' = t @ [(new_watch cfg k m now)\<lparr>r_id := next_id t\<rparr>]" "jget_time m ''last_beat'' = Some now"
  | (stolen) k m w b u where "v = Stolen k b u" "w \<in> set t" "watch_at cfg k w"
      "stealable cfg (norm (cl_seat c)) (or_none (py_strip (or_empty (cl_seat_nonce c)))) now t w"
      "jget_text m ''nonce'' = Some (cl_nonce c)" "norm (cl_seat c) \<noteq> ''''"
      "k = claim_key (norm (cl_seat c)) (normalized_listen (cl_listen_set c)) (cl_host c)"
      "t' = sql_update (watch_at cfg k) (rewatch m now) t" "jget_time m ''last_beat'' = Some now"
  | (held) k a b d e w where "v = Held k a b d e" "w \<in> set t" "watch_at cfg k w"
      "\<not> stealable cfg (norm (cl_seat c)) (or_none (py_strip (or_empty (cl_seat_nonce c)))) now t w"
      "k = claim_key (norm (cl_seat c)) (normalized_listen (cl_listen_set c)) (cl_host c)" "t' = t"
proof -
  let ?seat = "norm (cl_seat c)" and ?ls = "normalized_listen (cl_listen_set c)"
  let ?sn = "or_none (py_strip (or_empty (cl_seat_nonce c)))"
  let ?m = "watch_row_meta ?seat (cl_nonce c) (cl_armed_by c) (cl_project_dir c) ?ls (cl_host c) ?sn now"
  let ?k = "claim_key ?seat ?ls (cl_host c)"
  let ?hit = "\<lambda>w. watch_at cfg ?k w \<and> stealable cfg ?seat ?sn now t w"
  have n: "jget_text ?m ''nonce'' = Some (cl_nonce c)" by (simp add: watch_row_meta_def jget_text_def)
  have lb: "jget_time ?m ''last_beat'' = Some now" by (simp add: watch_row_meta_def jget_time_def)
  show thesis
  proof (cases "?seat = '''' \<or> (?seat \<notin> set ?ls \<and> ?seat \<notin> set (map (before (CHR ''@'')) ?ls))")
    case True
    with assms(1) have "v = PartialRefused" "t' = t" by (auto simp: watch_claim_def Let_def split: if_splits)
    then show thesis by (rule refused)
  next
    case False
    note c = assms(1) [unfolded watch_claim_def Let_def]
    show thesis
    proof (cases "row_at (ukey_of (new_watch cfg ?k ?m now)) t")
      case None
      with c False have "v = Granted ?k" "t' = t @ [(new_watch cfg ?k ?m now)\<lparr>r_id := next_id t\<rparr>]"
        by (auto simp: insert_do_nothing_def split: if_splits)
      with None n lb False granted row_at_watch [OF assms(2)] show thesis by force
    next
      case (Some r)
      then have ins: "insert_do_nothing (new_watch cfg ?k ?m now) t = (None, t)" by (simp add: insert_do_nothing_def)
      from row_at_Some [OF Some] have "r \<in> set t"
        and "ukey_of r = (cfg_primary_namespace cfg, ?k, WATCH_SCOPE, WATCH_USER_ID, Some '''')" by simp_all
      then have r: "r \<in> set t" "watch_at cfg ?k r" by (simp_all add: watch_at_def watch_row_def ukey_of_def)
      show thesis
      proof (cases "stealable cfg ?seat ?sn now t r")
        case True
        have hit: "?hit w \<longleftrightarrow> watch_at cfg ?k w" if "w \<in> set t" for w
          using that r True watch_at_unique [OF assms(2) r] by blast
        have "sql_update ?hit (rewatch ?m now) t = sql_update (watch_at cfg ?k) (rewatch ?m now) t"
          unfolding sql_update_def using hit by (intro map_cong) auto
        moreover have "list_ex ?hit t" using r True by (auto simp: list_ex_iff)
        ultimately obtain b u where "v = Stolen ?k b u" "t' = sql_update (watch_at cfg ?k) (rewatch ?m now) t"
          using c False ins unfolding rewatch_def by (auto split: if_splits)
        with r True n lb False stolen show thesis by blast
      next
        case nost: False
        have "\<not> list_ex ?hit t" using nost watch_at_unique [OF assms(2) r] by (auto simp: list_ex_iff)
        then obtain a b d e where "v = Held ?k a b d e" "t' = t" using c False ins by (auto split: if_splits)
        with r nost held show thesis by blast
      qed
    qed
  qed
qed

lemma watch_ok_append:
  "watch_ok cfg t \<Longrightarrow> row_at (ukey_of r) t = None \<Longrightarrow> r_project r = Some '''' \<Longrightarrow>
   watch_ok cfg (t @ [r\<lparr>r_id := next_id t\<rparr>])"
  by (simp add: watch_ok_def table_ok_append)

lemma watch_claim_ok:
  assumes "watch_claim cfg c now t = (v, t')" and "watch_ok cfg t"
  shows "watch_ok cfg t'"
  using assms
proof (cases rule: watch_claim_cases)
  case refused
  with assms show ?thesis by simp
next
  case (granted k m)
  with assms(2) show ?thesis by (simp add: watch_ok_append row_at_watch)
next
  case (stolen k m w b u)
  with assms(2) show ?thesis
    by (simp add: watch_ok_def stealing.table_ok_update list_all_update)
next
  case held
  with assms show ?thesis by simp
qed

lemma watch_beat_ok: "watch_ok cfg t \<Longrightarrow> watch_ok cfg (snd (watch_beat cfg seat n f now t))"
proof -
  have "r_project (beat_row f now r) = r_project r" for r by (simp add: beat_row_def)
  then show "watch_ok cfg t \<Longrightarrow> ?thesis"
    by (simp add: watch_ok_def watch_beat_def beating.table_ok_update list_all_update)
qed

lemma watch_release_ok: "watch_ok cfg t \<Longrightarrow> watch_ok cfg (snd (watch_release cfg seat n t))"
  by (auto simp: watch_ok_def watch_release_def list_all_iff)

text \<open>The steps of all watchers, interleaved with any operation that leaves the watch rows
  alone.\<close>

inductive watch_step :: "settings \<Rightarrow> table \<Rightarrow> table \<Rightarrow> bool" for cfg where
  claim: "watch_step cfg t (snd (watch_claim cfg c now t))"
| beat: "watch_step cfg t (snd (watch_beat cfg seat n f now t))"
| release: "watch_step cfg t (snd (watch_release cfg seat n t))"
| elsewhere: "table_ok t' \<Longrightarrow> filter (watch_row cfg) t' = filter (watch_row cfg) t \<Longrightarrow> watch_step cfg t t'"

lemma watch_step_ok: "watch_step cfg t t' \<Longrightarrow> watch_ok cfg t \<Longrightarrow> watch_ok cfg t'"
proof (induction rule: watch_step.induct)
  case (claim t c now)
  then show ?case using watch_claim_ok [OF prod.collapse [symmetric]] by blast
next
  case (beat t seat n f now)
  then show ?case by (rule watch_beat_ok)
next
  case (release t seat n)
  then show ?case by (rule watch_release_ok)
next
  case (elsewhere t' t)
  have "r_project r = Some ''''" if "r \<in> set t'" "watch_row cfg r" for r
  proof -
    have "r \<in> set (filter (watch_row cfg) t)" unfolding elsewhere(2) [symmetric] using that by simp
    with elsewhere(3) show ?thesis by (auto simp: watch_ok_def list_all_iff)
  qed
  with elsewhere(1) show ?case by (simp add: watch_ok_def list_all_iff)
qed

lemma shared_key_seat: "seat \<notin> set SEAT_EXEMPT_IDENTITIES \<Longrightarrow> shared_key_clause seat k \<longleftrightarrow> k = ''watch/'' @ seat"
  by (simp add: shared_key_clause_def)

lemma seat_rows: "seat \<notin> set SEAT_EXEMPT_IDENTITIES \<Longrightarrow>
   (watch_row cfg r \<and> shared_key_clause seat (r_key r)) = watch_at cfg (''watch/'' @ seat) r"
  by (simp add: shared_key_seat watch_at_def)

text \<open>C6. The watch changes hands lawfully. However the claims, beats and releases of any number of
  processes interleave, with each other and with any steps that leave the watch rows alone, the watch of a
  seat (of a shared role: on one host) has at most one holder, and from one step to the next it
  stays with its holder except in two cases: the holder's own nonce released it, or another
  process's claim was answered while the holder's last beat was past the expiry, its mail was
  waiting unfetched past the grace, or its seat had passed to the claimant's process.\<close>

theorem watch_changes_hands_lawfully:
  assumes "(watch_step cfg)\<^sup>*\<^sup>* t0 t" and "watch_ok cfg t0" and "watch_step cfg t t'"
    and "w \<in> set t" and "watch_at cfg k w"
  shows "filter (watch_at cfg k) t = [w] \<and>
    (case filter (watch_at cfg k) t' of
       [] \<Rightarrow> \<exists>seat n. t' = snd (watch_release cfg seat n t) \<and> jget_text (md w) ''nonce'' = Some n
     | [w'] \<Rightarrow> jget_text (md w') ''nonce'' = jget_text (md w) ''nonce'' \<or>
         (\<exists>c now. t' = snd (watch_claim cfg c now t) \<and> jget_text (md w') ''nonce'' = Some (cl_nonce c) \<and>
            k = claim_key (norm (cl_seat c)) (normalized_listen (cl_listen_set c)) (cl_host c) \<and>
            (beat_expired now w \<or> mute cfg now w t \<or>
             follows_seat cfg (norm (cl_seat c)) (or_none (py_strip (or_empty (cl_seat_nonce c)))) w t))
     | _ \<Rightarrow> False)"
proof -
  have ok: "watch_ok cfg t" using assms(1,2)
    by (induction rule: rtranclp_induct) (auto intro: watch_step_ok)
  note one = watch_at_filter [OF ok assms(4,5)]
  from assms(3) have "case filter (watch_at cfg k) t' of
       [] \<Rightarrow> \<exists>seat n. t' = snd (watch_release cfg seat n t) \<and> jget_text (md w) ''nonce'' = Some n
     | [w'] \<Rightarrow> jget_text (md w') ''nonce'' = jget_text (md w) ''nonce'' \<or>
         (\<exists>c now. t' = snd (watch_claim cfg c now t) \<and> jget_text (md w') ''nonce'' = Some (cl_nonce c) \<and>
            k = claim_key (norm (cl_seat c)) (normalized_listen (cl_listen_set c)) (cl_host c) \<and>
            (beat_expired now w \<or> mute cfg now w t \<or>
             follows_seat cfg (norm (cl_seat c)) (or_none (py_strip (or_empty (cl_seat_nonce c)))) w t))
     | _ \<Rightarrow> False"
  proof (cases rule: watch_step.cases)
    case (claim c now)
    obtain v u where c: "watch_claim cfg c now t = (v, u)" by force
    with claim have t': "t' = u" by simp
    from c ok show ?thesis
    proof (cases rule: watch_claim_cases)
      case (granted j m)
      moreover have "j \<noteq> k" using granted(2) assms(4,5) by blast
      ultimately show ?thesis using one t' by (simp add: watch_at_def)
    next
      case (stolen j m x b y)
      show ?thesis
      proof (cases "j = k")
        case True
        then have "x = w" using watch_at_unique [OF ok] stolen(2,3) assms(4,5) by blast
        moreover have "filter (watch_at cfg k) t' = [rewatch m now w]"
          using filter_update_same [of "watch_at cfg k" "rewatch m now" t] one stolen(8) t' True by simp
        moreover have "jget_text (md (rewatch m now w)) ''nonce'' = Some (cl_nonce c)"
          using stolen(5) by (simp add: rewatch_def)
        moreover have "\<exists>c' now'. t' = snd (watch_claim cfg c' now' t) \<and> Some (cl_nonce c) = Some (cl_nonce c') \<and>
            k = claim_key (norm (cl_seat c')) (normalized_listen (cl_listen_set c')) (cl_host c') \<and>
            (beat_expired now' w \<or> mute cfg now' w t \<or>
             follows_seat cfg (norm (cl_seat c')) (or_none (py_strip (or_empty (cl_seat_nonce c')))) w t)"
          using claim(1) stolen(4,7) True \<open>x = w\<close> by (intro exI [of _ c] exI [of _ now]) (simp add: stealable_def, argo)
        ultimately show ?thesis by simp
      next
        case False
        then have "filter (watch_at cfg k) t' = filter (watch_at cfg k) t"
          unfolding t' stolen(8) by (intro filter_update_outside) (auto simp: watch_at_def)
        then show ?thesis using one by simp
      qed
    qed (use one t' in simp_all)
  next
    case (beat seat n f now)
    have "filter (watch_at cfg k) t' = map (\<lambda>r. if holds_watch cfg (norm seat) n r then beat_row f now r else r) [w]"
      unfolding beat watch_beat_def snd_conv one [symmetric] sql_update_def
      by (induction t) (simp_all add: watch_at_def)
    then show ?thesis by simp
  next
    case (release seat n)
    have "filter (watch_at cfg k) t' = filter (\<lambda>r. \<not> holds_watch cfg (norm seat) n r) [w]"
      unfolding release watch_release_def snd_conv sql_delete_def one [symmetric] filter_filter by (intro filter_cong) auto
    then show ?thesis using release by (auto simp: holds_watch_def)
  next
    case elsewhere
    then have "filter (watch_at cfg k) t' = filter (watch_at cfg k) t"
      by (metis (no_types, lifting) filter_filter filter_cong watch_at_def)
    then show ?thesis using one by simp
  qed
  with one show ?thesis by simp
qed

definition demo_claim :: "string \<Rightarrow> claim_req" where
  "demo_claim n = \<lparr>cl_seat = Some ''engram-1'', cl_nonce = n, cl_armed_by = ''bridge'', cl_project_dir = ''/w'',
     cl_listen_set = [''engram-1'', ''engram''], cl_host = None, cl_seat_nonce = None\<rparr>"

definition watch_demo :: table where
  "watch_demo = snd (watch_claim default_settings (demo_claim ''n1'') 0 [])"

theorem watch_changes_hands_lawfully_witness:
  "filter (watch_at default_settings ''watch/engram-1'') watch_demo = [hd watch_demo] \<and>
   beat_expired (seconds 200) (hd watch_demo) \<and>
   map (\<lambda>w. jget_text (md w) ''nonce'') (snd (watch_claim default_settings (demo_claim ''n2'') (seconds 200) watch_demo)) = [Some ''n2'']"
proof -
  have o: "watch_ok default_settings watch_demo" and w: "hd watch_demo \<in> set watch_demo"
    and a: "watch_at default_settings ''watch/engram-1'' (hd watch_demo)" by code_simp+
  have b: "beat_expired (seconds 200) (hd watch_demo)"
    "map (\<lambda>w. jget_text (md w) ''nonce'') (snd (watch_claim default_settings (demo_claim ''n2'') (seconds 200) watch_demo)) = [Some ''n2'']"
    by code_simp+
  from watch_changes_hands_lawfully [OF rtranclp.rtrancl_refl o watch_step.claim w a] b show ?thesis by blast
qed

definition is_grant :: "claim_verdict \<Rightarrow> bool" where
  "is_grant v = (case v of Granted _ \<Rightarrow> True | Stolen _ _ _ \<Rightarrow> True | _ \<Rightarrow> False)"

lemma grant_row:
  assumes "watch_claim cfg c now t = (v, t')" and "is_grant v" and "watch_ok cfg t"
    and "k = claim_key (norm (cl_seat c)) (normalized_listen (cl_listen_set c)) (cl_host c)"
  obtains w where "filter (watch_at cfg k) t' = [w]" "jget_text (md w) ''nonce'' = Some (cl_nonce c)"
    "jget_time (md w) ''last_beat'' = Some now"
  using assms(1,3)
proof (cases rule: watch_claim_cases)
  case (granted j m)
  then have "filter (watch_at cfg k) t = []" by (simp add: filter_empty_conv assms(4))
  moreover have "watch_at cfg k ((new_watch cfg k m now)\<lparr>r_id := next_id t\<rparr>)"
    by (simp add: watch_at_def watch_row_def new_watch_def new_row_def)
  ultimately show ?thesis using granted
    by (intro that [of "(new_watch cfg k m now)\<lparr>r_id := next_id t\<rparr>"])
      (simp_all add: assms(4) new_watch_def new_row_def md_def)
next
  case (stolen j m w b u)
  then have "filter (watch_at cfg k) t' = map (rewatch m now) (filter (watch_at cfg k) t)"
    unfolding assms(4) by (simp add: filter_update_same)
  with stolen watch_at_filter [OF assms(3)] show ?thesis by (intro that [of "rewatch m now w"]) (simp_all add: assms(4) rewatch_def)
qed (use assms(2) in \<open>simp_all add: is_grant_def\<close>)

lemma grant_holder:
  assumes "watch_claim cfg c now t = (v, t')" and "is_grant v" and "watch_ok cfg t"
    and "norm (cl_seat c) \<notin> set SEAT_EXEMPT_IDENTITIES"
  shows "list_ex (holds_watch cfg (norm (cl_seat c)) x) t' \<longleftrightarrow> x = cl_nonce c"
proof -
  let ?k = "''watch/'' @ norm (cl_seat c)"
  have key: "?k = claim_key (norm (cl_seat c)) (normalized_listen (cl_listen_set c)) (cl_host c)"
    using assms(4) by (simp add: claim_key_def)
  obtain w where w: "filter (watch_at cfg ?k) t' = [w]" "jget_text (md w) ''nonce'' = Some (cl_nonce c)"
    by (rule grant_row [OF assms(1-3) key])
  have "list_ex (holds_watch cfg (norm (cl_seat c)) x) t' \<longleftrightarrow>
        list_ex (\<lambda>r. jget_text (md r) ''nonce'' = Some x) (filter (watch_at cfg ?k) t')"
    using seat_rows [OF assms(4)] by (auto simp: list_ex_iff holds_watch_def)
  then show ?thesis using w by auto
qed

text \<open>What a process without the watch may send: beats and releases with its nonce, and claims of its
  own.\<close>

datatype rival_call = RivalBeat "instant option" instant | RivalRelease | RivalClaim claim_req instant

definition rival_step :: "settings \<Rightarrow> string option \<Rightarrow> string \<Rightarrow> rival_call \<Rightarrow> table \<Rightarrow> table" where
  "rival_step cfg seat n a t =
     (case a of
        RivalBeat f now \<Rightarrow> snd (watch_beat cfg seat n f now t)
      | RivalRelease \<Rightarrow> snd (watch_release cfg seat n t)
      | RivalClaim c now \<Rightarrow> snd (watch_claim cfg c now t))"

text \<open>A claim that comes before the holder \<open>w\<close>, granted at \<open>start\<close>, may lose the watch.\<close>

definition premature :: "settings \<Rightarrow> string \<Rightarrow> instant \<Rightarrow> table \<Rightarrow> rival_call \<Rightarrow> bool" where
  "premature cfg key start t a \<longleftrightarrow>
     (case a of
        RivalClaim c now \<Rightarrow>
          claim_key (norm (cl_seat c)) (normalized_listen (cl_listen_set c)) (cl_host c) = key \<and>
          now \<le> start + seconds WATCH_EXPIRY_SECONDS \<and>
          list_all (\<lambda>w. watch_at cfg key w \<longrightarrow> \<not> mute cfg now w t \<and>
            \<not> follows_seat cfg (norm (cl_seat c)) (or_none (py_strip (or_empty (cl_seat_nonce c)))) w t) t
      | _ \<Rightarrow> True)"

lemma watch_claim_not_stealable:
  assumes "watch_ok cfg t" and "w \<in> set t" and "watch_at cfg k w"
    and "k = claim_key (norm (cl_seat c)) (normalized_listen (cl_listen_set c)) (cl_host c)"
    and "\<not> stealable cfg (norm (cl_seat c)) (or_none (py_strip (or_empty (cl_seat_nonce c)))) now t w"
  shows "snd (watch_claim cfg c now t) = t \<and> \<not> is_grant (fst (watch_claim cfg c now t))"
proof -
  obtain v t' where c: "watch_claim cfg c now t = (v, t')" by force
  from c assms(1) show ?thesis
  proof (cases rule: watch_claim_cases)
    case (stolen j m x b u)
    then have "x = w" using watch_at_unique [OF assms(1)] assms(2-4) by blast
    then show ?thesis using stolen(4) assms(5) by simp
  qed (use c assms(2-4) in \<open>auto simp: is_grant_def\<close>)
qed

text \<open>C7. A grant is exclusive at once. After it the claimant's beats are answered as the holder's, and
  any process with another nonce (the one displaced included) is told it is not the holder; it
  can change nothing with any sequence of beats and releases of its own and of claims of the
  seat, as long as those claims come within the expiry of the grant, no mail of the seat waits
  unfetched past the grace, and the seat has not passed to the claimant's process. Seats that
  are not shared roles.\<close>

theorem grant_is_exclusive:
  assumes "watch_claim cfg c now t = (v, t')" and "is_grant v" and "watch_ok cfg t"
    and "norm (cl_seat c) \<notin> set SEAT_EXEMPT_IDENTITIES" and "n \<noteq> cl_nonce c"
    and "list_all (premature cfg (''watch/'' @ norm (cl_seat c)) now t') calls"
  shows "fst (watch_beat cfg (cl_seat c) (cl_nonce c) f later t') \<and>
    \<not> fst (watch_beat cfg (cl_seat c) n f later t') \<and>
    fold (rival_step cfg (cl_seat c) n) calls t' = t'"
proof -
  let ?k = "''watch/'' @ norm (cl_seat c)"
  have key: "?k = claim_key (norm (cl_seat c)) (normalized_listen (cl_listen_set c)) (cl_host c)"
    using assms(4) by (simp add: claim_key_def)
  note holds = grant_holder [OF assms(1-4)]
  have miss: "\<not> list_ex (holds_watch cfg (norm (cl_seat c)) n) t'" using assms(5) by (simp add: holds)
  obtain w where w: "filter (watch_at cfg ?k) t' = [w]" "jget_time (md w) ''last_beat'' = Some now"
    by (rule grant_row [OF assms(1-3) key])
  have "w \<in> set (filter (watch_at cfg ?k) t')" unfolding w(1) by simp
  then have at: "w \<in> set t'" "watch_at cfg ?k w" by simp_all
  have ok: "watch_ok cfg t'" by (rule watch_claim_ok [OF assms(1,3)])
  have "rival_step cfg (cl_seat c) n a t' = t'" if "premature cfg ?k now t' a" for a
  proof (cases a)
    case (RivalClaim d at_time)
    with that w(2) at have "\<not> stealable cfg (norm (cl_seat d)) (or_none (py_strip (or_empty (cl_seat_nonce d)))) at_time t' w"
      by (auto simp: premature_def stealable_def beat_expired_def list_all_iff)
    moreover have "?k = claim_key (norm (cl_seat d)) (normalized_listen (cl_listen_set d)) (cl_host d)"
      using that RivalClaim by (simp add: premature_def)
    ultimately show ?thesis using watch_claim_not_stealable [OF ok at] RivalClaim by (simp add: rival_step_def)
  qed (use miss in \<open>simp_all add: rival_step_def watch.beat_miss watch.release_miss\<close>)
  then have "fold (rival_step cfg (cl_seat c) n) calls t' = t'" using assms(6) by (induction calls) simp_all
  then show ?thesis using holds miss by (simp add: watch.beat_verdict)
qed

theorem grant_is_exclusive_witness:
  "let t = snd (watch_claim default_settings (demo_claim ''n2'') (seconds 200) watch_demo)
   in \<not> fst (watch_beat default_settings (Some ''engram-1'') ''n1'' None (seconds 201) t) \<and>
      fold (rival_step default_settings (Some ''engram-1'') ''n1'') [RivalRelease, RivalClaim (demo_claim ''n1'') (seconds 300)] t = t"
proof -
  let ?c = "demo_claim ''n2''"
  let ?t = "snd (watch_claim default_settings ?c (seconds 200) watch_demo)"
  let ?calls = "[RivalRelease, RivalClaim (demo_claim ''n1'') (seconds 300)]"
  have o: "watch_ok default_settings watch_demo" and g: "is_grant (fst (watch_claim default_settings ?c (seconds 200) watch_demo))"
    and s: "norm (cl_seat ?c) \<notin> set SEAT_EXEMPT_IDENTITIES"
    and p: "list_all (premature default_settings (''watch/'' @ norm (cl_seat ?c)) (seconds 200) ?t) ?calls" by code_simp+
  have n: "''n1'' \<noteq> cl_nonce ?c" and cs: "cl_seat ?c = Some ''engram-1''" by (simp_all add: demo_claim_def)
  from grant_is_exclusive [OF prod.collapse [symmetric] g o s n p] show ?thesis by (simp add: cs Let_def)
qed

text \<open>C30. When a claim waits: a claimant that listens on the seat it claims is granted the watch of a
  holder silent past the expiry; while the last beat is within the expiry, the holder has
  fetched its waiting mail and the claimant's process is not the one that has since taken the seat
  over, the same claim is told to wait, for as long as is left, and changes nothing.\<close>

theorem claim_waits_for_the_living:
  assumes "watch_ok cfg t" and "w \<in> set t"
    and "watch_at cfg (claim_key (norm (cl_seat c)) (normalized_listen (cl_listen_set c)) (cl_host c)) w"
    and "norm (cl_seat c) \<noteq> ''''" and "norm (cl_seat c) \<in> set (normalized_listen (cl_listen_set c))"
    and "jget_time (md w) ''last_beat'' = Some b"
  shows "(b + seconds WATCH_EXPIRY_SECONDS < now \<longrightarrow> is_grant (fst (watch_claim cfg c now t))) \<and>
    (now \<le> b + seconds WATCH_EXPIRY_SECONDS \<and> \<not> mute cfg now w t \<and>
     \<not> follows_seat cfg (norm (cl_seat c)) (or_none (py_strip (or_empty (cl_seat_nonce c)))) w t \<longrightarrow>
       (\<exists>k a s l. watch_claim cfg c now t = (Held k a s l (retry_after now (Some w)), t)))"
proof -
  let ?k = "claim_key (norm (cl_seat c)) (normalized_listen (cl_listen_set c)) (cl_host c)"
  let ?sn = "or_none (py_strip (or_empty (cl_seat_nonce c)))"
  have ex: "beat_expired now w \<longleftrightarrow> b + seconds WATCH_EXPIRY_SECONDS < now"
    using assms(6) by (auto simp: beat_expired_def)
  have ins: "insert_do_nothing (new_watch cfg ?k m now) t = (None, t)" for m
    using row_at_watch [OF assms(1), of ?k] assms(2,3) by (auto simp: insert_do_nothing_def split: option.split)
  have prior: "fetchrow (watch_at cfg ?k) t = Some w"
  proof (cases "fetchrow (watch_at cfg ?k) t")
    case None
    with assms(2,3) show ?thesis by (simp add: fetchrow_None)
  next
    case (Some x)
    then have "x = w" using fetchrow_Some [OF Some] watch_at_unique [OF assms(1) _ _ assms(2,3)] by blast
    with Some show ?thesis by simp
  qed
  have hit: "list_ex (\<lambda>x. watch_at cfg ?k x \<and> stealable cfg (norm (cl_seat c)) ?sn now t x) t
      \<longleftrightarrow> stealable cfg (norm (cl_seat c)) ?sn now t w"
    unfolding list_ex_iff using watch_at_unique [OF assms(1) _ _ assms(2,3)] assms(2,3) by blast
  show ?thesis
    using ex assms(4,5)
    by (auto simp: watch_claim_def Let_def ins prior hit is_grant_def stealable_def [of _ _ _ _ _ w])
qed

theorem claim_waits_for_the_living_witness:
  "is_grant (fst (watch_claim default_settings (demo_claim ''n2'') (seconds 200) watch_demo)) \<and>
   \<not> is_grant (fst (watch_claim default_settings (demo_claim ''n2'') (seconds 100) watch_demo))"
proof -
  let ?c = "demo_claim ''n2''"
  let ?k = "claim_key (norm (cl_seat ?c)) (normalized_listen (cl_listen_set ?c)) (cl_host ?c)"
  have o: "watch_ok default_settings watch_demo" and w: "hd watch_demo \<in> set watch_demo"
    and a: "watch_at default_settings ?k (hd watch_demo)" and e: "norm (cl_seat ?c) \<noteq> ''''"
    and l: "norm (cl_seat ?c) \<in> set (normalized_listen (cl_listen_set ?c))"
    and b: "jget_time (md (hd watch_demo)) ''last_beat'' = Some 0"
    and m: "\<not> mute default_settings (seconds 100) (hd watch_demo) watch_demo"
    and f: "\<not> follows_seat default_settings (norm (cl_seat ?c)) (or_none (py_strip (or_empty (cl_seat_nonce ?c)))) (hd watch_demo) watch_demo"
    by code_simp+
  note p = claim_waits_for_the_living [OF o w a e l b]
  from p [of "seconds 200"] p [of "seconds 100"] m f show ?thesis
    by (auto simp: WATCH_EXPIRY_SECONDS_def is_grant_def)
qed

end
