(* ===== verification/Principals.thy ===== *)
theory Principals
  imports Database
begin

text \<open>
  Principals (\<^verbatim>\<open>server/services/principal_service.py\<close>): creation, update, deactivation,
  aliases, and the resolution of a bearer token with its cache of recent verdicts. Three
  things the code calls are parameters: \<open>sha\<close> (SHA-256 in hexadecimal), \<open>checkpw\<close> and
  \<open>hashpw\<close> of the \<^verbatim>\<open>bcrypt\<close> package (\<open>hashpw\<close> takes the salt drawn for the call).
\<close>

section \<open>Hashing\<close>

definition bcrypt_input :: "(string \<Rightarrow> string) \<Rightarrow> string \<Rightarrow> string" where
  "bcrypt_input sha plaintext = (if 72 < length plaintext then sha plaintext else plaintext)"

definition token_lookup :: "(string \<Rightarrow> string) \<Rightarrow> string \<Rightarrow> string" where
  "token_lookup sha raw = sha raw"

record hashing =
  h_sha :: "string \<Rightarrow> string"
  h_hashpw :: "string \<Rightarrow> string \<Rightarrow> string"
  h_checkpw :: "string \<Rightarrow> string \<Rightarrow> bool"

definition hash_secret :: "hashing \<Rightarrow> string \<Rightarrow> string \<Rightarrow> string" where
  "hash_secret h salt plain = h_hashpw h salt (bcrypt_input (h_sha h) plain)"

definition check_secret :: "hashing \<Rightarrow> string \<Rightarrow> string \<Rightarrow> bool" where
  "check_secret h plain hashed = h_checkpw h (bcrypt_input (h_sha h) plain) hashed"

text \<open>\<^verbatim>\<open>generate_token\<close>: the random part is an argument.\<close>

definition generate_token :: "hashing \<Rightarrow> string \<Rightarrow> string \<Rightarrow> string \<times> string" where
  "generate_token h random salt = (let raw = ''engram_'' @ random in (raw, hash_secret h salt raw))"

section \<open>Create, read, update\<close>

record new_principal =
  np_name :: string
  np_type :: string
  np_is_admin :: bool
  np_password :: "string option"
  np_token :: "string option"
  np_read :: "string list"
  np_write :: "string list"

definition create_principal ::
  "hashing \<Rightarrow> string \<Rightarrow> string \<Rightarrow> string \<Rightarrow> new_principal \<Rightarrow> instant \<Rightarrow> server
     \<Rightarrow> (principal \<times> string option) res \<times> server" where
  "create_principal h random salt salt2 np now s =
     (let name = norm (Some (np_name np));
          tok = (case Option.bind (np_token np) or_none of
                   Some t \<Rightarrow> Some (t, hash_secret h salt t)
                 | None \<Rightarrow> if np_type np = ''agent'' then Some (generate_token h random salt) else None);
          p = \<lparr>p_name = name, p_type = np_type np, p_is_admin = np_is_admin np,
               p_token_hash = map_option snd tok,
               p_token_lookup = map_option (\<lambda>x. token_lookup (h_sha h) (fst x)) tok,
               p_password_hash = map_option (hash_secret h salt2) (Option.bind (np_password np) or_none),
               p_read_namespaces = np_read np, p_write_namespaces = np_write np, p_active = True,
               p_created_at = now, p_updated_at = None\<rparr>
      in if np_type np \<notin> set [''human'', ''agent''] then (Inl CheckViolation, s)
         else if name \<in> p_name ` set (principals s) then (Inl UniqueViolation, s)
         else (Inr (p, map_option fst tok), s\<lparr>principals := principals s @ [p]\<rparr>))"

definition get_principal :: "string \<Rightarrow> server \<Rightarrow> principal option" where
  "get_principal name s = find (\<lambda>p. p_name p = name) (principals s)"

definition list_principals :: "string option \<Rightarrow> bool \<Rightarrow> server \<Rightarrow> principal list" where
  "list_principals type active_only s =
     sort_key p_name (filter (\<lambda>p. (\<not> active_only \<or> p_active p)
        \<and> (case Option.bind type or_none of None \<Rightarrow> True | Some ty \<Rightarrow> p_type p = ty)) (principals s))"

record principal_update =
  pu_is_admin :: "bool option"
  pu_password :: "string option"
  pu_token :: "string option"
  pu_read :: "string list option"
  pu_write :: "string list option"
  pu_active :: "bool option"

definition no_change :: "principal_update \<Rightarrow> bool" where
  "no_change u \<longleftrightarrow> pu_is_admin u = None \<and> pu_password u = None \<and> pu_token u = None \<and>
     pu_read u = None \<and> pu_write u = None \<and> pu_active u = None"

definition apply_update :: "hashing \<Rightarrow> string \<Rightarrow> string \<Rightarrow> principal_update \<Rightarrow> instant \<Rightarrow> principal \<Rightarrow> principal" where
  "apply_update h salt salt2 u now p =
     p\<lparr>p_is_admin := (case pu_is_admin u of None \<Rightarrow> p_is_admin p | Some b \<Rightarrow> b),
       p_password_hash := (case pu_password u of None \<Rightarrow> p_password_hash p | Some w \<Rightarrow> Some (hash_secret h salt2 w)),
       p_token_hash := (case pu_token u of None \<Rightarrow> p_token_hash p | Some t \<Rightarrow> Some (hash_secret h salt t)),
       p_token_lookup := (case pu_token u of None \<Rightarrow> p_token_lookup p | Some t \<Rightarrow> Some (token_lookup (h_sha h) t)),
       p_read_namespaces := (case pu_read u of None \<Rightarrow> p_read_namespaces p | Some x \<Rightarrow> x),
       p_write_namespaces := (case pu_write u of None \<Rightarrow> p_write_namespaces p | Some x \<Rightarrow> x),
       p_active := (case pu_active u of None \<Rightarrow> p_active p | Some b \<Rightarrow> b),
       p_updated_at := Some now\<rparr>"

definition update_principal ::
  "hashing \<Rightarrow> string \<Rightarrow> string \<Rightarrow> string \<Rightarrow> principal_update \<Rightarrow> instant \<Rightarrow> server
     \<Rightarrow> (principal option \<times> string option) \<times> server" where
  "update_principal h salt salt2 name u now s =
     (if no_change u then ((get_principal name s, None), s)
      else let s' = s\<lparr>principals := map (\<lambda>p. if p_name p = name then apply_update h salt salt2 u now p else p) (principals s)\<rparr>
           in case get_principal name s' of
                None \<Rightarrow> ((None, None), s')
              | Some p \<Rightarrow> ((Some p, pu_token u), s'))"

definition deactivate_principal :: "string \<Rightarrow> instant \<Rightarrow> server \<Rightarrow> bool \<times> server" where
  "deactivate_principal name now s =
     (length (filter (\<lambda>p. p_name p = name \<and> p_active p) (principals s)) = 1,
      s\<lparr>principals := map (\<lambda>p. if p_name p = name \<and> p_active p
                               then p\<lparr>p_active := False, p_updated_at := Some now\<rparr> else p) (principals s)\<rparr>)"

section \<open>Tokens\<close>

definition VERIFIED_TTL_SECONDS :: int where
  "VERIFIED_TTL_SECONDS = 300"

definition VERIFIED_MAX :: nat where
  "VERIFIED_MAX = 1024"

definition verified_recently :: "string \<Rightarrow> string \<Rightarrow> instant \<Rightarrow> server \<Rightarrow> bool" where
  "verified_recently lk hashed now s =
     (case map_of (verified s) lk of None \<Rightarrow> False | Some (h, until) \<Rightarrow> h = hashed \<and> now < until)"

definition remember_verified :: "string \<Rightarrow> string \<Rightarrow> instant \<Rightarrow> server \<Rightarrow> server" where
  "remember_verified lk hashed now s =
     (let base = (if VERIFIED_MAX \<le> length (verified s) then [] else verified s)
      in s\<lparr>verified := AList.update lk (hashed, now + seconds VERIFIED_TTL_SECONDS) base\<rparr>)"

definition get_principal_by_token :: "hashing \<Rightarrow> string \<Rightarrow> instant \<Rightarrow> server \<Rightarrow> principal option \<times> server" where
  "get_principal_by_token h raw now s =
     (let lk = token_lookup (h_sha h) raw
      in case find (\<lambda>p. p_active p \<and> p_token_lookup p = Some lk) (principals s) of
           Some p \<Rightarrow>
             (if verified_recently lk (or_empty (p_token_hash p)) now s then (Some p, s)
              else if check_secret h raw (or_empty (p_token_hash p))
              then (Some p, remember_verified lk (or_empty (p_token_hash p)) now s)
              else (None, s))
         | None \<Rightarrow>
             (case find (\<lambda>p. p_active p \<and> p_token_hash p \<noteq> None \<and> p_token_lookup p = None
                             \<and> check_secret h raw (or_empty (p_token_hash p))) (principals s) of
                None \<Rightarrow> (None, s)
              | Some p \<Rightarrow> (Some p, s\<lparr>principals := map (\<lambda>q. if p_name q = p_name p
                                     then q\<lparr>p_token_lookup := Some lk\<rparr> else q) (principals s)\<rparr>)))"

definition verify_password :: "hashing \<Rightarrow> string \<Rightarrow> string \<Rightarrow> server \<Rightarrow> principal option" where
  "verify_password h name password s =
     (case find (\<lambda>p. p_name p = name \<and> p_active p) (principals s) of
        None \<Rightarrow> None
      | Some p \<Rightarrow> (case Option.bind (p_password_hash p) or_none of
                     None \<Rightarrow> None
                   | Some hashed \<Rightarrow> if check_secret h password hashed then Some p else None))"

section \<open>Aliases\<close>

definition add_alias :: "string \<Rightarrow> string \<Rightarrow> string \<Rightarrow> server \<Rightarrow> bool \<times> server" where
  "add_alias name alias source s =
     (if name \<notin> p_name ` set (principals s) then (False, s)
      else (True, s\<lparr>principal_aliases :=
        (if list_ex (\<lambda>(a, src, n). a = alias \<and> src = source) (principal_aliases s)
         then map (\<lambda>(a, src, n). if a = alias \<and> src = source then (a, src, name) else (a, src, n)) (principal_aliases s)
         else principal_aliases s @ [(alias, source, name)])\<rparr>))"

definition alias_hit :: "string \<Rightarrow> string option \<Rightarrow> string option \<Rightarrow> server \<Rightarrow> string \<times> string \<times> string \<Rightarrow> bool" where
  "alias_hit alias source name s x =
     (case x of (a, src, n) \<Rightarrow> a = alias
        \<and> (case Option.bind source or_none of None \<Rightarrow> True | Some y \<Rightarrow> src = y)
        \<and> (case Option.bind name or_none of None \<Rightarrow> True | Some y \<Rightarrow> n = y \<and> y \<in> p_name ` set (principals s)))"

text \<open>The answer is read off the last digit of \<^verbatim>\<open>"DELETE n"\<close>.\<close>

definition remove_alias :: "string \<Rightarrow> string option \<Rightarrow> string option \<Rightarrow> server \<Rightarrow> bool \<times> server" where
  "remove_alias alias source name s =
     (\<not> endswith (''DELETE '' @ nat_str (length (filter (alias_hit alias source name s) (principal_aliases s)))) ''0'',
      s\<lparr>principal_aliases := filter (\<lambda>x. \<not> alias_hit alias source name s x) (principal_aliases s)\<rparr>)"

definition resolve_alias :: "string \<Rightarrow> string option \<Rightarrow> server \<Rightarrow> principal option" where
  "resolve_alias alias source s =
     find (\<lambda>p. p_active p \<and> list_ex (\<lambda>(a, src, n). a = alias \<and> n = p_name p
              \<and> (case Option.bind source or_none of None \<Rightarrow> True | Some y \<Rightarrow> src = y)) (principal_aliases s)) (principals s)"

definition list_principal_aliases :: "string \<Rightarrow> server \<Rightarrow> (string \<times> string \<times> string) list" where
  "list_principal_aliases name s =
     sort_key (\<lambda>(a, src, n). [src, a]) (filter (\<lambda>(a, src, n). n = name \<and> name \<in> p_name ` set (principals s)) (principal_aliases s))"

section \<open>Lemmas\<close>

lemma find_in: "find P xs = Some x \<Longrightarrow> x \<in> set xs \<and> P x"
  by (auto simp: find_Some_iff)

lemma find_snoc: "\<forall>x \<in> set xs. \<not> P x \<Longrightarrow> P y \<Longrightarrow> find P (xs @ [y]) = Some y"
  by (induction xs) auto

lemma token_principal:
  assumes "fst (get_principal_by_token h raw now s) = Some p"
  shows "p \<in> set (principals s) \<and> p_active p \<and>
    (p_token_lookup p = Some (token_lookup (h_sha h) raw) \<or> p_token_lookup p = None)"
  using assms by (auto simp: get_principal_by_token_def Let_def split: option.splits if_splits dest!: find_in)

section \<open>Properties\<close>

text \<open>A login works from its creation on: the token returned at creation resolves to the
  principal created, provided no other principal shares its lookup key, and it goes on
  resolving to it whether or not the verdict is cached.\<close>

theorem created_token_resolves:
  assumes "create_principal h random salt salt2 np now s = (Inr (p, Some raw), s')"
    and "\<forall>q \<in> set (principals s). p_token_lookup q \<noteq> Some (token_lookup (h_sha h) raw)"
    and "h_checkpw h (bcrypt_input (h_sha h) raw) (h_hashpw h salt (bcrypt_input (h_sha h) raw))"
  shows "fst (get_principal_by_token h raw t1 s') = Some p \<and>
    fst (get_principal_by_token h raw t2 (snd (get_principal_by_token h raw t1 s'))) = Some p"
proof -
  have s': "s' = s\<lparr>principals := principals s @ [p]\<rparr>" and a: "p_active p"
    and l: "p_token_lookup p = Some (token_lookup (h_sha h) raw)"
    and k: "p_token_hash p = Some (hash_secret h salt raw)"
    using assms(1)
    by (auto simp: create_principal_def Let_def generate_token_def split: if_splits option.splits)
  have f: "find (\<lambda>q. p_active q \<and> p_token_lookup q = Some (token_lookup (h_sha h) raw)) (principals s @ [p]) = Some p"
    using assms(2) a l by (intro find_snoc) auto
  have c: "check_secret h raw (hash_secret h salt raw)" using assms(3) by (simp add: check_secret_def hash_secret_def)
  show ?thesis
    using f c k by (simp add: get_principal_by_token_def Let_def s' or_empty_def remember_verified_def)
qed

definition demo_hashing :: hashing where
  "demo_hashing = \<lparr>h_sha = id, h_hashpw = (\<lambda>salt x. salt @ x), h_checkpw = (\<lambda>x hashed. endswith hashed x)\<rparr>"

definition demo_agent :: new_principal where
  "demo_agent = \<lparr>np_name = ''Codex'', np_type = ''agent'', np_is_admin = False, np_password = None, np_token = None,
     np_read = [''fleet''], np_write = [''fleet'']\<rparr>"

definition agent_demo :: server where
  "agent_demo = snd (create_principal demo_hashing ''r1'' ''salt'' ''salt'' demo_agent 1 empty_server)"

theorem created_token_resolves_witness:
  "map_option p_name (fst (get_principal_by_token demo_hashing ''engram_r1'' 5 agent_demo)) = Some ''codex''"
proof -
  let ?c = "create_principal demo_hashing ''r1'' ''salt'' ''salt'' demo_agent 1 empty_server"
  let ?p = "hd (principals agent_demo)"
  have c: "?c = (Inr (?p, Some ''engram_r1''), agent_demo)" and n: "p_name ?p = ''codex''"
    and k: "h_checkpw demo_hashing (bcrypt_input (h_sha demo_hashing) ''engram_r1'')
              (h_hashpw demo_hashing ''salt'' (bcrypt_input (h_sha demo_hashing) ''engram_r1''))"
    by code_simp+
  have q: "\<forall>q \<in> set (principals empty_server). p_token_lookup q \<noteq> Some (token_lookup (h_sha demo_hashing) ''engram_r1'')"
    by (simp add: empty_server_def)
  from created_token_resolves [OF c q k, of 5] n show ?thesis by simp
qed

text \<open>C11. Revocation is immediate, cache or no cache: from the moment a principal is
  deactivated, or its token replaced by one with another lookup key, no request that
  presents the old token resolves to it, whatever verdicts are still cached.\<close>

theorem revocation_is_immediate:
  "(\<forall>p. fst (get_principal_by_token h raw t (snd (deactivate_principal name now s))) = Some p \<longrightarrow> p_name p \<noteq> name) \<and>
   (pu_token u = Some tok \<and> token_lookup (h_sha h) tok \<noteq> token_lookup (h_sha h) raw \<longrightarrow>
     (\<forall>p. fst (get_principal_by_token h raw t (snd (update_principal h salt salt2 name u now s))) = Some p \<longrightarrow> p_name p \<noteq> name))"
proof (intro conjI allI impI)
  fix p
  assume "fst (get_principal_by_token h raw t (snd (deactivate_principal name now s))) = Some p"
  note r = token_principal [OF this]
  let ?f = "\<lambda>p. if p_name p = name \<and> p_active p then p\<lparr>p_active := False, p_updated_at := Some now\<rparr> else p"
  have "principals (snd (deactivate_principal name now s)) = map ?f (principals s)"
    by (simp add: deactivate_principal_def)
  with r have "p \<in> ?f ` set (principals s)" by (metis set_map)
  then obtain q where "p = ?f q" ..
  with r show "p_name p \<noteq> name" by (cases "p_name q = name"; cases "p_active q") simp_all
next
  fix p
  assume u: "pu_token u = Some tok \<and> token_lookup (h_sha h) tok \<noteq> token_lookup (h_sha h) raw"
    and r: "fst (get_principal_by_token h raw t (snd (update_principal h salt salt2 name u now s))) = Some p"
  note r = token_principal [OF r]
  let ?f = "\<lambda>p. if p_name p = name then apply_update h salt salt2 u now p else p"
  have "principals (snd (update_principal h salt salt2 name u now s)) = map ?f (principals s)"
    using u by (simp add: update_principal_def no_change_def Let_def split: option.split)
  with r have "p \<in> ?f ` set (principals s)" by (metis set_map)
  then obtain q where q: "p = ?f q" ..
  have "p_token_lookup (apply_update h salt salt2 u now q) = Some (token_lookup (h_sha h) tok)"
    using u by (simp add: apply_update_def)
  with r q u show "p_name p \<noteq> name" by (cases "p_name q = name") simp_all
qed

theorem revocation_is_immediate_witness:
  "map_option p_name (fst (get_principal_by_token demo_hashing ''engram_r1'' 7
      (snd (deactivate_principal ''codex'' 6 (snd (get_principal_by_token demo_hashing ''engram_r1'' 5 agent_demo)))))) \<noteq> Some ''codex''"
  using revocation_is_immediate [of demo_hashing "''engram_r1''" 7 "''codex''" 6
      "snd (get_principal_by_token demo_hashing ''engram_r1'' 5 agent_demo)"] by auto

text \<open>The count of removed aliases is read off the last digit, so removing ten reports that
  nothing was removed.\<close>

lemma remove_ten_aliases_reports_none:
  "let s = empty_server\<lparr>principal_aliases := map (\<lambda>n. (''bob'', nat_str n, ''codex'')) [0..<10]\<rparr>
   in fst (remove_alias ''bob'' None None s) = False \<and> principal_aliases (snd (remove_alias ''bob'' None None s)) = []"
  by code_simp

end
