(* ===== verification/Access.thy ===== *)
theory Access
  imports Principals
begin

text \<open>
  Who may call what: the authentication middleware (\<^verbatim>\<open>server/auth.py\<close>), the access checks
  of the routers (\<^verbatim>\<open>server/dependencies.py\<close>) and the namespace aliases they resolve
  (\<^verbatim>\<open>server/config.py\<close>). A request is a record; what the middleware lets through is a
  value that carries the principal and how it was found. Logging is left out.
\<close>

section \<open>Namespaces\<close>

definition alias_pair :: "string \<Rightarrow> string \<Rightarrow> string option" where
  "alias_pair ns pair =
     (if CHR ''='' \<in> set pair \<and> norm (Some ns) = norm (Some (before (CHR ''='') pair))
      then Some (norm (Some (after (CHR ''='') pair))) else None)"

definition canonical_namespace :: "settings \<Rightarrow> string \<Rightarrow> string" where
  "canonical_namespace cfg ns =
     (if ns = '''' then ns
      else case find (\<lambda>p. alias_pair ns p \<noteq> None) (py_split (CHR '','') (cfg_namespace_aliases cfg)) of
             None \<Rightarrow> ns | Some p \<Rightarrow> the (alias_pair ns p))"

section \<open>The middleware\<close>

record request =
  rq_method :: string
  rq_path :: string
  rq_authorization :: string
  rq_headers :: "(string \<times> string) list"
    \<comment> \<open>header names in lower case\<close>

datatype auth_source = Anonymous | ViaPrincipal | Legacy

datatype passage = Pass "principal option" auth_source | Refuse nat

definition SIGNAL_PATH_PREFIX :: string where
  "SIGNAL_PATH_PREFIX = ''/memory/signal/''"

definition REDACTED_PATH :: string where
  "REDACTED_PATH = SIGNAL_PATH_PREFIX @ ''<redacted>''"

definition is_signal_path :: "string \<Rightarrow> bool" where
  "is_signal_path path \<longleftrightarrow>
     startswith path SIGNAL_PATH_PREFIX \<and>
     (let rest = drop (length SIGNAL_PATH_PREFIX) path in rest \<noteq> '''' \<and> CHR ''/'' \<notin> set rest)"

definition redact_path :: "string \<Rightarrow> string" where
  "redact_path path = (if startswith path SIGNAL_PATH_PREFIX then REDACTED_PATH else path)"

definition owner_relay_names :: "settings \<Rightarrow> string list" where
  "owner_relay_names cfg =
     (if py_strip (cfg_owner_principal_name cfg) = '''' then []
      else map (\<lambda>n. norm (Some n)) (filter (\<lambda>n. py_strip n \<noteq> '''')
             (py_split (CHR '','') (cfg_owner_relay_principals cfg))))"

definition is_owner_relay :: "settings \<Rightarrow> principal option \<Rightarrow> bool" where
  "is_owner_relay cfg p =
     (case p of None \<Rightarrow> False | Some q \<Rightarrow> norm (Some (p_name q)) \<in> set (owner_relay_names cfg))"

definition relay_route_allowed :: "string \<Rightarrow> string \<Rightarrow> bool" where
  "relay_route_allowed method path \<longleftrightarrow>
     (method, path) \<in> set [(''POST'', ''/memory/inbox''), (''POST'', ''/memory/send''),
                           (''POST'', ''/memory/roster''), (''GET'', ''/health'')] \<or>
     (method = ''POST'' \<and> startswith path ''/memory/inbox/'' \<and>
      (endswith path ''/ack'' \<or> endswith path ''/resolve''))"

definition exempt_path :: "request \<Rightarrow> bool" where
  "exempt_path rq \<longleftrightarrow>
     rq_path rq = ''/health'' \<or> startswith (rq_path rq) ''/dashboard'' \<or> rq_path rq = ''/bridge'' \<or>
     startswith (rq_path rq) ''/static/'' \<or> (rq_method rq = ''GET'' \<and> is_signal_path (rq_path rq))"

definition bearer :: "request \<Rightarrow> string option" where
  "bearer rq = (if startswith (rq_authorization rq) ''Bearer '' then or_none (drop 7 (rq_authorization rq)) else None)"

definition refuse_admin_on_public :: "settings \<Rightarrow> request \<Rightarrow> principal \<Rightarrow> bool" where
  "refuse_admin_on_public cfg rq p \<longleftrightarrow>
     p_is_admin p \<and> cfg_public_proxy_header cfg \<noteq> '''' \<and>
     or_empty (map_of (rq_headers rq) (py_lower (cfg_public_proxy_header cfg))) \<noteq> ''''"

definition fence_owner_relay :: "settings \<Rightarrow> request \<Rightarrow> principal \<Rightarrow> bool" where
  "fence_owner_relay cfg rq p \<longleftrightarrow>
     is_owner_relay cfg (Some p) \<and> \<not> relay_route_allowed (rq_method rq) (rq_path rq)"

definition admit :: "settings \<Rightarrow> request \<Rightarrow> principal \<Rightarrow> passage" where
  "admit cfg rq p =
     (if refuse_admin_on_public cfg rq p \<or> fence_owner_relay cfg rq p then Refuse 403
      else Pass (Some p) ViaPrincipal)"

definition enforce :: "hashing \<Rightarrow> settings \<Rightarrow> request \<Rightarrow> instant \<Rightarrow> server \<Rightarrow> passage \<times> server" where
  "enforce h cfg rq now s =
     (case bearer rq of
        None \<Rightarrow> (Refuse 401, s)
      | Some tok \<Rightarrow>
          (case get_principal_by_token h tok now s of
             (Some p, s') \<Rightarrow> (admit cfg rq p, s')
           | (None, s') \<Rightarrow> (Refuse 401, s')))"

definition enrich :: "hashing \<Rightarrow> settings \<Rightarrow> request \<Rightarrow> instant \<Rightarrow> server \<Rightarrow> passage \<times> server" where
  "enrich h cfg rq now s =
     (case bearer rq of
        None \<Rightarrow> (if cfg_api_token cfg \<noteq> '''' then Refuse 401 else Pass None Anonymous, s)
      | Some tok \<Rightarrow>
          (case get_principal_by_token h tok now s of
             (Some p, s') \<Rightarrow> (admit cfg rq p, s')
           | (None, s') \<Rightarrow>
               (if cfg_api_token cfg \<noteq> '''' \<and> tok = cfg_api_token cfg then Pass None Legacy else Refuse 401, s')))"

definition dispatch :: "hashing \<Rightarrow> settings \<Rightarrow> request \<Rightarrow> instant \<Rightarrow> server \<Rightarrow> passage \<times> server" where
  "dispatch h cfg rq now s =
     (if exempt_path rq then (Pass None Anonymous, s)
      else if cfg_require_auth cfg then enforce h cfg rq now s else enrich h cfg rq now s)"

section \<open>The checks of the routers\<close>

definition require_principal :: "principal option \<Rightarrow> principal res" where
  "require_principal p = (case p of None \<Rightarrow> Inl (HTTPException 401) | Some q \<Rightarrow> Inr q)"

definition require_admin :: "principal option \<Rightarrow> principal res" where
  "require_admin p =
     (case require_principal p of Inl e \<Rightarrow> Inl e
      | Inr q \<Rightarrow> if p_is_admin q then Inr q else Inl (HTTPException 403))"

definition loopback_bind :: "settings \<Rightarrow> bool" where
  "loopback_bind cfg \<longleftrightarrow> cfg_host cfg \<in> set [''127.0.0.1'', ''::1'', ''localhost'']"

definition admin_or_open :: "settings \<Rightarrow> principal option \<Rightarrow> auth_source \<Rightarrow> principal option res" where
  "admin_or_open cfg p src =
     (if cfg_require_auth cfg then map_sum id Some (require_admin p)
      else if loopback_bind cfg then Inr p
      else if src = Legacy then Inr p
      else case p of
             Some q \<Rightarrow> if p_is_admin q then Inr p else Inl (HTTPException 403)
           | None \<Rightarrow> Inl (HTTPException 401))"

definition check_namespace_access ::
  "settings \<Rightarrow> principal option \<Rightarrow> string \<Rightarrow> string \<Rightarrow> bool \<Rightarrow> unit res" where
  "check_namespace_access cfg p ns mode force =
     (case p of
        None \<Rightarrow> Inr ()
      | Some q \<Rightarrow>
          if \<not> cfg_require_auth cfg \<and> \<not> force then Inr ()
          else if p_is_admin q then Inr ()
          else if mode \<noteq> ''read'' \<and> mode \<noteq> ''write'' then Inl ValueError
          else let allowed = (if mode = ''read'' then p_read_namespaces q else p_write_namespaces q)
               in if ''*'' \<in> set allowed \<or> canonical_namespace cfg ns \<in> set (map (canonical_namespace cfg) allowed)
                  then Inr () else Inl (HTTPException 403))"

fun check_namespaces_access :: "settings \<Rightarrow> principal option \<Rightarrow> string list \<Rightarrow> string \<Rightarrow> unit res" where
  "check_namespaces_access cfg p [] mode = Inr ()"
| "check_namespaces_access cfg p (ns # nss) mode =
     (case check_namespace_access cfg p ns mode False of
        Inl e \<Rightarrow> Inl e | Inr _ \<Rightarrow> check_namespaces_access cfg p nss mode)"

definition list_namespaces :: "server \<Rightarrow> string list" where
  "list_namespaces s = sort (remdups (map r_namespace (memories s)))"

definition resolve_read_namespaces :: "settings \<Rightarrow> principal option \<Rightarrow> server \<Rightarrow> string list res" where
  "resolve_read_namespaces cfg p s =
     (case p of
        None \<Rightarrow> Inl (HTTPException 401)
      | Some q \<Rightarrow>
          if ''*'' \<in> set (p_read_namespaces q) \<or> p_is_admin q then Inr (list_namespaces s)
          else if p_read_namespaces q = [] then Inl (HTTPException 403)
          else Inr (rev (remdups (rev (map (canonical_namespace cfg) (p_read_namespaces q))))))"

section \<open>Properties\<close>

lemma admit_Pass: "admit cfg rq p = Pass q src \<Longrightarrow>
  q = Some p \<and> src = ViaPrincipal \<and> \<not> refuse_admin_on_public cfg rq p \<and> \<not> fence_owner_relay cfg rq p"
  by (simp add: admit_def split: if_splits)

lemma enforce_Pass:
  assumes "enforce h cfg rq now s = (Pass q src, s')"
  shows "\<exists>p tok. q = Some p \<and> src = ViaPrincipal \<and> bearer rq = Some tok \<and>
     p \<in> set (principals s) \<and> p_active p \<and> fst (get_principal_by_token h tok now s) = Some p \<and>
     \<not> refuse_admin_on_public cfg rq p \<and> \<not> fence_owner_relay cfg rq p"
  using assms token_principal [of h _ now s]
  by (auto simp: enforce_def split: option.splits prod.splits dest!: admit_Pass) (metis fst_conv)+

lemma enrich_Pass:
  assumes "enrich h cfg rq now s = (Pass q src, s')"
  shows "(\<exists>p tok. q = Some p \<and> src = ViaPrincipal \<and> bearer rq = Some tok \<and>
       p \<in> set (principals s) \<and> p_active p \<and> fst (get_principal_by_token h tok now s) = Some p \<and>
       \<not> refuse_admin_on_public cfg rq p \<and> \<not> fence_owner_relay cfg rq p) \<or>
     (q = None \<and> src = Legacy \<and> cfg_api_token cfg \<noteq> '''' \<and> bearer rq = Some (cfg_api_token cfg)) \<or>
     (q = None \<and> src = Anonymous \<and> cfg_api_token cfg = '''' \<and> bearer rq = None)"
  using assms token_principal [of h _ now s]
  by (auto simp: enrich_def split: option.splits prod.splits if_splits dest!: admit_Pass) (metis fst_conv)+

text \<open>C10. Under enforcement no request reaches a handler off the exempt paths without a token
  that resolves to an active principal; that principal is not an admin when the request
  came through the public edge, and an owner relay is confined to its routes.\<close>

theorem enforced_requests_are_authenticated:
  assumes "cfg_require_auth cfg" and "dispatch h cfg rq now s = (Pass q src, s')" and "\<not> exempt_path rq"
  shows "\<exists>p tok. q = Some p \<and> p \<in> set (principals s) \<and> p_active p \<and> bearer rq = Some tok \<and>
      fst (get_principal_by_token h tok now s) = Some p \<and>
      (p_is_admin p \<and> cfg_public_proxy_header cfg \<noteq> '''' \<longrightarrow>
        or_empty (map_of (rq_headers rq) (py_lower (cfg_public_proxy_header cfg))) = '''') \<and>
      (is_owner_relay cfg (Some p) \<longrightarrow> relay_route_allowed (rq_method rq) (rq_path rq))"
proof -
  from assms have "enforce h cfg rq now s = (Pass q src, s')" by (simp add: dispatch_def)
  from enforce_Pass [OF this] show ?thesis
    by (auto simp: refuse_admin_on_public_def fence_owner_relay_def dest: token_principal)
qed

definition demo_request :: request where
  "demo_request = \<lparr>rq_method = ''POST'', rq_path = ''/memory/get'', rq_authorization = ''Bearer engram_r1'', rq_headers = []\<rparr>"

theorem enforced_requests_are_authenticated_witness:
  "\<exists>p. dispatch demo_hashing (default_settings\<lparr>cfg_require_auth := True\<rparr>) demo_request 5 agent_demo
       = (Pass (Some p) ViaPrincipal, snd (dispatch demo_hashing (default_settings\<lparr>cfg_require_auth := True\<rparr>) demo_request 5 agent_demo))
     \<and> p_active p"
proof -
  let ?cfg = "default_settings\<lparr>cfg_require_auth := True\<rparr>"
  let ?p = "hd (principals agent_demo)"
  have d: "dispatch demo_hashing ?cfg demo_request 5 agent_demo =
      (Pass (Some ?p) ViaPrincipal, snd (dispatch demo_hashing ?cfg demo_request 5 agent_demo))"
    and e: "\<not> exempt_path demo_request" by code_simp+
  have r: "cfg_require_auth ?cfg" by simp
  from enforced_requests_are_authenticated [OF r d e] d show ?thesis by auto
qed

text \<open>The admin surface is never anonymous off a loopback bind: a request that gets past
  the middleware and the admin gate carries the token of an admin principal, or, where
  enforcement is off, the operator's API token.\<close>

theorem admin_surface_is_never_anonymous:
  assumes "cfg_require_auth cfg \<or> \<not> loopback_bind cfg"
    and "dispatch h cfg rq now s = (Pass q src, s')" and "admin_or_open cfg q src = Inr who"
  shows "(\<exists>p tok. who = Some p \<and> p_is_admin p \<and> p_active p \<and> bearer rq = Some tok \<and>
            fst (get_principal_by_token h tok now s) = Some p) \<or>
         (\<not> cfg_require_auth cfg \<and> cfg_api_token cfg \<noteq> '''' \<and> bearer rq = Some (cfg_api_token cfg))"
proof (cases "exempt_path rq")
  case True
  with assms show ?thesis
    by (auto simp: dispatch_def admin_or_open_def require_admin_def require_principal_def split: if_splits)
next
  case ne: False
  show ?thesis
  proof (cases "cfg_require_auth cfg")
    case True
    with assms(2) ne have "enforce h cfg rq now s = (Pass q src, s')" by (simp add: dispatch_def)
    from enforce_Pass [OF this] obtain p tok where q: "q = Some p" "bearer rq = Some tok"
      and g: "fst (get_principal_by_token h tok now s) = Some p" by blast
    from q True assms(3) have "who = Some p \<and> p_is_admin p"
      by (auto simp: admin_or_open_def require_admin_def require_principal_def split: if_splits)
    with q g token_principal [OF g] show ?thesis by blast
  next
    case False
    with assms(2) ne have "enrich h cfg rq now s = (Pass q src, s')" by (simp add: dispatch_def)
    from enrich_Pass [OF this] False assms(1,3) show ?thesis
      by (auto simp: admin_or_open_def split: if_splits)
  qed
qed

theorem admin_surface_is_never_anonymous_witness:
  "let cfg = default_settings\<lparr>cfg_host := ''0.0.0.0'', cfg_api_token := ''engram_r1''\<rparr>
   in admin_or_open cfg None Legacy = Inr None \<and> bearer demo_request = Some (cfg_api_token cfg)"
proof -
  let ?cfg = "default_settings\<lparr>cfg_host := ''0.0.0.0'', cfg_api_token := ''engram_r1''\<rparr>"
  have c: "cfg_require_auth ?cfg \<or> \<not> loopback_bind ?cfg"
    and d: "dispatch demo_hashing ?cfg demo_request 5 empty_server = (Pass None Legacy, empty_server)"
    and a: "admin_or_open ?cfg None Legacy = Inr None" by code_simp+
  from admin_surface_is_never_anonymous [OF c d a] a show ?thesis by (simp add: Let_def)
qed

end
