(* ===== verification/Mail_Signal.thy ===== *)
theory Mail_Signal
  imports Inbox Access
begin

text \<open>
  The mail signal (\<^verbatim>\<open>server/services/mail_signal.py\<close>): a key in a URL that tells its holder
  whether new mail has arrived and how much waits, and nothing else. The random part of a
  key is an argument, \<open>sha\<close> is SHA-256 in hexadecimal. (The path predicates of the
  component are in theory \<open>Access\<close>, where the middleware uses them.)
\<close>

definition KEY_PREFIX :: string where
  "KEY_PREFIX = ''sig_''"

definition MIN_POLL_INTERVAL :: int where
  "MIN_POLL_INTERVAL = seconds 2"

definition generate_key :: "string \<Rightarrow> string" where
  "generate_key random = KEY_PREFIX @ random"

definition hash_key :: "(string \<Rightarrow> string) \<Rightarrow> string \<Rightarrow> string" where
  "hash_key sha raw = sha raw"

definition rate_limited :: "string \<Rightarrow> instant \<Rightarrow> server \<Rightarrow> bool \<times> server" where
  "rate_limited key_hash now s =
     (case map_of (last_poll s) key_hash of
        Some prev \<Rightarrow> if now - prev < MIN_POLL_INTERVAL then (True, s)
                     else (False, s\<lparr>last_poll := AList.update key_hash now (last_poll s)\<rparr>)
      | None \<Rightarrow> (False, s\<lparr>last_poll := AList.update key_hash now (last_poll s)\<rparr>))"

definition next_signal_id :: "signal_row list \<Rightarrow> nat" where
  "next_signal_id rows = Suc (fold max (map sg_id rows) 0)"

definition revoke_live :: "string \<Rightarrow> instant \<Rightarrow> signal_row list \<Rightarrow> signal_row list" where
  "revoke_live address now rows =
     map (\<lambda>r. if sg_address r = address \<and> sg_revoked_at r = None then r\<lparr>sg_revoked_at := Some now\<rparr> else r) rows"

definition issue_signal ::
  "(string \<Rightarrow> string) \<Rightarrow> string \<Rightarrow> string \<Rightarrow> string \<Rightarrow> string option \<Rightarrow> instant \<Rightarrow> server
     \<Rightarrow> (signal_row \<times> string) res \<times> server" where
  "issue_signal sha random address0 prin issued_by now s =
     (let address = norm (Some address0); raw = generate_key random;
          r = \<lparr>sg_id = next_signal_id (mail_signal s), sg_address = address,
               sg_principal = norm (Some prin), sg_key_hash = hash_key sha raw,
               sg_issued_by = issued_by, sg_created_at = now, sg_revoked_at = None,
               sg_last_polled_at = None, sg_poll_count = 0\<rparr>
      in if hash_key sha raw \<in> sg_key_hash ` set (mail_signal s) then (Inl UniqueViolation, s)
         else (Inr (r, raw), s\<lparr>mail_signal := revoke_live address now (mail_signal s) @ [r]\<rparr>))"

definition revoke_signal :: "string \<Rightarrow> instant \<Rightarrow> server \<Rightarrow> nat \<times> server" where
  "revoke_signal address0 now s =
     (let address = norm (Some address0)
      in (length (filter (\<lambda>r. sg_address r = address \<and> sg_revoked_at r = None) (mail_signal s)),
          s\<lparr>mail_signal := revoke_live address now (mail_signal s)\<rparr>))"

definition list_signals :: "bool \<Rightarrow> server \<Rightarrow> signal_row list" where
  "list_signals include_revoked s =
     sort_key sg_address (sort_key (\<lambda>r. - sg_created_at r)
       (filter (\<lambda>r. include_revoked \<or> sg_revoked_at r = None) (mail_signal s)))"

definition signal_hit :: "(string \<Rightarrow> string) \<Rightarrow> string \<Rightarrow> server \<Rightarrow> signal_row \<Rightarrow> bool" where
  "signal_hit sha raw s r \<longleftrightarrow>
     sg_key_hash r = hash_key sha raw \<and> sg_revoked_at r = None \<and>
     list_ex (\<lambda>p. p_name p = sg_principal r \<and> p_active p) (principals s)"

definition polled :: "instant \<Rightarrow> signal_row \<Rightarrow> signal_row" where
  "polled now r = r\<lparr>sg_last_polled_at := Some now, sg_poll_count := Suc (sg_poll_count r)\<rparr>"

definition lookup_signal ::
  "(string \<Rightarrow> string) \<Rightarrow> string \<Rightarrow> instant \<Rightarrow> server \<Rightarrow> signal_row option \<times> server" where
  "lookup_signal sha raw now s =
     (if \<not> startswith raw KEY_PREFIX then (None, s)
      else (map_option (polled now) (find (signal_hit sha raw s) (mail_signal s)),
            s\<lparr>mail_signal := map (\<lambda>r. if signal_hit sha raw s r then polled now r else r) (mail_signal s)\<rparr>))"

text \<open>The mail that moves the cursor, and the part of it that is pending.\<close>

definition waking :: "settings \<Rightarrow> string \<Rightarrow> string list \<Rightarrow> row \<Rightarrow> bool" where
  "waking cfg address boxes r \<longleftrightarrow>
     addressed cfg boxes r \<and> or_empty (jget_text (md r) ''intent'') \<noteq> ''fyi'' \<and>
     py_lower (or_empty (jget_text (md r) ''from'')) \<noteq> address"

text \<open>\<^verbatim>\<open>ORDER BY created_at DESC, key DESC LIMIT 1\<close>.\<close>

definition latest_row :: "row list \<Rightarrow> row option" where
  "latest_row ws = (case sort_key r_created_at (sort_key r_key ws) of [] \<Rightarrow> None | xs \<Rightarrow> Some (last xs))"

record signal_report =
  sr_cursor :: string
  sr_pending :: nat
  sr_latest_at :: "instant option"

definition signal_cursor :: "(string \<Rightarrow> string) \<Rightarrow> string \<Rightarrow> row option \<Rightarrow> string" where
  "signal_cursor sha address latest =
     (case Option.bind (map_option r_key latest) or_none of
        None \<Rightarrow> ''0'' | Some k \<Rightarrow> take 16 (sha (address @ ''|'' @ k)))"

definition signal_state ::
  "(string \<Rightarrow> string) \<Rightarrow> settings \<Rightarrow> string \<Rightarrow> instant \<Rightarrow> server \<Rightarrow> signal_report \<times> server" where
  "signal_state sha cfg address0 now s0 =
     (let address = norm (Some address0); s = role_refresh False now s0;
          boxes = address # roles_held_by (role_cache s) (Some address);
          ws = filter (waking cfg address boxes) (memories s);
          latest = latest_row ws
      in (\<lparr>sr_cursor = signal_cursor sha address latest,
           sr_pending = length (filter (\<lambda>r. inbox_status r = INBOX_OPEN \<and> \<not> jexists (read_by r) address) ws),
           sr_latest_at = map_option r_created_at latest\<rparr>, s))"

section \<open>One live key\<close>

definition live_keys :: "string \<Rightarrow> signal_row list \<Rightarrow> signal_row list" where
  "live_keys address rows = filter (\<lambda>r. sg_address r = address \<and> sg_revoked_at r = None) rows"

inductive signal_step :: "(string \<Rightarrow> string) \<Rightarrow> server \<Rightarrow> server \<Rightarrow> bool" for sha where
  issue: "signal_step sha s (snd (issue_signal sha random address prin by now s))"
| revoke: "signal_step sha s (snd (revoke_signal address now s))"
| poll: "signal_step sha s (snd (lookup_signal sha raw now s))"
| elsewhere: "mail_signal s' = mail_signal s \<Longrightarrow> signal_step sha s s'"

lemma live_keys_revoke: "live_keys a (revoke_live b now rows) = (if a = b then [] else live_keys a rows)"
  by (induction rows) (auto simp: live_keys_def revoke_live_def)

lemma live_keys_poll:
  "length (live_keys a (map (\<lambda>r. if P r then polled now r else r) rows)) = length (live_keys a rows)"
  by (induction rows) (auto simp: live_keys_def polled_def)

lemma signal_step_live:
  "signal_step sha s s' \<Longrightarrow> \<forall>a. length (live_keys a (mail_signal s)) \<le> 1 \<Longrightarrow>
   length (live_keys a (mail_signal s')) \<le> 1"
proof (induction rule: signal_step.induct)
  case (issue s random address prin "by" now)
  have app: "live_keys a (rows @ [r]) = live_keys a rows @ live_keys a [r]" for rows r by (simp add: live_keys_def)
  from issue show ?case
    by (auto simp: issue_signal_def Let_def app live_keys_revoke) (simp add: live_keys_def)+
next
  case (revoke s address now)
  then show ?case by (simp add: revoke_signal_def Let_def live_keys_revoke)
next
  case (poll s raw now)
  then show ?case by (simp add: lookup_signal_def live_keys_poll)
next
  case (elsewhere s' s)
  then show ?case by simp
qed

text \<open>C39. An address has at most one live signal key at any time, through any sequence of
  issues, revocations and polls; a key whose address was issued a new one is dead.\<close>

theorem one_live_signal_key:
  assumes "(signal_step sha)\<^sup>*\<^sup>* s s'" and "mail_signal s = []"
  shows "length (live_keys a (mail_signal s')) \<le> 1 \<and>
    (issue_signal sha random a prin by now s' = (Inr (r, raw), s'') \<and> old \<noteq> raw \<and>
     sha old \<noteq> sha raw \<and> sg_address x = norm (Some a) \<longrightarrow>
       fst (lookup_signal sha old later s'') \<noteq> Some x)"
proof -
  have "\<forall>a. length (live_keys a (mail_signal s')) \<le> 1"
    using assms(1)
  proof (induction rule: rtranclp_induct)
    case base
    show ?case using assms(2) by (simp add: live_keys_def)
  next
    case (step y z)
    then show ?case using signal_step_live [of sha y z] by blast
  qed
  moreover have "fst (lookup_signal sha old later s'') \<noteq> Some x"
    if i: "issue_signal sha random a prin by now s' = (Inr (r, raw), s'')" "sha old \<noteq> sha raw"
      "sg_address x = norm (Some a)"
  proof
    assume "fst (lookup_signal sha old later s'') = Some x"
    then obtain y where y: "y \<in> set (mail_signal s'')" "signal_hit sha old s'' y" "x = polled later y"
      by (auto simp: lookup_signal_def split: if_splits dest!: find_in)
    have sg: "mail_signal s'' = revoke_live (norm (Some a)) now (mail_signal s') @ [r]" "sg_key_hash r = sha raw"
      using i(1) by (auto simp: issue_signal_def Let_def hash_key_def split: if_splits)
    have "sg_address y = norm (Some a)" "sg_revoked_at y = None" "sg_key_hash y = sha old"
      using y i(3) by (simp_all add: polled_def signal_hit_def hash_key_def)
    with y(1) sg i(2) show False by (auto simp: revoke_live_def split: if_splits)
  qed
  ultimately show ?thesis by blast
qed

definition signal_demo :: server where
  "signal_demo = snd (issue_signal id ''k1'' ''muse'' ''codex'' None 1 agent_demo)"

theorem one_live_signal_key_witness:
  "length (live_keys ''muse'' (mail_signal (snd (issue_signal id ''k2'' ''muse'' ''codex'' None 2 signal_demo)))) \<le> 1"
proof -
  have r: "(signal_step id)\<^sup>*\<^sup>* agent_demo (snd (issue_signal id ''k2'' ''muse'' ''codex'' None 2 signal_demo))"
    unfolding signal_demo_def
    by (rule rtranclp.rtrancl_into_rtrancl [OF r_into_rtranclp]) (rule signal_step.issue)+
  have e: "mail_signal agent_demo = []" by code_simp
  show ?thesis using one_live_signal_key [OF r e] by blast
qed

section \<open>The cursor\<close>

definition upd_row :: "(row \<Rightarrow> bool) \<Rightarrow> (row \<Rightarrow> row) \<Rightarrow> row \<Rightarrow> row" where
  "upd_row P f r = (if P r then f r else r)"

lemma insort_key_map_invariant: "(\<And>x. g (h x) = g x) \<Longrightarrow> insort_key g (h x) (map h xs) = map h (insort_key g x xs)"
  by (induction xs) simp_all

lemma sort_key_map_invariant: "(\<And>x. g (h x) = g x) \<Longrightarrow> sort_key g (map h xs) = map h (sort_key g xs)"
  by (induction xs) (simp_all add: insort_key_map_invariant)

text \<open>A writer of the inbox that leaves alone everything the cursor is computed from.\<close>

locale quiet_writer =
  fixes f :: "row \<Rightarrow> row"
  assumes quiet_waking: "waking cfg address boxes (f r) = waking cfg address boxes r"
    and quiet_key: "r_key (f r) = r_key r"
    and quiet_time: "r_created_at (f r) = r_created_at r"
begin

lemma upd_keeps: "r_key (upd_row P f r) = r_key r" "r_created_at (upd_row P f r) = r_created_at r"
  "waking cfg address boxes (upd_row P f r) = waking cfg address boxes r"
  by (simp_all add: upd_row_def quiet_key quiet_time quiet_waking)

lemma sort_upd: "sort_key r_created_at (sort_key r_key (map (upd_row P f) ws)) = map (upd_row P f) (sort_key r_created_at (sort_key r_key ws))"
  by (simp add: sort_key_map_invariant upd_keeps)

lemma cursor_quiet:
  "sr_cursor (fst (signal_state sha cfg a now (s\<lparr>memories := sql_update P f (memories s)\<rparr>))) =
   sr_cursor (fst (signal_state sha cfg a now s))"
proof -
  have m: "sql_update P f t = map (upd_row P f) t" for t by (simp add: sql_update_def upd_row_def fun_eq_iff)
  have w: "filter (waking cfg b boxes) (map (upd_row P f) t) = map (upd_row P f) (filter (waking cfg b boxes) t)" for b boxes t
    by (induction t) (simp_all add: upd_keeps)
  have l: "map_option r_key (latest_row (map (upd_row P f) ws)) = map_option r_key (latest_row ws)" for ws
  proof (cases "sort_key r_created_at (sort_key r_key ws)")
    case Nil
    then show ?thesis by (simp add: latest_row_def sort_upd)
  next
    case (Cons y ys)
    then have "latest_row (map (upd_row P f) ws) = Some (last (map (upd_row P f) (y # ys)))"
      by (simp add: latest_row_def sort_upd)
    then show ?thesis using Cons by (simp add: latest_row_def last_map upd_keeps del: list.map last.simps)
  qed
  have "role_cache (role_refresh False now (s\<lparr>memories := x\<rparr>)) = role_cache (role_refresh False now s)" for x
    by (simp add: role_refresh_def)
  then show ?thesis by (simp add: signal_state_def Let_def signal_cursor_def m w l)
qed

end

lemma resolve_reads [simp]:
  "archived (resolve_row who now r) = archived r" "inbox_row cfg (resolve_row who now r) = inbox_row cfg r"
  "r_user_id (resolve_row who now r) = r_user_id r" "r_key (resolve_row who now r) = r_key r"
  "r_created_at (resolve_row who now r) = r_created_at r"
  "jget_text (md (resolve_row who now r)) ''intent'' = jget_text (md r) ''intent''"
  "jget_text (md (resolve_row who now r)) ''from'' = jget_text (md r) ''from''"
  by (auto simp: archived_def jget_bool_def inbox_row_def resolve_row_def split: option.split)

interpretation ack_quiet: quiet_writer "ack_row who" for who
  by unfold_locales (simp_all add: waking_def addressed_def, simp_all add: ack_row_def)

interpretation resolve_quiet: quiet_writer "resolve_row who now" for who now
  by unfold_locales (simp_all add: waking_def addressed_def)

interpretation sweep_quiet: quiet_writer
  "stamp_md [(''status'', JStr INBOX_RESOLVED), (''resolved_at'', JTime now), (''resolved_by'', JStr resolver)]" for now resolver
  by unfold_locales
     (simp_all add: waking_def addressed_def archived_def jget_bool_def inbox_row_def)

text \<open>The cursor moves on arrival only: acknowledging, resolving one message, and the
  sweep of stale mail leave it where it was, so a reader that works through its mail does
  not wake itself.\<close>

theorem cursor_ignores_reading:
  "sr_cursor (fst (signal_state sha cfg a later (s\<lparr>memories := snd (inbox_ack cfg' i who (memories s))\<rparr>)))
     = sr_cursor (fst (signal_state sha cfg a later s)) \<and>
   sr_cursor (fst (signal_state sha cfg a later (s\<lparr>memories := snd (inbox_resolve cfg' i resolver now (memories s))\<rparr>)))
     = sr_cursor (fst (signal_state sha cfg a later s)) \<and>
   sr_cursor (fst (signal_state sha cfg a later (s\<lparr>memories := snd (inbox_autoresolve_stale cfg' h by batch now (memories s))\<rparr>)))
     = sr_cursor (fst (signal_state sha cfg a later s))"
proof -
  have same: "s\<lparr>memories := memories s\<rparr> = s" by simp
  show ?thesis
    by (simp add: inbox_ack_def inbox_resolve_def inbox_autoresolve_stale_def Let_def same
        ack_quiet.cursor_quiet resolve_quiet.cursor_quiet sweep_quiet.cursor_quiet)
qed

text \<open>Archiving does move it: archived mail no longer counts as waking, so archiving the
  newest message changes the cursor although nothing has arrived.\<close>

lemma archive_moves_the_cursor:
  "let s = mail_demo ''muse'';
       s' = s\<lparr>memories := snd (inbox_archive default_settings ''inbox/u1'' (Some ''muse'') (memories s))\<rparr>
   in sr_cursor (fst (signal_state id default_settings ''muse'' 9 s)) = ''muse|inbox/u1'' \<and>
      sr_cursor (fst (signal_state id default_settings ''muse'' 9 s')) = ''0''"
  by code_simp

end
