(* ===== verification/Presence.thy ===== *)
theory Presence
  imports Watch_Claim Address_Roles
begin

text \<open>
  The presence of sessions, of \<^verbatim>\<open>server/services/memory_service.py\<close>: the heartbeat of a session
  with its map of live nonces, and the narrow beat and farewell of its watcher.

  A session is \<^emph>\<open>displaced\<close> when its seat row records its nonce as superseded. The lemmas say who
  may write which fact and when two sessions at one seat are told that they collide.

  Instants of one call are one instant: \<^verbatim>\<open>datetime.now\<close> and \<^verbatim>\<open>NOW()\<close> are the argument \<open>now\<close>.
  Nested documents the program writes as objects are read as objects.
\<close>

section \<open>Reading documents\<close>

definition PRESENCE_SCOPE :: string where
  "PRESENCE_SCOPE = ''presence''"

definition SEAT_SCOPE :: string where
  "SEAT_SCOPE = ''seat''"

definition SEAT_USER_ID :: string where
  "SEAT_USER_ID = ''global''"

definition DEATH_SCOPE :: string where
  "DEATH_SCOPE = ''death''"

definition PRESENCE_STALE_AFTER_SECONDS :: int where
  "PRESENCE_STALE_AFTER_SECONDS = 600"

definition PRESENCE_RETENTION_SECONDS :: int where
  "PRESENCE_RETENTION_SECONDS = 172800"

definition SEAT_COLLISION_WINDOW_SECONDS :: int where
  "SEAT_COLLISION_WINDOW_SECONDS = 300"

definition WATCHER_STALE_AFTER_SECONDS :: int where
  "WATCHER_STALE_AFTER_SECONDS = 300"

text \<open>\<^verbatim>\<open>d.get(k)\<close> as a document.\<close>

definition jval :: "jobj \<Rightarrow> string \<Rightarrow> json" where
  "jval m k = (case jget m k of None \<Rightarrow> JNull | Some v \<Rightarrow> v)"

text \<open>\<^verbatim>\<open>d.get(k) or {}\<close>, and the document of an entry.\<close>

definition obj_of :: "json \<Rightarrow> jobj" where
  "obj_of j = (case j of JObj kvs \<Rightarrow> kvs | _ \<Rightarrow> [])"

definition jget_obj :: "jobj \<Rightarrow> string \<Rightarrow> jobj" where
  "jget_obj m k = obj_of (jval m k)"

text \<open>\<^verbatim>\<open>d.get(k) or x\<close> for a string.\<close>

definition jget_or :: "jobj \<Rightarrow> string \<Rightarrow> string \<Rightarrow> string" where
  "jget_or m k x = (case Option.bind (jget_str m k) or_none of None \<Rightarrow> x | Some s \<Rightarrow> s)"

definition is_digit :: "char \<Rightarrow> bool" where
  "is_digit c \<longleftrightarrow> 48 \<le> (of_char c :: nat) \<and> (of_char c :: nat) \<le> 57"

section \<open>The nonce map\<close>

definition fresh_entry :: "instant \<Rightarrow> string list \<Rightarrow> string \<times> json \<Rightarrow> bool" where
  "fresh_entry now superseded e =
     (fst e \<notin> set superseded \<and>
      (case jget_time (obj_of (snd e)) ''last_seen'' of
         None \<Rightarrow> False
       | Some seen \<Rightarrow> now - seen < seconds SEAT_COLLISION_WINDOW_SECONDS))"

definition fresh_sessions :: "jobj \<Rightarrow> instant \<Rightarrow> string list \<Rightarrow> jobj" where
  "fresh_sessions m now superseded = filter (fresh_entry now superseded) (jget_obj m ''sessions'')"

fun json_strings :: "json list \<Rightarrow> string list" where
  "json_strings [] = []"
| "json_strings (JStr s # xs) = s # json_strings xs"
| "json_strings (JTime t # xs) = isoformat t # json_strings xs"
| "json_strings (_ # xs) = json_strings xs"

definition superseded_from_seat :: "jobj \<Rightarrow> string list" where
  "superseded_from_seat m = (case jval m ''superseded_nonces'' of JArr xs \<Rightarrow> json_strings xs | _ \<Rightarrow> [])"

text \<open>\<^verbatim>\<open>sorted({...})\<close> of one field over the entries.\<close>

definition sorted_set :: "string list \<Rightarrow> string list" where
  "sorted_set xs = sort (remdups xs)"

definition providers_of :: "jobj \<Rightarrow> string list" where
  "providers_of sessions = sorted_set (map (\<lambda>e. jget_or (obj_of (snd e)) ''provider'' ''unknown'') sessions)"

definition hosts_of :: "jobj \<Rightarrow> string list" where
  "hosts_of sessions =
     sorted_set (filter (\<lambda>h. h \<noteq> '''') (map (\<lambda>e. or_empty (jget_str (obj_of (snd e)) ''host'')) sessions))"

section \<open>The heartbeat\<close>

definition presence_row :: "settings \<Rightarrow> row \<Rightarrow> bool" where
  "presence_row cfg r \<longleftrightarrow> r_namespace r = cfg_primary_namespace cfg \<and> r_scope r = PRESENCE_SCOPE"

definition presence_at :: "settings \<Rightarrow> string \<Rightarrow> string \<Rightarrow> row \<Rightarrow> bool" where
  "presence_at cfg project identity r \<longleftrightarrow>
     presence_row cfg r \<and> r_user_id r = project \<and> r_key r = ''presence/'' @ identity"

definition seat_row :: "settings \<Rightarrow> row \<Rightarrow> bool" where
  "seat_row cfg r \<longleftrightarrow>
     r_namespace r = cfg_primary_namespace cfg \<and> r_scope r = SEAT_SCOPE \<and> r_user_id r = SEAT_USER_ID"

definition seat_at :: "settings \<Rightarrow> string \<Rightarrow> string \<Rightarrow> row \<Rightarrow> bool" where
  "seat_at cfg project identity r \<longleftrightarrow>
     seat_row cfg r \<and> r_project r = Some project \<and> r_key r = ''seat/'' @ identity"

record beat_req =
  be_identity :: string
  be_project :: string
  be_state :: string
  be_provider :: "string option"
  be_overlays :: "string list"
  be_nonce :: "string option"
  be_host :: "string option"
  be_activity :: bool

definition beat_nonce :: "beat_req \<Rightarrow> string option" where
  "beat_nonce b = Option.bind (be_nonce b) or_none"

definition session_entry :: "beat_req \<Rightarrow> instant \<Rightarrow> json" where
  "session_entry b now =
     JObj [(''last_seen'', JTime now), (''provider'', jopt (be_provider b)),
           (''state'', JStr (be_state b)), (''host'', jopt (be_host b))]"

text \<open>The map a beat writes: the fresh entries that are not displaced, and its own unless the
  beat is a displaced session's.\<close>

definition beat_sessions :: "beat_req \<Rightarrow> instant \<Rightarrow> jobj \<Rightarrow> string list \<Rightarrow> jobj" where
  "beat_sessions b now prior superseded =
     (let fresh = fresh_sessions prior now superseded
      in case beat_nonce b of
           None \<Rightarrow> fresh
         | Some n \<Rightarrow> if n \<in> set superseded then fresh else jput n (session_entry b now) fresh)"

definition new_generation :: "beat_req \<Rightarrow> jobj \<Rightarrow> bool" where
  "new_generation b prior =
     (case beat_nonce b of None \<Rightarrow> False | Some n \<Rightarrow> jget (jget_obj prior ''sessions'') n = None)"

definition carried_host :: "beat_req \<Rightarrow> jobj \<Rightarrow> json" where
  "carried_host b prior =
     (if py_lower (be_identity b) \<in> set SEAT_EXEMPT_IDENTITIES then JNull
      else case Option.bind (be_host b) or_none of Some h \<Rightarrow> JStr h | None \<Rightarrow> jval prior ''host'')"

definition beat_metadata :: "beat_req \<Rightarrow> instant \<Rightarrow> jobj \<Rightarrow> string list \<Rightarrow> jobj" where
  "beat_metadata b now prior superseded =
     [(''kind'', JStr ''presence''), (''provider'', jopt (be_provider b)), (''state'', JStr (be_state b)),
      (''overlays'', JArr (map JStr (be_overlays b))), (''channels'', JArr []), (''last_seen'', JTime now),
      (''host'', carried_host b prior), (''sessions'', JObj (beat_sessions b now prior superseded)),
      (''agent_last_active'', if be_activity b then JTime now else jval prior ''agent_last_active'')] @
     (if jtruthy (jval prior ''watcher_last_seen'') \<and> \<not> new_generation b prior
      then [(''watcher_last_seen'', jval prior ''watcher_last_seen'')] else [])"

definition beat_value :: "beat_req \<Rightarrow> string" where
  "beat_value b =
     py_lower (be_identity b) @ '' ['' @
     (case Option.bind (be_provider b) or_none of None \<Rightarrow> ''unknown'' | Some p \<Rightarrow> p) @ ''] '' @
     be_state b @ '' on '' @ py_lower (be_project b)"

definition superseded_at :: "settings \<Rightarrow> string \<Rightarrow> string \<Rightarrow> table \<Rightarrow> string list" where
  "superseded_at cfg project identity t =
     (case fetchrow (seat_at cfg project identity) t of None \<Rightarrow> [] | Some r \<Rightarrow> superseded_from_seat (md r))"

definition prior_md :: "settings \<Rightarrow> string \<Rightarrow> string \<Rightarrow> table \<Rightarrow> jobj" where
  "prior_md cfg project identity t =
     (case fetchrow (presence_at cfg project identity) t of None \<Rightarrow> [] | Some r \<Rightarrow> md r)"

definition set_presence :: "string \<Rightarrow> jobj \<Rightarrow> instant \<Rightarrow> row \<Rightarrow> row" where
  "set_presence v m now r = r\<lparr>r_value := v, r_metadata := Some m, r_last_used_at := now\<rparr>"

definition new_presence :: "settings \<Rightarrow> string \<Rightarrow> string \<Rightarrow> string \<Rightarrow> jobj \<Rightarrow> instant \<Rightarrow> row" where
  "new_presence cfg project identity v m now =
     (new_row (cfg_primary_namespace cfg) (''presence/'' @ identity) v PRESENCE_SCOPE project None now)
     \<lparr>r_embedded := Some v, r_search_text := v, r_metadata := Some m\<rparr>"

record collision =
  co_live_sessions :: nat
  co_providers :: "string list"

definition presence_update :: "settings \<Rightarrow> beat_req \<Rightarrow> instant \<Rightarrow> table \<Rightarrow> collision option \<times> table" where
  "presence_update cfg b now t =
     (let identity = py_lower (be_identity b); project = py_lower (be_project b);
          prior = prior_md cfg project identity t;
          superseded = superseded_at cfg project identity t;
          sessions = beat_sessions b now prior superseded;
          m = beat_metadata b now prior superseded;
          v = beat_value b;
          here = presence_at cfg project identity;
          t1 = sql_update here (set_presence v m now) t;
          t2 = sql_update (seat_at cfg project identity) (touch now) t1;
          t3 = (if list_ex here t then t2
                else snd (insert_do_update (\<lambda>x r. set_presence (r_value x) (md x) now r)
                            (new_presence cfg project identity v m now) t2))
      in (if 1 < length sessions \<and> identity \<notin> set SEAT_EXEMPT_IDENTITIES
          then Some \<lparr>co_live_sessions = length sessions, co_providers = providers_of sessions\<rparr>
          else None, t3))"

text \<open>The watcher's beat and farewell: one key merged into the document, no insert.\<close>

definition watcher_mark :: "instant \<Rightarrow> row \<Rightarrow> row" where
  "watcher_mark now r =
     touch now (set_md (jput ''watcher_last_seen'' (JTime now) (jdel ''farewell_at'' (md r))) r)"

definition presence_watcher_beat :: "settings \<Rightarrow> string \<Rightarrow> string \<Rightarrow> instant \<Rightarrow> table \<Rightarrow> bool \<times> table" where
  "presence_watcher_beat cfg identity0 project0 now t =
     (let identity = py_lower identity0; project = py_lower project0; here = presence_at cfg project identity
      in if \<not> list_ex here t then (False, t)
         else (True, sql_update (seat_at cfg project identity) (touch now)
                       (sql_update here (watcher_mark now) t)))"

definition farewell_mark :: "instant \<Rightarrow> row \<Rightarrow> row" where
  "farewell_mark now r = set_md (jput ''farewell_at'' (JTime now) (md r)) r"

definition presence_farewell :: "settings \<Rightarrow> string \<Rightarrow> string \<Rightarrow> instant \<Rightarrow> table \<Rightarrow> bool \<times> table" where
  "presence_farewell cfg identity0 project0 now t =
     (let here = presence_at cfg (py_lower project0) (py_lower identity0)
      in (list_ex here t, sql_update here (farewell_mark now) t))"

section \<open>Well-formed rows\<close>

text \<open>What the writers of this file and of the seat registry keep: presence rows carry no
  project, and both kinds of rows are named by their prefix.\<close>

definition presence_ok :: "settings \<Rightarrow> table \<Rightarrow> bool" where
  "presence_ok cfg t \<longleftrightarrow> table_ok t \<and>
     list_all (\<lambda>r. (presence_row cfg r \<longrightarrow> r_project r = None \<and> startswith (r_key r) ''presence/'') \<and>
                   (seat_row cfg r \<longrightarrow> startswith (r_key r) ''seat/'')) t"

lemma presence_scopes [simp]:
  "presence_row cfg r \<Longrightarrow> \<not> seat_row cfg r" "seat_row cfg r \<Longrightarrow> \<not> presence_row cfg r"
  by (auto simp: presence_row_def seat_row_def PRESENCE_SCOPE_def SEAT_SCOPE_def)

lemma row_kinds_key:
  "ukey_of r = ukey_of s \<Longrightarrow> presence_row cfg r = presence_row cfg s"
  "ukey_of r = ukey_of s \<Longrightarrow> seat_row cfg r = seat_row cfg s"
  "ukey_of r = ukey_of s \<Longrightarrow> presence_at cfg p i r = presence_at cfg p i s"
  "ukey_of r = ukey_of s \<Longrightarrow> seat_at cfg p i r = seat_at cfg p i s"
  by (simp_all add: ukey_of_def presence_row_def seat_row_def presence_at_def seat_at_def)

lemma presence_writers [simp]:
  "ukey_of (set_presence v m now r) = ukey_of r" "r_id (set_presence v m now r) = r_id r"
  "md (set_presence v m now r) = m" "r_last_used_at (set_presence v m now r) = now"
  "ukey_of (watcher_mark now r) = ukey_of r" "r_id (watcher_mark now r) = r_id r"
  "md (watcher_mark now r) = jput ''watcher_last_seen'' (JTime now) (jdel ''farewell_at'' (md r))"
  "ukey_of (farewell_mark now r) = ukey_of r" "r_id (farewell_mark now r) = r_id r"
  "md (farewell_mark now r) = jput ''farewell_at'' (JTime now) (md r)"
  by (simp_all add: set_presence_def watcher_mark_def farewell_mark_def ukey_of_def md_def set_md_def touch_def)

lemma row_kinds_writers [simp]:
  "presence_row cfg (set_presence v m now r) = presence_row cfg r" "seat_row cfg (set_presence v m now r) = seat_row cfg r"
  "presence_at cfg p i (set_presence v m now r) = presence_at cfg p i r" "seat_at cfg p i (set_presence v m now r) = seat_at cfg p i r"
  "presence_row cfg (touch now r) = presence_row cfg r" "seat_row cfg (touch now r) = seat_row cfg r"
  "presence_at cfg p i (touch now r) = presence_at cfg p i r" "seat_at cfg p i (touch now r) = seat_at cfg p i r"
  "presence_at cfg p i (watcher_mark now r) = presence_at cfg p i r" "seat_at cfg p i (watcher_mark now r) = seat_at cfg p i r"
  "presence_at cfg p i (farewell_mark now r) = presence_at cfg p i r" "seat_at cfg p i (farewell_mark now r) = seat_at cfg p i r"
  by (intro row_kinds_key; simp)+

interpretation beating_presence: row_writer "set_presence v m now" for v m now
  by unfold_locales simp_all

interpretation watcher_marking: row_writer "watcher_mark now" for now
  by unfold_locales simp_all

interpretation farewell_marking: row_writer "farewell_mark now" for now
  by unfold_locales simp_all

lemma new_presence_simps [simp]:
  "ukey_of (new_presence cfg p i v m now) = (cfg_primary_namespace cfg, ''presence/'' @ i, PRESENCE_SCOPE, p, None)"
  "md (new_presence cfg p i v m now) = m" "presence_at cfg p i (new_presence cfg p i v m now)"
  "r_value (new_presence cfg p i v m now) = v" "r_last_used_at (new_presence cfg p i v m now) = now"
  by (simp_all add: new_presence_def new_row_def ukey_of_def md_def presence_at_def presence_row_def)

lemma presence_ok_key:
  "presence_ok cfg t \<longleftrightarrow> table_ok t \<and> (\<forall>(n, k, sc, u, p) \<in> ukey_of ` set t.
     (n = cfg_primary_namespace cfg \<and> sc = PRESENCE_SCOPE \<longrightarrow> p = None \<and> startswith k ''presence/'') \<and>
     (n = cfg_primary_namespace cfg \<and> sc = SEAT_SCOPE \<and> u = SEAT_USER_ID \<longrightarrow> startswith k ''seat/''))"
  by (auto simp: presence_ok_def list_all_iff presence_row_def seat_row_def ukey_of_def)

context row_writer
begin

lemma presence_ok_update: "presence_ok cfg t \<Longrightarrow> presence_ok cfg (sql_update P f t)"
proof -
  have "ukey_of ` set (sql_update P f t) = ukey_of ` set t"
    using map_ukey_update [of P t] by (metis set_map)
  then show "presence_ok cfg t \<Longrightarrow> presence_ok cfg (sql_update P f t)"
    by (simp add: presence_ok_key table_ok_update)
qed

end

lemma presence_at_unique:
  assumes "presence_ok cfg t" and "r \<in> set t" "presence_at cfg p i r" and "s \<in> set t" "presence_at cfg p i s"
  shows "r = s"
proof -
  have "ukey_of r = ukey_of s"
    using assms by (auto simp: presence_ok_def presence_at_def presence_row_def ukey_of_def list_all_iff)
  with assms show ?thesis by (auto simp: presence_ok_def table_ok_def intro: distinct_map_inj)
qed

lemma seat_at_unique:
  assumes "presence_ok cfg t" and "r \<in> set t" "seat_at cfg p i r" and "s \<in> set t" "seat_at cfg p i s"
  shows "r = s"
proof -
  have "ukey_of r = ukey_of s"
    using assms by (auto simp: seat_at_def seat_row_def ukey_of_def)
  with assms show ?thesis by (auto simp: presence_ok_def table_ok_def intro: distinct_map_inj)
qed

lemma fetchrow_is:
  assumes "r \<in> set t" and "P r" and "\<And>s. s \<in> set t \<Longrightarrow> P s \<Longrightarrow> s = r"
  shows "fetchrow P t = Some r"
proof (cases "fetchrow P t")
  case None
  with assms(1,2) show ?thesis by (simp add: fetchrow_None)
next
  case (Some s)
  then have "s = r" using fetchrow_Some [OF Some] assms(3) by blast
  with Some show ?thesis by simp
qed

lemma fetchrow_append:
  "fetchrow Q (t @ [r]) = (case fetchrow Q t of None \<Rightarrow> if Q r then Some r else None | Some s \<Rightarrow> Some s)"
  by (induction t) (auto simp: fetchrow_def)

lemma list_ex_fetchrow: "list_ex Q t \<longleftrightarrow> fetchrow Q t \<noteq> None"
  by (auto simp: list_ex_iff fetchrow_None)

lemma fetchrow_filter: "(\<And>r. Q r \<Longrightarrow> P r) \<Longrightarrow> fetchrow Q (filter P t) = fetchrow Q t"
  by (induction t) (auto simp: fetchrow_def)

context row_writer
begin

lemma fetchrow_update:
  "(\<And>r s. ukey_of r = ukey_of s \<Longrightarrow> Q r = Q s) \<Longrightarrow>
   fetchrow Q (sql_update P f t) = map_option (\<lambda>r. if P r then f r else r) (fetchrow Q t)"
proof (induction t)
  case Nil
  show ?case by (simp add: fetchrow_def sql_update_def)
next
  case (Cons a t)
  have "Q (f a) = Q a" using Cons.prems keeps_ukey by blast
  with Cons.IH [OF Cons.prems] show ?case by (simp add: fetchrow_def sql_update_def)
qed

lemmas fetch_presence = fetchrow_update [OF row_kinds_key(3)]

lemmas fetch_seat = fetchrow_update [OF row_kinds_key(4)]

end

section \<open>Rows after a beat\<close>

lemma presence_at_fun: "presence_at cfg p i r \<Longrightarrow> presence_at cfg p' i' r \<longleftrightarrow> p' = p \<and> i' = i"
  by (auto simp: presence_at_def)

lemma presence_at_seat: "presence_at cfg p i r \<Longrightarrow> \<not> seat_at cfg p' i' r"
  by (simp add: presence_at_def seat_at_def)

lemma seat_at_presence: "seat_at cfg p' i' r \<Longrightarrow> \<not> presence_at cfg p i r"
  by (simp add: presence_at_def seat_at_def)

lemma row_at_presence:
  "fetchrow (presence_at cfg p i) t = None \<Longrightarrow>
   row_at (cfg_primary_namespace cfg, ''presence/'' @ i, PRESENCE_SCOPE, p, None) t = None"
  by (auto simp: row_at_None fetchrow_None presence_at_def presence_row_def ukey_of_def)

text \<open>The table a beat leaves, in one of two forms.\<close>

definition beaten :: "settings \<Rightarrow> beat_req \<Rightarrow> instant \<Rightarrow> table \<Rightarrow> table" where
  "beaten cfg b now t =
     (let i = py_lower (be_identity b); p = py_lower (be_project b);
          m = beat_metadata b now (prior_md cfg p i t) (superseded_at cfg p i t)
      in sql_update (seat_at cfg p i) (touch now) (sql_update (presence_at cfg p i) (set_presence (beat_value b) m now) t))"

definition born :: "settings \<Rightarrow> beat_req \<Rightarrow> instant \<Rightarrow> table \<Rightarrow> row" where
  "born cfg b now t =
     (let i = py_lower (be_identity b); p = py_lower (be_project b)
      in (new_presence cfg p i (beat_value b) (beat_metadata b now [] (superseded_at cfg p i t)) now)
           \<lparr>r_id := next_id (beaten cfg b now t)\<rparr>)"

lemma fetch_presence_beaten:
  "fetchrow (presence_at cfg p i) (beaten cfg b now t) =
     map_option (\<lambda>r. if p = py_lower (be_project b) \<and> i = py_lower (be_identity b)
       then set_presence (beat_value b) (beat_metadata b now (prior_md cfg p i t) (superseded_at cfg p i t)) now r else r)
       (fetchrow (presence_at cfg p i) t)"
proof (cases "fetchrow (presence_at cfg p i) t")
  case None
  then show ?thesis
    by (simp add: beaten_def Let_def touching.fetch_presence beating_presence.fetch_presence)
next
  case (Some r)
  then have "presence_at cfg p i r" by (blast dest: fetchrow_Some)
  with Some show ?thesis
    by (auto simp: beaten_def Let_def touching.fetch_presence beating_presence.fetch_presence presence_at_fun
          dest: presence_at_seat)
qed

lemma presence_update_table:
  "snd (presence_update cfg b now t) =
     (if fetchrow (presence_at cfg (py_lower (be_project b)) (py_lower (be_identity b))) t = None
      then beaten cfg b now t @ [born cfg b now t] else beaten cfg b now t)"
proof (cases "fetchrow (presence_at cfg (py_lower (be_project b)) (py_lower (be_identity b))) t")
  case None
  then have "row_at (cfg_primary_namespace cfg, ''presence/'' @ py_lower (be_identity b), PRESENCE_SCOPE, py_lower (be_project b), None)
     (beaten cfg b now t) = None"
    by (intro row_at_presence) (simp add: fetch_presence_beaten)
  with None show ?thesis
    by (simp add: presence_update_def Let_def list_ex_fetchrow insert_do_update_def beaten_def born_def prior_md_def)
next
  case (Some r)
  then show ?thesis by (simp add: presence_update_def Let_def list_ex_fetchrow beaten_def)
qed

lemma fetch_presence_update:
  "fetchrow (presence_at cfg p i) (snd (presence_update cfg b now t)) =
     (if p = py_lower (be_project b) \<and> i = py_lower (be_identity b)
      then Some (case fetchrow (presence_at cfg p i) t of
             Some r \<Rightarrow> set_presence (beat_value b) (beat_metadata b now (prior_md cfg p i t) (superseded_at cfg p i t)) now r
           | None \<Rightarrow> born cfg b now t)
      else fetchrow (presence_at cfg p i) t)"
proof -
  have "presence_at cfg (py_lower (be_project b)) (py_lower (be_identity b)) (born cfg b now t)"
    by (simp add: born_def Let_def presence_at_def presence_row_def new_presence_def new_row_def)
  then have "presence_at cfg p i (born cfg b now t) \<longleftrightarrow> p = py_lower (be_project b) \<and> i = py_lower (be_identity b)"
    by (rule presence_at_fun)
  then show ?thesis
    by (cases "p = py_lower (be_project b) \<and> i = py_lower (be_identity b)";
        cases "fetchrow (presence_at cfg p i) t")
      (auto simp: presence_update_table fetchrow_append fetch_presence_beaten)
qed

lemma md_born: "md (born cfg b now t) =
    beat_metadata b now [] (superseded_at cfg (py_lower (be_project b)) (py_lower (be_identity b)) t)"
  by (simp add: born_def Let_def)

lemma prior_md_update:
  "prior_md cfg p i (snd (presence_update cfg b now t)) =
     (if p = py_lower (be_project b) \<and> i = py_lower (be_identity b)
      then beat_metadata b now (prior_md cfg p i t) (superseded_at cfg p i t) else prior_md cfg p i t)"
  by (auto simp: prior_md_def fetch_presence_update md_born split: option.split)

lemma fetch_seat_update:
  "map_option md (fetchrow (seat_at cfg p i) (snd (presence_update cfg b now t))) =
   map_option md (fetchrow (seat_at cfg p i) t)"
proof -
  have "map_option md (fetchrow (seat_at cfg p i) (beaten cfg b now t)) = map_option md (fetchrow (seat_at cfg p i) t)"
  proof (cases "fetchrow (seat_at cfg p i) t")
    case None
    then show ?thesis by (simp add: beaten_def Let_def touching.fetch_seat beating_presence.fetch_seat)
  next
    case (Some r)
    then have "seat_at cfg p i r" by (blast dest: fetchrow_Some)
    with Some show ?thesis
      by (auto simp: beaten_def Let_def touching.fetch_seat beating_presence.fetch_seat dest: seat_at_presence)
  qed
  moreover have "\<not> seat_at cfg p i (born cfg b now t)"
    by (simp add: born_def Let_def seat_at_def seat_row_def new_presence_def new_row_def PRESENCE_SCOPE_def SEAT_SCOPE_def)
  ultimately show ?thesis by (auto simp: presence_update_table fetchrow_append split: option.split)
qed

lemma superseded_at_md:
  "superseded_at cfg p i t = (case map_option md (fetchrow (seat_at cfg p i) t) of None \<Rightarrow> [] | Some m \<Rightarrow> superseded_from_seat m)"
  by (simp add: superseded_at_def split: option.split)

lemma superseded_update [simp]:
  "superseded_at cfg p i (snd (presence_update cfg b now t)) = superseded_at cfg p i t"
  by (simp add: superseded_at_md fetch_seat_update)

lemma presence_update_ok: "presence_ok cfg t \<Longrightarrow> presence_ok cfg (snd (presence_update cfg b now t))"
proof -
  assume ok: "presence_ok cfg t"
  let ?p = "py_lower (be_project b)" and ?i = "py_lower (be_identity b)"
  have b: "presence_ok cfg (beaten cfg b now t)"
    unfolding beaten_def Let_def
    by (intro touching.presence_ok_update beating_presence.presence_ok_update ok)
  have k: "ukey_of (born cfg b now t) = (cfg_primary_namespace cfg, ''presence/'' @ ?i, PRESENCE_SCOPE, ?p, None)"
    by (simp add: born_def Let_def)
  have "table_ok (beaten cfg b now t @ [born cfg b now t])" if "fetchrow (presence_at cfg ?p ?i) t = None"
  proof -
    have "fetchrow (presence_at cfg ?p ?i) (beaten cfg b now t) = None"
      using that by (simp add: fetch_presence_beaten)
    from row_at_presence [OF this] b show ?thesis
      unfolding born_def Let_def by (intro table_ok_append) (simp_all add: presence_ok_def)
  qed
  with b k show ?thesis
    by (simp add: presence_update_table presence_ok_key PRESENCE_SCOPE_def SEAT_SCOPE_def startswith_def)
qed

section \<open>The map of live sessions\<close>

definition live_nonce :: "beat_req \<Rightarrow> instant \<Rightarrow> jobj \<Rightarrow> string list \<Rightarrow> string \<Rightarrow> bool" where
  "live_nonce b now prior superseded n \<longleftrightarrow>
     n \<notin> set superseded \<and>
     (beat_nonce b = Some n \<or>
      (case Option.bind (jget (jget_obj prior ''sessions'') n) (\<lambda>e. jget_time (obj_of e) ''last_seen'') of
         None \<Rightarrow> False
       | Some seen \<Rightarrow> now - seen < seconds SEAT_COLLISION_WINDOW_SECONDS))"

lemma jget_filter:
  assumes "distinct (map fst m)"
  shows "jget (filter P m) k = (case jget m k of None \<Rightarrow> None | Some v \<Rightarrow> if P (k, v) then Some v else None)"
  using assms
proof (induction m)
  case (Cons e m)
  obtain k' v' where e: "e = (k', v')" by force
  have "jget m k' = None" using Cons.prems by (simp add: jget_def map_of_eq_None_iff e)
  with Cons show ?case by (auto simp: e)
qed simp

lemma jput_distinct: "distinct (map fst m) \<Longrightarrow> distinct (map fst (jput k v m))"
  by (simp add: jput_def distinct_update)

lemma beat_sessions_distinct:
  "distinct (map fst (jget_obj prior ''sessions'')) \<Longrightarrow> distinct (map fst (beat_sessions b now prior disp))"
  by (auto simp: beat_sessions_def Let_def fresh_sessions_def distinct_map_filter jput_distinct split: option.split)

lemma beat_sessions_live:
  assumes "distinct (map fst (jget_obj prior ''sessions''))"
  shows "n \<in> fst ` set (beat_sessions b now prior disp) \<longleftrightarrow> live_nonce b now prior disp n"
proof -
  have "n \<in> fst ` set (beat_sessions b now prior disp) \<longleftrightarrow> jget (beat_sessions b now prior disp) n \<noteq> None"
    by (simp add: jget_def map_of_eq_None_iff)
  also have "\<dots> \<longleftrightarrow> live_nonce b now prior disp n"
    by (auto simp: beat_sessions_def Let_def fresh_sessions_def jget_filter [OF assms] fresh_entry_def live_nonce_def
          split: option.splits if_splits)
  finally show ?thesis .
qed

lemma two_elements: "distinct xs \<Longrightarrow> 1 < length xs \<longleftrightarrow> (\<exists>x y. x \<in> set xs \<and> y \<in> set xs \<and> x \<noteq> y)"
proof (induction xs)
  case (Cons a xs)
  then show ?case by (cases xs) auto
qed simp

text \<open>What a session records of itself is fresh when it is recorded.\<close>

lemma session_entry_fresh: "n \<notin> set disp \<Longrightarrow> fresh_entry now disp (n, session_entry b now)"
  by (simp add: fresh_entry_def session_entry_def obj_of_def jget_time_def SEAT_COLLISION_WINDOW_SECONDS_def)

lemma set_jput: "e \<in> set (jput k v m) \<Longrightarrow> e = (k, v) \<or> e \<in> set m"
  by (induction m) (auto simp: jput_def split: if_splits)

lemma beat_sessions_fresh: "filter (fresh_entry now disp) (beat_sessions b now prior disp) = beat_sessions b now prior disp"
proof -
  have "fresh_entry now disp e" if "e \<in> set (beat_sessions b now prior disp)" for e
    using that session_entry_fresh
    by (auto simp: beat_sessions_def Let_def fresh_sessions_def dest!: set_jput split: option.splits if_splits)
  then show ?thesis by (simp add: filter_id_conv)
qed

lemma beat_metadata_get [simp]:
  "jget_obj (beat_metadata b now prior disp) ''sessions'' = beat_sessions b now prior disp"
  "jval (beat_metadata b now prior disp) ''agent_last_active'' =
     (if be_activity b then JTime now else jval prior ''agent_last_active'')"
  "jval (beat_metadata b now prior disp) ''farewell_at'' = JNull"
  "jget_str (beat_metadata b now prior disp) ''state'' = Some (be_state b)"
  "jval (beat_metadata b now prior disp) ''watcher_last_seen'' =
     (if jtruthy (jval prior ''watcher_last_seen'') \<and> \<not> new_generation b prior then jval prior ''watcher_last_seen'' else JNull)"
  by (simp_all add: beat_metadata_def jget_obj_def jval_def obj_of_def jget_str_def)

lemma fresh_after_beat:
  "fresh_sessions (beat_metadata b now prior disp) now disp = beat_sessions b now prior disp"
  by (simp add: fresh_sessions_def beat_sessions_fresh)

section \<open>Who collides\<close>

definition collides :: "settings \<Rightarrow> beat_req \<Rightarrow> instant \<Rightarrow> table \<Rightarrow> bool" where
  "collides cfg b now t \<longleftrightarrow>
     (let p = py_lower (be_project b); i = py_lower (be_identity b);
          live = live_nonce b now (prior_md cfg p i t) (superseded_at cfg p i t)
      in i \<notin> set SEAT_EXEMPT_IDENTITIES \<and> (\<exists>m n. m \<noteq> n \<and> live m \<and> live n))"

text \<open>A heartbeat answers with a collision exactly when two different nonces are live at
  the seat: the beating one or ones seen within the window, none of them displaced, and the
  identity is not a shared role. A restarted session's dead predecessor is no rival.\<close>

theorem collision_means_two_live:
  assumes "distinct (map fst (jget_obj (prior_md cfg (py_lower (be_project b)) (py_lower (be_identity b)) t) ''sessions''))"
  shows "fst (presence_update cfg b now t) \<noteq> None \<longleftrightarrow> collides cfg b now t"
proof -
  let ?s = "beat_sessions b now (prior_md cfg (py_lower (be_project b)) (py_lower (be_identity b)) t)
     (superseded_at cfg (py_lower (be_project b)) (py_lower (be_identity b)) t)"
  have "1 < length ?s \<longleftrightarrow> (\<exists>m n. m \<in> fst ` set ?s \<and> n \<in> fst ` set ?s \<and> m \<noteq> n)"
    using two_elements [OF beat_sessions_distinct [OF assms]] by simp
  then show ?thesis
    by (auto simp: presence_update_def Let_def collides_def beat_sessions_live [OF assms])
qed

section \<open>Who writes what\<close>

text \<open>The steps of the server that are not a working beat of one session: idle beats, the
  beats of others, the watcher's beat and farewell, and whatever leaves the presence rows
  alone.\<close>

inductive idle_step :: "settings \<Rightarrow> string \<Rightarrow> string \<Rightarrow> table \<Rightarrow> table \<Rightarrow> bool" for cfg p i where
  beat: "\<not> (be_activity b \<and> py_lower (be_project b) = p \<and> py_lower (be_identity b) = i) \<Longrightarrow>
     idle_step cfg p i t (snd (presence_update cfg b now t))"
| watcher: "idle_step cfg p i t (snd (presence_watcher_beat cfg j q now t))"
| farewell: "idle_step cfg p i t (snd (presence_farewell cfg j q now t))"
| elsewhere: "filter (presence_row cfg) t' = filter (presence_row cfg) t \<Longrightarrow> idle_step cfg p i t t'"

lemma fetch_watcher_beat:
  "fetchrow (presence_at cfg p i) (snd (presence_watcher_beat cfg j q now t)) =
     map_option (\<lambda>r. if p = py_lower q \<and> i = py_lower j then watcher_mark now r else r) (fetchrow (presence_at cfg p i) t)"
proof (cases "fetchrow (presence_at cfg p i) t")
  case None
  then show ?thesis by (simp add: presence_watcher_beat_def Let_def touching.fetch_presence watcher_marking.fetch_presence)
next
  case (Some r)
  then have "presence_at cfg p i r" by (blast dest: fetchrow_Some)
  with Some show ?thesis
    by (auto simp: presence_watcher_beat_def Let_def touching.fetch_presence watcher_marking.fetch_presence
          presence_at_fun list_ex_fetchrow dest: presence_at_seat)
qed

lemma fetch_farewell:
  "fetchrow (presence_at cfg p i) (snd (presence_farewell cfg j q now t)) =
     map_option (\<lambda>r. if p = py_lower q \<and> i = py_lower j then farewell_mark now r else r) (fetchrow (presence_at cfg p i) t)"
proof (cases "fetchrow (presence_at cfg p i) t")
  case None
  then show ?thesis by (simp add: presence_farewell_def Let_def farewell_marking.fetch_presence)
next
  case (Some r)
  then have "presence_at cfg p i r" by (blast dest: fetchrow_Some)
  with Some show ?thesis by (auto simp: presence_farewell_def Let_def farewell_marking.fetch_presence presence_at_fun)
qed

lemma fetch_presence_filter:
  "fetchrow (presence_at cfg p i) (filter (presence_row cfg) t) = fetchrow (presence_at cfg p i) t"
  by (rule fetchrow_filter) (simp add: presence_at_def)

lemma jval_marks [simp]:
  "jval (jput k v m) k' = (if k' = k then v else jval m k')" "jval (jdel k m) k' = (if k' = k then JNull else jval m k')"
  "jval [] k = JNull"
  by (simp_all add: jval_def)

lemma idle_keeps_activity:
  "idle_step cfg p i t t' \<Longrightarrow> jval (prior_md cfg p i t') ''agent_last_active'' = jval (prior_md cfg p i t) ''agent_last_active''"
proof (induction rule: idle_step.induct)
  case (beat b t now)
  then show ?case by (auto simp: prior_md_update)
next
  case (watcher t j q now)
  show ?case by (simp add: prior_md_def fetch_watcher_beat split: option.split)
next
  case (farewell t j q now)
  show ?case by (simp add: prior_md_def fetch_farewell split: option.split)
next
  case (elsewhere t' t)
  have "fetchrow (presence_at cfg p i) t' = fetchrow (presence_at cfg p i) t"
    using fetch_presence_filter [of cfg p i t] fetch_presence_filter [of cfg p i t'] elsewhere by simp
  then show ?case by (simp add: prior_md_def)
qed

text \<open>When an agent last acted is written by its own working beats alone: whatever sequence
  of idle beats, beats of others, watcher beats, farewells and other work of the server runs,
  the field stays as it was.\<close>

theorem idle_beats_forge_no_activity:
  assumes "(idle_step cfg p i)\<^sup>*\<^sup>* t t'"
  shows "jval (prior_md cfg p i t') ''agent_last_active'' = jval (prior_md cfg p i t) ''agent_last_active''"
  using assms by (induction rule: rtranclp_induct) (simp_all add: idle_keeps_activity)

section \<open>Witnesses\<close>

definition demo_beat :: "string \<Rightarrow> bool \<Rightarrow> beat_req" where
  "demo_beat n act =
     \<lparr>be_identity = ''engram-1'', be_project = ''engram'', be_state = ''running'', be_provider = Some ''claude'',
      be_overlays = [], be_nonce = Some n, be_host = None, be_activity = act\<rparr>"

definition presence_demo :: table where
  "presence_demo = snd (presence_update default_settings (demo_beat ''n1'' True) 0 [])"

theorem collision_means_two_live_witness:
  "collides default_settings (demo_beat ''n2'' True) (seconds 10) presence_demo \<and>
   \<not> collides default_settings (demo_beat ''n1'' True) (seconds 10) presence_demo"
proof -
  have d: "distinct (map fst (jget_obj (prior_md default_settings (py_lower (be_project (demo_beat n True)))
      (py_lower (be_identity (demo_beat n True))) presence_demo) ''sessions''))" for n
    unfolding demo_beat_def beat_req.simps by code_simp
  have "fst (presence_update default_settings (demo_beat ''n2'' True) (seconds 10) presence_demo) \<noteq> None"
    "fst (presence_update default_settings (demo_beat ''n1'' True) (seconds 10) presence_demo) = None" by code_simp+
  then show ?thesis using collision_means_two_live [OF d] by blast
qed

theorem idle_beats_forge_no_activity_witness:
  "jval (prior_md default_settings ''engram'' ''engram-1''
     (snd (presence_update default_settings (demo_beat ''n1'' False) (seconds 100) presence_demo))) ''agent_last_active'' = JTime 0"
proof -
  have "(idle_step default_settings ''engram'' ''engram-1'')\<^sup>*\<^sup>* presence_demo
      (snd (presence_update default_settings (demo_beat ''n1'' False) (seconds 100) presence_demo))"
    by (intro r_into_rtranclp idle_step.beat) (simp add: demo_beat_def)
  moreover have "jval (prior_md default_settings ''engram'' ''engram-1'' presence_demo) ''agent_last_active'' = JTime 0"
    by code_simp
  ultimately show ?thesis using idle_beats_forge_no_activity by simp
qed

end
