(* ===== verification/Roster.thy ===== *)
theory Roster
  imports Presence
begin

text \<open>
  What the server tells about presence, of \<^verbatim>\<open>server/services/memory_service.py\<close>: the roster with
  its watch claims and death certificates, the liveness of a recipient, the cost line of a send
  and the seat a reply is retargeted to. Each reports facts; the lemmas say that the roster and
  the heartbeat agree, that the freshest listener speaks for an address, and that the fold of a
  shared role hides no box.

  \<^verbatim>\<open>\d\<close> is the ASCII digits.
\<close>

section \<open>The roster\<close>

definition watcher_state :: "jobj \<Rightarrow> instant \<Rightarrow> (bool \<times> instant) option" where
  "watcher_state m now =
     (case jget_time m ''watcher_last_seen'' of
        None \<Rightarrow> None
      | Some seen \<Rightarrow> Some (now - seen < seconds WATCHER_STALE_AFTER_SECONDS, seen))"

record death_cert =
  dc_died_at :: json
  dc_cause :: json
  dc_graceful :: json
  dc_certified_by :: json

definition cert_of :: "jobj \<Rightarrow> death_cert" where
  "cert_of m = \<lparr>dc_died_at = jval m ''died_at'', dc_cause = jval m ''cause'',
                dc_graceful = jval m ''graceful'', dc_certified_by = jval m ''certified_by''\<rparr>"

text \<open>\<^verbatim>\<open>died_at or ""\<close>: certificates of one seat are compared by this text.\<close>

definition died_text :: "json \<Rightarrow> string" where
  "died_text j = (case j of JStr s \<Rightarrow> s | JTime u \<Rightarrow> isoformat u | _ \<Rightarrow> '''')"

definition later_cert :: "jobj \<Rightarrow> (string \<times> death_cert) list \<Rightarrow> (string \<times> death_cert) list" where
  "later_cert m certs =
     (let seat = norm (jget_str m ''seat'')
      in if seat = '''' then certs
         else case map_of certs seat of
                None \<Rightarrow> AList.update seat (cert_of m) certs
              | Some prior \<Rightarrow> if died_text (dc_died_at prior) < died_text (jval m ''died_at'')
                              then AList.update seat (cert_of m) certs else certs)"

definition death_row :: "settings \<Rightarrow> row \<Rightarrow> bool" where
  "death_row cfg r \<longleftrightarrow>
     r_namespace r = cfg_primary_namespace cfg \<and> r_scope r = DEATH_SCOPE \<and> r_user_id r = SEAT_USER_ID"

definition in_project :: "string option \<Rightarrow> string option \<Rightarrow> bool" where
  "in_project project p = (case project of None \<Rightarrow> True | Some q \<Rightarrow> p = Some q)"

definition death_by_seat :: "settings \<Rightarrow> string option \<Rightarrow> table \<Rightarrow> (string \<times> death_cert) list" where
  "death_by_seat cfg project t =
     fold (\<lambda>r. later_cert (md r)) (filter (\<lambda>r. death_row cfg r \<and> in_project project (r_project r)) t) []"

definition death_for :: "string \<Rightarrow> (string \<times> death_cert) list \<Rightarrow> instant option list \<Rightarrow> death_cert option" where
  "death_for ident certs evidence =
     (case map_of certs ident of
        None \<Rightarrow> None
      | Some d \<Rightarrow> (case dc_died_at d of
            JTime died \<Rightarrow> if list_ex (\<lambda>e. case e of None \<Rightarrow> False | Some u \<Rightarrow> died < u) evidence
                          then None else Some d
          | _ \<Rightarrow> Some d))"

text \<open>A seat's watch as the roster shows it: one claim, or the fold of a shared role's
  claims over its boxes. The flag says covered.\<close>

datatype watch_view =
    OneWatch bool json json
  | FoldedWatch bool "(string \<times> watch_view) list"

fun view_covered :: "watch_view \<Rightarrow> bool" where
  "view_covered (OneWatch c _ _) = c"
| "view_covered (FoldedWatch c _) = c"

text \<open>\<open>None\<close> is the infinite age of an entry with no readable beat.\<close>

fun beat_age :: "instant \<Rightarrow> watch_view \<Rightarrow> int option" where
  "beat_age now (OneWatch _ _ (JTime b)) = Some (now - b)"
| "beat_age now _ = None"

definition long_silent :: "instant \<Rightarrow> watch_view \<Rightarrow> bool" where
  "long_silent now w =
     (case beat_age now w of None \<Rightarrow> True | Some a \<Rightarrow> seconds PRESENCE_STALE_AFTER_SECONDS < a)"

definition box_of :: "string \<Rightarrow> (string \<times> jobj) list \<Rightarrow> string \<Rightarrow> string" where
  "box_of seat metas k =
     (let m = (case map_of metas k of None \<Rightarrow> [] | Some x \<Rightarrow> x);
          h = (if CHR ''@'' \<in> set k then Some (after (CHR ''@'') k)
               else watch_host_of seat (elements_text (jget m ''listen_set'')) (jget_str m ''host''))
      in case Option.bind h or_none of None \<Rightarrow> ''unknown'' | Some x \<Rightarrow> x)"

definition add_box ::
  "instant \<Rightarrow> string \<Rightarrow> (string \<times> jobj) list \<Rightarrow> string \<times> watch_view \<Rightarrow> (string \<times> watch_view) list \<Rightarrow> (string \<times> watch_view) list" where
  "add_box now seat metas e boxes =
     (let h = box_of seat metas (fst e); w = snd e
      in if \<not> view_covered w \<and> long_silent now w then boxes
         else if map_of boxes h = None \<or> view_covered w then AList.update h w boxes
         else boxes)"

definition role_claim :: "string \<Rightarrow> string \<times> watch_view \<Rightarrow> bool" where
  "role_claim seat e \<longleftrightarrow> fst e = seat \<or> startswith (fst e) (seat @ ''@'')"

definition fold_seat ::
  "instant \<Rightarrow> (string \<times> jobj) list \<Rightarrow> string \<Rightarrow> (string \<times> watch_view) list \<Rightarrow> (string \<times> watch_view) list" where
  "fold_seat now metas seat ws =
     (let boxes = fold (add_box now seat metas) (filter (role_claim seat) ws) [];
          rest = filter (\<lambda>e. \<not> role_claim seat e) ws
      in if boxes = [] then rest
         else rest @ [(seat, FoldedWatch (list_all (\<lambda>e. view_covered (snd e)) boxes) boxes)])"

definition fold_shared_watches ::
  "instant \<Rightarrow> (string \<times> watch_view) list \<Rightarrow> (string \<times> jobj) list \<Rightarrow> (string \<times> watch_view) list" where
  "fold_shared_watches now ws metas = fold (fold_seat now metas) SEAT_EXEMPT_IDENTITIES ws"

definition claims_by_seat :: "settings \<Rightarrow> instant \<Rightarrow> table \<Rightarrow> (string \<times> watch_view) list \<times> (string \<times> jobj) list" where
  "claims_by_seat cfg now t =
     fold (\<lambda>r (ws, ms). (AList.update (drop 6 (r_key r))
                           (OneWatch (beat_fresh now r) (jval (md r) ''armed_by'') (jval (md r) ''last_beat'')) ws,
                         AList.update (drop 6 (r_key r)) (md r) ms))
       (filter (\<lambda>r. watch_row cfg r \<and> startswith (r_key r) ''watch/'') t) ([], [])"

definition watch_by_seat :: "settings \<Rightarrow> instant \<Rightarrow> table \<Rightarrow> (string \<times> watch_view) list" where
  "watch_by_seat cfg now t = (case claims_by_seat cfg now t of (ws, ms) \<Rightarrow> fold_shared_watches now ws ms)"

record roster_entry =
  re_identity :: string
  re_project :: string
  re_state :: string
  re_provider :: json
  re_overlays :: json
  re_last_seen :: instant
  re_age_tenths :: int
  re_is_stale :: bool
  re_live_sessions :: nat
  re_collision :: bool
  re_providers_seen :: "string list"
  re_host :: json
  re_hosts_seen :: "string list"
  re_watcher :: "(bool \<times> instant) option"
  re_agent_last_active :: json
  re_watch :: "watch_view option"
    \<comment> \<open>\<open>None\<close> is \<^verbatim>\<open>unheld\<close>\<close>
  re_farewell_at :: json
  re_death :: "death_cert option"

definition seat_map :: "settings \<Rightarrow> string option \<Rightarrow> table \<Rightarrow> (string \<times> string list) list" where
  "seat_map cfg project t =
     fold (\<lambda>r. AList.update (removeprefix ''seat/'' (r_key r)) (superseded_from_seat (md r)))
       (filter (\<lambda>r. seat_row cfg r \<and> in_project project (r_project r)) t) []"

definition ident_of :: "row \<Rightarrow> string" where
  "ident_of r = removeprefix ''presence/'' (r_key r)"

definition roster_entry_of ::
  "instant \<Rightarrow> (string \<times> string list) list \<Rightarrow> (string \<times> death_cert) list \<Rightarrow> (string \<times> watch_view) list \<Rightarrow> row \<Rightarrow> roster_entry" where
  "roster_entry_of now seats certs watches r =
     (let m = md r; ident = ident_of r; age = now - r_last_used_at r;
          fresh = fresh_sessions m now (case map_of seats ident of None \<Rightarrow> [] | Some x \<Rightarrow> x);
          live = max (length fresh) 1;
          watcher = watcher_state m now
      in \<lparr>re_identity = ident, re_project = r_user_id r, re_state = jget_or m ''state'' ''unknown'',
          re_provider = jval m ''provider'',
          re_overlays = (if jtruthy (jval m ''overlays'') then jval m ''overlays'' else JArr []),
          re_last_seen = r_last_used_at r, re_age_tenths = round_tenths age,
          re_is_stale = (seconds PRESENCE_STALE_AFTER_SECONDS \<le> age),
          re_live_sessions = live,
          re_collision = (1 < live \<and> ident \<notin> set SEAT_EXEMPT_IDENTITIES),
          re_providers_seen = providers_of fresh, re_host = jval m ''host'',
          re_hosts_seen = hosts_of fresh, re_watcher = watcher,
          re_agent_last_active = jval m ''agent_last_active'',
          re_watch = map_of watches ident, re_farewell_at = jval m ''farewell_at'',
          re_death = death_for ident certs [Some (r_last_used_at r), map_option snd watcher]\<rparr>)"

record roster_query =
  rq_project :: "string option"
  rq_channel :: "string option"
  rq_include_done :: bool
  rq_include_expired :: bool

definition on_roster :: "roster_query \<Rightarrow> instant \<Rightarrow> row \<Rightarrow> bool" where
  "on_roster q now r \<longleftrightarrow>
     \<not> (jget_str (md r) ''state'' = Some ''done'' \<and> \<not> rq_include_done q) \<and>
     Option.bind (rq_channel q) or_none = None \<and>
     (now - r_last_used_at r < seconds PRESENCE_RETENTION_SECONDS \<or> rq_include_expired q)"

definition roster_list :: "settings \<Rightarrow> roster_query \<Rightarrow> instant \<Rightarrow> table \<Rightarrow> roster_entry list" where
  "roster_list cfg q now t =
     (let project = map_option py_lower (Option.bind (rq_project q) or_none);
          rows = sort_key (\<lambda>r. - r_last_used_at r)
                   (filter (\<lambda>r. presence_row cfg r \<and> in_project project (Some (r_user_id r))) t)
      in map (roster_entry_of now (seat_map cfg project t) (death_by_seat cfg project t) (watch_by_seat cfg now t))
           (filter (on_roster q now) rows))"

section \<open>Recipients\<close>

record liveness =
  lv_listener :: string
  lv_age_tenths :: int
  lv_is_stale :: bool
  lv_watcher_alive :: "bool option"
  lv_farewell_at :: json
  lv_death :: "death_cert option"

text \<open>The addresses among those asked for that a presence row speaks for: its own, and its
  project's unless it is done.\<close>

definition speaks_for :: "string list \<Rightarrow> row \<Rightarrow> string list" where
  "speaks_for addresses r =
     (let ident = ident_of r; project = py_lower (r_user_id r)
      in (if ident \<in> set addresses then [ident] else []) @
         (if project \<in> set addresses \<and> project \<noteq> ident \<and> jget_str (md r) ''state'' \<noteq> Some ''done''
          then [project] else []))"

definition fresher :: "row \<Rightarrow> string \<Rightarrow> (string \<times> row) list \<Rightarrow> (string \<times> row) list" where
  "fresher r addr best =
     (case map_of best addr of
        None \<Rightarrow> AList.update addr r best
      | Some cur \<Rightarrow> if r_last_used_at cur < r_last_used_at r then AList.update addr r best else best)"

definition best_listeners :: "string list \<Rightarrow> row list \<Rightarrow> (string \<times> row) list" where
  "best_listeners addresses rows = fold (\<lambda>r best. fold (fresher r) (speaks_for addresses r) best) rows []"

definition liveness_of :: "instant \<Rightarrow> (string \<times> death_cert) list \<Rightarrow> row \<Rightarrow> liveness" where
  "liveness_of now certs r =
     (let age = now - r_last_used_at r; watcher = watcher_state (md r) now
      in \<lparr>lv_listener = ident_of r, lv_age_tenths = round_tenths age,
          lv_is_stale = (seconds PRESENCE_STALE_AFTER_SECONDS \<le> age),
          lv_watcher_alive = map_option fst watcher, lv_farewell_at = jval (md r) ''farewell_at'',
          lv_death = death_for (ident_of r) certs [Some (r_last_used_at r), map_option snd watcher]\<rparr>)"

definition asked_deaths :: "settings \<Rightarrow> string list \<Rightarrow> table \<Rightarrow> (string \<times> death_cert) list" where
  "asked_deaths cfg addresses t =
     fold (\<lambda>r. later_cert (md r))
       (filter (\<lambda>r. death_row cfg r \<and>
          (case jget_text (md r) ''seat'' of None \<Rightarrow> False | Some s \<Rightarrow> py_lower s \<in> set addresses)) t) []"

definition recipient_liveness :: "settings \<Rightarrow> string list \<Rightarrow> instant \<Rightarrow> table \<Rightarrow> (string \<times> liveness) list" where
  "recipient_liveness cfg addresses0 now t =
     (let addresses = map py_lower (filter (\<lambda>a. a \<noteq> '''') addresses0)
      in if addresses = [] then []
         else let rows = filter (\<lambda>r. presence_row cfg r \<and>
                    (r_key r \<in> set (map (\<lambda>a. ''presence/'' @ a) addresses) \<or> r_user_id r \<in> set addresses)) t
              in map (\<lambda>(a, r). (a, liveness_of now (asked_deaths cfg addresses t) r)) (best_listeners addresses rows))"

section \<open>The cost of a send\<close>

datatype cost_line =
    RoomPost
  | WokeNoneFyi
  | Woke nat "string list"
  | QueuesBehind string int

text \<open>\<^verbatim>\<open>re.fullmatch(re.escape(addr) + r"-\d+", ident)\<close>.\<close>

definition numbered_seat :: "string \<Rightarrow> string \<Rightarrow> bool" where
  "numbered_seat addr ident \<longleftrightarrow>
     startswith ident (addr @ ''-'') \<and>
     (let d = drop (length addr + 1) ident in d \<noteq> [] \<and> list_all is_digit d)"

definition bare_name :: "string option \<Rightarrow> string" where
  "bare_name v = before (CHR ''@'') (norm v)"

text \<open>The live sessions: identity, project, when the agent last acted.\<close>

definition live_sessions :: "settings \<Rightarrow> instant \<Rightarrow> table \<Rightarrow> (string \<times> string \<times> json) list" where
  "live_sessions cfg now t =
     fold (\<lambda>r. AList.update (ident_of r) (py_lower (r_user_id r), jval (md r) ''agent_last_active''))
       (filter (\<lambda>r. presence_row cfg r \<and> now - seconds PRESENCE_STALE_AFTER_SECONDS \<le> r_last_used_at r \<and>
                    \<not> (jget_str (md r) ''state'' = Some ''done'' \<or> jtruthy (jval (md r) ''farewell_at''))) t) []"

definition wakes :: "(string \<times> string) list \<Rightarrow> (string \<times> string) list \<Rightarrow> string \<Rightarrow> string \<times> string \<times> json \<Rightarrow> bool" where
  "wakes al roles addr info =
     (let h = (case Option.bind (holder roles (Some addr)) or_none of None \<Rightarrow> [] | Some x \<Rightarrow> [x]);
          targets = addr # h;
          fam = (if family al addr = [] then [addr] else family al addr) @ targets
      in fst info \<in> set targets \<or> fst (snd info) \<in> set fam \<or> numbered_seat addr (fst info))"

definition woken ::
  "(string \<times> string) list \<Rightarrow> (string \<times> string) list \<Rightarrow> string list \<Rightarrow> string \<Rightarrow> (string \<times> string \<times> json) list \<Rightarrow> string list" where
  "woken al roles recips me live =
     sort (map fst (filter (\<lambda>i. fst i \<noteq> me \<and> list_ex (\<lambda>a. wakes al roles a i) recips) live))"

definition previous_mail :: "settings \<Rightarrow> string \<Rightarrow> string \<Rightarrow> string list \<Rightarrow> table \<Rightarrow> row option" where
  "previous_mail cfg addr me sent_ids t =
     (case sort_key (\<lambda>r. - r_created_at r) (filter (\<lambda>r.
         inbox_row cfg r \<and> r_user_id r = addr \<and>
         map_option (\<lambda>f. before (CHR ''@'') (py_lower f)) (jget_text (md r) ''from'') = Some me \<and>
         r_key r \<notin> set sent_ids) t) of
        [] \<Rightarrow> None | r # _ \<Rightarrow> Some r)"

definition queue_line ::
  "settings \<Rightarrow> string \<Rightarrow> string list \<Rightarrow> instant \<Rightarrow> table \<Rightarrow> (string \<times> string \<times> json) list \<Rightarrow> string \<Rightarrow> cost_line list" where
  "queue_line cfg me sent_ids now t live addr =
     (case map_of live addr of
        Some (_, JTime acted) \<Rightarrow>
          (case previous_mail cfg addr me sent_ids t of
             None \<Rightarrow> []
           | Some p \<Rightarrow> if acted < r_created_at p
                       then [QueuesBehind addr ((now - r_created_at p) div seconds 60)] else [])
      | _ \<Rightarrow> [])"

definition send_cost_facts ::
  "settings \<Rightarrow> string list \<Rightarrow> string option \<Rightarrow> string option \<Rightarrow> string list \<Rightarrow> string option \<Rightarrow> instant \<Rightarrow> server
     \<Rightarrow> cost_line list \<times> server" where
  "send_cost_facts cfg recipients sender intent sent_ids thread_id now s0 =
     (let recips = map (\<lambda>r. bare_name (Some r)) (filter (\<lambda>r. r \<noteq> '''') recipients);
          owner = norm (Some (cfg_owner_principal_name cfg))
      in if recips = [] then ([], s0)
         else if startswith (or_empty thread_id) ''huddle/'' \<and> owner \<noteq> '''' \<and> recips = [owner]
         then ([RoomPost], s0)
         else let me = bare_name sender; t = memories s0;
                  live = live_sessions cfg now t;
                  s = role_refresh False now (alias_refresh False now s0);
                  w = woken (alias_cache s) (role_cache s) recips me live;
                  first = (if py_lower (or_empty intent) = ''fyi'' then WokeNoneFyi
                           else Woke (length w) (if 0 < length w \<and> length w \<le> 8 then w else []))
              in (first # (if me = '''' then [] else concat (map (queue_line cfg me sent_ids now t live) recips)), s))"

section \<open>The seat a reply goes to\<close>

definition reply_seat_retarget :: "settings \<Rightarrow> string option \<Rightarrow> string \<Rightarrow> instant \<Rightarrow> table \<Rightarrow> string option" where
  "reply_seat_retarget cfg in_reply_to target now t =
     (case Option.bind in_reply_to or_none of
        None \<Rightarrow> None
      | Some p \<Rightarrow>
          if target = '''' then None
          else case fetchrow (message_at cfg p) t of
            None \<Rightarrow> None
          | Some r \<Rightarrow>
              let lane = norm (jget_str (md r) ''from_lane''); seat = bare_name (jget_str (md r) ''from'')
              in if lane = '''' \<or> bare_name (Some target) \<noteq> lane then None
                 else if seat = '''' \<or> seat = lane then None
                 else case map_of (recipient_liveness cfg [seat] now t) seat of
                        None \<Rightarrow> None
                      | Some i \<Rightarrow> if lv_is_stale i \<or> jtruthy (lv_farewell_at i) \<or> lv_death i \<noteq> None
                                  then None else Some seat)"

section \<open>The roster agrees with the heartbeat\<close>

lemma map_of_fold_update:
  "map_of (fold (\<lambda>r. AList.update (k r) (v r)) xs al) x =
     (case find (\<lambda>r. k r = x) (rev xs) of None \<Rightarrow> map_of al x | Some r \<Rightarrow> Some (v r))"
proof (induction xs arbitrary: al)
  case (Cons a xs)
  have "find (\<lambda>r. k r = x) (ys @ [a]) =
      (case find (\<lambda>r. k r = x) ys of None \<Rightarrow> if k a = x then Some a else None | Some r \<Rightarrow> Some r)" for ys
    by (induction ys) auto
  then show ?case by (simp add: Cons.IH update_conv split: option.split)
qed simp

lemma key_of_ident: "startswith k p \<Longrightarrow> removeprefix p k = i \<longleftrightarrow> k = p @ i"
  by (auto simp: removeprefix_def startswith_def prefix_def)

lemma seat_at_iff:
  assumes "presence_ok cfg t" "r \<in> set t"
  shows "seat_at cfg p i r \<longleftrightarrow> seat_row cfg r \<and> r_project r = Some p \<and> removeprefix ''seat/'' (r_key r) = i"
proof -
  have "seat_row cfg r \<Longrightarrow> startswith (r_key r) ''seat/''" using assms by (auto simp: presence_ok_def list_all_iff)
  then show ?thesis unfolding seat_at_def by (blast dest: key_of_ident [THEN iffD1] key_of_ident [THEN iffD2])
qed

lemma presence_at_iff:
  assumes "presence_ok cfg t" "r \<in> set t"
  shows "presence_at cfg p i r \<longleftrightarrow> presence_row cfg r \<and> r_user_id r = p \<and> ident_of r = i"
proof -
  have "presence_row cfg r \<Longrightarrow> startswith (r_key r) ''presence/''" using assms by (auto simp: presence_ok_def list_all_iff)
  then show ?thesis unfolding presence_at_def ident_of_def by (blast dest: key_of_ident [THEN iffD1] key_of_ident [THEN iffD2])
qed

lemma ident_of_presence: "presence_at cfg p i r \<Longrightarrow> ident_of r = i"
  by (simp add: presence_at_def ident_of_def removeprefix_def pystr)

lemma find_is:
  assumes "\<And>s. s \<in> set xs \<Longrightarrow> P s \<Longrightarrow> s = r"
  shows "find P xs = (if r \<in> set xs \<and> P r then Some r else None)"
  using assms by (induction xs) auto

lemma seat_map_at:
  assumes "presence_ok cfg t"
  shows "(case map_of (seat_map cfg (Some p) t) i of None \<Rightarrow> [] | Some x \<Rightarrow> x) = superseded_at cfg p i t"
proof -
  let ?rows = "filter (\<lambda>r. seat_row cfg r \<and> in_project (Some p) (r_project r)) t"
  let ?Q = "\<lambda>r. removeprefix ''seat/'' (r_key r) = i"
  have Q: "r \<in> set ?rows \<and> ?Q r \<longleftrightarrow> r \<in> set t \<and> seat_at cfg p i r" for r
    using seat_at_iff [OF assms] by (auto simp: in_project_def)
  show ?thesis
  proof (cases "fetchrow (seat_at cfg p i) t")
    case None
    then have "find ?Q (rev ?rows) = None" using Q by (auto simp: find_None_iff fetchrow_None)
    with None show ?thesis unfolding seat_map_def map_of_fold_update superseded_at_def by simp
  next
    case (Some r)
    have r: "r \<in> set t" "seat_at cfg p i r" using fetchrow_Some [OF Some] by auto
    then have rq: "r \<in> set ?rows \<and> ?Q r" using Q by blast
    have "find ?Q (rev ?rows) = (if r \<in> set (rev ?rows) \<and> ?Q r then Some r else None)"
    proof (rule find_is)
      fix s assume "s \<in> set (rev ?rows)" "?Q s"
      then have "s \<in> set ?rows \<and> ?Q s" by (simp only: set_rev simp_thms)
      then have "s \<in> set t \<and> seat_at cfg p i s" using Q by blast
      then show "s = r" using seat_at_unique [OF assms _ _ r] by blast
    qed
    then have "find ?Q (rev ?rows) = Some r" using rq by (simp only: set_rev if_True simp_thms)
    with Some show ?thesis unfolding seat_map_def map_of_fold_update superseded_at_def by simp
  qed
qed

lemma filter_one:
  assumes "distinct xs" "x \<in> set xs" "P x" "\<And>y. y \<in> set xs \<Longrightarrow> P y \<Longrightarrow> y = x"
  shows "filter P xs = [x]"
proof -
  have "filter P xs = filter (\<lambda>y. y = x) xs" using assms(3,4) by (intro filter_cong refl) blast
  also have "\<dots> = [x]" using filter_unique [of "\<lambda>y. y" xs x] assms(1,2) by simp
  finally show ?thesis .
qed

lemma table_ok_distinct: "table_ok t \<Longrightarrow> distinct t"
  by (simp add: table_ok_def distinct_map)

lemma roster_one:
  assumes "presence_ok cfg t" and "rq_project q = Some p0" "p0 \<noteq> ''''" "py_lower p0 = p"
    and "fetchrow (presence_at cfg p i) t = Some r" and "on_roster q now r"
  shows "filter (\<lambda>e. re_identity e = i) (roster_list cfg q now t) =
    [roster_entry_of now (seat_map cfg (Some p) t) (death_by_seat cfg (Some p) t) (watch_by_seat cfg now t) r]"
proof -
  let ?E = "roster_entry_of now (seat_map cfg (Some p) t) (death_by_seat cfg (Some p) t) (watch_by_seat cfg now t)"
  have r: "r \<in> set t" "presence_at cfg p i r" using fetchrow_Some [OF assms(5)] by auto
  have e: "re_identity (?E x) = ident_of x" for x by (simp add: roster_entry_of_def Let_def)
  have pr: "map_option py_lower (Option.bind (rq_project q) or_none) = Some p"
    using assms(2-4) by (simp add: or_none_def)
  have "filter (\<lambda>e. re_identity e = i) (roster_list cfg q now t) =
      map ?E (sort_key (\<lambda>r. - r_last_used_at r)
        (filter (\<lambda>x. (presence_row cfg x \<and> in_project (Some p) (Some (r_user_id x))) \<and> on_roster q now x \<and> ident_of x = i) t))"
    unfolding roster_list_def Let_def pr filter_map comp_def e filter_filter filter_sort by (simp add: conj_ac)
  also have "filter (\<lambda>x. (presence_row cfg x \<and> in_project (Some p) (Some (r_user_id x))) \<and> on_roster q now x \<and> ident_of x = i) t = [r]"
  proof (rule filter_one)
    show "distinct t" using assms(1) by (simp add: presence_ok_def table_ok_distinct)
    show "r \<in> set t" by fact
    show "(presence_row cfg r \<and> in_project (Some p) (Some (r_user_id r))) \<and> on_roster q now r \<and> ident_of r = i"
      using r(2) assms(6) ident_of_presence [OF r(2)] by (simp add: presence_at_def in_project_def)
    fix y assume y: "y \<in> set t"
      and "(presence_row cfg y \<and> in_project (Some p) (Some (r_user_id y))) \<and> on_roster q now y \<and> ident_of y = i"
    then have "presence_at cfg p i y" using presence_at_iff [OF assms(1) y] by (simp add: in_project_def)
    then show "y = r" using presence_at_unique [OF assms(1) y _ r] by blast
  qed
  finally show ?thesis by simp
qed

text \<open>C40. After a heartbeat the roster of its project has exactly one entry for the session, and
  it says what the answer to the beat said: the same verdict on a collision, the same number of
  live sessions and the same providers; the entry is fresh and carries no farewell.\<close>

theorem roster_agrees_with_heartbeat:
  assumes "presence_ok cfg t" and "presence_update cfg b now t = (c, t')"
    and "rq_project q = Some (be_project b)" "be_project b \<noteq> ''''" "rq_channel q = None"
    and "be_state b \<noteq> ''done'' \<or> rq_include_done q"
  shows "\<exists>e. filter (\<lambda>e. re_identity e = py_lower (be_identity b)) (roster_list cfg q now t') = [e] \<and>
    re_collision e = (c \<noteq> None) \<and>
    (case c of None \<Rightarrow> True | Some x \<Rightarrow> re_live_sessions e = co_live_sessions x \<and> re_providers_seen e = co_providers x) \<and>
    \<not> re_is_stale e \<and> re_farewell_at e = JNull"
proof -
  let ?p = "py_lower (be_project b)" and ?i = "py_lower (be_identity b)"
  let ?m = "beat_metadata b now (prior_md cfg ?p ?i t) (superseded_at cfg ?p ?i t)"
  let ?s = "beat_sessions b now (prior_md cfg ?p ?i t) (superseded_at cfg ?p ?i t)"
  have t': "t' = snd (presence_update cfg b now t)" and c: "c = fst (presence_update cfg b now t)"
    using assms(2) by simp_all
  obtain r where f: "fetchrow (presence_at cfg ?p ?i) t' = Some r" and m: "md r = ?m" and l: "r_last_used_at r = now"
    unfolding t' fetch_presence_update
    by (cases "fetchrow (presence_at cfg ?p ?i) t") (auto simp: md_born prior_md_def born_def Let_def)
  have ok: "presence_ok cfg t'" unfolding t' using assms(1) by (rule presence_update_ok)
  have on: "on_roster q now r" using assms(5,6) by (auto simp: on_roster_def m l PRESENCE_RETENTION_SECONDS_def)
  have i: "ident_of r = ?i" using fetchrow_Some [OF f] ident_of_presence by blast
  have d: "(case map_of (seat_map cfg (Some ?p) t') ?i of None \<Rightarrow> [] | Some x \<Rightarrow> x) = superseded_at cfg ?p ?i t"
    using seat_map_at [OF ok] by (simp add: t')
  let ?e = "roster_entry_of now (seat_map cfg (Some ?p) t') (death_by_seat cfg (Some ?p) t') (watch_by_seat cfg now t') r"
  have "re_live_sessions ?e = max (length ?s) 1" "re_collision ?e = (1 < max (length ?s) 1 \<and> ?i \<notin> set SEAT_EXEMPT_IDENTITIES)"
    "re_providers_seen ?e = providers_of ?s" "\<not> re_is_stale ?e" "re_farewell_at ?e = JNull"
    unfolding roster_entry_of_def Let_def i d m l fresh_after_beat
    by (simp_all add: PRESENCE_STALE_AFTER_SECONDS_def)
  with roster_one [OF ok assms(3,4) refl f on] show ?thesis
    unfolding c by (intro exI [of _ ?e]) (auto simp: presence_update_def Let_def)
qed

section \<open>The freshest listener\<close>

lemma fresher_map_of:
  "map_of (fresher r a best) x = (if x = a \<and> (case map_of best a of None \<Rightarrow> True | Some c \<Rightarrow> r_last_used_at c < r_last_used_at r)
     then Some r else map_of best x)"
  by (auto simp: fresher_def update_conv split: option.split)

lemma fold_fresher_map_of:
  "map_of (fold (fresher r) as best) x =
     (if x \<in> set as \<and> (case map_of best x of None \<Rightarrow> True | Some c \<Rightarrow> r_last_used_at c < r_last_used_at r)
      then Some r else map_of best x)"
  by (induction as arbitrary: best) (auto simp: fresher_map_of split: option.splits if_splits)

definition speakers :: "string list \<Rightarrow> row list \<Rightarrow> string \<Rightarrow> row list" where
  "speakers addresses rows a = filter (\<lambda>r. a \<in> set (speaks_for addresses r)) rows"

lemma best_listeners_spec:
  "(map_of (best_listeners addresses rows) a = None \<longleftrightarrow> speakers addresses rows a = []) \<and>
   (\<forall>r. map_of (best_listeners addresses rows) a = Some r \<longrightarrow>
      r \<in> set (speakers addresses rows a) \<and> (\<forall>s \<in> set (speakers addresses rows a). r_last_used_at s \<le> r_last_used_at r))"
proof (induction rows rule: rev_induct)
  case Nil
  show ?case by (simp add: best_listeners_def speakers_def)
next
  case (snoc x rows)
  have "best_listeners addresses (rows @ [x]) = fold (fresher x) (speaks_for addresses x) (best_listeners addresses rows)"
    by (simp add: best_listeners_def)
  with snoc show ?case
    by (cases "map_of (best_listeners addresses rows) a")
      (force simp: fold_fresher_map_of speakers_def not_less split: if_splits)+
qed

text \<open>The rows that can speak for an address: its own, and those of the project it names
  unless they are done.\<close>

definition speaks :: "settings \<Rightarrow> string \<Rightarrow> row \<Rightarrow> bool" where
  "speaks cfg a r \<longleftrightarrow> presence_row cfg r \<and>
     (ident_of r = a \<or> (py_lower (r_user_id r) = a \<and> jget_str (md r) ''state'' \<noteq> Some ''done''))"

lemma speaks_for_iff: "a \<in> set (speaks_for addresses r) \<longleftrightarrow> a \<in> set addresses \<and>
    (ident_of r = a \<or> (py_lower (r_user_id r) = a \<and> jget_str (md r) ''state'' \<noteq> Some ''done''))"
  by (auto simp: speaks_for_def Let_def)

definition presence_lower :: "settings \<Rightarrow> table \<Rightarrow> bool" where
  "presence_lower cfg t \<longleftrightarrow> list_all (\<lambda>r. presence_row cfg r \<longrightarrow> py_lower (r_user_id r) = r_user_id r) t"

text \<open>The liveness of an address is that of its freshest listener: the row reported can
  speak for the address and none that can is fresher; an address is left out exactly when no
  row can speak for it, so that absence is never rendered as death.\<close>

theorem liveness_is_the_freshest_listener:
  assumes "presence_ok cfg t" and "presence_lower cfg t" and "a \<noteq> ''''" and "a \<in> set as" and "py_lower a = a"
  shows "case map_of (recipient_liveness cfg as now t) a of
      None \<Rightarrow> \<not> list_ex (speaks cfg a) t
    | Some v \<Rightarrow> \<exists>r. r \<in> set t \<and> speaks cfg a r \<and> lv_listener v = ident_of r \<and>
        lv_is_stale v = (seconds PRESENCE_STALE_AFTER_SECONDS \<le> now - r_last_used_at r) \<and>
        list_all (\<lambda>s. speaks cfg a s \<longrightarrow> r_last_used_at s \<le> r_last_used_at r) t"
proof -
  let ?as = "map py_lower (filter (\<lambda>x. x \<noteq> '''') as)"
  let ?rows = "filter (\<lambda>r. presence_row cfg r \<and>
     (r_key r \<in> set (map (\<lambda>a. ''presence/'' @ a) ?as) \<or> r_user_id r \<in> set ?as)) t"
  have a: "a \<in> set ?as" using assms(3-5) by force
  then have ne: "?as \<noteq> []" using length_pos_if_in_set by fastforce
  have m: "map_of (recipient_liveness cfg as now t) a =
      map_option (liveness_of now (asked_deaths cfg ?as t)) (map_of (best_listeners ?as ?rows) a)"
    unfolding recipient_liveness_def Let_def if_not_P [OF ne] by (simp add: map_of_map)
  have sp: "r \<in> set (speakers ?as ?rows a) \<longleftrightarrow> r \<in> set t \<and> speaks cfg a r" for r
  proof
    show "r \<in> set (speakers ?as ?rows a) \<Longrightarrow> r \<in> set t \<and> speaks cfg a r"
      by (auto simp: speakers_def speaks_for_iff speaks_def)
    assume r: "r \<in> set t \<and> speaks cfg a r"
    have "presence_at cfg (r_user_id r) (ident_of r) r" using r presence_at_iff [OF assms(1)] by (simp add: speaks_def)
    then have k: "r_key r = ''presence/'' @ ident_of r" by (simp add: presence_at_def)
    have u: "py_lower (r_user_id r) = r_user_id r"
      using r assms(2) by (simp add: presence_lower_def list_all_iff speaks_def)
    show "r \<in> set (speakers ?as ?rows a)"
      unfolding speakers_def speaks_for_iff set_filter mem_Collect_eq
      using r a u by (auto simp: speaks_def k)
  qed
  note bl = best_listeners_spec [of ?as ?rows a]
  show ?thesis
  proof (cases "map_of (best_listeners ?as ?rows) a")
    case None
    then have "speakers ?as ?rows a = []" using bl by blast
    then have "\<not> (\<exists>r. r \<in> set t \<and> speaks cfg a r)" using sp by (metis empty_iff list.set(1))
    with None m show ?thesis by (auto simp: list_ex_iff)
  next
    case (Some r)
    then have "r \<in> set (speakers ?as ?rows a)" "\<forall>s \<in> set (speakers ?as ?rows a). r_last_used_at s \<le> r_last_used_at r"
      using bl by blast+
    then have "r \<in> set t \<and> speaks cfg a r" "\<forall>s. s \<in> set t \<and> speaks cfg a s \<longrightarrow> r_last_used_at s \<le> r_last_used_at r"
      using sp by blast+
    then show ?thesis unfolding m Some
      by (auto simp: liveness_of_def Let_def list_all_iff intro!: exI [of _ r])
  qed
qed
section \<open>One deaf box is not hidden\<close>

definition counted :: "instant \<Rightarrow> string \<Rightarrow> string \<times> watch_view \<Rightarrow> bool" where
  "counted now seat e \<longleftrightarrow> role_claim seat e \<and> (view_covered (snd e) \<or> \<not> long_silent now (snd e))"

definition boxes :: "instant \<Rightarrow> string \<Rightarrow> (string \<times> jobj) list \<Rightarrow> (string \<times> watch_view) list \<Rightarrow> (string \<times> watch_view) list" where
  "boxes now seat metas es = fold (add_box now seat metas) es []"

lemma boxes_snoc [simp]: "boxes now seat metas [] = []"
  "boxes now seat metas (es @ [e]) = add_box now seat metas e (boxes now seat metas es)"
  by (simp_all add: boxes_def)

lemma map_of_add_box:
  "map_of (add_box now seat metas e bs) h =
     (if box_of seat metas (fst e) = h \<and> (view_covered (snd e) \<or> \<not> long_silent now (snd e) \<and> map_of bs h = None)
      then Some (snd e) else map_of bs h)"
  by (auto simp: add_box_def Let_def update_conv)

lemma boxes_distinct: "distinct (map fst (boxes now seat metas es))"
  by (induction es rule: rev_induct) (simp_all add: add_box_def Let_def distinct_update)

lemma boxes_None: "map_of (boxes now seat metas es) h = None \<longleftrightarrow>
    \<not> list_ex (\<lambda>e. box_of seat metas (fst e) = h \<and> (view_covered (snd e) \<or> \<not> long_silent now (snd e))) es"
  by (induction es rule: rev_induct) (auto simp: map_of_add_box)

lemma boxes_Some: "map_of (boxes now seat metas es) h = Some w \<Longrightarrow>
    view_covered w = list_ex (\<lambda>e. box_of seat metas (fst e) = h \<and> view_covered (snd e)) es"
proof (induction es arbitrary: w rule: rev_induct)
  case (snoc e es)
  show ?case
  proof (cases "map_of (boxes now seat metas es) h")
    case None
    then have "\<not> list_ex (\<lambda>e. box_of seat metas (fst e) = h \<and> view_covered (snd e)) es"
      unfolding boxes_None by (auto simp: list_ex_iff)
    with snoc.prems None show ?thesis by (auto simp: map_of_add_box split: if_splits)
  next
    case (Some x)
    with snoc show ?thesis by (auto simp: map_of_add_box split: if_splits)
  qed
qed simp

lemma boxes_all_covered:
  "list_all (\<lambda>b. view_covered (snd b)) (boxes now seat metas es) \<longleftrightarrow>
   list_all (\<lambda>e. view_covered (snd e) \<or> \<not> long_silent now (snd e) \<longrightarrow>
      list_ex (\<lambda>e'. box_of seat metas (fst e') = box_of seat metas (fst e) \<and> view_covered (snd e')) es) es" (is "?A \<longleftrightarrow> ?B")
proof
  assume A: ?A
  show ?B unfolding list_all_iff
  proof (intro ballI impI)
    fix e assume "e \<in> set es" "view_covered (snd e) \<or> \<not> long_silent now (snd e)"
    then have "map_of (boxes now seat metas es) (box_of seat metas (fst e)) \<noteq> None"
      unfolding boxes_None by (auto simp: list_ex_iff)
    then obtain w where w: "map_of (boxes now seat metas es) (box_of seat metas (fst e)) = Some w" by blast
    from map_of_SomeD [OF w] have "view_covered w" using A unfolding list_all_iff by (metis snd_conv)
    then show "list_ex (\<lambda>e'. box_of seat metas (fst e') = box_of seat metas (fst e) \<and> view_covered (snd e')) es"
      using boxes_Some [OF w] by simp
  qed
next
  assume B: ?B
  show ?A unfolding list_all_iff
  proof
    fix b assume "b \<in> set (boxes now seat metas es)"
    then have w: "map_of (boxes now seat metas es) (fst b) = Some (snd b)" by (simp add: boxes_distinct)
    then obtain e where e: "e \<in> set es" "box_of seat metas (fst e) = fst b" "view_covered (snd e) \<or> \<not> long_silent now (snd e)"
      using boxes_None [of now seat metas es "fst b"] unfolding list_ex_iff by (metis option.distinct(1))
    then have "list_ex (\<lambda>e'. box_of seat metas (fst e') = box_of seat metas (fst e) \<and> view_covered (snd e')) es"
      using B unfolding list_all_iff by blast
    then show "view_covered (snd b)" unfolding boxes_Some [OF w] e(2) .
  qed
qed

lemma list_all_filter: "list_all P (filter Q xs) = list_all (\<lambda>x. Q x \<longrightarrow> P x) xs"
  by (induction xs) auto

lemma list_ex_filter: "list_ex P (filter Q xs) = list_ex (\<lambda>x. Q x \<and> P x) xs"
  by (induction xs) auto

text \<open>A shared role reads covered exactly when every box that still counts (a covered claim,
  or one heard from recently) has a covered claim of its own: one deaf box does not hide behind
  the coverage of another.\<close>

theorem folded_role_hides_no_box:
  assumes "map_of (fold_seat now metas seat ws) seat = Some v"
  shows "view_covered v \<longleftrightarrow>
    list_all (\<lambda>e. counted now seat e \<longrightarrow>
       list_ex (\<lambda>e'. role_claim seat e' \<and> box_of seat metas (fst e') = box_of seat metas (fst e) \<and> view_covered (snd e')) ws) ws"
proof -
  let ?es = "filter (role_claim seat) ws"
  have "map_of (filter (\<lambda>e. \<not> role_claim seat e) ws) seat = None"
    by (auto simp: map_of_eq_None_iff role_claim_def)
  then have "v = FoldedWatch (list_all (\<lambda>e. view_covered (snd e)) (boxes now seat metas ?es)) (boxes now seat metas ?es)"
    using assms by (auto simp: fold_seat_def Let_def boxes_def [symmetric] map_add_def split: if_splits option.splits)
  then have "view_covered v \<longleftrightarrow> list_all (\<lambda>e. view_covered (snd e)) (boxes now seat metas ?es)" by simp
  also have "\<dots> \<longleftrightarrow> list_all (\<lambda>e. counted now seat e \<longrightarrow>
       list_ex (\<lambda>e'. role_claim seat e' \<and> box_of seat metas (fst e') = box_of seat metas (fst e) \<and> view_covered (snd e')) ws) ws"
    unfolding boxes_all_covered by (simp add: list_all_filter list_ex_filter counted_def imp_conjL)
  finally show ?thesis .
qed

section \<open>A reply goes to the living\<close>

text \<open>A reply is moved from a lane to a seat only while somebody answers there.\<close>

lemma retarget_only_to_the_living:
  assumes "reply_seat_retarget cfg m target now t = Some s"
  shows "list_ex (\<lambda>r. presence_row cfg r \<and> (ident_of r = s \<or> py_lower (r_user_id r) = s) \<and>
    now - r_last_used_at r < seconds PRESENCE_STALE_AFTER_SECONDS \<and> \<not> jtruthy (jval (md r) ''farewell_at'')) t \<and>
    s \<noteq> bare_name (Some target)"
proof -
  obtain p r where p: "Option.bind m or_none = Some p" and r: "fetchrow (message_at cfg p) t = Some r"
    and s: "s = bare_name (jget_str (md r) ''from'')" "s \<noteq> norm (jget_str (md r) ''from_lane'')"
    "bare_name (Some target) = norm (jget_str (md r) ''from_lane'')" "s \<noteq> ''''"
    and i: "\<exists>i. map_of (recipient_liveness cfg [s] now t) s = Some i \<and> \<not> lv_is_stale i \<and> \<not> jtruthy (lv_farewell_at i)"
    using assms by (auto simp: reply_seat_retarget_def Let_def split: option.splits if_splits)
  then obtain i where i: "map_of (recipient_liveness cfg [s] now t) s = Some i" "\<not> lv_is_stale i" "\<not> jtruthy (lv_farewell_at i)"
    by blast
  let ?rows = "filter (\<lambda>r. presence_row cfg r \<and> (r_key r \<in> set (map (\<lambda>a. ''presence/'' @ a) [py_lower s]) \<or> r_user_id r \<in> set [py_lower s])) t"
  obtain l where l: "map_of (best_listeners [py_lower s] ?rows) s = Some l" "i = liveness_of now (asked_deaths cfg [py_lower s] t) l"
    using i(1) s(4) by (auto simp: recipient_liveness_def Let_def map_of_map)
  then have "l \<in> set (speakers [py_lower s] ?rows s)" using best_listeners_spec by blast
  then have "l \<in> set t" "presence_row cfg l" "ident_of l = s \<or> py_lower (r_user_id l) = s"
    by (auto simp: speakers_def speaks_for_iff)
  with l i s show ?thesis by (auto simp: list_ex_iff liveness_of_def Let_def intro!: bexI [of _ l])
qed

section \<open>Witnesses\<close>

definition demo_query :: roster_query where
  "demo_query = \<lparr>rq_project = Some ''engram'', rq_channel = None, rq_include_done = False, rq_include_expired = False\<rparr>"

theorem roster_agrees_with_heartbeat_witness:
  "\<exists>e. filter (\<lambda>e. re_identity e = ''engram-1'')
      (roster_list default_settings demo_query (seconds 10)
        (snd (presence_update default_settings (demo_beat ''n2'' True) (seconds 10) presence_demo))) = [e] \<and> re_collision e"
proof -
  let ?b = "demo_beat ''n2'' True"
  have ok: "presence_ok default_settings presence_demo" and c: "fst (presence_update default_settings ?b (seconds 10) presence_demo) \<noteq> None"
    by code_simp+
  have q: "rq_project demo_query = Some (be_project ?b)" "be_project ?b \<noteq> ''''" "rq_channel demo_query = None"
    "be_state ?b \<noteq> ''done'' \<or> rq_include_done demo_query" and i: "py_lower (be_identity ?b) = ''engram-1''"
    by (simp_all add: demo_query_def demo_beat_def) code_simp
  from roster_agrees_with_heartbeat [OF ok prod.collapse [symmetric] q] c show ?thesis unfolding i by blast
qed

theorem liveness_is_the_freshest_listener_witness:
  "\<exists>v. map_of (recipient_liveness default_settings [''engram''] (seconds 5) presence_demo) ''engram'' = Some v \<and>
     \<not> lv_is_stale v"
proof -
  have h: "presence_ok default_settings presence_demo" "presence_lower default_settings presence_demo"
    "''engram'' \<noteq> ''''" "''engram'' \<in> set [''engram'']" "py_lower ''engram'' = ''engram''" by code_simp+
  have s: "list_ex (speaks default_settings ''engram'') presence_demo"
    "list_all (\<lambda>r. r_last_used_at r = 0) presence_demo" by code_simp+
  then have u: "r_last_used_at r = 0" if "r \<in> set presence_demo" for r using that by (simp add: list_all_iff)
  from liveness_is_the_freshest_listener [OF h, of "seconds 5"] s(1) u show ?thesis
    by (auto simp: PRESENCE_STALE_AFTER_SECONDS_def split: option.splits)
qed

definition box_claims :: "(string \<times> watch_view) list" where
  "box_claims = [(''admin@a'', OneWatch True JNull (JTime 0)), (''admin@b'', OneWatch False JNull (JTime 0))]"

theorem folded_role_hides_no_box_witness:
  "map_option view_covered (map_of (fold_seat (seconds 300) [] ''admin'' box_claims) ''admin'') = Some False"
proof -
  obtain v where v: "map_of (fold_seat (seconds 300) [] ''admin'' box_claims) ''admin'' = Some v"
  proof -
    have "map_of (fold_seat (seconds 300) [] ''admin'' box_claims) ''admin'' \<noteq> None" by code_simp
    then show thesis using that by blast
  qed
  have "\<not> list_all (\<lambda>e. counted (seconds 300) ''admin'' e \<longrightarrow>
       list_ex (\<lambda>e'. role_claim ''admin'' e' \<and> box_of ''admin'' [] (fst e') = box_of ''admin'' [] (fst e) \<and> view_covered (snd e'))
         box_claims) box_claims" by code_simp
  then show ?thesis using folded_role_hides_no_box [OF v] v by simp
qed

end
