(* ===== verification/Seats.thy ===== *)
theory Seats
  imports Roster "HOL-Library.Product_Lexorder"
begin

text \<open>
  The seat registry of \<^verbatim>\<open>server/services/session_registry.py\<close>: the ladder that decides whether a
  name may be given out, the claim of a seat (continuity, re-seating at run time, allocation,
  take-over), death certificates with the read cursor of a lane, and release.

  A seat row is keyed \<^verbatim>\<open>seat/<name>\<close> in its project and records the session key, the nonce of the
  process and the nonces displaced from the seat. A claim is one step here; the statements of the
  code that guard it against others (\<^verbatim>\<open>ON CONFLICT DO NOTHING\<close>, the age in the take-over) are the
  definitions \<open>try_insert\<close> and \<open>try_takeover\<close>. Warnings are values of a datatype, in the order in
  which their texts are joined. Ages are in microseconds.
\<close>

section \<open>The ladder\<close>

definition SEAT_LIVE_SECONDS :: int where
  "SEAT_LIVE_SECONDS = 600"

definition SEAT_GRACE_SECONDS :: int where
  "SEAT_GRACE_SECONDS = 604800"

definition MAX_SEAT_ORDINAL :: nat where
  "MAX_SEAT_ORDINAL = 64"

definition MAX_SUPERSEDED_NONCES :: nat where
  "MAX_SUPERSEDED_NONCES = 8"

definition PROJECT_REGISTRY_SCOPE :: string where
  "PROJECT_REGISTRY_SCOPE = ''project-root''"

definition LANE_CURSOR_SCOPE :: string where
  "LANE_CURSOR_SCOPE = ''lane_cursor''"

definition LANE_PROVIDERS :: "string list" where
  "LANE_PROVIDERS = [''claude'', ''grok'', ''codex'', ''cursor'', ''gpt'']"

definition is_reserved_root :: "settings \<Rightarrow> string \<Rightarrow> string \<Rightarrow> bool" where
  "is_reserved_root cfg seat project \<longleftrightarrow>
     cfg_lane_reservation_enabled cfg \<and> project \<notin> set SEAT_EXEMPT_IDENTITIES \<and> seat = project"

definition is_reserved_lane :: "settings \<Rightarrow> string \<Rightarrow> string \<Rightarrow> bool" where
  "is_reserved_lane cfg seat project \<longleftrightarrow>
     cfg_lane_reservation_enabled cfg \<and> project \<notin> set SEAT_EXEMPT_IDENTITIES \<and>
     list_ex (\<lambda>p. seat = project @ ''-'' @ p) LANE_PROVIDERS"

datatype skip_reason =
    ReservedRoot
  | ReservedLane
  | MailParked
  | LiveNoRow
  | LiveHolder
  | GraceWindow
  | PresenceFresh
  | ExemptRole
  | PersonAddress

record decision =
  de_would_skip :: bool
  de_reason :: "skip_reason option"
  de_grace_expires_at :: "instant option"

definition free_name :: decision where
  "free_name = \<lparr>de_would_skip = False, de_reason = None, de_grace_expires_at = None\<rparr>"

definition skipped :: "skip_reason \<Rightarrow> decision" where
  "skipped x = \<lparr>de_would_skip = True, de_reason = Some x, de_grace_expires_at = None\<rparr>"

definition allocation_decision ::
  "bool \<Rightarrow> bool \<Rightarrow> int option \<Rightarrow> bool \<Rightarrow> bool \<Rightarrow> instant option \<Rightarrow> bool \<Rightarrow> bool \<Rightarrow> decision" where
  "allocation_decision root lane age holds_mail presence_fresh last_used_at live_at_address certified_dead =
     (if root then skipped ReservedRoot
      else if lane then skipped ReservedLane
      else if certified_dead \<and> \<not> holds_mail then free_name
      else case age of
        None \<Rightarrow> if holds_mail then skipped MailParked
                else if live_at_address then skipped LiveNoRow else free_name
      | Some a \<Rightarrow>
          if a < seconds SEAT_LIVE_SECONDS then skipped LiveHolder
          else if a < seconds SEAT_GRACE_SECONDS
          then (skipped GraceWindow)\<lparr>de_grace_expires_at := map_option (\<lambda>l. l + seconds SEAT_GRACE_SECONDS) last_used_at\<rparr>
          else if holds_mail then skipped MailParked
          else if presence_fresh then skipped PresenceFresh else free_name)"

section \<open>What is known of a name\<close>

definition fetch_known_roots :: "settings \<Rightarrow> table \<Rightarrow> string list" where
  "fetch_known_roots cfg t =
     filter (\<lambda>p. p \<notin> set SEAT_EXEMPT_IDENTITIES)
       (remdups (List.map_filter r_project (filter (\<lambda>r.
          r_namespace r = cfg_primary_namespace cfg \<and> r_scope r \<in> set [PROJECT_REGISTRY_SCOPE, SEAT_SCOPE]) t)))"

definition base_name :: "string \<Rightarrow> string \<Rightarrow> string" where
  "base_name project provider = project @ ''-'' @ provider"

definition seat_candidates :: "string \<Rightarrow> string \<Rightarrow> string option \<Rightarrow> string list" where
  "seat_candidates project provider preferred =
     (let base = base_name project provider
      in (case preferred of None \<Rightarrow> [] | Some p \<Rightarrow> if p \<noteq> base then [p] else []) @ [base] @
         map (\<lambda>n. base @ ''-'' @ nat_str n) [2..<Suc MAX_SEAT_ORDINAL])"

definition isdigit :: "string \<Rightarrow> bool" where
  "isdigit s \<longleftrightarrow> s \<noteq> [] \<and> list_all is_digit s"

definition seat_ordinal :: "string \<Rightarrow> string \<Rightarrow> nat" where
  "seat_ordinal seat base =
     (if seat = base then 1
      else if startswith seat (base @ ''-'') \<and> isdigit (drop (length base + 1) seat)
      then nat_of_str (drop (length base + 1) seat)
      else MAX_SEAT_ORDINAL + 1)"

definition address_holds_mail :: "settings \<Rightarrow> string \<Rightarrow> table \<Rightarrow> bool" where
  "address_holds_mail cfg seat t =
     list_ex (\<lambda>r. inbox_row cfg r \<and> r_user_id r = seat \<and> \<not> archived r \<and> inbox_status r = INBOX_OPEN) t"

definition presence_is_fresh :: "settings \<Rightarrow> string \<Rightarrow> string \<Rightarrow> instant \<Rightarrow> table \<Rightarrow> bool" where
  "presence_is_fresh cfg seat project now t =
     (case fetchrow (presence_at cfg project seat) t of
        None \<Rightarrow> False | Some r \<Rightarrow> now - r_last_used_at r < seconds SEAT_LIVE_SECONDS)"

definition stripped :: "jobj \<Rightarrow> string \<Rightarrow> string" where
  "stripped m k = py_strip (or_empty (jget_str m k))"

definition cert_is_for_this_occupant :: "row option \<Rightarrow> bool" where
  "cert_is_for_this_occupant row =
     (case row of
        None \<Rightarrow> False
      | Some r \<Rightarrow>
          let cert = stripped (md r) ''death_certified_nonce''; own = stripped (md r) ''session_nonce''
          in jtruthy (jval (md r) ''death_certified'') \<and> \<not> (cert \<noteq> '''' \<and> own \<noteq> '''' \<and> cert \<noteq> own) \<and>
             (case jget_time (md r) ''death_certified_at'' of None \<Rightarrow> False | Some died \<Rightarrow> r_created_at r \<le> died))"

definition released_since :: "row \<Rightarrow> bool" where
  "released_since r =
     (case jget_time (md r) ''released_at'' of None \<Rightarrow> False | Some x \<Rightarrow> r_last_used_at r \<le> x)"

definition breathes :: "string option \<Rightarrow> instant \<Rightarrow> row \<Rightarrow> bool" where
  "breathes exclude now r \<longleftrightarrow>
     \<not> released_since r \<and>
     (if jget_obj (md r) ''sessions'' = [] then exclude = None
      else list_ex (\<lambda>(nonce, info). exclude \<noteq> Some nonce \<and>
             (case jget_time (obj_of info) ''last_seen'' of
                None \<Rightarrow> False | Some seen \<Rightarrow> now - seen < seconds SEAT_LIVE_SECONDS))
           (jget_obj (md r) ''sessions''))"

definition breathing_at :: "settings \<Rightarrow> string list \<Rightarrow> string \<Rightarrow> string option \<Rightarrow> instant \<Rightarrow> table \<Rightarrow> string list" where
  "breathing_at cfg seats project exclude now t =
     map (\<lambda>r. drop 9 (r_key r)) (filter (\<lambda>r.
       presence_row cfg r \<and> r_user_id r = project \<and> r_key r \<in> set (map (\<lambda>s. ''presence/'' @ s) seats) \<and>
       now - seconds SEAT_LIVE_SECONDS \<le> r_last_used_at r \<and> breathes exclude now r) t)"

section \<open>Writing a seat row\<close>

record seat_req =
  sr_session_key :: string
  sr_project :: "string option"
  sr_provider :: "string option"
  sr_nonce :: "string option"
  sr_host :: "string option"
  sr_preferred :: "string option"
  sr_runtime :: bool

definition last_n :: "nat \<Rightarrow> 'a list \<Rightarrow> 'a list" where
  "last_n n xs = drop (length xs - n) xs"

definition seat_meta ::
  "string \<Rightarrow> string option \<Rightarrow> string \<Rightarrow> string option \<Rightarrow> string list \<Rightarrow> bool \<Rightarrow> string option \<Rightarrow> instant \<Rightarrow> jobj" where
  "seat_meta session_key nonce provider host superseded runtime preferred now =
     [(''kind'', JStr ''seat''), (''session_key'', JStr session_key), (''session_nonce'', jopt nonce),
      (''provider'', JStr provider), (''host'', jopt host), (''preferred_seat'', jopt preferred),
      (''claimed_at'', JTime now),
      (''superseded_nonces'', JArr (map JStr (last_n MAX_SUPERSEDED_NONCES superseded))),
      (''runtime'', JBool runtime)]"

definition new_seat :: "settings \<Rightarrow> string \<Rightarrow> string \<Rightarrow> jobj \<Rightarrow> instant \<Rightarrow> row" where
  "new_seat cfg seat project meta now =
     (new_row (cfg_primary_namespace cfg) (''seat/'' @ seat) seat SEAT_SCOPE SEAT_USER_ID (Some project) now)
     \<lparr>r_search_text := seat, r_metadata := Some meta\<rparr>"

definition try_insert :: "settings \<Rightarrow> string \<Rightarrow> string \<Rightarrow> jobj \<Rightarrow> instant \<Rightarrow> table \<Rightarrow> bool \<times> table" where
  "try_insert cfg seat project meta now t =
     (case insert_do_nothing (new_seat cfg seat project meta now) t of
        (Some _, t') \<Rightarrow> (True, t') | (None, t') \<Rightarrow> (False, t'))"

definition try_takeover :: "settings \<Rightarrow> string \<Rightarrow> string \<Rightarrow> jobj \<Rightarrow> instant \<Rightarrow> instant \<Rightarrow> table \<Rightarrow> bool \<times> table" where
  "try_takeover cfg seat project meta older_than now t =
     (let hit = (\<lambda>r. seat_at cfg project seat r \<and> r_last_used_at r < older_than)
      in (list_ex hit t, sql_update hit (rewatch meta now) t))"

definition register_project :: "settings \<Rightarrow> string \<Rightarrow> instant \<Rightarrow> table \<Rightarrow> table" where
  "register_project cfg project now t =
     snd (insert_do_update (\<lambda>_. touch now)
       ((new_row (cfg_primary_namespace cfg) (''project/'' @ project) ''project-root'' PROJECT_REGISTRY_SCOPE
           SEAT_USER_ID (Some project) now)\<lparr>r_metadata := Some [(''kind'', JStr ''project-root'')]\<rparr>) t)"

section \<open>Inheriting a lane's read cursor\<close>

definition cursor_at :: "settings \<Rightarrow> string \<Rightarrow> string \<Rightarrow> row \<Rightarrow> bool" where
  "cursor_at cfg project lane r \<longleftrightarrow>
     r_namespace r = cfg_primary_namespace cfg \<and> r_scope r = LANE_CURSOR_SCOPE \<and> r_user_id r = SEAT_USER_ID \<and>
     r_project r = Some project \<and> r_key r = ''cursor/'' @ lane"

definition cursor_ids :: "jobj \<Rightarrow> string list" where
  "cursor_ids m = (case jval m ''ids'' of JArr xs \<Rightarrow> json_strings xs | _ \<Rightarrow> [])"

definition mark_read :: "string \<Rightarrow> row \<Rightarrow> row" where
  "mark_read reader r =
     (case r_metadata r of None \<Rightarrow> r
      | Some m \<Rightarrow> set_md (jput ''read_by'' (jappend (read_by r) reader) m) r)"

definition same_session_died :: "settings \<Rightarrow> string \<Rightarrow> string \<Rightarrow> table \<Rightarrow> bool" where
  "same_session_died cfg project session_key t \<longleftrightarrow>
     session_key \<noteq> '''' \<and>
     list_ex (\<lambda>r. death_row cfg r \<and> r_project r = Some project \<and> jget_text (md r) ''session_key'' = Some session_key) t"

definition live_colleague :: "settings \<Rightarrow> string \<Rightarrow> string \<Rightarrow> string \<Rightarrow> instant \<Rightarrow> table \<Rightarrow> bool" where
  "live_colleague cfg seat project provider now t =
     list_ex (\<lambda>r. seat_row cfg r \<and> r_project r = Some project \<and> jget_text (md r) ''provider'' = Some provider \<and>
        r_key r \<noteq> ''seat/'' @ seat \<and> presence_is_fresh cfg (removeprefix ''seat/'' (r_key r)) project now t) t"

definition applied_cursor :: "string \<Rightarrow> instant \<Rightarrow> jobj \<Rightarrow> jobj" where
  "applied_cursor reader now m =
     jput ''applied'' (JArr (last_n 16 ((case jval m ''applied'' of JArr xs \<Rightarrow> xs | _ \<Rightarrow> []) @
       [JObj [(''reader'', JStr reader), (''cert'', jval m ''last_cert''), (''at'', JTime now)]]))) m"

definition apply_lane_inheritance ::
  "settings \<Rightarrow> string \<Rightarrow> string \<Rightarrow> string \<Rightarrow> string option \<Rightarrow> string \<Rightarrow> instant \<Rightarrow> table \<Rightarrow> table" where
  "apply_lane_inheritance cfg seat project provider host session_key now t =
     (case Option.bind host or_none of
        None \<Rightarrow> t
      | Some h \<Rightarrow>
          let here = cursor_at cfg project (base_name project provider)
          in case fetchrow here t of
               None \<Rightarrow> t
             | Some cur \<Rightarrow>
                 let ids = cursor_ids (md cur); reader = seat @ ''@'' @ h
                 in if ids = [] then t
                    else if \<not> same_session_died cfg project session_key t \<and> live_colleague cfg seat project provider now t
                    then t
                    else sql_update here (set_md (applied_cursor reader now (md cur)))
                           (sql_update (\<lambda>r. r_scope r = INBOX_SCOPE \<and> r_key r \<in> set ids \<and> \<not> jexists (read_by r) reader)
                              (mark_read reader) t))"

section \<open>Continuity\<close>

datatype claim_note =
    LaneReserved string
  | RootReserved string
  | LaneRefused string
  | RootRefused string
  | Displaced string
  | RuntimeUnavailable string
  | InheritedMail string
  | PreferredParked string skip_reason string

record claim_result =
  cr_seat :: string
  cr_is_new :: bool
  cr_reclaimed_from :: json
  cr_warning :: "claim_note list"
  cr_renamed_from :: "string option"

definition still :: "string \<Rightarrow> claim_note list \<Rightarrow> claim_result" where
  "still seat notes =
     \<lparr>cr_seat = seat, cr_is_new = False, cr_reclaimed_from = JNull, cr_warning = notes, cr_renamed_from = None\<rparr>"

definition nonce_of :: "seat_req \<Rightarrow> string option" where
  "nonce_of c = Option.bind (sr_nonce c) or_none"

definition seat_name :: "row \<Rightarrow> string" where
  "seat_name r = removeprefix ''seat/'' (r_key r)"

definition held_rows :: "settings \<Rightarrow> string \<Rightarrow> string \<Rightarrow> table \<Rightarrow> row list" where
  "held_rows cfg project session_key t =
     filter (\<lambda>r. seat_row cfg r \<and> r_project r = Some project \<and> jget_text (md r) ''session_key'' = Some session_key) t"

definition seat_rank :: "string \<Rightarrow> row \<Rightarrow> nat \<times> nat \<times> string" where
  "seat_rank base r = (if jtruthy (jval (md r) ''runtime'') then 0 else 1, seat_ordinal (seat_name r) base, r_key r)"

definition in_order :: "string \<Rightarrow> row list \<Rightarrow> row list" where
  "in_order base rows = sort_key (seat_rank base) rows"

definition own_rows :: "seat_req \<Rightarrow> row list \<Rightarrow> row list" where
  "own_rows c rows =
     (case nonce_of c of None \<Rightarrow> [] | Some n \<Rightarrow> filter (\<lambda>r. jget_str (md r) ''session_nonce'' = Some n) rows)"

definition held_row :: "seat_req \<Rightarrow> row list \<Rightarrow> row" where
  "held_row c rows = (case own_rows c rows of [] \<Rightarrow> hd rows | r # _ \<Rightarrow> r)"

definition held_nonce :: "row \<Rightarrow> string option" where
  "held_nonce r = Option.bind (jget_str (md r) ''session_nonce'') or_none"

definition same_process :: "seat_req \<Rightarrow> row list \<Rightarrow> bool" where
  "same_process c rows \<longleftrightarrow>
     own_rows c rows \<noteq> [] \<or> nonce_of c = None \<or> held_nonce (held_row c rows) = None \<or>
     held_nonce (held_row c rows) = nonce_of c"

definition door_closed :: "seat_req \<Rightarrow> row list \<Rightarrow> bool" where
  "door_closed c rows =
     (case nonce_of c of None \<Rightarrow> False
      | Some n \<Rightarrow> own_rows c rows = [] \<and> n \<in> set (superseded_from_seat (md (held_row c rows))))"

definition displaced_now :: "seat_req \<Rightarrow> row list \<Rightarrow> string list" where
  "displaced_now c rows =
     superseded_from_seat (md (held_row c rows)) @
     (if same_process c rows then [] else case held_nonce (held_row c rows) of None \<Rightarrow> [] | Some n \<Rightarrow> [n])"

definition delete_seat :: "settings \<Rightarrow> string \<Rightarrow> string \<Rightarrow> table \<Rightarrow> table" where
  "delete_seat cfg project key t = sql_delete (\<lambda>r. seat_row cfg r \<and> r_project r = Some project \<and> r_key r = key) t"

text \<open>The move of a registration to a name chosen at run time: whether it moved, and the table.\<close>

definition try_move :: "settings \<Rightarrow> seat_req \<Rightarrow> string \<Rightarrow> string \<Rightarrow> string \<Rightarrow> row list \<Rightarrow> instant \<Rightarrow> table \<Rightarrow> bool \<times> table" where
  "try_move cfg c project provider name rows now t =
     (let meta = seat_meta (sr_session_key c) (sr_nonce c) provider (sr_host c) (displaced_now c rows) True (Some name) now
      in case try_insert cfg name project meta now t of
           (True, t') \<Rightarrow> (True, t')
         | (False, _) \<Rightarrow>
             (case fetchrow (seat_at cfg project name) t of
                None \<Rightarrow> (False, t)
              | Some other \<Rightarrow>
                  if jget_str (md other) ''session_key'' = Some (sr_session_key c)
                  then (True, sql_update (seat_at cfg project name) (rewatch meta now) t)
                  else (False, t)))"

definition refreshed_meta :: "seat_req \<Rightarrow> string \<Rightarrow> string \<Rightarrow> string option \<Rightarrow> row list \<Rightarrow> instant \<Rightarrow> jobj" where
  "refreshed_meta c base provider preferred rows now =
     (let held = held_row c rows; seat = seat_name held
      in seat_meta (sr_session_key c) (sr_nonce c) provider (sr_host c) (displaced_now c rows)
           (jtruthy (jval (md held) ''runtime'') \<or> (sr_runtime c \<and> preferred = Some seat))
           (case Option.bind (jget_str (md held) ''preferred_seat'') or_none of
              Some p \<Rightarrow> Some p
            | None \<Rightarrow> if preferred \<noteq> Some base then preferred else None) now)"

definition drop_duplicate :: "settings \<Rightarrow> seat_req \<Rightarrow> string \<Rightarrow> row \<Rightarrow> row \<Rightarrow> table \<Rightarrow> table" where
  "drop_duplicate cfg c project held r t =
     (if r_key r = r_key held \<or> jget_str (md r) ''session_nonce'' \<noteq> sr_nonce c \<or> address_holds_mail cfg (seat_name r) t
      then t else delete_seat cfg project (r_key r) t)"

definition refresh_seat ::
  "settings \<Rightarrow> seat_req \<Rightarrow> string \<Rightarrow> string \<Rightarrow> string option \<Rightarrow> claim_note list \<Rightarrow> row list \<Rightarrow> instant \<Rightarrow> table
     \<Rightarrow> claim_result \<times> table" where
  "refresh_seat cfg c project provider preferred notes rows now t =
     (let held = held_row c rows;
          t1 = sql_update (\<lambda>r. seat_row cfg r \<and> r_project r = Some project \<and> r_key r = r_key held)
                 (rewatch (refreshed_meta c (base_name project provider) provider preferred rows now) now) t
      in (still (seat_name held) notes, fold (drop_duplicate cfg c project held) rows t1))"

definition continue_claim ::
  "settings \<Rightarrow> seat_req \<Rightarrow> string \<Rightarrow> string \<Rightarrow> string option \<Rightarrow> claim_note list \<Rightarrow> row list \<Rightarrow> instant \<Rightarrow> table
     \<Rightarrow> claim_result \<times> table" where
  "continue_claim cfg c project provider preferred notes rows now t =
     (let held = held_row c rows; seat = seat_name held
      in case preferred of
           None \<Rightarrow> refresh_seat cfg c project provider preferred notes rows now t
         | Some name \<Rightarrow>
             if \<not> (sr_runtime c \<and> name \<noteq> seat \<and> same_process c rows)
             then refresh_seat cfg c project provider preferred notes rows now t
             else if is_reserved_lane cfg name project then (still seat [LaneRefused name], t)
             else if is_reserved_root cfg name project \<or> name \<in> set (fetch_known_roots cfg t)
             then (still seat [RootRefused name], t)
             else case try_move cfg c project provider name rows now t of
               (True, t') \<Rightarrow>
                 ((still name [])\<lparr>cr_renamed_from := Some seat\<rparr>,
                  if address_holds_mail cfg seat t' then t' else delete_seat cfg project (r_key held) t')
             | (False, t') \<Rightarrow>
                 refresh_seat cfg c project provider preferred [RuntimeUnavailable name] rows now t')"

section \<open>Allocation\<close>

record alloc_ctx =
  ac_project :: string
  ac_provider :: string
  ac_preferred :: "string option"
  ac_distinct :: "string option"
    \<comment> \<open>the preferred name unless it is the conventional one\<close>
  ac_known_roots :: "string list"
  ac_breathing :: "string list"

definition reserved_name :: "settings \<Rightarrow> alloc_ctx \<Rightarrow> string \<Rightarrow> bool" where
  "reserved_name cfg a seat \<longleftrightarrow>
     is_reserved_lane cfg seat (ac_project a) \<or> is_reserved_root cfg seat (ac_project a) \<or> seat \<in> set (ac_known_roots a)"

definition row_age :: "instant \<Rightarrow> row option \<Rightarrow> int option" where
  "row_age now row = map_option (\<lambda>r. now - r_last_used_at r) row"

text \<open>The facts a claim gathers about a candidate, and the ladder's decision on them.\<close>

definition candidate_decision :: "settings \<Rightarrow> alloc_ctx \<Rightarrow> instant \<Rightarrow> table \<Rightarrow> string \<Rightarrow> decision" where
  "candidate_decision cfg a now t seat =
     (let row = fetchrow (seat_at cfg (ac_project a) seat) t; age = row_age now row;
          mail = address_holds_mail cfg seat t;
          fresh = (case age of None \<Rightarrow> False
                   | Some x \<Rightarrow> seconds SEAT_GRACE_SECONDS \<le> x \<and> \<not> mail \<and> presence_is_fresh cfg seat (ac_project a) now t)
      in allocation_decision False False age mail fresh (map_option r_last_used_at row)
           (seat \<in> set (ac_breathing a)) (cert_is_for_this_occupant row))"

text \<open>A launch that names the seat of a holder that is gone gets the seat with its mail.\<close>

definition holder_gone :: "settings \<Rightarrow> alloc_ctx \<Rightarrow> instant \<Rightarrow> table \<Rightarrow> string \<Rightarrow> bool" where
  "holder_gone cfg a now t seat =
     (let row = fetchrow (seat_at cfg (ac_project a) seat) t
      in if cert_is_for_this_occupant row then True
         else if seat \<in> set (ac_breathing a) \<or> de_reason (candidate_decision cfg a now t seat) = Some LiveHolder then False
         else case row_age now row of
           None \<Rightarrow> True
         | Some x \<Rightarrow> seconds SEAT_GRACE_SECONDS \<le> x \<and> \<not> presence_is_fresh cfg seat (ac_project a) now t)"

definition succeeds :: "settings \<Rightarrow> seat_req \<Rightarrow> alloc_ctx \<Rightarrow> instant \<Rightarrow> table \<Rightarrow> string \<Rightarrow> bool" where
  "succeeds cfg c a now t seat \<longleftrightarrow>
     (let d = candidate_decision cfg a now t seat
      in de_would_skip d \<and> ac_distinct a = Some seat \<and> \<not> sr_runtime c \<and>
         de_reason d \<in> set [Some MailParked, Some GraceWindow, Some LiveHolder] \<and> holder_gone cfg a now t seat)"

definition with_park_warning ::
  "claim_note list \<Rightarrow> string option \<Rightarrow> string \<Rightarrow> skip_reason option \<Rightarrow> claim_note list" where
  "with_park_warning notes preferred granted parked =
     (case (preferred, parked) of
        (Some p, Some x) \<Rightarrow> if granted \<noteq> p then notes @ [PreferredParked p x granted] else notes
      | _ \<Rightarrow> notes)"

definition granted_meta :: "seat_req \<Rightarrow> alloc_ctx \<Rightarrow> string \<Rightarrow> instant \<Rightarrow> jobj" where
  "granted_meta c a seat now =
     seat_meta (sr_session_key c) (sr_nonce c) (ac_provider a) (sr_host c) []
       (sr_runtime c \<and> ac_preferred a = Some seat) (ac_distinct a) now"

definition grant ::
  "seat_req \<Rightarrow> alloc_ctx \<Rightarrow> string \<Rightarrow> json \<Rightarrow> claim_note list \<Rightarrow> skip_reason option \<Rightarrow> claim_result" where
  "grant c a seat prior notes parked =
     \<lparr>cr_seat = seat, cr_is_new = True, cr_reclaimed_from = prior,
      cr_warning = with_park_warning notes (ac_distinct a) seat parked, cr_renamed_from = None\<rparr>"

definition takeover_cutoff :: "row \<Rightarrow> instant \<Rightarrow> instant" where
  "takeover_cutoff r now = (if cert_is_for_this_occupant (Some r) then now else now - seconds SEAT_LIVE_SECONDS)"

fun allocate ::
  "settings \<Rightarrow> seat_req \<Rightarrow> alloc_ctx \<Rightarrow> instant \<Rightarrow> table \<Rightarrow> string list \<Rightarrow> claim_note list \<Rightarrow> skip_reason option
     \<Rightarrow> claim_result res \<times> table" where
  "allocate cfg c a now t [] notes parked = (Inl ValueError, t)"
| "allocate cfg c a now t (seat # rest) notes parked =
     (if reserved_name cfg a seat
      then allocate cfg c a now t rest notes
             (if ac_distinct a = Some seat
              then Some (if is_reserved_lane cfg seat (ac_project a) then ReservedLane else ReservedRoot) else parked)
      else
        let d = candidate_decision cfg a now t seat;
            s = succeeds cfg c a now t seat;
            notes' = (if s then notes @ [InheritedMail seat] else notes);
            meta = granted_meta c a seat now;
            inherit = apply_lane_inheritance cfg seat (ac_project a) (ac_provider a) (sr_host c) (sr_session_key c) now
        in if de_would_skip d \<and> \<not> s
           then allocate cfg c a now t rest notes' (if ac_distinct a = Some seat then de_reason d else parked)
           else case fetchrow (seat_at cfg (ac_project a) seat) t of
             None \<Rightarrow>
               (case try_insert cfg seat (ac_project a) meta now t of
                  (True, t') \<Rightarrow> (Inr (grant c a seat JNull notes' parked), inherit t')
                | (False, t') \<Rightarrow> allocate cfg c a now t' rest notes' parked)
           | Some r \<Rightarrow>
               (case try_takeover cfg seat (ac_project a) meta (takeover_cutoff r now) now t of
                  (True, t') \<Rightarrow> (Inr (grant c a seat (jval (md r) ''session_key'') notes' parked), inherit t')
                | (False, t') \<Rightarrow> allocate cfg c a now t' rest notes' parked))"

definition alloc_context ::
  "settings \<Rightarrow> seat_req \<Rightarrow> string \<Rightarrow> string \<Rightarrow> string option \<Rightarrow> instant \<Rightarrow> table \<Rightarrow> alloc_ctx" where
  "alloc_context cfg c project provider preferred now t =
     \<lparr>ac_project = project, ac_provider = provider, ac_preferred = preferred,
      ac_distinct = (if preferred = Some (base_name project provider) then None else preferred),
      ac_known_roots = fetch_known_roots cfg t,
      ac_breathing = breathing_at cfg (seat_candidates project provider preferred) project (sr_nonce c) now t\<rparr>"

definition start_allocation ::
  "settings \<Rightarrow> seat_req \<Rightarrow> string \<Rightarrow> string \<Rightarrow> string option \<Rightarrow> claim_note list \<Rightarrow> instant \<Rightarrow> table
     \<Rightarrow> claim_result res \<times> table" where
  "start_allocation cfg c project provider preferred notes now t =
     allocate cfg c (alloc_context cfg c project provider preferred now t) now t
       (seat_candidates project provider preferred) notes None"

section \<open>The claim\<close>

text \<open>A preference for a reserved name is dropped with a notice, unless it is a rename.\<close>

definition admitted_preference :: "settings \<Rightarrow> seat_req \<Rightarrow> string \<Rightarrow> string option \<times> claim_note list" where
  "admitted_preference cfg c project =
     (case or_none (norm (sr_preferred c)) of
        None \<Rightarrow> (None, [])
      | Some p \<Rightarrow>
          if sr_runtime c then (Some p, [])
          else if is_reserved_lane cfg p project then (None, [LaneReserved p])
          else if is_reserved_root cfg p project then (None, [RootReserved p])
          else (Some p, []))"

definition provider_of :: "seat_req \<Rightarrow> string" where
  "provider_of c = norm (case Option.bind (sr_provider c) or_none of None \<Rightarrow> Some ''claude'' | Some p \<Rightarrow> Some p)"

definition seat_claim :: "settings \<Rightarrow> seat_req \<Rightarrow> instant \<Rightarrow> table \<Rightarrow> claim_result res \<times> table" where
  "seat_claim cfg c now t =
     (let project = norm (sr_project c); provider = provider_of c; wish = or_none (norm (sr_preferred c))
      in if list_ex (\<lambda>x. wish = Some x) SEAT_EXEMPT_IDENTITIES \<or> project \<in> set SEAT_EXEMPT_IDENTITIES
         then (Inr (still (case wish of None \<Rightarrow> project | Some p \<Rightarrow> p) []), t)
         else case admitted_preference cfg c project of
           (preferred, notes) \<Rightarrow>
             let t0 = register_project cfg project now t;
                 rows = in_order (base_name project provider) (held_rows cfg project (sr_session_key c) t0)
             in if rows = [] then start_allocation cfg c project provider preferred notes now t0
                else if door_closed c rows
                then start_allocation cfg c project provider preferred [Displaced (seat_name (held_row c rows))] now t0
                else (case continue_claim cfg c project provider preferred notes rows now t0 of
                        (r, t') \<Rightarrow> (Inr r, t')))"

section \<open>Death certificates\<close>

record death_req =
  dr_session_key :: string
  dr_seat :: string
  dr_lane :: string
  dr_project :: "string option"
  dr_provider :: string
  dr_host :: string
  dr_died_at :: instant
  dr_cause :: string
  dr_graceful :: "bool option"
  dr_certified_by :: "string option"
  dr_nonce :: "string option"

definition cert_nonce :: "death_req \<Rightarrow> string option" where
  "cert_nonce q = or_none (py_strip (or_empty (dr_nonce q)))"

definition cert_idem :: "death_req \<Rightarrow> string" where
  "cert_idem q = (if dr_session_key q \<noteq> '''' then dr_session_key q else dr_seat q @ ''|'' @ isoformat (dr_died_at q))"

definition cert_meta :: "death_req \<Rightarrow> instant \<Rightarrow> jobj" where
  "cert_meta q now =
     [(''kind'', JStr ''death''), (''session_key'', JStr (dr_session_key q)), (''seat'', JStr (dr_seat q)),
      (''lane'', JStr (dr_lane q)), (''provider'', JStr (dr_provider q)), (''host'', JStr (dr_host q)),
      (''died_at'', JTime (dr_died_at q)), (''cause'', JStr (dr_cause q)),
      (''graceful'', case dr_graceful q of None \<Rightarrow> JNull | Some b \<Rightarrow> JBool b),
      (''certified_by'', jopt (dr_certified_by q)), (''session_nonce'', jopt (cert_nonce q)),
      (''received_at'', JTime now)]"

definition new_cert :: "settings \<Rightarrow> string \<Rightarrow> death_req \<Rightarrow> instant \<Rightarrow> row" where
  "new_cert cfg project q now =
     (new_row (cfg_primary_namespace cfg) (''death/'' @ cert_idem q) (cert_idem q) DEATH_SCOPE SEAT_USER_ID (Some project) now)
     \<lparr>r_search_text := cert_idem q, r_metadata := Some (cert_meta q now)\<rparr>"

definition recert :: "row \<Rightarrow> row \<Rightarrow> row" where
  "recert x r = r\<lparr>r_metadata := r_metadata x, r_value := r_value x\<rparr>"

text \<open>\<^verbatim>\<open>DO UPDATE ... WHERE stored.died_at < excluded.died_at\<close>: created, updated, and the table.\<close>

definition record_cert :: "row \<Rightarrow> instant \<Rightarrow> table \<Rightarrow> bool \<times> bool \<times> table" where
  "record_cert x died t =
     (case row_at (ukey_of x) t of
        None \<Rightarrow> (True, False, t @ [x\<lparr>r_id := next_id t\<rparr>])
      | Some r \<Rightarrow>
          (case jget_time (md r) ''died_at'' of
             None \<Rightarrow> (False, False, t)
           | Some d \<Rightarrow> if d < died then (False, True, sql_update (\<lambda>s. ukey_of s = ukey_of x) (recert x) t)
                       else (False, False, t)))"

definition cert_stamp :: "death_req \<Rightarrow> row \<Rightarrow> row" where
  "cert_stamp q r =
     (case r_metadata r of None \<Rightarrow> r
      | Some _ \<Rightarrow> stamp_md [(''death_certified'', JBool True), (''death_certified_at'', JTime (dr_died_at q)),
                            (''death_certified_nonce'', jopt (cert_nonce q))] r)"

definition harvested :: "death_req \<Rightarrow> table \<Rightarrow> string list" where
  "harvested q t =
     map r_key (filter (\<lambda>r. r_scope r = INBOX_SCOPE \<and> r_user_id r \<noteq> dr_seat q \<and> \<not> startswith (r_user_id r) ''machine:'' \<and>
       (if dr_host q \<noteq> '''' then jexists (read_by r) (dr_seat q @ ''@'' @ dr_host q)
        else list_ex (\<lambda>x. sql_like x (dr_seat q @ ''@%'')) (elements_text (Some (read_by r))))) t)"

definition new_cursor :: "settings \<Rightarrow> string \<Rightarrow> death_req \<Rightarrow> string list \<Rightarrow> instant \<Rightarrow> row" where
  "new_cursor cfg project q ids now =
     (new_row (cfg_primary_namespace cfg) (''cursor/'' @ dr_lane q) (dr_lane q) LANE_CURSOR_SCOPE SEAT_USER_ID (Some project) now)
     \<lparr>r_search_text := dr_lane q,
      r_metadata := Some [(''kind'', JStr ''lane_cursor''), (''ids'', JArr (map JStr ids)), (''updated_at'', JTime now),
                          (''last_cert'', JStr (''death/'' @ cert_idem q)), (''applied'', JArr [])]\<rparr>"

definition feed_cursor :: "settings \<Rightarrow> string \<Rightarrow> death_req \<Rightarrow> instant \<Rightarrow> table \<Rightarrow> nat \<times> table" where
  "feed_cursor cfg project q now t =
     (let here = cursor_at cfg project (dr_lane q); ids = harvested q t
      in case fetchrow here t of
           None \<Rightarrow>
             (let merged = sorted_set ids
              in (length merged, snd (insert_do_update (\<lambda>x r. r\<lparr>r_metadata := r_metadata x\<rparr>) (new_cursor cfg project q merged now) t)))
         | Some cur \<Rightarrow>
             (let merged = sorted_set (cursor_ids (md cur) @ ids)
              in (length merged,
                  sql_update here (set_md (jput ''last_cert'' (JStr (''death/'' @ cert_idem q))
                    (jput ''updated_at'' (JTime now) (jput ''ids'' (JArr (map JStr merged)) (md cur))))) t)))"

record death_result =
  dt_created :: bool
  dt_updated :: bool
  dt_cursor_updated :: bool
  dt_cursor_size :: nat

definition death_certify :: "settings \<Rightarrow> death_req \<Rightarrow> instant \<Rightarrow> table \<Rightarrow> death_result \<times> table" where
  "death_certify cfg q now t =
     (let project = norm (dr_project q)
      in case record_cert (new_cert cfg project q now) (dr_died_at q) t of
           (created, updated, t1) \<Rightarrow>
             let t2 = (if dr_seat q = '''' then t1 else sql_update (seat_at cfg project (dr_seat q)) (cert_stamp q) t1)
             in if dr_lane q \<noteq> '''' \<and> dr_seat q \<noteq> ''''
                then case feed_cursor cfg project q now t2 of
                       (n, t3) \<Rightarrow> (\<lparr>dt_created = created, dt_updated = updated, dt_cursor_updated = True, dt_cursor_size = n\<rparr>, t3)
                else (\<lparr>dt_created = created, dt_updated = updated, dt_cursor_updated = False, dt_cursor_size = 0\<rparr>, t2))"

section \<open>Release\<close>

definition RELEASE_EVIDENCE :: "string list" where
  "RELEASE_EVIDENCE = [''performed'', ''observed'', ''inferred'']"

definition certain_release :: "string option \<Rightarrow> bool" where
  "certain_release evidence =
     (case or_none (norm evidence) of
        None \<Rightarrow> True
      | Some e \<Rightarrow> e \<in> set RELEASE_EVIDENCE \<and> e \<noteq> ''inferred'')"

definition attributable :: "string \<Rightarrow> row \<Rightarrow> bool" where
  "attributable nonce r \<longleftrightarrow>
     ((case jget (md r) ''sessions'' of None \<Rightarrow> False | Some j \<Rightarrow> jexists j nonce) \<or>
      jget_text (md r) ''session_nonce'' = Some nonce) \<and>
     (jget_text (md r) ''session_nonce'' = None \<or> jget_text (md r) ''session_nonce'' = Some nonce) \<and>
     list_all (\<lambda>e. fst e = nonce) (jget_obj (md r) ''sessions'')"

definition released_mark :: "instant \<Rightarrow> row \<Rightarrow> row" where
  "released_mark now r = set_md (jput ''released_at'' (JTime now) (md r)) r"

definition stamp_presence_released :: "settings \<Rightarrow> string \<Rightarrow> string \<Rightarrow> string option \<Rightarrow> instant \<Rightarrow> table \<Rightarrow> table" where
  "stamp_presence_released cfg seat project nonce now t =
     (if list_ex (seat_at cfg project seat) t then t
      else sql_update (\<lambda>r. presence_at cfg project seat r \<and> (case nonce of None \<Rightarrow> True | Some n \<Rightarrow> attributable n r))
             (released_mark now) t)"

definition releases :: "settings \<Rightarrow> string \<Rightarrow> string \<Rightarrow> string option \<Rightarrow> row \<Rightarrow> bool" where
  "releases cfg project session_key nonce r \<longleftrightarrow>
     seat_row cfg r \<and> r_project r = Some project \<and> jget_text (md r) ''session_key'' = Some session_key \<and>
     (case nonce of None \<Rightarrow> True | Some n \<Rightarrow> jget_text (md r) ''session_nonce'' = Some n)"

definition seat_release ::
  "settings \<Rightarrow> string \<Rightarrow> string option \<Rightarrow> string option \<Rightarrow> string option \<Rightarrow> instant \<Rightarrow> table \<Rightarrow> string option \<times> table" where
  "seat_release cfg session_key project0 evidence nonce0 now t =
     (let project = norm project0; nonce = or_none (py_strip (or_empty nonce0));
          hit = releases cfg project session_key nonce
      in case fetchrow hit t of
           None \<Rightarrow> (None, t)
         | Some r \<Rightarrow>
             (let t' = sql_delete hit t
              in (Some (seat_name r),
                  if certain_release evidence then stamp_presence_released cfg (seat_name r) project nonce now t' else t')))"

end
