(* ===== verification/Seat_Claims.thy ===== *)
theory Seat_Claims
  imports Seats
begin

text \<open>
  What a claim of a seat guarantees: where a granted seat comes from, what a claim leaves alone,
  that mail waits for its addressee, how a claim can fail, the one-way door for displaced
  processes, and the upkeep of the table's invariant by claims, certificates and releases.
\<close>

section \<open>Where a granted seat comes from\<close>

definition inherit :: "settings \<Rightarrow> seat_req \<Rightarrow> alloc_ctx \<Rightarrow> string \<Rightarrow> instant \<Rightarrow> table \<Rightarrow> table" where
  "inherit cfg c a seat now =
     apply_lane_inheritance cfg seat (ac_project a) (ac_provider a) (sr_host c) (sr_session_key c) now"

lemma try_insert_cases:
  "try_insert cfg seat project meta now t =
     (if fetchrow (seat_at cfg project seat) t = None
      then (True, t @ [(new_seat cfg seat project meta now)\<lparr>r_id := next_id t\<rparr>]) else (False, t))"
proof -
  have "row_at (ukey_of (new_seat cfg seat project meta now)) t = None \<longleftrightarrow> fetchrow (seat_at cfg project seat) t = None"
    by (auto simp: row_at_None fetchrow_None seat_at_def seat_row_def ukey_of_def new_seat_def new_row_def image_iff)
  then show ?thesis by (auto simp: try_insert_def insert_do_nothing_def split: option.split)
qed

lemma try_takeover_miss: "\<not> fst (try_takeover cfg seat project meta older now t) \<Longrightarrow> snd (try_takeover cfg seat project meta older now t) = t"
  by (auto simp: try_takeover_def Let_def list_ex_iff intro: sql_update_none)

text \<open>A candidate that is neither reserved nor passed over.\<close>

definition grantable :: "settings \<Rightarrow> seat_req \<Rightarrow> alloc_ctx \<Rightarrow> instant \<Rightarrow> table \<Rightarrow> string \<Rightarrow> bool" where
  "grantable cfg c a now t seat \<longleftrightarrow>
     \<not> reserved_name cfg a seat \<and> (de_would_skip (candidate_decision cfg a now t seat) \<longrightarrow> succeeds cfg c a now t seat)"

definition takeable :: "settings \<Rightarrow> alloc_ctx \<Rightarrow> instant \<Rightarrow> table \<Rightarrow> string \<Rightarrow> bool" where
  "takeable cfg a now t seat =
     (case fetchrow (seat_at cfg (ac_project a) seat) t of None \<Rightarrow> True
      | Some r \<Rightarrow> list_ex (\<lambda>s. seat_at cfg (ac_project a) seat s \<and> r_last_used_at s < takeover_cutoff r now) t)"

definition granted_table :: "settings \<Rightarrow> seat_req \<Rightarrow> alloc_ctx \<Rightarrow> string \<Rightarrow> instant \<Rightarrow> table \<Rightarrow> table" where
  "granted_table cfg c a seat now t =
     (case fetchrow (seat_at cfg (ac_project a) seat) t of
        None \<Rightarrow> t @ [(new_seat cfg seat (ac_project a) (granted_meta c a seat now) now)\<lparr>r_id := next_id t\<rparr>]
      | Some r \<Rightarrow> sql_update (\<lambda>s. seat_at cfg (ac_project a) seat s \<and> r_last_used_at s < takeover_cutoff r now)
                   (rewatch (granted_meta c a seat now) now) t)"

lemma allocate_step:
  "allocate cfg c a now t (seat # rest) ws parked =
     (if grantable cfg c a now t seat \<and> takeable cfg a now t seat
      then (Inr (grant c a seat
              (case fetchrow (seat_at cfg (ac_project a) seat) t of None \<Rightarrow> JNull | Some r \<Rightarrow> jval (md r) ''session_key'')
              (if succeeds cfg c a now t seat then ws @ [InheritedMail seat] else ws) parked),
            inherit cfg c a seat now (granted_table cfg c a seat now t))
      else allocate cfg c a now t rest
        (if \<not> reserved_name cfg a seat \<and> succeeds cfg c a now t seat then ws @ [InheritedMail seat] else ws)
        (if reserved_name cfg a seat
         then if ac_distinct a = Some seat
              then Some (if is_reserved_lane cfg seat (ac_project a) then ReservedLane else ReservedRoot) else parked
         else if grantable cfg c a now t seat then parked
         else if ac_distinct a = Some seat then de_reason (candidate_decision cfg a now t seat) else parked))"
proof (cases "fetchrow (seat_at cfg (ac_project a) seat) t")
  case None
  then show ?thesis
    by (simp add: Let_def grantable_def takeable_def granted_table_def try_insert_cases inherit_def)
next
  case (Some r)
  have "fst (try_takeover cfg seat (ac_project a) (granted_meta c a seat now) (takeover_cutoff r now) now t) = takeable cfg a now t seat"
    by (simp add: try_takeover_def Let_def takeable_def Some)
  moreover have "snd (try_takeover cfg seat (ac_project a) (granted_meta c a seat now) (takeover_cutoff r now) now t) =
      (if takeable cfg a now t seat then granted_table cfg c a seat now t else t)"
    using try_takeover_miss calculation by (auto simp: try_takeover_def Let_def granted_table_def Some)
  ultimately show ?thesis using Some
    by (cases "try_takeover cfg seat (ac_project a) (granted_meta c a seat now) (takeover_cutoff r now) now t")
      (auto simp: Let_def grantable_def inherit_def)
qed

declare allocate.simps(2) [simp del]

lemma allocate_Inr:
  "allocate cfg c a now t seats ws parked = (Inr r, t') \<Longrightarrow>
   \<exists>seat ws' parked'. seat \<in> set seats \<and> grantable cfg c a now t seat \<and> takeable cfg a now t seat \<and>
     r = grant c a seat
           (case fetchrow (seat_at cfg (ac_project a) seat) t of None \<Rightarrow> JNull | Some w \<Rightarrow> jval (md w) ''session_key'')
           (if succeeds cfg c a now t seat then ws' @ [InheritedMail seat] else ws') parked' \<and>
     t' = inherit cfg c a seat now (granted_table cfg c a seat now t)"
proof (induction seats arbitrary: ws parked)
  case Nil
  then show ?case by simp
next
  case (Cons seat rest)
  show ?case
  proof (cases "grantable cfg c a now t seat \<and> takeable cfg a now t seat")
    case True
    with Cons.prems show ?thesis unfolding allocate_step if_P [OF True] prod.inject sum.inject
      by (intro exI [of _ seat] exI [of _ ws] exI [of _ parked]) (simp split: option.split)
  next
    case False
    with Cons.prems Cons.IH show ?thesis unfolding allocate_step if_not_P [OF False] by (meson list.set_intros(2))
  qed
qed

lemma allocate_Inl:
  "allocate cfg c a now t seats ws parked = (Inl e, t') \<longleftrightarrow>
   e = ValueError \<and> t' = t \<and> list_all (\<lambda>s. \<not> (grantable cfg c a now t s \<and> takeable cfg a now t s)) seats"
  by (induction seats arbitrary: ws parked) (auto simp: allocate_step)

section \<open>What a claim leaves alone\<close>

lemma keep_update: "w \<in> set t \<Longrightarrow> \<not> P w \<Longrightarrow> w \<in> set (sql_update P f t)"
  by (force simp: sql_update_def)

lemma keep_insert_update: "w \<in> set t \<Longrightarrow> ukey_of w \<noteq> ukey_of x \<Longrightarrow> w \<in> set (snd (insert_do_update upd x t))"
  by (auto simp: insert_do_update_def keep_update split: option.split)

lemma seat_row_scope: "seat_row cfg w \<Longrightarrow> r_scope w = SEAT_SCOPE"
  by (simp add: seat_row_def)

lemma scopes_differ [simp]:
  "INBOX_SCOPE \<noteq> SEAT_SCOPE" "LANE_CURSOR_SCOPE \<noteq> SEAT_SCOPE" "PROJECT_REGISTRY_SCOPE \<noteq> SEAT_SCOPE"
  "PRESENCE_SCOPE \<noteq> SEAT_SCOPE" "DEATH_SCOPE \<noteq> SEAT_SCOPE"
  by (simp_all add: INBOX_SCOPE_def LANE_CURSOR_SCOPE_def PROJECT_REGISTRY_SCOPE_def PRESENCE_SCOPE_def DEATH_SCOPE_def SEAT_SCOPE_def)

lemma keep_register: "w \<in> set t \<Longrightarrow> seat_row cfg w \<Longrightarrow> w \<in> set (register_project cfg p now t)"
  unfolding register_project_def
  by (rule keep_insert_update) (auto simp: ukey_of_def new_row_def seat_row_def PROJECT_REGISTRY_SCOPE_def SEAT_SCOPE_def)

lemma keep_inherit: "w \<in> set t \<Longrightarrow> seat_row cfg w \<Longrightarrow> w \<in> set (apply_lane_inheritance cfg seat project provider host key now t)"
  by (auto simp: apply_lane_inheritance_def Let_def cursor_at_def seat_row_def LANE_CURSOR_SCOPE_def INBOX_SCOPE_def SEAT_SCOPE_def
        intro!: keep_update split: option.split)

lemma seat_at_same:
  assumes "presence_ok cfg t" and "r \<in> set t" "s \<in> set t" and "seat_row cfg r" "r_project r = Some p" "r_key r = k"
    and "seat_row cfg s" "r_project s = Some p" "r_key s = k"
  shows "r = s"
proof -
  have "ukey_of r = ukey_of s" using assms(4-) by (simp add: ukey_of_def seat_row_def)
  with assms(1-3) show ?thesis by (auto simp: presence_ok_def table_ok_def intro: distinct_map_inj)
qed

text \<open>Another session's row at a seat, live and not certified dead.\<close>

definition lives_at :: "settings \<Rightarrow> seat_req \<Rightarrow> string \<Rightarrow> instant \<Rightarrow> row \<Rightarrow> bool" where
  "lives_at cfg c seat now w \<longleftrightarrow>
     seat_at cfg (norm (sr_project c)) seat w \<and> jget_text (md w) ''session_key'' \<noteq> Some (sr_session_key c) \<and>
     now - r_last_used_at w < seconds SEAT_LIVE_SECONDS \<and> \<not> cert_is_for_this_occupant (Some w)"

lemma live_row_decision:
  assumes "fetchrow (seat_at cfg (ac_project a) seat) t = Some w"
    and "now - r_last_used_at w < seconds SEAT_LIVE_SECONDS" and "\<not> cert_is_for_this_occupant (Some w)"
  shows "candidate_decision cfg a now t seat = skipped LiveHolder" "\<not> grantable cfg c a now t seat"
proof -
  show d: "candidate_decision cfg a now t seat = skipped LiveHolder"
    using assms by (simp add: candidate_decision_def Let_def row_age_def allocation_decision_def)
  show "\<not> grantable cfg c a now t seat"
    using assms by (simp add: grantable_def succeeds_def holder_gone_def Let_def d skipped_def)
qed

lemma seat_at_other: "seat_at cfg p s r \<Longrightarrow> seat_at cfg p s' r \<longleftrightarrow> s' = s"
  by (auto simp: seat_at_def)

lemma keep_granted:
  assumes "w \<in> set t" and "seat_at cfg (ac_project a) x w" and "seat \<noteq> x"
  shows "w \<in> set (inherit cfg c a seat now (granted_table cfg c a seat now t))"
proof -
  have "seat_row cfg w" using assms(2) by (simp add: seat_at_def)
  moreover have "w \<in> set (granted_table cfg c a seat now t)"
    using assms seat_at_other [OF assms(2)]
    by (auto simp: granted_table_def intro!: keep_update split: option.split)
  ultimately show ?thesis unfolding inherit_def by (intro keep_inherit)
qed

lemma start_allocation_spares:
  assumes "presence_ok cfg t" and "w \<in> set t" and "seat_at cfg project x w"
    and "now - r_last_used_at w < seconds SEAT_LIVE_SECONDS" and "\<not> cert_is_for_this_occupant (Some w)"
    and "start_allocation cfg c project provider preferred ws now t = (res, t')"
  shows "w \<in> set t' \<and> (case res of Inl _ \<Rightarrow> True | Inr r \<Rightarrow> cr_seat r \<noteq> x)"
proof -
  have f: "fetchrow (seat_at cfg project x) t = Some w"
    using assms(2,3) seat_at_unique [OF assms(1) _ _ assms(2,3)] by (intro fetchrow_is) blast+
  define a where "a = alloc_context cfg c project provider preferred now t"
  have a: "ac_project a = project" by (simp add: a_def alloc_context_def)
  have al: "allocate cfg c a now t (seat_candidates project provider preferred) ws None = (res, t')"
    using assms(6) by (simp add: start_allocation_def a_def)
  have ng: "\<not> grantable cfg c a now t x" using live_row_decision(2) [of cfg a x t w now c] f assms(4,5) a by simp
  show ?thesis
  proof (cases res)
    case (Inl e)
    then show ?thesis using al assms(2) by (simp add: allocate_Inl)
  next
    case (Inr r)
    then obtain seat ws' parked where s: "grantable cfg c a now t seat" "t' = inherit cfg c a seat now (granted_table cfg c a seat now t)"
      "cr_seat r = seat"
      using allocate_Inr [OF al [unfolded Inr]] by (auto simp: grant_def)
    then have "seat \<noteq> x" using ng by blast
    with s Inr keep_granted [of w t cfg a x] assms(2,3) a show ?thesis by simp
  qed
qed
lemma register_project_ok: "presence_ok cfg t \<Longrightarrow> presence_ok cfg (register_project cfg p now t)"
proof -
  assume ok: "presence_ok cfg t"
  let ?x = "(new_row (cfg_primary_namespace cfg) (''project/'' @ p) ''project-root'' PROJECT_REGISTRY_SCOPE
           SEAT_USER_ID (Some p) now)\<lparr>r_metadata := Some [(''kind'', JStr ''project-root'')]\<rparr>"
  have x: "ukey_of ?x = (cfg_primary_namespace cfg, ''project/'' @ p, PROJECT_REGISTRY_SCOPE, SEAT_USER_ID, Some p)"
    by (simp add: ukey_of_def new_row_def)
  show ?thesis
  proof (cases "row_at (ukey_of ?x) t")
    case None
    then have "table_ok (t @ [?x\<lparr>r_id := next_id t\<rparr>])" using ok by (intro table_ok_append) (simp_all add: presence_ok_def)
    with None ok x show ?thesis
      by (simp add: register_project_def insert_do_update_def presence_ok_key PROJECT_REGISTRY_SCOPE_def PRESENCE_SCOPE_def SEAT_SCOPE_def)
  next
    case (Some r)
    then show ?thesis using ok by (simp add: register_project_def insert_do_update_def touching.presence_ok_update)
  qed
qed

lemma held_row_in: "rows \<noteq> [] \<Longrightarrow> held_row c rows \<in> set rows"
  by (auto simp: held_row_def own_rows_def split: list.split option.splits dest!: arg_cong [where f = set])

lemma in_order_set [simp]: "set (in_order b rows) = set rows"
  by (simp add: in_order_def)

lemma keep_delete_seat:
  "w \<in> set t \<Longrightarrow> r_key w \<noteq> k \<Longrightarrow> w \<in> set (delete_seat cfg p k t)"
  by (simp add: delete_seat_def)

lemma keep_drops:
  assumes "w \<in> set t" and "\<And>r. r \<in> set rows \<Longrightarrow> r_key w \<noteq> r_key r"
  shows "w \<in> set (fold (drop_duplicate cfg c p held) rows t)"
  using assms
proof (induction rows arbitrary: t)
  case (Cons r rows)
  have "w \<in> set (drop_duplicate cfg c p held r t)"
    using Cons.prems(1) Cons.prems(2) [of r] by (simp add: drop_duplicate_def keep_delete_seat)
  then show ?case using Cons.IH Cons.prems(2) by simp
qed simp

lemma keep_refresh:
  assumes "w \<in> set t" and "rows \<noteq> []" and "\<And>r. r \<in> set rows \<Longrightarrow> r_key w \<noteq> r_key r"
  shows "w \<in> set (snd (refresh_seat cfg c p pv pf ws rows now t))"
  unfolding refresh_seat_def Let_def snd_conv
  using assms held_row_in [OF assms(2)] by (intro keep_drops keep_update) auto

lemma jget_str_text: "jget_str m k = Some s \<Longrightarrow> jget_text m k = Some s"
  by (auto simp: jget_str_def jget_text_def split: option.splits json.splits)

definition move_meta :: "seat_req \<Rightarrow> string \<Rightarrow> string \<Rightarrow> row list \<Rightarrow> instant \<Rightarrow> jobj" where
  "move_meta c provider name rows now =
     seat_meta (sr_session_key c) (sr_nonce c) provider (sr_host c) (displaced_now c rows) True (Some name) now"

lemma try_move_cases:
  "try_move cfg c p pv name rows now t =
     (case fetchrow (seat_at cfg p name) t of
        None \<Rightarrow> (True, t @ [(new_seat cfg name p (move_meta c pv name rows now) now)\<lparr>r_id := next_id t\<rparr>])
      | Some other \<Rightarrow>
          if jget_str (md other) ''session_key'' = Some (sr_session_key c)
          then (True, sql_update (seat_at cfg p name) (rewatch (move_meta c pv name rows now) now) t)
          else (False, t))"
  by (simp add: try_move_def Let_def try_insert_cases move_meta_def split: option.split)

lemma continue_spares:
  assumes "w \<in> set t" and "seat_at cfg p x w" and "rows \<noteq> []"
    and "jget_text (md w) ''session_key'' \<noteq> Some (sr_session_key c)"
    and "\<And>r. r \<in> set rows \<Longrightarrow> seat_at cfg p (seat_name r) r \<and> r_key w \<noteq> r_key r"
    and ok: "presence_ok cfg t"
    and "continue_claim cfg c p pv pf ws rows now t = (res, t')"
  shows "w \<in> set t' \<and> cr_seat res \<noteq> x"
proof -
  have kw: "r_key w = ''seat/'' @ x" using assms(2) by (simp add: seat_at_def)
  have kh: "r_key (held_row c rows) = ''seat/'' @ seat_name (held_row c rows)"
    using assms(5) [OF held_row_in [OF assms(3)], of c] by (simp add: seat_at_def)
  have "r_key w \<noteq> r_key (held_row c rows)" using assms(5) [OF held_row_in [OF assms(3)], of c] by blast
  then have hn: "seat_name (held_row c rows) \<noteq> x" "r_key w \<noteq> r_key (held_row c rows)" using kw kh by auto
  have f: "fetchrow (seat_at cfg p x) t = Some w"
    using assms(1,2) seat_at_unique [OF ok _ _ assms(1,2)] by (intro fetchrow_is) blast+
  have ref: "w \<in> set (snd (refresh_seat cfg c p pv pf v rows now t)) \<and> cr_seat (fst (refresh_seat cfg c p pv pf v rows now t)) \<noteq> x" for v
    using keep_refresh [OF assms(1,3)] assms(5) hn by (simp add: refresh_seat_def Let_def still_def)
  have mv: "name \<noteq> x \<and> w \<in> set u" if "try_move cfg c p pv name rows now t = (True, u)" for name u
  proof -
    have n: "name \<noteq> x"
      using that f assms(4) jget_str_text [of "md w" "''session_key''"] by (auto simp: try_move_cases split: if_splits)
    then have "\<not> seat_at cfg p name w" using seat_at_other [OF assms(2)] by blast
    with n that assms(1) show ?thesis
      by (auto simp: try_move_cases intro: keep_update split: if_splits option.splits)
  qed
  have nm: "u = t" if "try_move cfg c p pv name rows now t = (False, u)" for name u
    using that by (auto simp: try_move_cases split: if_splits option.splits)
  show ?thesis
  proof (cases "\<exists>name. pf = Some name \<and> sr_runtime c \<and> name \<noteq> seat_name (held_row c rows) \<and> same_process c rows")
    case False
    then have "continue_claim cfg c p pv pf ws rows now t = refresh_seat cfg c p pv pf ws rows now t"
      by (auto simp: continue_claim_def Let_def split: option.split)
    with assms(7) ref [of ws] show ?thesis by simp
  next
    case True
    then obtain name where pf: "pf = Some name" "sr_runtime c \<and> name \<noteq> seat_name (held_row c rows) \<and> same_process c rows" by blast
    obtain b u where bu: "try_move cfg c p pv name rows now t = (b, u)" by fastforce
    show ?thesis
    proof (cases b)
      case True
      with mv [of name u] bu have "name \<noteq> x" "w \<in> set u" by simp_all
      with assms(7) pf bu True hn assms(1) show ?thesis
        by (auto simp: continue_claim_def Let_def still_def keep_delete_seat split: if_splits)
    next
      case False
      with nm [of name u] bu have "u = t" by simp
      with assms(7) pf bu False hn assms(1) ref [of "[RuntimeUnavailable name]"] show ?thesis
        by (auto simp: continue_claim_def Let_def still_def split: if_splits)
    qed
  qed
qed


text \<open>The two ways a claim is answered: by allocation, or from the rows the session holds.\<close>

lemma seat_claim_cases:
  assumes "p = norm (sr_project c)" and "t0 = register_project cfg p now t"
    and "rows = in_order (base_name p (provider_of c)) (held_rows cfg p (sr_session_key c) t0)"
    and "p \<notin> set SEAT_EXEMPT_IDENTITIES" and "\<not> list_ex (\<lambda>y. or_none (norm (sr_preferred c)) = Some y) SEAT_EXEMPT_IDENTITIES"
  obtains (alloc) ws where "rows = [] \<or> door_closed c rows"
      "seat_claim cfg c now t = start_allocation cfg c p (provider_of c) (fst (admitted_preference cfg c p)) ws now t0"
  | (hold) r u where "rows \<noteq> []" "\<not> door_closed c rows" "seat_claim cfg c now t = (Inr r, u)"
      "continue_claim cfg c p (provider_of c) (fst (admitted_preference cfg c p)) (snd (admitted_preference cfg c p)) rows now t0 = (r, u)"
proof -
  obtain pf ws where pf: "admitted_preference cfg c p = (pf, ws)" by fastforce
  consider "rows = []" | "rows \<noteq> []" "door_closed c rows" | "rows \<noteq> []" "\<not> door_closed c rows" by blast
  then show thesis
  proof cases
    case 1
    then show ?thesis using assms pf by (intro alloc [of ws]) (simp_all add: seat_claim_def Let_def)
  next
    case 2
    then show ?thesis using assms pf
      by (intro alloc [of "[Displaced (seat_name (held_row c rows))]"]) (simp_all add: seat_claim_def Let_def)
  next
    case 3
    obtain r u where "continue_claim cfg c p (provider_of c) pf ws rows now t0 = (r, u)" by fastforce
    with 3 show ?thesis using assms pf by (intro hold [of r u]) (simp_all add: seat_claim_def Let_def)
  qed
qed

text \<open>C31. A seat another session holds, live and not certified dead, is never taken by a claim,
  whatever the claim asks for: the holder's row is in the table afterwards exactly as it was,
  and the claim does not answer with that seat.\<close>

theorem live_seat_is_never_taken:
  assumes "presence_ok cfg t" and "seat_claim cfg c now t = (res, t')"
    and "w \<in> set t" and "lives_at cfg c x now w"
    and "norm (sr_project c) \<notin> set SEAT_EXEMPT_IDENTITIES" and "x \<notin> set SEAT_EXEMPT_IDENTITIES"
  shows "w \<in> set t' \<and> (case res of Inl _ \<Rightarrow> True | Inr r \<Rightarrow> cr_seat r \<noteq> x)"
proof (cases "list_ex (\<lambda>y. or_none (norm (sr_preferred c)) = Some y) SEAT_EXEMPT_IDENTITIES")
  case True
  with assms(2,3,6) show ?thesis by (auto simp: seat_claim_def Let_def still_def list_ex_iff)
next
  case False
  let ?p = "norm (sr_project c)"
  let ?t0 = "register_project cfg ?p now t"
  let ?rows = "in_order (base_name ?p (provider_of c)) (held_rows cfg ?p (sr_session_key c) ?t0)"
  have w: "seat_at cfg ?p x w" "jget_text (md w) ''session_key'' \<noteq> Some (sr_session_key c)"
    "now - r_last_used_at w < seconds SEAT_LIVE_SECONDS" "\<not> cert_is_for_this_occupant (Some w)"
    using assms(4) by (simp_all add: lives_at_def)
  have w0: "w \<in> set ?t0" using assms(3) w(1) by (intro keep_register) (simp_all add: seat_at_def)
  have ok0: "presence_ok cfg ?t0" using assms(1) by (rule register_project_ok)
  from refl refl refl assms(5) False show ?thesis
  proof (cases rule: seat_claim_cases [where cfg = cfg and now = now and t = t])
    case (alloc ws)
    then have "start_allocation cfg c ?p (provider_of c) (fst (admitted_preference cfg c ?p)) ws now ?t0 = (res, t')"
      using assms(2) by simp
    then show ?thesis by (rule start_allocation_spares [OF ok0 w0 w(1,3,4)])
  next
    case (hold r u)
    have rows: "seat_at cfg ?p (seat_name s) s \<and> r_key w \<noteq> r_key s" if "s \<in> set ?rows" for s
    proof -
      have s: "s \<in> set ?t0" "seat_row cfg s" "r_project s = Some ?p" "jget_text (md s) ''session_key'' = Some (sr_session_key c)"
        using that by (auto simp: held_rows_def)
      have "r_key w \<noteq> r_key s"
        using seat_at_same [OF ok0 w0 s(1) _ _ _ s(2,3)] w(1,2) s(4) by (auto simp: seat_at_def)
      then show ?thesis using seat_at_iff [OF ok0 s(1)] s(2,3) by (simp add: seat_name_def)
    qed
    from continue_spares [OF w0 w(1) hold(1) w(2) rows ok0 hold(4)] hold(3) assms(2) show ?thesis by simp
  qed
qed

section \<open>Mail and failure\<close>

lemma holds_mail_register [simp]: "address_holds_mail cfg s (register_project cfg p now t) = address_holds_mail cfg s t"
proof -
  have ne: "PROJECT_REGISTRY_SCOPE \<noteq> INBOX_SCOPE" by (simp add: INBOX_SCOPE_def PROJECT_REGISTRY_SCOPE_def)
  let ?x = "(new_row (cfg_primary_namespace cfg) (''project/'' @ p) ''project-root'' PROJECT_REGISTRY_SCOPE
           SEAT_USER_ID (Some p) now)\<lparr>r_metadata := Some [(''kind'', JStr ''project-root'')]\<rparr>"
  have "filter (inbox_row cfg) (register_project cfg p now t) = filter (inbox_row cfg) t"
  proof (cases "row_at (ukey_of ?x) t")
    case None
    then show ?thesis using ne by (simp add: register_project_def insert_do_update_def inbox_row_def new_row_def)
  next
    case (Some r)
    have "filter (inbox_row cfg) (sql_update (\<lambda>s. ukey_of s = ukey_of ?x) (touch now) t) = filter (inbox_row cfg) t"
      using ne by (intro filter_update_outside) (auto simp: inbox_row_def ukey_of_def new_row_def)
    with Some show ?thesis unfolding register_project_def insert_do_update_def by simp
  qed
  then have "list_ex (\<lambda>r. inbox_row cfg r \<and> P r) (register_project cfg p now t) = list_ex (\<lambda>r. inbox_row cfg r \<and> P r) t" for P
    by (metis list_ex_filter)
  then show ?thesis by (simp add: address_holds_mail_def)
qed

lemma mail_is_skipped:
  "address_holds_mail cfg seat t \<Longrightarrow> de_would_skip (candidate_decision cfg a now t seat)"
  by (auto simp: candidate_decision_def Let_def allocation_decision_def skipped_def free_name_def split: option.split)

lemma with_park_warning_keeps: "x \<in> set ws \<Longrightarrow> x \<in> set (with_park_warning ws p g k)"
  by (simp add: with_park_warning_def split: option.split)

lemma still_simps [simp]:
  "cr_seat (still s ws) = s" "\<not> cr_is_new (still s ws)" "cr_warning (still s ws) = ws"
  by (simp_all add: still_def)

lemma continue_not_new: "continue_claim cfg c p pv pf ws rows now t = (r, u) \<Longrightarrow> \<not> cr_is_new r"
  by (auto simp: continue_claim_def refresh_seat_def Let_def split: option.splits if_splits prod.splits bool.splits)

lemma admitted_wish: "fst (admitted_preference cfg c p) = Some s \<Longrightarrow> or_none (norm (sr_preferred c)) = Some s"
  by (auto simp: admitted_preference_def split: option.splits if_splits)

text \<open>Unread mail waits for its addressee: a claim that is answered with a new seat holding
  unread mail is a launch that asked for that very seat by name, not a rename at run time, and
  its answer carries the notice that the mail was inherited.\<close>

theorem mail_waits_for_its_successor:
  assumes "seat_claim cfg c now t = (Inr r, t')" and "cr_is_new r" and "address_holds_mail cfg (cr_seat r) t"
  shows "or_none (norm (sr_preferred c)) = Some (cr_seat r) \<and> \<not> sr_runtime c \<and> InheritedMail (cr_seat r) \<in> set (cr_warning r)"
proof -
  let ?p = "norm (sr_project c)"
  have ne: "?p \<notin> set SEAT_EXEMPT_IDENTITIES" "\<not> list_ex (\<lambda>y. or_none (norm (sr_preferred c)) = Some y) SEAT_EXEMPT_IDENTITIES"
    using assms(1,2) by (auto simp: seat_claim_def Let_def split: if_splits)
  from refl refl refl ne show ?thesis
  proof (cases rule: seat_claim_cases [where cfg = cfg and now = now and t = t])
    case (alloc ws)
    let ?t0 = "register_project cfg ?p now t"
    let ?a = "alloc_context cfg c ?p (provider_of c) (fst (admitted_preference cfg c ?p)) now ?t0"
    have "allocate cfg c ?a now ?t0 (seat_candidates ?p (provider_of c) (fst (admitted_preference cfg c ?p))) ws None = (Inr r, t')"
      using alloc(2) assms(1) by (simp add: start_allocation_def)
    from allocate_Inr [OF this] obtain s ws' k g where s: "grantable cfg c ?a now ?t0 s"
      "r = grant c ?a s g (if succeeds cfg c ?a now ?t0 s then ws' @ [InheritedMail s] else ws') k" by blast
    then have rs: "cr_seat r = s" by (simp add: grant_def)
    have "de_would_skip (candidate_decision cfg ?a now ?t0 s)"
      using assms(3) by (intro mail_is_skipped) (simp add: rs)
    then have su: "succeeds cfg c ?a now ?t0 s" using s(1) by (simp add: grantable_def)
    then have "ac_distinct ?a = Some s" "\<not> sr_runtime c" by (simp_all add: succeeds_def Let_def)
    then have "fst (admitted_preference cfg c ?p) = Some s" "\<not> sr_runtime c"
      by (auto simp: alloc_context_def split: if_splits)
    moreover have "InheritedMail s \<in> set (cr_warning r)"
      using su by (simp add: s(2) grant_def with_park_warning_keeps)
    ultimately show ?thesis using admitted_wish rs by simp
  next
    case (hold r' u)
    then show ?thesis using continue_not_new assms(1,2) by simp
  qed
qed

definition unavailable :: "settings \<Rightarrow> seat_req \<Rightarrow> instant \<Rightarrow> table \<Rightarrow> string \<Rightarrow> bool" where
  "unavailable cfg c now t seat =
     (let p = norm (sr_project c);
          a = alloc_context cfg c p (provider_of c) (fst (admitted_preference cfg c p)) now t
      in \<not> (grantable cfg c a now t seat \<and> takeable cfg a now t seat))"

definition claim_candidates :: "settings \<Rightarrow> seat_req \<Rightarrow> string list" where
  "claim_candidates cfg c =
     seat_candidates (norm (sr_project c)) (provider_of c) (fst (admitted_preference cfg c (norm (sr_project c))))"

lemma candidates_bounded: "64 \<le> length (seat_candidates p pv pf)" "length (seat_candidates p pv pf) \<le> 65"
  by (auto simp: seat_candidates_def Let_def MAX_SEAT_ORDINAL_def split: option.split)

text \<open>C35. A claim fails only by the error that no seat is free, and then it has changed nothing
  but the register of projects, and every one of its candidates, of which there are 64 or 65,
  is reserved, passed over, or lost to a holder that is too young to be taken over.\<close>

theorem claim_fails_only_when_full:
  assumes "seat_claim cfg c now t = (Inl e, t')"
  shows "e = ValueError \<and> t' = register_project cfg (norm (sr_project c)) now t \<and>
    list_all (unavailable cfg c now t') (claim_candidates cfg c) \<and>
    64 \<le> length (claim_candidates cfg c) \<and> length (claim_candidates cfg c) \<le> 65"
proof -
  let ?p = "norm (sr_project c)"
  have ne: "?p \<notin> set SEAT_EXEMPT_IDENTITIES" "\<not> list_ex (\<lambda>y. or_none (norm (sr_preferred c)) = Some y) SEAT_EXEMPT_IDENTITIES"
    using assms(1) by (auto simp: seat_claim_def Let_def split: if_splits)
  from refl refl refl ne show ?thesis
  proof (cases rule: seat_claim_cases [where cfg = cfg and now = now and t = t])
    case (alloc ws)
    with assms show ?thesis
      by (auto simp: start_allocation_def allocate_Inl unavailable_def Let_def claim_candidates_def candidates_bounded list_all_iff)
  qed (use assms in simp)
qed

section \<open>The one-way door\<close>

lemma keep_own_drops:
  assumes "w \<in> set t" and "seat_row cfg w" "r_project w = Some p" and "jget_str (md w) ''session_nonce'' \<noteq> sr_nonce c"
    and "\<And>r. r \<in> set rows \<Longrightarrow> r_key r = r_key w \<Longrightarrow> r = w"
  shows "w \<in> set (fold (drop_duplicate cfg c p held) rows t)"
  using assms(1,5)
proof (induction rows arbitrary: t)
  case (Cons r rows)
  have "w \<in> set (drop_duplicate cfg c p held r t)"
  proof (cases "r_key r = r_key w")
    case True
    then have "r = w" using Cons.prems(2) [of r] by simp
    with Cons.prems(1) assms(4) show ?thesis by (simp add: drop_duplicate_def)
  next
    case False
    with Cons.prems(1) show ?thesis by (simp add: drop_duplicate_def keep_delete_seat)
  qed
  then show ?case using Cons.IH Cons.prems(2) by simp
qed simp

text \<open>The row of a session key at a seat, live, not certified, that has displaced the nonce.\<close>

definition displaced_from :: "settings \<Rightarrow> seat_req \<Rightarrow> string \<Rightarrow> instant \<Rightarrow> row \<Rightarrow> bool" where
  "displaced_from cfg c seat now w \<longleftrightarrow>
     seat_at cfg (norm (sr_project c)) seat w \<and>
     now - r_last_used_at w < seconds SEAT_LIVE_SECONDS \<and> \<not> cert_is_for_this_occupant (Some w) \<and>
     (case nonce_of c of None \<Rightarrow> False
      | Some n \<Rightarrow> n \<in> set (superseded_from_seat (md w)) \<and> jget_str (md w) ''session_nonce'' \<noteq> Some n)"

lemma refresh_spares_displaced:
  assumes ok: "presence_ok cfg t" and "rows = in_order b (held_rows cfg p (sr_session_key c) t)" and "rows \<noteq> []"
    and "\<not> door_closed c rows" and w: "w \<in> set t" "seat_at cfg p x w"
    and n: "nonce_of c = Some n" "n \<in> set (superseded_from_seat (md w))" "jget_str (md w) ''session_nonce'' \<noteq> Some n"
    and ref: "refresh_seat cfg c p pv pf ws rows now t = (r, u)"
  shows "w \<in> set u \<and> cr_seat r \<noteq> x"
proof -
  let ?h = "held_row c rows"
  have sn: "sr_nonce c = Some n" using n(1) by (auto simp: nonce_of_def or_none_def split: if_splits bind_splits)
  have sw: "seat_row cfg w" "r_project w = Some p" "r_key w = ''seat/'' @ x" using w(2) by (simp_all add: seat_at_def)
  have rows: "s \<in> set t \<and> seat_row cfg s \<and> r_project s = Some p" if "s \<in> set rows" for s
    using that by (auto simp: assms(2) held_rows_def)
  then have same: "s = w" if "s \<in> set rows" "r_key s = r_key w" for s
    using that sw(3) by (intro seat_at_same [OF ok _ w(1) _ _ _ sw]) auto
  have hin: "?h \<in> set rows" using assms(3) by (rule held_row_in)
  have "?h \<noteq> w"
  proof
    assume h: "?h = w"
    have "own_rows c rows \<noteq> []" using assms(4) n h by (auto simp: door_closed_def)
    then have "?h \<in> set (own_rows c rows)" by (auto simp: held_row_def split: list.split)
    then show False using n h by (simp add: own_rows_def)
  qed
  then have hk: "r_key ?h \<noteq> r_key w" using same hin by blast
  have "seat_at cfg p (seat_name ?h) ?h" using seat_at_iff [OF ok] rows [OF hin] by (simp add: seat_name_def)
  then have hs: "r_key ?h = ''seat/'' @ seat_name ?h" by (simp add: seat_at_def)
  let ?hit = "\<lambda>r. seat_row cfg r \<and> r_project r = Some p \<and> r_key r = r_key ?h"
  let ?t1 = "sql_update ?hit (rewatch (refreshed_meta c (base_name p pv) pv pf rows now) now) t"
  have "w \<in> set ?t1" using w(1) by (rule keep_update) (use hk in simp)
  then have "w \<in> set (fold (drop_duplicate cfg c p ?h) rows ?t1)"
    using n(3) sn same by (intro keep_own_drops sw(1,2)) simp_all
  with ref hk hs sw(3) show ?thesis by (auto simp: refresh_seat_def Let_def)
qed

text \<open>The door is one way: a process whose nonce was displaced from a seat does not get the
  seat back by claiming again, under its own session key or any other, while the seat is live
  and its occupant not certified dead; the occupant's row stays as it was. (Renames at run
  time are excepted, see below.)\<close>

theorem displaced_process_stays_out:
  assumes "presence_ok cfg t" and "seat_claim cfg c now t = (res, t')"
    and "w \<in> set t" and "displaced_from cfg c x now w" and "\<not> sr_runtime c"
    and "norm (sr_project c) \<notin> set SEAT_EXEMPT_IDENTITIES" and "x \<notin> set SEAT_EXEMPT_IDENTITIES"
  shows "w \<in> set t' \<and> (case res of Inl _ \<Rightarrow> True | Inr r \<Rightarrow> cr_seat r \<noteq> x)"
proof (cases "list_ex (\<lambda>y. or_none (norm (sr_preferred c)) = Some y) SEAT_EXEMPT_IDENTITIES")
  case True
  with assms(2,3,7) show ?thesis by (auto simp: seat_claim_def Let_def list_ex_iff)
next
  case False
  let ?p = "norm (sr_project c)"
  let ?t0 = "register_project cfg ?p now t"
  let ?rows = "in_order (base_name ?p (provider_of c)) (held_rows cfg ?p (sr_session_key c) ?t0)"
  obtain n where n: "nonce_of c = Some n" "n \<in> set (superseded_from_seat (md w))" "jget_str (md w) ''session_nonce'' \<noteq> Some n"
    using assms(4) by (auto simp: displaced_from_def split: option.splits)
  have w: "seat_at cfg ?p x w" "now - r_last_used_at w < seconds SEAT_LIVE_SECONDS" "\<not> cert_is_for_this_occupant (Some w)"
    using assms(4) by (simp_all add: displaced_from_def)
  have w0: "w \<in> set ?t0" using assms(3) w(1) by (intro keep_register) (simp_all add: seat_at_def)
  have ok0: "presence_ok cfg ?t0" using assms(1) by (rule register_project_ok)
  from refl refl refl assms(6) False show ?thesis
  proof (cases rule: seat_claim_cases [where cfg = cfg and now = now and t = t])
    case (alloc ws)
    then have "start_allocation cfg c ?p (provider_of c) (fst (admitted_preference cfg c ?p)) ws now ?t0 = (res, t')"
      using assms(2) by simp
    then show ?thesis by (rule start_allocation_spares [OF ok0 w0 w])
  next
    case (hold r u)
    have "refresh_seat cfg c ?p (provider_of c) (fst (admitted_preference cfg c ?p)) (snd (admitted_preference cfg c ?p)) ?rows now ?t0 = (r, u)"
      using hold(4) assms(5) by (auto simp: continue_claim_def Let_def split: option.splits)
    from refresh_spares_displaced [OF ok0 refl hold(1,2) w0 w(1) n this] hold(3) assms(2) show ?thesis by simp
  qed
qed

section \<open>A session keeps its seat\<close>

text \<open>The rows of a session in its project that carry its own nonce.\<close>

definition own_at :: "settings \<Rightarrow> seat_req \<Rightarrow> row \<Rightarrow> bool" where
  "own_at cfg c r \<longleftrightarrow>
     seat_row cfg r \<and> r_project r = Some (norm (sr_project c)) \<and>
     jget_text (md r) ''session_key'' = Some (sr_session_key c) \<and> jget_str (md r) ''session_nonce'' = sr_nonce c"

lemma own_rows_order:
  assumes "nonce_of c = Some n"
  shows "own_rows c (in_order base (held_rows cfg (norm (sr_project c)) (sr_session_key c) t)) =
    sort_key (seat_rank base) (filter (own_at cfg c) t)"
proof -
  have "sr_nonce c = Some n" using assms by (auto simp: nonce_of_def or_none_def split: if_splits bind_splits)
  then show ?thesis using assms
    by (simp add: own_rows_def in_order_def held_rows_def filter_sort own_at_def [abs_def] conj_ac)
qed

lemma hd_sort_key_least:
  assumes "x \<in> set xs"
  shows "f (hd (sort_key f xs)) \<le> f x"
proof -
  obtain y ys where y: "sort_key f xs = y # ys" using assms by (metis empty_iff empty_set list.exhaust set_sort)
  have "x \<in> set (y # ys)" using assms y by (metis set_sort)
  moreover have "sorted (map f (y # ys))" using y by (metis sorted_sort_key)
  ultimately show ?thesis using y by (auto simp: sorted_wrt.simps)
qed

lemma rank_first:
  assumes "x \<in> set xs" and "\<And>y. y \<in> set xs \<Longrightarrow> seat_rank b x \<le> seat_rank b y"
  shows "seat_name (hd (sort_key (seat_rank b) xs)) = seat_name x"
proof -
  let ?h = "hd (sort_key (seat_rank b) xs)"
  have "sort_key (seat_rank b) xs \<noteq> []" using assms(1) by (metis empty_iff empty_set set_sort)
  then have "?h \<in> set xs" by (metis hd_in_set set_sort)
  then have "seat_rank b ?h = seat_rank b x" using assms hd_sort_key_least [OF assms(1)] by (meson order_antisym)
  then show ?thesis by (simp add: seat_rank_def seat_name_def split: if_splits)
qed

lemma own_at_register [simp]: "filter (own_at cfg c) (register_project cfg p now t) = filter (own_at cfg c) t"
proof -
  let ?x = "(new_row (cfg_primary_namespace cfg) (''project/'' @ p) ''project-root'' PROJECT_REGISTRY_SCOPE
           SEAT_USER_ID (Some p) now)\<lparr>r_metadata := Some [(''kind'', JStr ''project-root'')]\<rparr>"
  show ?thesis
  proof (cases "row_at (ukey_of ?x) t")
    case None
    then show ?thesis by (simp add: register_project_def insert_do_update_def own_at_def seat_row_def new_row_def)
  next
    case (Some r)
    have "filter (own_at cfg c) (sql_update (\<lambda>s. ukey_of s = ukey_of ?x) (touch now) t) = filter (own_at cfg c) t"
      by (intro filter_update_outside) (auto simp: own_at_def seat_row_def ukey_of_def new_row_def)
    with Some show ?thesis unfolding register_project_def insert_do_update_def by simp
  qed
qed

text \<open>A claim with a nonce that finds rows of its own is answered with the first of them.\<close>

lemma claim_by_own_row:
  assumes "nonce_of c = Some n" and "\<not> sr_runtime c"
    and ne: "norm (sr_project c) \<notin> set SEAT_EXEMPT_IDENTITIES" "\<not> list_ex (\<lambda>y. or_none (norm (sr_preferred c)) = Some y) SEAT_EXEMPT_IDENTITIES"
    and x: "x \<in> set t" "own_at cfg c x"
    and least: "\<And>y. y \<in> set t \<Longrightarrow> own_at cfg c y \<Longrightarrow>
      seat_rank (base_name (norm (sr_project c)) (provider_of c)) x \<le> seat_rank (base_name (norm (sr_project c)) (provider_of c)) y"
  shows "\<exists>r t'. seat_claim cfg c now t = (Inr r, t') \<and> cr_seat r = seat_name x \<and> \<not> cr_is_new r"
proof -
  let ?p = "norm (sr_project c)"
  let ?b = "base_name ?p (provider_of c)"
  let ?t0 = "register_project cfg ?p now t"
  let ?rows = "in_order ?b (held_rows cfg ?p (sr_session_key c) ?t0)"
  have own: "own_rows c ?rows = sort_key (seat_rank ?b) (filter (own_at cfg c) t)"
    using own_rows_order [OF assms(1), of ?b cfg ?t0] by simp
  have xs: "x \<in> set (filter (own_at cfg c) t)" using x by simp
  then have nonempty: "own_rows c ?rows \<noteq> []" unfolding own by (metis empty_iff empty_set set_sort)
  then have open_door: "\<not> door_closed c ?rows" "?rows \<noteq> []"
    using assms(1) by (auto simp: door_closed_def own_rows_def)
  have "held_row c ?rows = hd (own_rows c ?rows)" using nonempty by (auto simp: held_row_def split: list.split)
  moreover have "seat_name (hd (sort_key (seat_rank ?b) (filter (own_at cfg c) t))) = seat_name x"
    using least by (intro rank_first xs) simp
  ultimately have h: "seat_name (held_row c ?rows) = seat_name x" by (simp add: own)
  from refl refl refl ne show ?thesis
  proof (cases rule: seat_claim_cases [where cfg = cfg and now = now and t = t])
    case (alloc ws)
    with open_door show ?thesis by blast
  next
    case (hold r u)
    have "cr_seat r = seat_name x \<and> \<not> cr_is_new r"
      using hold(4) assms(2) h by (auto simp: continue_claim_def Let_def refresh_seat_def split: option.splits)
    with hold(3) show ?thesis by blast
  qed
qed

lemma cursor_writers [simp]:
  "r_scope (mark_read reader r) = r_scope r" "r_scope (set_md m r) = r_scope r"
  by (simp_all add: mark_read_def set_md_def split: option.split)

lemma own_at_inherit:
  "filter (own_at cfg c) (apply_lane_inheritance cfg seat project provider host key now t) = filter (own_at cfg c) t"
proof -
  have o: "own_at cfg c r \<Longrightarrow> r_scope r \<noteq> LANE_CURSOR_SCOPE \<and> r_scope r \<noteq> INBOX_SCOPE" for r
    by (auto simp: own_at_def seat_row_def INBOX_SCOPE_def LANE_CURSOR_SCOPE_def SEAT_SCOPE_def)
  have "filter (own_at cfg c) (sql_update (cursor_at cfg project l) (set_md m) u) = filter (own_at cfg c) u" for l m u
    by (rule filter_update_outside) (auto simp: cursor_at_def dest!: o)
  moreover have "filter (own_at cfg c) (sql_update (\<lambda>r. r_scope r = INBOX_SCOPE \<and> P r) (mark_read x) u) = filter (own_at cfg c) u" for P x u
    by (rule filter_update_outside) (auto dest!: o)
  ultimately show ?thesis by (simp add: apply_lane_inheritance_def Let_def split: option.split)
qed

lemma removeprefix_seat [simp]: "removeprefix ''seat/'' (CHR ''s'' # CHR ''e'' # CHR ''a'' # CHR ''t'' # CHR ''/'' # s) = s"
  using removeprefix_append [of "''seat/''" s] by simp

lemma seat_meta_reads [simp]:
  "jget_text (seat_meta k n pv h su rt pf now) ''session_key'' = Some k"
  "jget_str (seat_meta k n pv h su rt pf now) ''session_nonce'' = n"
  "jtruthy (jval (seat_meta k n pv h su rt pf now) ''runtime'') = rt"
  by (simp_all add: seat_meta_def jget_text_def jget_str_def jval_def jopt_def split: option.split)

lemma own_at_rewatch:
  "seat_row cfg r \<Longrightarrow> r_project r = Some (norm (sr_project c)) \<Longrightarrow>
   jget_text m ''session_key'' = Some (sr_session_key c) \<Longrightarrow> jget_str m ''session_nonce'' = sr_nonce c \<Longrightarrow>
   own_at cfg c (rewatch m now r)"
  by (simp add: own_at_def rewatch_def seat_row_def)

lemma rank_rewatch:
  "r_key r = r_key s \<Longrightarrow> seat_rank b (rewatch m now r) = seat_rank b (rewatch m now s)"
  by (simp add: seat_rank_def rewatch_def seat_name_def)

lemma filter_same_mem: "filter P xs = filter P ys \<Longrightarrow> x \<in> set xs \<and> P x \<longleftrightarrow> x \<in> set ys \<and> P x"
  by (drule arg_cong [where f = set]) auto

lemma in_sql_updateE:
  assumes "y \<in> set (sql_update P f t)"
  obtains (hit) z where "z \<in> set t" "P z" "y = f z" | (miss) "y \<in> set t" "\<not> P y"
  using assms by (auto simp: sql_update_def split: if_splits)

lemma granted_own:
  assumes "filter (own_at cfg c) t = []" and "takeable cfg a now t seat" and "ac_project a = norm (sr_project c)"
  shows "\<exists>x\<in>set (granted_table cfg c a seat now t). own_at cfg c x \<and> seat_name x = seat \<and>
    (\<forall>y\<in>set (granted_table cfg c a seat now t). own_at cfg c y \<longrightarrow> seat_rank b x \<le> seat_rank b y)"
proof (cases "fetchrow (seat_at cfg (ac_project a) seat) t")
  case None
  let ?x = "(new_seat cfg seat (ac_project a) (granted_meta c a seat now) now)\<lparr>r_id := next_id t\<rparr>"
  have "own_at cfg c ?x" "seat_name ?x = seat"
    using assms(3) by (simp_all add: own_at_def new_seat_def new_row_def seat_row_def granted_meta_def md_def seat_name_def)
  then show ?thesis using None assms(1)
    by (intro bexI [of _ ?x]) (auto simp: granted_table_def filter_empty_conv)
next
  case (Some r)
  let ?hit = "\<lambda>s. seat_at cfg (ac_project a) seat s \<and> r_last_used_at s < takeover_cutoff r now"
  let ?w = "rewatch (granted_meta c a seat now) now"
  obtain s where s: "s \<in> set t" "?hit s" using assms(2) Some by (auto simp: takeable_def list_ex_iff)
  have own: "own_at cfg c (?w s)"
    using s(2) assms(3) by (intro own_at_rewatch) (simp_all add: seat_at_def granted_meta_def)
  have y: "seat_rank b (?w s) \<le> seat_rank b y" if "y \<in> set (sql_update ?hit ?w t)" "own_at cfg c y" for y
  proof -
    have "\<not> own_at cfg c z" if "z \<in> set t" for z using that assms(1) by (simp add: filter_empty_conv)
    with that obtain z where "?hit z" "y = ?w z" by (metis (no_types, lifting) in_sql_updateE)
    then show ?thesis using s(2) rank_rewatch [of z s b] by (simp add: seat_at_def)
  qed
  have "?w s \<in> set (sql_update ?hit ?w t)" using s by (force simp: sql_update_def)
  moreover have "seat_name (?w s) = seat" using s(2) by (simp add: seat_name_def seat_at_def rewatch_def)
  ultimately show ?thesis using own y Some by (auto simp: granted_table_def intro!: bexI [of _ "?w s"])
qed

lemma drops_subset: "set (fold (drop_duplicate cfg c p held) rows t) \<subseteq> set t"
proof (induction rows arbitrary: t)
  case (Cons r rows)
  have "set (drop_duplicate cfg c p held r t) \<subseteq> set t" by (auto simp: drop_duplicate_def delete_seat_def sql_delete_def)
  with Cons show ?case by (metis fold_simps(2) subset_trans)
qed simp

lemma drops_keep_held:
  "w \<in> set t \<Longrightarrow> r_key w = r_key held \<Longrightarrow> w \<in> set (fold (drop_duplicate cfg c p held) rows t)"
proof (induction rows arbitrary: t)
  case (Cons r rows)
  then have "w \<in> set (drop_duplicate cfg c p held r t)" by (auto simp: drop_duplicate_def keep_delete_seat)
  with Cons show ?case by simp
qed simp

lemma refreshed_own:
  assumes "nonce_of c = Some n" and "\<not> sr_runtime c" and "p = norm (sr_project c)"
    and "rows = in_order b (held_rows cfg p (sr_session_key c) t)" and "rows \<noteq> []"
    and "refresh_seat cfg c p pv pf ws rows now t = (r, u)" and b: "b = base_name p pv"
  shows "\<exists>x\<in>set u. own_at cfg c x \<and> seat_name x = cr_seat r \<and> (\<forall>y\<in>set u. own_at cfg c y \<longrightarrow> seat_rank b x \<le> seat_rank b y)"
proof -
  let ?h = "held_row c rows"
  let ?m = "refreshed_meta c b pv pf rows now"
  let ?hit = "\<lambda>s. seat_row cfg s \<and> r_project s = Some p \<and> r_key s = r_key ?h"
  let ?t1 = "sql_update ?hit (rewatch ?m now) t"
  let ?x = "rewatch ?m now ?h"
  have m: "jget_text ?m ''session_key'' = Some (sr_session_key c)" "jget_str ?m ''session_nonce'' = sr_nonce c"
    "jtruthy (jval ?m ''runtime'') = jtruthy (jval (md ?h) ''runtime'')"
    using assms(2) by (simp_all add: refreshed_meta_def Let_def)
  have h: "?h \<in> set t" "?hit ?h"
    using held_row_in [OF assms(5), of c] unfolding assms(4) by (auto simp: held_rows_def)
  have u: "u = fold (drop_duplicate cfg c p ?h) rows ?t1" "cr_seat r = seat_name ?h"
    using assms(6) by (auto simp: refresh_seat_def Let_def b)
  have "?x \<in> set ?t1" using h by (force simp: sql_update_def)
  then have "?x \<in> set u" unfolding u(1) by (rule drops_keep_held) (simp add: rewatch_def)
  moreover have "own_at cfg c ?x" using h(2) m(1,2) assms(3) by (intro own_at_rewatch) simp_all
  moreover have "seat_name ?x = cr_seat r" by (simp add: u(2) seat_name_def rewatch_def)
  moreover have "seat_rank b ?x \<le> seat_rank b y" if y: "y \<in> set u" "own_at cfg c y" for y
  proof -
    have "y \<in> set ?t1" using y(1) drops_subset [of cfg c p ?h rows ?t1] unfolding u(1) by blast
    then show ?thesis
    proof (cases rule: in_sql_updateE)
      case (hit z)
      then show ?thesis using rank_rewatch [of z ?h b ?m now] by simp
    next
      case miss
      then have zo: "y \<in> set (filter (own_at cfg c) t)" using y(2) by simp
      have own: "own_rows c rows = sort_key (seat_rank b) (filter (own_at cfg c) t)"
        using own_rows_order [OF assms(1)] assms(3,4) by simp
      then have "own_rows c rows \<noteq> []" using zo by (metis empty_iff empty_set set_sort)
      then have "?h = hd (sort_key (seat_rank b) (filter (own_at cfg c) t))"
        unfolding own [symmetric] by (auto simp: held_row_def split: list.split)
      then have "seat_rank b ?h \<le> seat_rank b y" using hd_sort_key_least [OF zo] by metis
      moreover have "seat_rank b ?x = seat_rank b ?h" using m(3) by (simp add: seat_rank_def rewatch_def seat_name_def)
      ultimately show ?thesis by simp
    qed
  qed
  ultimately show ?thesis by blast
qed

text \<open>C34. A session keeps its seat: when a process that gives a nonce repeats its claim, at any later
  time and with nothing else in between, it is answered with the same seat, not as new, whether
  the seat was allotted, taken over or already its own.\<close>

theorem claim_is_kept:
  assumes "seat_claim cfg c now t = (Inr r, t')" and "nonce_of c \<noteq> None" and "\<not> sr_runtime c"
    and ne: "norm (sr_project c) \<notin> set SEAT_EXEMPT_IDENTITIES" "\<not> list_ex (\<lambda>y. or_none (norm (sr_preferred c)) = Some y) SEAT_EXEMPT_IDENTITIES"
  shows "\<exists>r' t''. seat_claim cfg c later t' = (Inr r', t'') \<and> cr_seat r' = cr_seat r \<and> \<not> cr_is_new r'"
proof -
  let ?p = "norm (sr_project c)"
  let ?b = "base_name ?p (provider_of c)"
  let ?t0 = "register_project cfg ?p now t"
  let ?rows = "in_order ?b (held_rows cfg ?p (sr_session_key c) ?t0)"
  obtain n where n: "nonce_of c = Some n" using assms(2) by blast
  have "\<exists>x\<in>set t'. own_at cfg c x \<and> seat_name x = cr_seat r \<and> (\<forall>y\<in>set t'. own_at cfg c y \<longrightarrow> seat_rank ?b x \<le> seat_rank ?b y)"
    using refl refl refl ne
  proof (cases rule: seat_claim_cases [where cfg = cfg and now = now and t = t])
    case (alloc ws)
    let ?a = "alloc_context cfg c ?p (provider_of c) (fst (admitted_preference cfg c ?p)) now ?t0"
    have "own_rows c ?rows = []" using alloc(1) n by (auto simp: door_closed_def own_rows_def)
    then have none: "filter (own_at cfg c) ?t0 = []"
      using own_rows_order [OF n, of ?b cfg ?t0] by (metis empty_iff empty_set set_empty set_sort)
    have "allocate cfg c ?a now ?t0 (seat_candidates ?p (provider_of c) (fst (admitted_preference cfg c ?p))) ws None = (Inr r, t')"
      using alloc(2) assms(1) by (simp add: start_allocation_def)
    from allocate_Inr [OF this] obtain s where s: "takeable cfg ?a now ?t0 s" "cr_seat r = s"
      "t' = inherit cfg c ?a s now (granted_table cfg c ?a s now ?t0)" by (auto simp: grant_def)
    have a: "ac_project ?a = ?p" by (simp add: alloc_context_def)
    have "filter (own_at cfg c) t' = filter (own_at cfg c) (granted_table cfg c ?a s now ?t0)"
      by (simp add: s(3) inherit_def own_at_inherit)
    then have same: "x \<in> set t' \<and> own_at cfg c x \<longleftrightarrow> x \<in> set (granted_table cfg c ?a s now ?t0) \<and> own_at cfg c x" for x
      by (rule filter_same_mem)
    from granted_own [OF none s(1) a, of ?b] obtain x where x: "x \<in> set (granted_table cfg c ?a s now ?t0)" "own_at cfg c x"
      "seat_name x = s" "\<And>y. y \<in> set (granted_table cfg c ?a s now ?t0) \<Longrightarrow> own_at cfg c y \<Longrightarrow> seat_rank ?b x \<le> seat_rank ?b y"
      by blast
    have "seat_rank ?b x \<le> seat_rank ?b y" if "y \<in> set t'" "own_at cfg c y" for y
      using x(4) same [of y] that by blast
    moreover have "x \<in> set t'" using same [of x] x(1,2) by simp
    moreover have "seat_name x = cr_seat r" using x(3) s(2) by simp
    ultimately show ?thesis using x(2) by (intro bexI [of _ x]) simp_all
  next
    case (hold r' u)
    then have "refresh_seat cfg c ?p (provider_of c) (fst (admitted_preference cfg c ?p)) (snd (admitted_preference cfg c ?p)) ?rows now ?t0 = (r', u)"
      using assms(3) by (auto simp: continue_claim_def Let_def split: option.splits)
    from refreshed_own [OF n assms(3) refl refl hold(1) this refl] hold(3) assms(1) show ?thesis by simp
  qed
  then obtain x where "x \<in> set t'" "own_at cfg c x" "seat_name x = cr_seat r"
    "\<And>y. y \<in> set t' \<Longrightarrow> own_at cfg c y \<Longrightarrow> seat_rank ?b x \<le> seat_rank ?b y" by blast
  with claim_by_own_row [OF n assms(3) ne, of x t' cfg later] show ?thesis by simp
qed

section \<open>The invariant\<close>

lemma presence_ok_delete: "presence_ok cfg t \<Longrightarrow> presence_ok cfg (sql_delete P t)"
  by (auto simp: presence_ok_key sql_delete_def table_ok_def distinct_map_filter)

lemma presence_ok_append:
  assumes "presence_ok cfg t" and "row_at (ukey_of x) t = None" and "r_scope x \<noteq> PRESENCE_SCOPE"
    and "r_scope x = SEAT_SCOPE \<Longrightarrow> startswith (r_key x) ''seat/''"
  shows "presence_ok cfg (t @ [x\<lparr>r_id := next_id t\<rparr>])"
proof -
  have "table_ok (t @ [x\<lparr>r_id := next_id t\<rparr>])" using assms(1,2) by (intro table_ok_append) (simp_all add: presence_ok_def)
  with assms show ?thesis by (auto simp: presence_ok_def presence_row_def seat_row_def)
qed

interpretation certifying: row_writer "cert_stamp q" for q
  by unfold_locales (simp_all add: cert_stamp_def stamp_md_def set_md_def ukey_of_def split: option.split)

interpretation releasing: row_writer "released_mark now" for now
  by unfold_locales (simp_all add: released_mark_def set_md_def ukey_of_def)

interpretation reading: row_writer "mark_read reader" for reader
  by unfold_locales (simp_all add: mark_read_def set_md_def ukey_of_def split: option.split)

interpretation recertifying: row_writer "recert x" for x
  by unfold_locales (simp_all add: recert_def ukey_of_def)

interpretation redocumenting: row_writer "\<lambda>r. r\<lparr>r_metadata := m\<rparr>" for m
  by unfold_locales (simp_all add: ukey_of_def)

lemma fetch_None_row_at:
  "fetchrow (seat_at cfg p s) t = None \<Longrightarrow> row_at (ukey_of (new_seat cfg s p m now)) t = None"
  by (auto simp: row_at_None fetchrow_None seat_at_def seat_row_def ukey_of_def new_seat_def new_row_def image_iff)

text \<open>What the registry keeps: a property of the table that survives deletion, writes that leave the
  key of a row alone, and rows added under a free key in the form of the registry. The operations
  of the registry are made of these three.\<close>

locale store_invariant =
  fixes keeps :: "table \<Rightarrow> bool"
  assumes on_delete: "keeps t \<Longrightarrow> keeps (sql_delete P t)"
    and on_update: "row_writer f \<Longrightarrow> keeps t \<Longrightarrow> keeps (sql_update P f t)"
    and on_append: "keeps t \<Longrightarrow> row_at (ukey_of x) t = None \<Longrightarrow> r_scope x \<noteq> PRESENCE_SCOPE \<Longrightarrow>
      (r_scope x = SEAT_SCOPE \<Longrightarrow> startswith (r_key x) ''seat/'') \<Longrightarrow> keeps (t @ [x\<lparr>r_id := next_id t\<rparr>])"
begin

lemmas on_updates = on_update [OF certifying.row_writer_axioms] on_update [OF releasing.row_writer_axioms]
  on_update [OF reading.row_writer_axioms] on_update [OF recertifying.row_writer_axioms]
  on_update [OF stealing.row_writer_axioms] on_update [OF set_doc.row_writer_axioms]
  on_update [OF touching.row_writer_axioms] on_update [OF watcher_marking.row_writer_axioms]
  on_update [OF farewell_marking.row_writer_axioms]

lemma insert_do_update_keeps:
  assumes "keeps t" and "row_writer (upd x)" and "r_scope x \<noteq> PRESENCE_SCOPE" "r_scope x \<noteq> SEAT_SCOPE"
  shows "keeps (snd (insert_do_update upd x t))"
  using assms on_update [OF assms(2,1)] by (auto simp: insert_do_update_def on_append split: option.split)

lemma register_keeps: "keeps t \<Longrightarrow> keeps (register_project cfg p now t)"
  unfolding register_project_def
  by (intro insert_do_update_keeps touching.row_writer_axioms)
    (simp_all add: new_row_def PROJECT_REGISTRY_SCOPE_def PRESENCE_SCOPE_def SEAT_SCOPE_def)

lemma inherit_keeps: "keeps t \<Longrightarrow> keeps (apply_lane_inheritance cfg seat p pv h k now t)"
  by (auto simp: apply_lane_inheritance_def Let_def intro!: on_updates split: option.split)

lemma new_seat_keeps:
  "keeps t \<Longrightarrow> fetchrow (seat_at cfg p s) t = None \<Longrightarrow> keeps (t @ [(new_seat cfg s p m now)\<lparr>r_id := next_id t\<rparr>])"
  by (intro on_append fetch_None_row_at)
    (simp_all add: new_seat_def new_row_def PRESENCE_SCOPE_def SEAT_SCOPE_def startswith_def)

lemma granted_keeps: "keeps t \<Longrightarrow> keeps (granted_table cfg c a seat now t)"
  unfolding granted_table_def by (simp add: new_seat_keeps on_updates split: option.split)

lemma allocate_keeps: "keeps t \<Longrightarrow> allocate cfg c a now t seats ws parked = (res, t') \<Longrightarrow> keeps t'"
  by (cases res) (auto simp: allocate_Inl inherit_def inherit_keeps granted_keeps dest!: allocate_Inr)

lemma drops_keep: "keeps t \<Longrightarrow> keeps (fold (drop_duplicate cfg c p held) rows t)"
  by (induction rows arbitrary: t) (auto simp: drop_duplicate_def delete_seat_def on_delete)

lemma refresh_keeps: "keeps t \<Longrightarrow> keeps (snd (refresh_seat cfg c p pv pf ws rows now t))"
  by (simp add: refresh_seat_def Let_def drops_keep on_updates)

lemma try_move_keeps: "keeps t \<Longrightarrow> keeps (snd (try_move cfg c p pv name rows now t))"
  unfolding try_move_cases by (simp add: new_seat_keeps on_updates split: option.split)

lemma continue_keeps: "keeps t \<Longrightarrow> keeps (snd (continue_claim cfg c p pv pf ws rows now t))"
proof -
  assume ok: "keeps t"
  show ?thesis
  proof (cases pf)
    case (Some name)
    have "keeps (snd (try_move cfg c p pv name rows now t))" using ok by (rule try_move_keeps)
    with Some ok show ?thesis
      by (auto simp: continue_claim_def Let_def refresh_keeps delete_seat_def on_delete split: prod.split bool.split)
  qed (simp add: continue_claim_def Let_def refresh_keeps ok)
qed

lemma seat_claim_keeps: "keeps t \<Longrightarrow> keeps (snd (seat_claim cfg c now t))"
proof -
  assume ok: "keeps t"
  show ?thesis
  proof (cases "list_ex (\<lambda>y. or_none (norm (sr_preferred c)) = Some y) SEAT_EXEMPT_IDENTITIES \<or> norm (sr_project c) \<in> set SEAT_EXEMPT_IDENTITIES")
    case True
    with ok show ?thesis by (auto simp: seat_claim_def Let_def)
  next
    case False
    then have ne: "norm (sr_project c) \<notin> set SEAT_EXEMPT_IDENTITIES" "\<not> list_ex (\<lambda>y. or_none (norm (sr_preferred c)) = Some y) SEAT_EXEMPT_IDENTITIES"
      by blast+
    note ok0 = register_keeps [OF ok, of cfg "norm (sr_project c)" now]
    from refl refl refl ne show ?thesis
    proof (cases rule: seat_claim_cases [where cfg = cfg and now = now and t = t])
      case (alloc ws)
      then show ?thesis unfolding start_allocation_def using allocate_keeps [OF ok0] by (metis prod.collapse)
    next
      case (hold r u)
      then show ?thesis using continue_keeps [OF ok0] by (metis snd_conv)
    qed
  qed
qed

lemma record_cert_keeps:
  assumes "keeps t" and "r_scope x = DEATH_SCOPE" and "record_cert x died t = (b, b', t')"
  shows "keeps t'"
  using assms on_append [OF assms(1), of x]
  by (auto simp: record_cert_def DEATH_SCOPE_def PRESENCE_SCOPE_def SEAT_SCOPE_def on_updates split: option.splits if_splits)

lemma feed_cursor_keeps: "keeps t \<Longrightarrow> keeps (snd (feed_cursor cfg p q now t))"
proof -
  assume ok: "keeps t"
  have "keeps (snd (insert_do_update (\<lambda>x r. r\<lparr>r_metadata := r_metadata x\<rparr>) (new_cursor cfg p q ids now) t))" for ids
    by (intro insert_do_update_keeps ok redocumenting.row_writer_axioms)
      (simp_all add: new_cursor_def new_row_def LANE_CURSOR_SCOPE_def PRESENCE_SCOPE_def SEAT_SCOPE_def)
  then show ?thesis using ok by (auto simp: feed_cursor_def Let_def on_updates split: option.split)
qed

lemma death_certify_keeps: "keeps t \<Longrightarrow> keeps (snd (death_certify cfg q now t))"
proof -
  assume ok: "keeps t"
  let ?p = "norm (dr_project q)"
  obtain b b' t1 where r: "record_cert (new_cert cfg ?p q now) (dr_died_at q) t = (b, b', t1)" by (metis surj_pair)
  have "keeps t1" using r by (intro record_cert_keeps [OF ok]) (simp_all add: new_cert_def new_row_def)
  then have "keeps (if dr_seat q = '''' then t1 else sql_update (seat_at cfg ?p (dr_seat q)) (cert_stamp q) t1)" (is "keeps ?t2")
    by (simp add: on_updates)
  with feed_cursor_keeps [OF this, of cfg ?p q now] r show ?thesis
    by (auto simp: death_certify_def Let_def split_beta split: if_splits)
qed

lemma seat_release_keeps: "keeps t \<Longrightarrow> keeps (snd (seat_release cfg k p ev n now t))"
  by (auto simp: seat_release_def Let_def stamp_presence_released_def on_delete on_updates split: option.split)

lemma watcher_and_farewell_keep:
  "keeps t \<Longrightarrow> keeps (snd (presence_watcher_beat cfg j q now t))"
  "keeps t \<Longrightarrow> keeps (snd (presence_farewell cfg j q now t))"
  by (auto simp: presence_watcher_beat_def presence_farewell_def Let_def intro!: on_updates)

end

interpretation presence: store_invariant "presence_ok cfg" for cfg
  by unfold_locales (simp_all add: presence_ok_delete row_writer.presence_ok_update presence_ok_append)

interpretation indexed: store_invariant table_ok
  by unfold_locales (simp_all add: row_writer.table_ok_update table_ok_append)

lemmas seat_claim_ok = presence.seat_claim_keeps
lemmas try_move_ok = presence.try_move_keeps

text \<open>The steps of the server that write presence and seats.\<close>

inductive registry_step :: "settings \<Rightarrow> table \<Rightarrow> table \<Rightarrow> bool" for cfg where
  claim: "registry_step cfg t (snd (seat_claim cfg c now t))"
| certify: "registry_step cfg t (snd (death_certify cfg q now t))"
| release: "registry_step cfg t (snd (seat_release cfg k p ev n now t))"
| beat: "registry_step cfg t (snd (presence_update cfg b now t))"
| watcher: "registry_step cfg t (snd (presence_watcher_beat cfg j p now t))"
| farewell: "registry_step cfg t (snd (presence_farewell cfg j p now t))"

lemma registry_step_ok: "registry_step cfg t t' \<Longrightarrow> presence_ok cfg t \<Longrightarrow> presence_ok cfg t'"
  by (induction rule: registry_step.induct)
    (simp_all add: seat_claim_ok presence.death_certify_keeps presence.seat_release_keeps presence_update_ok
        presence.watcher_and_farewell_keep)

lemma filter_at_most_one:
  assumes "distinct xs" and "\<And>x y. x \<in> set xs \<Longrightarrow> y \<in> set xs \<Longrightarrow> P x \<Longrightarrow> P y \<Longrightarrow> x = y"
  shows "length (filter P xs) \<le> 1"
proof (cases "filter P xs")
  case (Cons x ys)
  have "distinct (x # ys)" using assms(1) Cons by (metis distinct_filter)
  moreover have "set ys \<subseteq> {x}" using assms(2) Cons by (metis (no_types, lifting) list.set_intros(1,2) mem_Collect_eq set_filter singleton_iff subsetI)
  ultimately have "ys = []" by (cases ys) auto
  with Cons show ?thesis by simp
qed simp

text \<open>However claims, certificates, releases, heartbeats and farewells follow one another on an
  empty store, a name in a project has at most one holder and one presence record.\<close>

theorem one_holder_per_seat:
  assumes "(registry_step cfg)\<^sup>*\<^sup>* [] t"
  shows "length (filter (seat_at cfg p s) t) \<le> 1 \<and> length (filter (presence_at cfg p s) t) \<le> 1 \<and> presence_ok cfg t"
proof -
  have "presence_ok cfg []" by (simp add: presence_ok_def table_ok_def)
  with assms have ok: "presence_ok cfg t" by (induction rule: rtranclp_induct) (blast intro: registry_step_ok)+
  then have "distinct t" by (simp add: presence_ok_def table_ok_def distinct_map)
  then show ?thesis using ok seat_at_unique [OF ok] presence_at_unique [OF ok]
    by (intro conjI filter_at_most_one) blast+
qed

section \<open>Releases are fenced\<close>

text \<open>A release that names the process it speaks for cannot touch a successor's seat: a row
  held by another process stays as it is, and so does the presence record of its name.\<close>

theorem late_release_spares_the_successor:
  assumes "presence_ok cfg t" and "seat_release cfg k p0 ev n0 now t = (res, t')"
    and "or_none (py_strip (or_empty n0)) = Some n"
    and "w \<in> set t" and "seat_at cfg (norm p0) x w" and "jget_text (md w) ''session_nonce'' \<noteq> Some n"
  shows "w \<in> set t' \<and> res \<noteq> Some x \<and> filter (presence_at cfg (norm p0) x) t' = filter (presence_at cfg (norm p0) x) t"
proof -
  let ?hit = "releases cfg (norm p0) k (Some n)"
  have nw: "\<not> ?hit w" using assms(6) by (simp add: releases_def)
  have wd: "w \<in> set (sql_delete ?hit t)" using assms(4) nw by (simp add: sql_delete_def)
  have pd: "filter (presence_at cfg (norm p0) x) (sql_delete ?hit t) = filter (presence_at cfg (norm p0) x) t"
  proof -
    have "\<not> ?hit r" if "presence_at cfg (norm p0) x r" for r
      using that presence_scopes(1) unfolding releases_def presence_at_def by blast
    then show ?thesis unfolding sql_delete_def filter_filter by (intro filter_cong refl) blast
  qed
  show ?thesis
  proof (cases "fetchrow ?hit t")
    case None
    with assms(2-4) show ?thesis by (auto simp: seat_release_def Let_def)
  next
    case (Some r)
    then have r: "r \<in> set t" "?hit r" by (blast dest: fetchrow_Some)+
    then have "seat_at cfg (norm p0) (seat_name r) r"
      using seat_at_iff [OF assms(1) r(1)] by (simp add: releases_def seat_name_def)
    then have nx: "seat_name r \<noteq> x" using seat_at_unique [OF assms(1) r(1) _ assms(4,5)] r(2) nw by blast
    let ?t1 = "sql_delete ?hit t"
    let ?t2 = "stamp_presence_released cfg (seat_name r) (norm p0) (Some n) now ?t1"
    have "\<not> presence_row cfg w" using assms(5) by (simp add: seat_at_def)
    then have "w \<in> set ?t2" using wd by (auto simp: stamp_presence_released_def presence_at_def intro!: keep_update)
    moreover have "filter (presence_at cfg (norm p0) x) ?t2 = filter (presence_at cfg (norm p0) x) ?t1"
    proof -
      have "presence_at cfg (norm p0) x (released_mark now s) = presence_at cfg (norm p0) x s" for s
        by (rule row_kinds_key(3)) (simp add: released_mark_def set_md_def ukey_of_def)
      then show ?thesis using nx
        by (auto simp: stamp_presence_released_def presence_at_def intro!: filter_update_outside)
    qed
    ultimately show ?thesis using assms(2,3) Some wd pd nx by (auto simp: seat_release_def Let_def)
  qed
qed

section \<open>Certificates\<close>

lemma death_scope:
  "death_row cfg r \<Longrightarrow> r_scope r = DEATH_SCOPE" "DEATH_SCOPE \<noteq> LANE_CURSOR_SCOPE"
  "\<not> seat_row cfg r \<or> \<not> death_row cfg r"
  by (auto simp: death_row_def seat_row_def DEATH_SCOPE_def LANE_CURSOR_SCOPE_def SEAT_SCOPE_def)

lemma filter_insert_do_update:
  assumes "\<not> P x" and "\<And>r. ukey_of r = ukey_of x \<Longrightarrow> \<not> P r \<and> \<not> P (upd x r)" and "\<And>i. \<not> P (x\<lparr>r_id := i\<rparr>)"
  shows "filter P (snd (insert_do_update upd x t)) = filter P t"
  using assms by (auto simp: insert_do_update_def filter_update_outside split: option.split)

lemma cursor_leaves_deaths: "filter (death_row cfg) (snd (feed_cursor cfg p q now t)) = filter (death_row cfg) t"
proof -
  have c: "r_scope r = LANE_CURSOR_SCOPE \<Longrightarrow> \<not> death_row cfg r" for r using death_scope by metis
  have "filter (death_row cfg) (sql_update (cursor_at cfg p l) (set_md m) t) = filter (death_row cfg) t" for l m
    by (rule filter_update_outside) (auto simp: cursor_at_def intro!: c)
  moreover have "filter (death_row cfg) (snd (insert_do_update (\<lambda>x r. r\<lparr>r_metadata := r_metadata x\<rparr>) (new_cursor cfg p q ids now) t))
      = filter (death_row cfg) t" for ids
    by (rule filter_insert_do_update) (auto simp: new_cursor_def new_row_def ukey_of_def intro!: c)
  ultimately show ?thesis by (simp add: feed_cursor_def Let_def split: option.split)
qed

lemma stamp_leaves_deaths: "filter (death_row cfg) (sql_update (seat_at cfg p s) (cert_stamp q) t) = filter (death_row cfg) t"
proof (rule filter_update_outside)
  fix r assume "seat_at cfg p s r"
  moreover have "seat_row cfg (cert_stamp q r) = seat_row cfg r"
    by (rule row_kinds_key(2)) (simp add: cert_stamp_def stamp_md_def set_md_def ukey_of_def split: option.split)
  ultimately show "\<not> death_row cfg r \<and> \<not> death_row cfg (cert_stamp q r)" using death_scope(3) by (metis seat_at_def)
qed

lemma certify_deaths:
  "filter (death_row cfg) (snd (death_certify cfg q now t)) =
   filter (death_row cfg) (snd (snd (record_cert (new_cert cfg (norm (dr_project q)) q now) (dr_died_at q) t)))"
  by (simp add: death_certify_def Let_def split_beta cursor_leaves_deaths stamp_leaves_deaths)

lemma certify_flags:
  "dt_created (fst (death_certify cfg q now t)) = fst (record_cert (new_cert cfg (norm (dr_project q)) q now) (dr_died_at q) t)"
  "dt_updated (fst (death_certify cfg q now t)) = fst (snd (record_cert (new_cert cfg (norm (dr_project q)) q now) (dr_died_at q) t))"
  by (simp_all add: death_certify_def Let_def split_beta)

definition cert_key :: "settings \<Rightarrow> string \<Rightarrow> string \<Rightarrow> ukey" where
  "cert_key cfg p idem = (cfg_primary_namespace cfg, ''death/'' @ idem, DEATH_SCOPE, SEAT_USER_ID, Some p)"

lemma new_cert_simps [simp]:
  "ukey_of (new_cert cfg p q now) = cert_key cfg p (cert_idem q)"
  "jget_time (md (new_cert cfg p q now)) ''died_at'' = Some (dr_died_at q)"
  by (simp_all add: new_cert_def new_row_def ukey_of_def cert_key_def md_def cert_meta_def jget_time_def)

lemma row_at_deaths: "row_at (cert_key cfg p i) (filter (death_row cfg) t) = row_at (cert_key cfg p i) t"
  by (induction t) (auto simp: row_at_def cert_key_def ukey_of_def death_row_def)

text \<open>What the certificate table knows of a death: its time, unless the stored document has none.\<close>

definition knows_death :: "settings \<Rightarrow> string \<Rightarrow> string \<Rightarrow> instant \<Rightarrow> table \<Rightarrow> bool" where
  "knows_death cfg p i died t =
     (case row_at (cert_key cfg p i) t of None \<Rightarrow> False
      | Some r \<Rightarrow> (case jget_time (md r) ''died_at'' of None \<Rightarrow> True | Some d \<Rightarrow> died \<le> d))"

lemma record_cert_knows:
  "knows_death cfg p (cert_idem q) (dr_died_at q) (snd (snd (record_cert (new_cert cfg p q now) (dr_died_at q) t)))"
proof (cases "row_at (cert_key cfg p (cert_idem q)) t")
  case None
  have "ukey_of ((new_cert cfg p q now)\<lparr>r_id := i\<rparr>) = cert_key cfg p (cert_idem q)"
    "md ((new_cert cfg p q now)\<lparr>r_id := i\<rparr>) = md (new_cert cfg p q now)" for i
    using new_cert_simps(1) [of cfg p q now] by (simp_all add: ukey_of_def md_def)
  with None show ?thesis by (simp add: record_cert_def knows_death_def row_at_append)
next
  case (Some r)
  have k: "ukey_of r = cert_key cfg p (cert_idem q)" using Some by (blast dest: row_at_Some)
  have "md (recert (new_cert cfg p q now) r) = md (new_cert cfg p q now)" by (simp add: recert_def md_def)
  with Some k show ?thesis
    by (auto simp: record_cert_def knows_death_def recertifying.row_at_update split: option.split)
qed

lemma known_death_is_idle:
  assumes "knows_death cfg p (cert_idem q) died t" and "dr_died_at q \<le> died"
  shows "record_cert (new_cert cfg p q now) (dr_died_at q) t = (False, False, t)"
  using assms by (auto simp: record_cert_def knows_death_def split: option.splits)

text \<open>Certificates of a death may arrive twice, late and out of order: once a death is on
  record, another certificate of it with the same or an earlier time is reported as neither
  created nor updated and leaves every recorded death as it was.\<close>

theorem certificate_replay_is_idle:
  assumes "norm (dr_project q') = norm (dr_project q)" and "cert_idem q' = cert_idem q" and "dr_died_at q' \<le> dr_died_at q"
    and "death_certify cfg q' later (snd (death_certify cfg q now t)) = (r, t')"
  shows "\<not> dt_created r \<and> \<not> dt_updated r \<and>
    filter (death_row cfg) t' = filter (death_row cfg) (snd (death_certify cfg q now t))"
proof -
  let ?p = "norm (dr_project q)"
  let ?t1 = "snd (death_certify cfg q now t)"
  let ?u = "snd (snd (record_cert (new_cert cfg ?p q now) (dr_died_at q) t))"
  have "row_at (cert_key cfg ?p (cert_idem q)) ?t1 = row_at (cert_key cfg ?p (cert_idem q)) ?u"
    using row_at_deaths [of cfg ?p "cert_idem q" ?t1] row_at_deaths [of cfg ?p "cert_idem q" ?u] certify_deaths [of cfg q now t]
    by simp
  then have "knows_death cfg ?p (cert_idem q) (dr_died_at q) ?t1"
    using record_cert_knows [of cfg ?p q now t] by (simp add: knows_death_def)
  then have i: "record_cert (new_cert cfg ?p q' later) (dr_died_at q') ?t1 = (False, False, ?t1)"
    using assms(2,3) by (intro known_death_is_idle) simp_all
  have "\<not> dt_created r \<and> \<not> dt_updated r"
    using certify_flags [of cfg q' later ?t1] unfolding assms(1,4) i by simp
  moreover have "filter (death_row cfg) t' = filter (death_row cfg) ?t1"
    using certify_deaths [of cfg q' later ?t1] unfolding assms(1,4) i by simp
  ultimately show ?thesis by blast
qed

section \<open>Witnesses\<close>

definition demo_claim :: "string \<Rightarrow> string \<Rightarrow> string option \<Rightarrow> bool \<Rightarrow> seat_req" where
  "demo_claim k n wish rt =
     \<lparr>sr_session_key = k, sr_project = Some ''engram'', sr_provider = Some ''claude'', sr_nonce = Some n,
      sr_host = Some ''host'', sr_preferred = wish, sr_runtime = rt\<rparr>"

definition seats_demo :: table where
  "seats_demo = snd (seat_claim default_settings (demo_claim ''k1'' ''n1'' None False) 0 [])"

definition seats_retaken :: table where
  "seats_retaken = snd (seat_claim default_settings (demo_claim ''k1'' ''n2'' None False) (seconds 5) seats_demo)"

definition demo_root :: "instant \<Rightarrow> row" where
  "demo_root used = (new_row (cfg_primary_namespace default_settings) ''project/engram'' ''project-root'' PROJECT_REGISTRY_SCOPE
     SEAT_USER_ID (Some ''engram'') 0)\<lparr>r_metadata := Some [(''kind'', JStr ''project-root'')], r_id := 1, r_last_used_at := used\<rparr>"

definition demo_seat :: "string \<Rightarrow> string \<Rightarrow> string list \<Rightarrow> instant \<Rightarrow> row" where
  "demo_seat s n gone used =
     (new_seat default_settings s ''engram'' (seat_meta ''k1'' (Some n) ''claude'' (Some ''host'') gone False None used) 0)
     \<lparr>r_id := 2, r_last_used_at := used\<rparr>"
lemma seats_demo_code [code]: "seats_demo = [demo_root 0, demo_seat ''engram-claude'' ''n1'' [] 0]"
  by code_simp

lemma seats_retaken_code [code]:
  "seats_retaken = [demo_root (seconds 5), demo_seat ''engram-claude'' ''n2'' [''n1''] (seconds 5)]"
  by code_simp

lemma seats_demo_steps:
  "(registry_step default_settings)\<^sup>*\<^sup>* [] seats_demo" "presence_ok default_settings seats_demo"
  "presence_ok default_settings seats_retaken"
proof -
  show "(registry_step default_settings)\<^sup>*\<^sup>* [] seats_demo"
    unfolding seats_demo_def by (intro r_into_rtranclp registry_step.claim)
  show "presence_ok default_settings seats_demo" unfolding seats_demo_def
    by (rule seat_claim_ok) (simp add: presence_ok_def table_ok_def)
  then show "presence_ok default_settings seats_retaken" unfolding seats_retaken_def by (rule seat_claim_ok)
qed

theorem live_seat_is_never_taken_witness:
  "seats_demo ! 1 \<in> set (snd (seat_claim default_settings (demo_claim ''k2'' ''n2'' (Some ''engram-claude'') False) (seconds 5) seats_demo))"
proof -
  let ?c = "demo_claim ''k2'' ''n2'' (Some ''engram-claude'') False"
  obtain res t' where c: "seat_claim default_settings ?c (seconds 5) seats_demo = (res, t')" by fastforce
  have w: "seats_demo ! 1 \<in> set seats_demo" "lives_at default_settings ?c ''engram-claude'' (seconds 5) (seats_demo ! 1)"
    by code_simp+
  have e: "norm (sr_project ?c) \<notin> set SEAT_EXEMPT_IDENTITIES" "''engram-claude'' \<notin> set SEAT_EXEMPT_IDENTITIES" by code_simp+
  from live_seat_is_never_taken [OF seats_demo_steps(2) c w e] c show ?thesis by simp
qed

theorem displaced_process_stays_out_witness:
  "seats_retaken ! 1 \<in> set (snd (seat_claim default_settings (demo_claim ''k1'' ''n1'' None False) (seconds 10) seats_retaken))"
proof -
  let ?c = "demo_claim ''k1'' ''n1'' None False"
  obtain res t' where c: "seat_claim default_settings ?c (seconds 10) seats_retaken = (res, t')" by fastforce
  have w: "seats_retaken ! 1 \<in> set seats_retaken" "displaced_from default_settings ?c ''engram-claude'' (seconds 10) (seats_retaken ! 1)"
    "\<not> sr_runtime ?c" by code_simp+
  have e: "norm (sr_project ?c) \<notin> set SEAT_EXEMPT_IDENTITIES" "''engram-claude'' \<notin> set SEAT_EXEMPT_IDENTITIES" by code_simp+
  from displaced_process_stays_out [OF seats_demo_steps(3) c w e] c show ?thesis by simp
qed

theorem claim_is_kept_witness:
  "\<exists>r t'. seat_claim default_settings (demo_claim ''k1'' ''n1'' None False) (seconds 9) seats_demo = (Inr r, t') \<and>
     cr_seat r = ''engram-claude'' \<and> \<not> cr_is_new r"
proof -
  let ?c = "demo_claim ''k1'' ''n1'' None False"
  have "case seat_claim default_settings ?c 0 [] of (Inr r, _) \<Rightarrow> cr_seat r = ''engram-claude'' | _ \<Rightarrow> False" by code_simp
  then obtain r where r: "seat_claim default_settings ?c 0 [] = (Inr r, seats_demo)" "cr_seat r = ''engram-claude''"
    unfolding seats_demo_def by (auto split: prod.splits sum.splits)
  have h: "nonce_of ?c \<noteq> None" "\<not> sr_runtime ?c" "norm (sr_project ?c) \<notin> set SEAT_EXEMPT_IDENTITIES"
    "\<not> list_ex (\<lambda>y. or_none (norm (sr_preferred ?c)) = Some y) SEAT_EXEMPT_IDENTITIES" by code_simp+
  from claim_is_kept [OF r(1) h, of "seconds 9"] r(2) show ?thesis by simp
qed

theorem one_holder_per_seat_witness:
  "length (filter (seat_at default_settings ''engram'' ''engram-claude'') seats_demo) \<le> 1 \<and> length seats_demo = 2"
proof -
  have "length seats_demo = 2" by code_simp
  with one_holder_per_seat [OF seats_demo_steps(1)] show ?thesis by blast
qed

theorem late_release_spares_the_successor_witness:
  "seats_retaken ! 1 \<in> set (snd (seat_release default_settings ''k1'' (Some ''engram'') None (Some ''n1'') (seconds 10) seats_retaken))"
proof -
  obtain res t' where c: "seat_release default_settings ''k1'' (Some ''engram'') None (Some ''n1'') (seconds 10) seats_retaken = (res, t')"
    by fastforce
  have h: "or_none (py_strip (or_empty (Some ''n1''))) = Some ''n1''" "seats_retaken ! 1 \<in> set seats_retaken"
    "seat_at default_settings (norm (Some ''engram'')) ''engram-claude'' (seats_retaken ! 1)"
    "jget_text (md (seats_retaken ! 1)) ''session_nonce'' \<noteq> Some ''n1''" by code_simp+
  from late_release_spares_the_successor [OF seats_demo_steps(3) c h] c show ?thesis by simp
qed

definition demo_death :: "instant \<Rightarrow> string option \<Rightarrow> death_req" where
  "demo_death died n =
     \<lparr>dr_session_key = ''k1'', dr_seat = ''engram-claude'', dr_lane = ''engram-claude'', dr_project = Some ''engram'',
      dr_provider = ''claude'', dr_host = ''host'', dr_died_at = died, dr_cause = ''exit'', dr_graceful = Some True,
      dr_certified_by = None, dr_nonce = n\<rparr>"

theorem certificate_replay_is_idle_witness:
  "\<not> dt_updated (fst (death_certify default_settings (demo_death 3 None) 20
     (snd (death_certify default_settings (demo_death 7 None) 10 seats_demo))))"
proof -
  obtain r t' where c: "death_certify default_settings (demo_death 3 None) 20
     (snd (death_certify default_settings (demo_death 7 None) 10 seats_demo)) = (r, t')" by fastforce
  have h: "norm (dr_project (demo_death 3 None)) = norm (dr_project (demo_death 7 None))"
    "cert_idem (demo_death 3 None) = cert_idem (demo_death 7 None)" "dr_died_at (demo_death 3 None) \<le> dr_died_at (demo_death 7 None)"
    by (simp_all add: demo_death_def cert_idem_def)
  from certificate_replay_is_idle [OF h c] c show ?thesis by simp
qed


definition parked_demo :: table where
  "parked_demo = [(new_row (cfg_primary_namespace default_settings) ''m1'' ''hello'' INBOX_SCOPE ''engram-red'' None 0)\<lparr>r_id := 1\<rparr>]"

theorem mail_waits_for_its_successor_witness:
  "\<exists>r t'. seat_claim default_settings (demo_claim ''k2'' ''n2'' (Some ''engram-red'') False) 0 parked_demo = (Inr r, t') \<and>
     InheritedMail ''engram-red'' \<in> set (cr_warning r)"
proof -
  let ?c = "demo_claim ''k2'' ''n2'' (Some ''engram-red'') False"
  have "case seat_claim default_settings ?c 0 parked_demo of (Inr r, _) \<Rightarrow> cr_seat r = ''engram-red'' \<and> cr_is_new r | _ \<Rightarrow> False"
    by code_simp
  then obtain r t' where r: "seat_claim default_settings ?c 0 parked_demo = (Inr r, t')" "cr_seat r = ''engram-red''" "cr_is_new r"
    by (auto split: prod.splits sum.splits)
  have "address_holds_mail default_settings ''engram-red'' parked_demo" by code_simp
  then show ?thesis using mail_waits_for_its_successor [OF r(1,3)] r(1,2) by simp
qed

text \<open>A store in which every name of the lane is a project of its own.\<close>

definition full_demo :: table where
  "full_demo = map (\<lambda>s. new_row (cfg_primary_namespace default_settings) (''project/'' @ s) ''project-root'' PROJECT_REGISTRY_SCOPE
     SEAT_USER_ID (Some s) 0) (seat_candidates ''engram'' ''claude'' None)"

lemma full_demo_candidates:
  assumes "s \<in> set (seat_candidates ''engram'' ''claude'' None)"
  shows "s \<notin> set SEAT_EXEMPT_IDENTITIES" "s \<in> set (fetch_known_roots default_settings (register_project default_settings ''engram'' 0 full_demo))"
proof -
  let ?r = "new_row (cfg_primary_namespace default_settings) (''project/'' @ s) ''project-root'' PROJECT_REGISTRY_SCOPE SEAT_USER_ID (Some s) 0"
  have p: "take 7 s = ''engram-''" using assms by (auto simp: seat_candidates_def base_name_def)
  then show e: "s \<notin> set SEAT_EXEMPT_IDENTITIES" by (auto simp: SEAT_EXEMPT_IDENTITIES_def)
  have "s \<noteq> ''engram''" using p by auto
  then have "?r \<in> set (register_project default_settings ''engram'' 0 full_demo)"
    unfolding register_project_def using assms
    by (intro keep_insert_update) (auto simp: full_demo_def ukey_of_def new_row_def)
  then show "s \<in> set (fetch_known_roots default_settings (register_project default_settings ''engram'' 0 full_demo))"
    using e by (auto simp: fetch_known_roots_def map_filter_def image_iff new_row_def intro!: bexI [of _ ?r])
qed

theorem claim_fails_only_when_full_witness:
  "\<exists>t'. seat_claim default_settings (demo_claim ''k2'' ''n2'' None False) 0 full_demo = (Inl ValueError, t') \<and>
     list_all (unavailable default_settings (demo_claim ''k2'' ''n2'' None False) 0 t')
       (claim_candidates default_settings (demo_claim ''k2'' ''n2'' None False))"
proof -
  let ?c = "demo_claim ''k2'' ''n2'' None False"
  let ?t0 = "register_project default_settings ''engram'' 0 full_demo"
  have c: "norm (sr_project ?c) = ''engram''" "provider_of ?c = ''claude''" "or_none (norm (sr_preferred ?c)) = None"
    "''engram'' \<notin> set SEAT_EXEMPT_IDENTITIES" "admitted_preference default_settings ?c ''engram'' = (None, [])" by code_simp+
  have "list_all (\<lambda>s. \<not> (grantable default_settings ?c (alloc_context default_settings ?c ''engram'' ''claude'' None 0 ?t0) 0 ?t0 s \<and> q s))
      (seat_candidates ''engram'' ''claude'' None)" for q
    using full_demo_candidates(2) by (auto simp: list_all_iff grantable_def reserved_name_def alloc_context_def)
  then have f: "start_allocation default_settings ?c ''engram'' ''claude'' None ws 0 ?t0 = (Inl ValueError, ?t0)" for ws
    by (simp add: start_allocation_def allocate_Inl)
  have "held_rows default_settings ''engram'' k ?t0 = []" for k
    by (auto simp: held_rows_def filter_empty_conv register_project_def insert_do_update_def full_demo_def
          seat_row_def new_row_def sql_update_def touch_def split: option.split)
  then have "in_order b (held_rows default_settings ''engram'' k ?t0) = []" for b k by (simp add: in_order_def)
  with c f have "seat_claim default_settings ?c 0 full_demo = (Inl ValueError, ?t0)"
    by (simp add: seat_claim_def Let_def list_ex_iff)
  with claim_fails_only_when_full [OF this] show ?thesis by blast
qed


section \<open>Where the registry departs from its comments\<close>

text \<open>The comment of the continuity step says that a nonce displaced from a seat never regains it.
  A rename at run time does regain it: the displaced process is seated elsewhere under the same
  session key, and its move to the old name overwrites the row because the session keys agree.\<close>

definition seats_aside :: table where
  "seats_aside = snd (seat_claim default_settings (demo_claim ''k1'' ''n1'' None False) (seconds 10) seats_retaken)"

lemma rename_reopens_the_door:
  "list_ex (displaced_from default_settings (demo_claim ''k1'' ''n1'' None False) ''engram-claude'' (seconds 20)) seats_aside \<and>
   (case seat_claim default_settings (demo_claim ''k1'' ''n1'' (Some ''engram-claude'') True) (seconds 20) seats_aside of
      (Inr r, t') \<Rightarrow> cr_seat r = ''engram-claude'' \<and>
        map_option (\<lambda>r. jget_str (md r) ''session_nonce'') (fetchrow (seat_at default_settings ''engram'' ''engram-claude'') t') = Some (Some ''n1'')
    | _ \<Rightarrow> False)"
  by code_simp

text \<open>A certificate is meant for the occupant that died. Take-over keeps the row's creation time,
  so a late certificate without a nonce for the former occupant passes for one of its successor:
  the chair of a live session counts as certified dead.\<close>

definition seats_succeeded :: table where
  "seats_succeeded = snd (seat_claim default_settings (demo_claim ''k2'' ''n2'' None False) (seconds 700000) seats_demo)"

lemma late_certificate_hits_the_successor:
  "case fetchrow (seat_at default_settings ''engram'' ''engram-claude'') seats_succeeded of
     Some w \<Rightarrow> jget_str (md w) ''session_key'' = Some ''k2'' \<and> \<not> cert_is_for_this_occupant (Some w) \<and>
       cert_is_for_this_occupant (fetchrow (seat_at default_settings ''engram'' ''engram-claude'')
         (snd (death_certify default_settings (demo_death 7 None) (seconds 700001) seats_succeeded)))
   | None \<Rightarrow> False"
  by code_simp

end
