(* ===== verification/Register.thy ===== *)
theory Register
  imports Seat_Claims Principals
begin

text \<open>
  The read side of the seat registry of \<^verbatim>\<open>server/services/session_registry.py\<close>: the list of seats,
  the register of every name the store holds with what the allocator would do with it, the
  census of projects, and the advisories for destinations no project roots. The register's
  verdict is shown to be the one the allocator acts on, and its list of names to be complete.

  Ages are in tenths of a second, as the code rounds them. A result that the code renders as
  a text (an advisory) is the address the text is about.
\<close>

section \<open>Seats\<close>

definition GENERATED_KEY_PREFIX :: string where
  "GENERATED_KEY_PREFIX = ''auto-''"

definition asked_name :: "string option \<Rightarrow> string option" where
  "asked_name v = map_option (\<lambda>p. norm (Some p)) (Option.bind v or_none)"

definition seat_scope_row :: "settings \<Rightarrow> string option \<Rightarrow> row \<Rightarrow> bool" where
  "seat_scope_row cfg project r \<longleftrightarrow>
     r_namespace r = cfg_primary_namespace cfg \<and> r_scope r = SEAT_SCOPE \<and> in_project project (r_project r)"

text \<open>The \<^verbatim>\<open>LEFT JOIN\<close> of a seat row with the presence rows of its name.\<close>

definition with_presence :: "table \<Rightarrow> row \<Rightarrow> (row \<times> row option) list" where
  "with_presence t s =
     (case filter (\<lambda>p. r_namespace p = r_namespace s \<and> r_scope p = PRESENCE_SCOPE \<and> r_project s = Some (r_user_id p) \<and>
                       r_key p = ''presence/'' @ drop 5 (r_key s)) t of
        [] \<Rightarrow> [(s, None)]
      | ps \<Rightarrow> map (\<lambda>p. (s, Some p)) ps)"

definition presence_md :: "row option \<Rightarrow> jobj" where
  "presence_md p = (case p of None \<Rightarrow> [] | Some r \<Rightarrow> md r)"

definition generated_key :: "json \<Rightarrow> bool" where
  "generated_key j = (case j of JStr k \<Rightarrow> startswith k GENERATED_KEY_PREFIX | _ \<Rightarrow> False)"

record seat_view =
  sv_seat :: string
  sv_project :: "string option"
  sv_provider :: json
  sv_host :: json
  sv_session_key :: json
  sv_generated :: bool
  sv_age_tenths :: int
  sv_watcher :: "(bool \<times> instant) option"

definition seat_view_of :: "instant \<Rightarrow> row \<times> row option \<Rightarrow> seat_view" where
  "seat_view_of now x =
     (let r = fst x; m = md r
      in \<lparr>sv_seat = seat_name r, sv_project = r_project r, sv_provider = jval m ''provider'', sv_host = jval m ''host'',
          sv_session_key = jval m ''session_key'', sv_generated = generated_key (jval m ''session_key''),
          sv_age_tenths = round_tenths (now - r_last_used_at r), sv_watcher = watcher_state (presence_md (snd x)) now\<rparr>)"

definition seat_list :: "settings \<Rightarrow> string option \<Rightarrow> string option \<Rightarrow> instant \<Rightarrow> table \<Rightarrow> seat_view list" where
  "seat_list cfg project session_key now t =
     map (seat_view_of now) (concat (map (with_presence t) (sort_key (\<lambda>r. - r_last_used_at r)
       (filter (\<lambda>r. seat_scope_row cfg (asked_name project) r \<and>
          (case asked_name session_key of None \<Rightarrow> True | Some k \<Rightarrow> jget_text (md r) ''session_key'' = Some k)) t))))"

section \<open>Death evidence\<close>

definition keep_latest :: "string \<Rightarrow> jobj \<Rightarrow> (string \<times> death_cert) list \<Rightarrow> (string \<times> death_cert) list" where
  "keep_latest k m certs =
     (case map_of certs k of
        None \<Rightarrow> AList.update k (cert_of m) certs
      | Some prior \<Rightarrow> if died_text (dc_died_at prior) < died_text (jval m ''died_at'')
                      then AList.update k (cert_of m) certs else certs)"

text \<open>A certificate that names its session counts for that session alone.\<close>

definition index_cert ::
  "jobj \<Rightarrow> (string \<times> death_cert) list \<times> (string \<times> death_cert) list \<Rightarrow> (string \<times> death_cert) list \<times> (string \<times> death_cert) list" where
  "index_cert m idx =
     (case idx of (by_key, by_seat) \<Rightarrow>
        case Option.bind (jget_str m ''session_key'') or_none of
          Some k \<Rightarrow> (keep_latest k m by_key, by_seat)
        | None \<Rightarrow> (case Option.bind (jget_str m ''seat'') or_none of
              Some s \<Rightarrow> (by_key, keep_latest s m by_seat)
            | None \<Rightarrow> (by_key, by_seat)))"

definition death_index :: "settings \<Rightarrow> string option \<Rightarrow> table \<Rightarrow> (string \<times> death_cert) list \<times> (string \<times> death_cert) list" where
  "death_index cfg project t =
     fold (\<lambda>r. index_cert (md r)) (filter (\<lambda>r. r_namespace r = cfg_primary_namespace cfg \<and> r_scope r = DEATH_SCOPE \<and>
       in_project project (r_project r)) t) ([], [])"

text \<open>Evidence of life after the time of death voids a certificate.\<close>

definition unless_lived :: "instant option list \<Rightarrow> death_cert \<Rightarrow> death_cert option" where
  "unless_lived evidence d =
     (case dc_died_at d of
        JTime died \<Rightarrow> if list_ex (\<lambda>e. case e of None \<Rightarrow> False | Some u \<Rightarrow> died < u) evidence then None else Some d
      | _ \<Rightarrow> Some d)"

definition seat_death ::
  "(string \<times> death_cert) list \<times> (string \<times> death_cert) list \<Rightarrow> row \<Rightarrow> row option \<Rightarrow> death_cert option" where
  "seat_death idx r p =
     (let named = Option.bind (Option.bind (jget_str (md r) ''session_key'') or_none) (map_of (fst idx))
      in Option.bind (case named of None \<Rightarrow> map_of (snd idx) (seat_name r) | Some d \<Rightarrow> Some d)
           (unless_lived [Some (r_last_used_at r), map_option r_last_used_at p, jget_time (md r) ''claimed_at'']))"

section \<open>The register\<close>

definition person_names :: "server \<Rightarrow> string list" where
  "person_names s = map (\<lambda>p. norm (Some (p_name p))) (filter (\<lambda>p. p_type p = ''human'' \<and> p_active p) (principals s))"

definition fixed_reason :: "string list \<Rightarrow> string \<Rightarrow> skip_reason option" where
  "fixed_reason persons addr =
     (let bare = before (CHR ''@'') addr
      in if bare \<in> set SEAT_EXEMPT_IDENTITIES then Some ExemptRole
         else if bare \<in> set persons then Some PersonAddress else None)"

definition register_allocation ::
  "skip_reason option \<Rightarrow> bool \<Rightarrow> bool \<Rightarrow> int option \<Rightarrow> nat \<Rightarrow> int option \<Rightarrow> instant option \<Rightarrow> bool \<Rightarrow> decision" where
  "register_allocation fixed root lane age mail_n presence_age last_used_at certified_dead =
     (case fixed of
        Some x \<Rightarrow> skipped x
      | None \<Rightarrow> allocation_decision root lane age (mail_n \<noteq> 0)
          (case presence_age of None \<Rightarrow> False | Some a \<Rightarrow> a < seconds SEAT_LIVE_SECONDS)
          last_used_at False certified_dead)"

definition open_mail :: "settings \<Rightarrow> row \<Rightarrow> bool" where
  "open_mail cfg r \<longleftrightarrow> inbox_row cfg r \<and> \<not> archived r \<and> inbox_status r = INBOX_OPEN"

definition mail_at :: "settings \<Rightarrow> table \<Rightarrow> string \<Rightarrow> nat" where
  "mail_at cfg t addr = sql_count (\<lambda>r. open_mail cfg r \<and> r_user_id r = addr) t"

record register_entry =
  rg_address :: string
  rg_mail_only :: bool
  rg_project :: "string option"
  rg_provider :: json
  rg_host :: json
  rg_hosts_seen :: json
  rg_session_key :: json
  rg_generated :: bool
  rg_runtime :: bool
  rg_preferred_seat :: json
  rg_claimed_at :: json
  rg_last_spoke_at :: "instant option"
  rg_age_tenths :: "int option"
  rg_watcher :: "(bool \<times> instant) option"
  rg_watch :: "watch_view option"
    \<comment> \<open>\<open>None\<close> is \<^verbatim>\<open>unheld\<close>; mail-only entries have no such field\<close>
  rg_farewell_at :: json
  rg_death_certified :: bool
  rg_death :: "death_cert option"
  rg_mail :: nat
  rg_allocation :: decision

definition is_root :: "settings \<Rightarrow> table \<Rightarrow> string \<Rightarrow> bool" where
  "is_root cfg t addr \<longleftrightarrow> before (CHR ''@'') addr \<in> set (fetch_known_roots cfg t)"

definition seat_entry :: "settings \<Rightarrow> string option \<Rightarrow> instant \<Rightarrow> server \<Rightarrow> row \<times> row option \<Rightarrow> register_entry" where
  "seat_entry cfg project now s x =
     (let r = fst x; p = snd x; t = memories s; m = md r; seat = seat_name r; age = now - r_last_used_at r
      in \<lparr>rg_address = seat, rg_mail_only = False, rg_project = r_project r, rg_provider = jval m ''provider'',
          rg_host = jval m ''host'', rg_hosts_seen = jval (presence_md p) ''hosts_seen'',
          rg_session_key = jval m ''session_key'', rg_generated = generated_key (jval m ''session_key''),
          rg_runtime = jtruthy (jval m ''runtime''), rg_preferred_seat = jval m ''preferred_seat'',
          rg_claimed_at = jval m ''claimed_at'', rg_last_spoke_at = Some (r_last_used_at r),
          rg_age_tenths = Some (round_tenths age), rg_watcher = watcher_state (presence_md p) now,
          rg_watch = map_of (watch_by_seat cfg now t) seat, rg_farewell_at = jval (presence_md p) ''farewell_at'',
          rg_death_certified = jtruthy (jval m ''death_certified''),
          rg_death = seat_death (death_index cfg project t) r p, rg_mail = mail_at cfg t seat,
          rg_allocation =
            register_allocation (fixed_reason (person_names s) seat) (is_root cfg t seat)
              (case r_project r of None \<Rightarrow> False | Some q \<Rightarrow> is_reserved_lane cfg seat q) (Some age) (mail_at cfg t seat)
              (map_option (\<lambda>q. now - r_last_used_at q) p) (Some (r_last_used_at r)) (cert_is_for_this_occupant (Some r))\<rparr>)"

definition mail_entry :: "settings \<Rightarrow> string option \<Rightarrow> server \<Rightarrow> string \<Rightarrow> register_entry" where
  "mail_entry cfg project s addr =
     (let t = memories s
      in \<lparr>rg_address = addr, rg_mail_only = True, rg_project = None, rg_provider = JNull, rg_host = JNull,
          rg_hosts_seen = JNull, rg_session_key = JNull, rg_generated = False, rg_runtime = False,
          rg_preferred_seat = JNull, rg_claimed_at = JNull, rg_last_spoke_at = None, rg_age_tenths = None,
          rg_watcher = None, rg_watch = None, rg_farewell_at = JNull, rg_death_certified = False,
          rg_death = map_of (snd (death_index cfg project t)) addr, rg_mail = mail_at cfg t addr,
          rg_allocation = register_allocation (fixed_reason (person_names s) addr) (is_root cfg t addr) False None
                            (mail_at cfg t addr) None None False\<rparr>)"

definition register_seats :: "settings \<Rightarrow> string option \<Rightarrow> table \<Rightarrow> (row \<times> row option) list" where
  "register_seats cfg project t =
     concat (map (with_presence t)
       (sort_key (\<lambda>r. (case r_project r of None \<Rightarrow> (1::nat, '''') | Some p \<Rightarrow> (0, p), r_key r))
         (filter (seat_scope_row cfg project) t)))"

definition mail_only_addresses :: "settings \<Rightarrow> string option \<Rightarrow> table \<Rightarrow> string list" where
  "mail_only_addresses cfg project t =
     filter (\<lambda>a. a \<notin> set (map (\<lambda>x. seat_name (fst x)) (register_seats cfg project t)) \<and> \<not> startswith a ''#'' \<and>
       (case project of None \<Rightarrow> True
        | Some p \<Rightarrow> before (CHR ''@'') a = p \<or> startswith (before (CHR ''@'') a) (p @ ''-'')))
       (sorted_set (map r_user_id (filter (open_mail cfg) t)))"

definition address_register :: "settings \<Rightarrow> string option \<Rightarrow> instant \<Rightarrow> server \<Rightarrow> register_entry list" where
  "address_register cfg project0 now s =
     (let project = asked_name project0; t = memories s
      in map (seat_entry cfg project now s) (register_seats cfg project t) @
         map (mail_entry cfg project s) (mail_only_addresses cfg project t))"

section \<open>Projects\<close>

definition PROJECT_DORMANT_SECONDS :: int where
  "PROJECT_DORMANT_SECONDS = SEAT_GRACE_SECONDS"

record project_entry =
  pe_project :: "string option"
  pe_first_seen :: instant
  pe_last_active :: instant
  pe_registered :: bool

definition observed_project :: "row list \<Rightarrow> string option \<Rightarrow> project_entry" where
  "observed_project rows p =
     (let mine = filter (\<lambda>r. r_project r = p) rows
      in \<lparr>pe_project = p, pe_first_seen = Min (set (map r_created_at mine)),
          pe_last_active = Max (set (map r_last_used_at mine)), pe_registered = False\<rparr>)"

definition merge_registered :: "row \<Rightarrow> (string option \<times> project_entry) list \<Rightarrow> (string option \<times> project_entry) list" where
  "merge_registered r es =
     (let e = (case map_of es (r_project r) of
                 None \<Rightarrow> \<lparr>pe_project = r_project r, pe_first_seen = r_created_at r, pe_last_active = r_last_used_at r, pe_registered = True\<rparr>
               | Some x \<Rightarrow> x)
      in AList.update (r_project r)
           \<lparr>pe_project = pe_project e, pe_first_seen = min (r_created_at r) (pe_first_seen e),
            pe_last_active = max (r_last_used_at r) (pe_last_active e), pe_registered = True\<rparr> es)"

definition project_registry :: "settings \<Rightarrow> instant \<Rightarrow> table \<Rightarrow> (project_entry \<times> bool) list" where
  "project_registry cfg now t =
     (let here = filter (\<lambda>r. r_namespace r = cfg_primary_namespace cfg) t;
          seats = filter (\<lambda>r. r_scope r = SEAT_SCOPE \<and> r_project r \<noteq> None) here;
          regs = filter (\<lambda>r. r_scope r = PROJECT_REGISTRY_SCOPE) here;
          observed = map (\<lambda>p. (p, observed_project seats p)) (remdups (map r_project seats));
          merged = fold merge_registered regs observed
      in map (\<lambda>e. (e, seconds PROJECT_DORMANT_SECONDS < now - pe_last_active e))
           (sort_key (\<lambda>e. - pe_last_active e) (map snd merged)))"

section \<open>Advisories\<close>

definition advisory_candidates :: "string option list \<Rightarrow> string list" where
  "advisory_candidates addrs = filter (\<lambda>a. a \<noteq> '''' \<and> \<not> startswith a ''#'') (map norm addrs)"

definition known_addresses :: "settings \<Rightarrow> string list \<Rightarrow> table \<Rightarrow> string list" where
  "known_addresses cfg cands t =
     map (\<lambda>r. after (CHR ''/'') (r_key r)) (filter (\<lambda>r.
       r_namespace r = cfg_primary_namespace cfg \<and> r_scope r \<in> set [SEAT_SCOPE, PRESENCE_SCOPE] \<and>
       r_key r \<in> set (map (\<lambda>a. ''seat/'' @ a) cands @ map (\<lambda>a. ''presence/'' @ a) cands)) t)"

definition rooted_in :: "string list \<Rightarrow> string \<Rightarrow> bool" where
  "rooted_in projects bare = list_ex (\<lambda>p. bare = p \<or> startswith bare (p @ ''-'')) projects"

definition unknown_root_advisories :: "settings \<Rightarrow> string option list \<Rightarrow> server \<Rightarrow> string list" where
  "unknown_root_advisories cfg addrs s =
     (let cands = advisory_candidates addrs; t = memories s
      in filter (\<lambda>a. let bare = before (CHR ''@'') a in
           CHR ''-'' \<in> set bare \<and> bare \<notin> set SEAT_EXEMPT_IDENTITIES \<and> bare \<notin> set (person_names s) \<and>
           a \<notin> set (known_addresses cfg cands t) \<and> \<not> rooted_in (fetch_known_roots cfg t) bare) cands)"


section \<open>The register and the allocator\<close>

lemma with_presence_fst: "x \<in> set (with_presence t s) \<Longrightarrow> fst x = s" "with_presence t s \<noteq> []"
  by (auto simp: with_presence_def split: list.splits)

lemma register_seats_rows:
  "x \<in> set (register_seats cfg project t) \<Longrightarrow>
     fst x \<in> set t \<and> seat_scope_row cfg project (fst x) \<and> x \<in> set (with_presence t (fst x))"
  by (auto simp: register_seats_def dest: with_presence_fst(1))

lemma register_seats_fst: "fst ` set (register_seats cfg project t) = {r \<in> set t. seat_scope_row cfg project r}"
proof -
  have "\<exists>x\<in>set (register_seats cfg project t). fst x = r" if "r \<in> set t" "seat_scope_row cfg project r" for r
  proof -
    obtain x where "x \<in> set (with_presence t r)" using with_presence_fst(2) [of t r] by (meson last_in_set)
    with that with_presence_fst(1) [of x t r] show ?thesis by (auto simp: register_seats_def)
  qed
  then show ?thesis using register_seats_rows by (fastforce simp: image_iff)
qed

lemma mail_at_pos: "0 < mail_at cfg t x \<longleftrightarrow> address_holds_mail cfg x t"
  by (auto simp: mail_at_def sql_count_def address_holds_mail_def list_ex_iff open_mail_def filter_empty_conv)

text \<open>The register lists every name the store holds and no other: those some seat row has
  taken, and those that hold unread mail, channels apart.\<close>

theorem register_lists_every_held_name:
  "x \<in> rg_address ` set (address_register cfg None now s) \<longleftrightarrow>
     list_ex (\<lambda>r. seat_scope_row cfg None r \<and> seat_name r = x) (memories s) \<or>
     (address_holds_mail cfg x (memories s) \<and> \<not> startswith x ''#'')"
proof -
  let ?t = "memories s"
  have seats: "rg_address ` set (map (seat_entry cfg None now s) (register_seats cfg None ?t)) =
      seat_name ` {r \<in> set ?t. seat_scope_row cfg None r}"
    unfolding register_seats_fst [symmetric] by (simp add: image_image seat_entry_def Let_def)
  have named: "seat_name ` {r \<in> set ?t. seat_scope_row cfg None r} = set (map (\<lambda>x. seat_name (fst x)) (register_seats cfg None ?t))"
    unfolding register_seats_fst [symmetric] by (simp add: image_image)
  have mail: "x \<in> set (sorted_set (map r_user_id (filter (open_mail cfg) ?t))) \<longleftrightarrow> address_holds_mail cfg x ?t"
    by (auto simp: sorted_set_def address_holds_mail_def open_mail_def list_ex_iff)
  have mails: "rg_address ` set (map (mail_entry cfg None s) as) = set as" for as
    by (simp add: image_image mail_entry_def Let_def)
  have "x \<in> rg_address ` set (address_register cfg None now s) \<longleftrightarrow>
      x \<in> seat_name ` {r \<in> set ?t. seat_scope_row cfg None r} \<or> x \<in> set (mail_only_addresses cfg None ?t)"
    unfolding address_register_def Let_def asked_name_def bind.bind_lzero option.map set_append image_Un Un_iff seats mails ..
  also have "\<dots> \<longleftrightarrow> x \<in> seat_name ` {r \<in> set ?t. seat_scope_row cfg None r} \<or> (address_holds_mail cfg x ?t \<and> \<not> startswith x ''#'')"
    unfolding mail_only_addresses_def named using mail by auto
  finally show ?thesis by (auto simp: list_ex_iff)
qed

definition seats_owned :: "settings \<Rightarrow> table \<Rightarrow> bool" where
  "seats_owned cfg t \<longleftrightarrow> list_all (\<lambda>r. seat_scope_row cfg None r \<longrightarrow> r_user_id r = SEAT_USER_ID) t"

lemma joined_presence:
  assumes "presence_ok cfg t" and "seat_at cfg p x r" and "(r, q) \<in> set (with_presence t r)"
  shows "fetchrow (presence_at cfg p x) t = q"
proof -
  have same: "(\<lambda>w. r_namespace w = r_namespace r \<and> r_scope w = PRESENCE_SCOPE \<and> r_project r = Some (r_user_id w) \<and>
      r_key w = ''presence/'' @ drop 5 (r_key r)) = presence_at cfg p x"
    using assms(2) by (auto simp: seat_at_def seat_row_def presence_at_def presence_row_def)
  show ?thesis
  proof (cases q)
    case None
    then have "filter (presence_at cfg p x) t = []" using assms(3) unfolding with_presence_def same by (auto split: list.splits)
    with None show ?thesis by (simp add: fetchrow_None filter_empty_conv)
  next
    case (Some w)
    then have "w \<in> set (filter (presence_at cfg p x) t)" using assms(3) unfolding with_presence_def same
      by (cases "filter (presence_at cfg p x) t") (auto simp del: set_filter)
    then have w: "w \<in> set t" "presence_at cfg p x w" by simp_all
    have "fetchrow (presence_at cfg p x) t = Some w"
      using presence_at_unique [OF assms(1) _ _ w] w by (intro fetchrow_is) blast+
    with Some show ?thesis by simp
  qed
qed

text \<open>C36. The register and the allocator cannot drift apart: for a seat the register lists (of no
  role and no person), the register's verdict is a refusal when the allocator reserves the name,
  and otherwise is the very decision the allocator takes on that candidate, reason and end of
  grace included.\<close>

theorem register_agrees_with_allocator:
  assumes "presence_ok cfg (memories s)" and "seats_owned cfg (memories s)"
    and "e \<in> set (address_register cfg project now s)" and "\<not> rg_mail_only e" and "rg_project e = Some (ac_project a)"
    and "fixed_reason (person_names s) (rg_address e) = None" and "CHR ''@'' \<notin> set (rg_address e)"
    and "ac_known_roots a = fetch_known_roots cfg (memories s)"
  shows "if reserved_name cfg a (rg_address e) then de_would_skip (rg_allocation e)
    else rg_allocation e = candidate_decision cfg a now (memories s) (rg_address e)"
proof -
  let ?t = "memories s" and ?p = "ac_project a"
  obtain r q where e: "(r, q) \<in> set (register_seats cfg (asked_name project) ?t)" "e = seat_entry cfg (asked_name project) now s (r, q)"
    using assms(3,4) by (auto simp: address_register_def Let_def mail_entry_def)
  let ?x = "seat_name r"
  have x: "rg_address e = ?x" "r_project r = Some ?p" using e(2) assms(5) by (simp_all add: seat_entry_def Let_def)
  have r: "r \<in> set ?t" "seat_scope_row cfg (asked_name project) r" "(r, q) \<in> set (with_presence ?t r)"
    using register_seats_rows [OF e(1)] by simp_all
  then have "seat_row cfg r" using assms(2) by (auto simp: seats_owned_def seat_scope_row_def in_project_def seat_row_def list_all_iff)
  then have at: "seat_at cfg ?p ?x r" using seat_at_iff [OF assms(1) r(1)] x(2) by (simp add: seat_name_def)
  have row: "fetchrow (seat_at cfg ?p ?x) ?t = Some r"
    using at r(1) seat_at_unique [OF assms(1) _ _ r(1) at] by (intro fetchrow_is) blast+
  have fresh: "presence_is_fresh cfg ?x ?p now ?t =
      (case map_option (\<lambda>w. now - r_last_used_at w) q of None \<Rightarrow> False | Some d \<Rightarrow> d < seconds SEAT_LIVE_SECONDS)"
    using joined_presence [OF assms(1) at r(3)] by (simp add: presence_is_fresh_def split: option.split)
  have bare: "before (CHR ''@'') ?x = ?x" using assms(7) x(1) by (auto simp: before_def takeWhile_eq_all_conv)
  have root: "is_root cfg ?t ?x \<longleftrightarrow> ?x \<in> set (ac_known_roots a)" by (simp add: is_root_def bare assms(8))
  have self: "?x \<in> set (ac_known_roots a)" if "is_reserved_root cfg ?x ?p"
    using that r(1) \<open>seat_row cfg r\<close> x(2) assms(8)
    by (auto simp: is_reserved_root_def fetch_known_roots_def map_filter_def seat_row_def image_iff intro!: bexI [of _ r])
  let ?root = "is_root cfg ?t ?x" and ?lane = "is_reserved_lane cfg ?x ?p"
  have reserved: "reserved_name cfg a ?x \<longleftrightarrow> ?root \<or> ?lane" using self root by (auto simp: reserved_name_def)
  have alloc: "rg_allocation e = allocation_decision ?root ?lane (Some (now - r_last_used_at r)) (address_holds_mail cfg ?x ?t)
      (presence_is_fresh cfg ?x ?p now ?t) (Some (r_last_used_at r)) False (cert_is_for_this_occupant (Some r))"
    using e(2) assms(6) x by (simp add: seat_entry_def Let_def register_allocation_def fresh mail_at_pos)
  show ?thesis
  proof (cases "?root \<or> ?lane")
    case True
    then show ?thesis using reserved by (auto simp: alloc x(1) allocation_decision_def skipped_def)
  next
    case False
    have "candidate_decision cfg a now ?t ?x = allocation_decision False False (Some (now - r_last_used_at r)) (address_holds_mail cfg ?x ?t)
        (presence_is_fresh cfg ?x ?p now ?t) (Some (r_last_used_at r)) False (cert_is_for_this_occupant (Some r))"
      unfolding candidate_decision_def Let_def row row_age_def option.map option.case
      by (cases "now - r_last_used_at r < seconds SEAT_GRACE_SECONDS \<or> address_holds_mail cfg ?x ?t")
        (simp_all add: allocation_decision_def)
    with False reserved show ?thesis by (simp add: alloc x(1))
  qed
qed


section \<open>Witnesses\<close>

definition register_demo :: server where
  "register_demo = empty_server\<lparr>memories := seats_demo\<rparr>"

definition demo_context :: alloc_ctx where
  "demo_context = alloc_context default_settings (demo_claim ''k2'' ''n2'' None False) ''engram'' ''claude'' None (seconds 5) seats_demo"

theorem register_agrees_with_allocator_witness:
  "rg_allocation (hd (address_register default_settings None (seconds 5) register_demo)) =
     candidate_decision default_settings demo_context (seconds 5) seats_demo ''engram-claude'' \<and>
   candidate_decision default_settings demo_context (seconds 5) seats_demo ''engram-claude'' = skipped LiveHolder"
proof -
  let ?e = "hd (address_register default_settings None (seconds 5) register_demo)"
  have m: "memories register_demo = seats_demo" by (simp add: register_demo_def)
  have ok: "presence_ok default_settings (memories register_demo)" using seats_demo_steps(2) by (simp add: m)
  have own: "seats_owned default_settings (memories register_demo)" by code_simp
  have "address_register default_settings None (seconds 5) register_demo \<noteq> []" by code_simp
  then have e: "?e \<in> set (address_register default_settings None (seconds 5) register_demo)" by simp
  have h: "\<not> rg_mail_only ?e" "rg_project ?e = Some (ac_project demo_context)"
    "fixed_reason (person_names register_demo) (rg_address ?e) = None" "CHR ''@'' \<notin> set (rg_address ?e)"
    "ac_known_roots demo_context = fetch_known_roots default_settings (memories register_demo)" by code_simp+
  have "rg_address ?e = ''engram-claude''" "\<not> reserved_name default_settings demo_context ''engram-claude''"
    "candidate_decision default_settings demo_context (seconds 5) seats_demo ''engram-claude'' = skipped LiveHolder" by code_simp+
  with register_agrees_with_allocator [OF ok own e h] show ?thesis by (simp add: m)
qed

end
