(* ===== verification/Climb.thy ===== *)
theory Climb
  imports Register
begin

text \<open>
  The two janitors of \<^verbatim>\<open>server/services/session_registry.py\<close>: an unanswered ask below a dead or
  dormant address climbs one level towards its project's root, and chatter below a root is
  resolved once its epoch is spent. Shown are the shape of the address tree (a climb goes to
  the parent and the parent's parent is the root), that climbing runs out after at most two
  steps a message, and that asks and mail at a root are never swept.

  Each pass reads its rows, the handled verdicts, the known roots and the register once, as the
  code does, and then updates row after row.
\<close>

section \<open>The address tree\<close>

definition CLIMB_LANE_DWELL_SECONDS :: int where
  "CLIMB_LANE_DWELL_SECONDS = SEAT_LIVE_SECONDS * 3"

definition DEEP_CHATTER_EPOCH_SECONDS :: int where
  "DEEP_CHATTER_EPOCH_SECONDS = 259200"

datatype node_kind = Root | Lane | Incarnation

text \<open>\<^verbatim>\<open>max(..., key=len, default=None)\<close>: the first of the longest.\<close>

fun longest :: "string list \<Rightarrow> string option" where
  "longest [] = None"
| "longest (x # xs) =
     (case longest xs of None \<Rightarrow> Some x | Some y \<Rightarrow> if length x < length y then Some y else Some x)"

text \<open>\<^verbatim>\<open>s.rpartition("-")\<close>, without the separator.\<close>

definition rpartition_dash :: "string \<Rightarrow> string \<times> string" where
  "rpartition_dash s =
     (if CHR ''-'' \<in> set s
      then (rev (after (CHR ''-'') (rev s)), rev (before (CHR ''-'') (rev s))) else ('''', s))"

definition under_root :: "string \<Rightarrow> string \<Rightarrow> bool" where
  "under_root bare r \<longleftrightarrow> bare = r \<or> startswith bare (r @ ''-'')"

definition parse_tree_node :: "string \<Rightarrow> string list \<Rightarrow> (node_kind \<times> string \<times> string) option" where
  "parse_tree_node addr roots =
     (let bare = before (CHR ''@'') addr
      in case longest (filter (under_root bare) roots) of
           None \<Rightarrow> None
         | Some root \<Rightarrow>
             if bare = root then Some (Root, root, '''')
             else let rest = drop (length root + 1) bare
                  in if rest \<in> set LANE_PROVIDERS then Some (Lane, root, root)
                     else case rpartition_dash rest of
                       (head, ordinal) \<Rightarrow>
                         if head \<in> set LANE_PROVIDERS \<and> isdigit ordinal
                         then Some (Incarnation, root, root @ ''-'' @ head) else None)"

section \<open>Climbing\<close>

datatype climb_skip =
    SkHandled
  | SkUnknown
  | SkNotTree
  | SkRoot
  | SkExempt
  | SkHolderAlive
  | SkNoEvidence
  | SkLaneActive
  | SkProjectQuiet

datatype climb_reason =
    HolderDeathCertified
  | HolderFarewellObserved
  | LaneDormant

definition climb_candidate :: "settings \<Rightarrow> row \<Rightarrow> bool" where
  "climb_candidate cfg r \<longleftrightarrow>
     open_mail cfg r \<and> py_lower (or_empty (jget_text (md r) ''intent'')) \<in> set ASK_INTENTS \<and>
     \<not> is_meeting_thread (jget_text (md r) ''thread_id'')"

text \<open>\<^verbatim>\<open>{e["address"]: e for e in ...}\<close>.\<close>

definition register_dict :: "register_entry list \<Rightarrow> (string \<times> register_entry) list" where
  "register_dict es = fold (\<lambda>e. AList.update (rg_address e) e) es []"

definition alive_entry :: "register_entry \<Rightarrow> bool" where
  "alive_entry e \<longleftrightarrow> de_reason (rg_allocation e) \<in> set [Some LiveHolder, Some PresenceFresh]"

definition project_fresh :: "string list \<Rightarrow> (string \<times> register_entry) list \<Rightarrow> string \<Rightarrow> bool" where
  "project_fresh roots reg root =
     list_ex (\<lambda>(a, e). (case parse_tree_node a roots of None \<Rightarrow> False | Some (_, r, _) \<Rightarrow> r = root) \<and> alive_entry e) reg"

definition lane_subtree_quiet_since :: "string list \<Rightarrow> (string \<times> register_entry) list \<Rightarrow> string \<Rightarrow> int option" where
  "lane_subtree_quiet_since roots reg lane =
     (let ages = List.map_filter (\<lambda>(a, e).
            if a = lane \<or> (case parse_tree_node a roots of None \<Rightarrow> False | Some (_, _, p) \<Rightarrow> p = lane)
            then rg_age_tenths e else None) reg
      in if ages = [] then None else Some (Min (set ages)))"

definition climb_verdict ::
  "string list \<Rightarrow> (string \<times> register_entry) list \<Rightarrow> inbox_message \<Rightarrow> climb_skip + climb_reason \<times> string" where
  "climb_verdict roots reg m =
     (let bare = before (CHR ''@'') (im_to m)
      in case im_handled m of
           Some True \<Rightarrow> Inl SkHandled
         | None \<Rightarrow> Inl SkUnknown
         | Some False \<Rightarrow>
             if bare \<in> set SEAT_EXEMPT_IDENTITIES then Inl SkExempt
             else case parse_tree_node (im_to m) roots of
               None \<Rightarrow> Inl SkNotTree
             | Some (Root, _, _) \<Rightarrow> Inl SkRoot
             | Some (Incarnation, root, parent) \<Rightarrow>
                 (case map_of reg bare of
                    None \<Rightarrow> Inl SkNoEvidence
                  | Some e \<Rightarrow>
                      if alive_entry e then Inl SkHolderAlive
                      else if rg_death e \<noteq> None then Inr (HolderDeathCertified, parent)
                      else if jtruthy (rg_farewell_at e) then Inr (HolderFarewellObserved, parent)
                      else Inl SkNoEvidence)
             | Some (Lane, root, parent) \<Rightarrow>
                 if \<not> project_fresh roots reg root then Inl SkProjectQuiet
                 else case lane_subtree_quiet_since roots reg bare of
                   Some quiet \<Rightarrow> if quiet < 10 * CLIMB_LANE_DWELL_SECONDS then Inl SkLaneActive
                                  else Inr (LaneDormant, parent)
                 | None \<Rightarrow> Inr (LaneDormant, parent))"

definition climb_reason_text :: "climb_reason \<Rightarrow> string" where
  "climb_reason_text x =
     (case x of HolderDeathCertified \<Rightarrow> ''holder-death-certified''
      | HolderFarewellObserved \<Rightarrow> ''holder-farewell-observed''
      | LaneDormant \<Rightarrow> ''lane-dormant-while-project-active'')"

definition climb_row :: "string \<Rightarrow> climb_reason \<Rightarrow> string \<Rightarrow> instant \<Rightarrow> row \<Rightarrow> row" where
  "climb_row origin reason parent now r =
     (case r_metadata r of
        None \<Rightarrow> r\<lparr>r_user_id := parent\<rparr>
      | Some _ \<Rightarrow> (stamp_md [(''climbed_from'', JStr origin), (''climbed_at'', JTime now),
                            (''climb_reason'', JStr (climb_reason_text reason))] r)\<lparr>r_user_id := parent\<rparr>)"

record climb =
  cl_id :: string
  cl_from :: string
  cl_to :: string
  cl_reason :: climb_reason

record climb_report =
  cp_climbed :: "climb list"
  cp_skipped :: "climb_skip list"

text \<open>Each update commits on its own. Moving a message onto an address where a row with its key
  stands already violates the unique index; the pass then fails where it is.\<close>

definition climb_step ::
  "settings \<Rightarrow> string list \<Rightarrow> (string \<times> register_entry) list \<Rightarrow> instant \<Rightarrow> inbox_message
     \<Rightarrow> climb_report res \<times> table \<Rightarrow> climb_report res \<times> table" where
  "climb_step cfg roots reg now m acc =
     (case acc of
        (Inl e, t) \<Rightarrow> (Inl e, t)
      | (Inr rep, t) \<Rightarrow>
     (case climb_verdict roots reg m of
        Inl why \<Rightarrow> (Inr (rep\<lparr>cp_skipped := cp_skipped rep @ [why]\<rparr>), t)
      | Inr (reason, parent) \<Rightarrow>
          let t' = sql_update (message_at cfg (im_id m)) (climb_row (im_to m) reason parent now) t
          in if distinct (map ukey_of t')
             then (Inr (rep\<lparr>cp_climbed := cp_climbed rep @ [\<lparr>cl_id = im_id m, cl_from = im_to m, cl_to = parent, cl_reason = reason\<rparr>]\<rparr>), t')
             else (Inl UniqueViolation, t)))"

definition climb_messages :: "settings \<Rightarrow> instant \<Rightarrow> table \<Rightarrow> inbox_message list" where
  "climb_messages cfg now t = mark_handled cfg t (map (row_to_inbox_message now) (filter (climb_candidate cfg) t))"

definition climb_pass :: "settings \<Rightarrow> instant \<Rightarrow> server \<Rightarrow> climb_report res \<times> server" where
  "climb_pass cfg now s =
     (let t = memories s; ms = climb_messages cfg now t;
          reg = register_dict (address_register cfg None now s);
          out = fold (climb_step cfg (fetch_known_roots cfg t) reg now) ms (Inr \<lparr>cp_climbed = [], cp_skipped = []\<rparr>, t)
      in (fst out, s\<lparr>memories := snd out\<rparr>))"

section \<open>Sweeping\<close>

datatype sweep_skip = SwAsk | SwRoot | SwNotTree | SwFresh | SwExempt

datatype sweep_reason = IncarnationDead | OlderThanEpoch

definition sweep_candidate :: "settings \<Rightarrow> row \<Rightarrow> bool" where
  "sweep_candidate cfg r \<longleftrightarrow> open_mail cfg r \<and> \<not> is_meeting_thread (jget_text (md r) ''thread_id'')"

definition sweep_verdict ::
  "string list \<Rightarrow> (string \<times> register_entry) list \<Rightarrow> instant \<Rightarrow> row \<Rightarrow> sweep_skip + sweep_reason" where
  "sweep_verdict roots reg now r =
     (let bare = before (CHR ''@'') (r_user_id r)
      in if norm (jget_str (md r) ''intent'') \<in> set ASK_INTENTS then Inl SwAsk
         else if bare \<in> set SEAT_EXEMPT_IDENTITIES then Inl SwExempt
         else case parse_tree_node (r_user_id r) roots of
           None \<Rightarrow> Inl SwNotTree
         | Some (kind, _, _) \<Rightarrow>
             if kind = Root then Inl SwRoot
             else let dead = (kind = Incarnation \<and> (case map_of reg bare of None \<Rightarrow> False | Some e \<Rightarrow> rg_death e \<noteq> None))
                  in if \<not> dead \<and> now - r_created_at r < seconds DEEP_CHATTER_EPOCH_SECONDS then Inl SwFresh
                     else Inr (if dead then IncarnationDead else OlderThanEpoch))"

definition sweep_row :: "sweep_reason \<Rightarrow> instant \<Rightarrow> row \<Rightarrow> row" where
  "sweep_row reason now r =
     stamp_md [(''status'', JStr INBOX_RESOLVED), (''resolved_at'', JTime now), (''resolved_by'', JStr ''system:epoch-sweep''),
               (''sweep_reason'', JStr (case reason of IncarnationDead \<Rightarrow> ''incarnation-dead'' | OlderThanEpoch \<Rightarrow> ''older-than-epoch''))] r"

record sweep_report =
  wp_swept :: "(string \<times> string \<times> sweep_reason) list"
  wp_skipped :: "sweep_skip list"

definition sweep_step ::
  "settings \<Rightarrow> string list \<Rightarrow> (string \<times> register_entry) list \<Rightarrow> instant \<Rightarrow> row \<Rightarrow> sweep_report \<times> table \<Rightarrow> sweep_report \<times> table" where
  "sweep_step cfg roots reg now r acc =
     (case sweep_verdict roots reg now r of
        Inl why \<Rightarrow> ((fst acc)\<lparr>wp_skipped := wp_skipped (fst acc) @ [why]\<rparr>, snd acc)
      | Inr reason \<Rightarrow>
          ((fst acc)\<lparr>wp_swept := wp_swept (fst acc) @ [(r_key r, r_user_id r, reason)]\<rparr>,
           sql_update (message_at cfg (r_key r)) (sweep_row reason now) (snd acc)))"

definition sweep_pass :: "settings \<Rightarrow> instant \<Rightarrow> server \<Rightarrow> sweep_report \<times> server" where
  "sweep_pass cfg now s =
     (let t = memories s; reg = register_dict (address_register cfg None now s);
          out = fold (sweep_step cfg (fetch_known_roots cfg t) reg now) (filter (sweep_candidate cfg) t)
                  (\<lparr>wp_swept = [], wp_skipped = []\<rparr>, t)
      in (fst out, s\<lparr>memories := snd out\<rparr>))"


section \<open>The shape of the tree\<close>

lemma longest_None [simp]: "longest xs = None \<longleftrightarrow> xs = []"
  by (cases xs) (auto split: option.split)

lemma longest_Some: "longest xs = Some r \<Longrightarrow> r \<in> set xs \<and> (\<forall>y\<in>set xs. length y \<le> length r)"
proof (induction xs arbitrary: r)
  case (Cons x xs)
  show ?case
  proof (cases "longest xs")
    case None
    with Cons.prems show ?thesis by simp
  next
    case (Some y)
    with Cons.prems Cons.IH [OF Some] show ?thesis by (fastforce split: if_splits)
  qed
qed simp

lemma under_root_split: "under_root b r \<Longrightarrow> b \<noteq> r \<Longrightarrow> b = r @ ''-'' @ drop (length r + 1) b"
  by (auto simp: under_root_def startswith_def prefix_def)

lemma under_root_prefix: "under_root b r \<Longrightarrow> \<exists>z. b = r @ z"
  by (auto simp: under_root_def startswith_def prefix_def)

lemma longest_root:
  assumes "r \<in> set roots" and "under_root b r" and "\<And>q. q \<in> set roots \<Longrightarrow> under_root b q \<Longrightarrow> length q \<le> length r"
  shows "longest (filter (under_root b) roots) = Some r"
proof -
  obtain q where q: "longest (filter (under_root b) roots) = Some q"
    using assms(1,2) by (cases "longest (filter (under_root b) roots)") (auto simp: filter_empty_conv)
  have in_q: "q \<in> set roots" "under_root b q" and le: "length r \<le> length q" using longest_Some [OF q] assms(1,2) by auto
  then have "length q = length r" using assms(3) [OF in_q] by simp
  moreover obtain y z where "b = r @ y" "b = q @ z" using under_root_prefix assms(2) in_q(2) by blast
  ultimately have "q = r" by (metis append_eq_append_conv)
  with q show ?thesis by simp
qed

lemma before_prefix: "before c a = x @ y \<Longrightarrow> before c x = x"
proof -
  assume "before c a = x @ y"
  then have "\<forall>z\<in>set (x @ y). z \<noteq> c" unfolding before_def by (metis set_takeWhileD)
  then show ?thesis by (auto simp: before_def takeWhile_eq_all_conv)
qed

lemma rpartition_dash_join:
  assumes "rpartition_dash s = (h, n)" and "h \<noteq> ''''"
  shows "s = h @ ''-'' @ n"
proof -
  have d: "CHR ''-'' \<in> set s" using assms by (auto simp: rpartition_dash_def split: if_splits)
  let ?u = "rev s" and ?P = "\<lambda>x. x \<noteq> CHR ''-''"
  have "dropWhile ?P ?u \<noteq> []" using d by (auto simp: dropWhile_eq_Nil_conv)
  then have "dropWhile ?P ?u = CHR ''-'' # tl (dropWhile ?P ?u)" using hd_dropWhile [of ?P ?u] by (metis list.collapse)
  then have "?u = takeWhile ?P ?u @ CHR ''-'' # tl (dropWhile ?P ?u)" by (metis takeWhile_dropWhile_id)
  then have "s = rev (tl (dropWhile ?P ?u)) @ ''-'' @ rev (takeWhile ?P ?u)" by (metis append.assoc append_Cons append_Nil rev.simps(2) rev_append rev_rev_ident)
  with d assms(1) show ?thesis by (simp add: rpartition_dash_def before_def after_def)
qed

lemma providers_named: "h \<in> set LANE_PROVIDERS \<Longrightarrow> h \<noteq> ''''"
  by (auto simp: LANE_PROVIDERS_def)

lemma under_longer: "under_root x q \<Longrightarrow> under_root (x @ ''-'' @ y) q"
  by (auto simp: under_root_def startswith_def prefix_def)

lemma root_of_root:
  assumes "r \<in> set roots" and "b = before (CHR ''@'') a" and "under_root b r" and "\<And>q. q \<in> set roots \<Longrightarrow> under_root b q \<Longrightarrow> length q \<le> length r"
  shows "parse_tree_node r roots = Some (Root, r, '''')"
proof -
  obtain z where z: "b = r @ z" using under_root_prefix [OF assms(3)] by blast
  then have bare: "before (CHR ''@'') r = r" using before_prefix assms(2) by metis
  have "under_root b q" if "under_root r q" for q
    using that assms(3) under_longer by (metis under_root_def under_root_split)
  then have "longest (filter (under_root r) roots) = Some r"
    using assms(4) by (intro longest_root assms(1)) (auto simp: under_root_def)
  with bare show ?thesis by (simp add: parse_tree_node_def Let_def)
qed

lemma parse_node:
  assumes "parse_tree_node a roots = Some (k, r, p)" and "b = before (CHR ''@'') a"
  shows "r \<in> set roots" "under_root b r" "\<And>q. q \<in> set roots \<Longrightarrow> under_root b q \<Longrightarrow> length q \<le> length r"
    and "k = Root \<Longrightarrow> b = r \<and> p = ''''" and "k = Lane \<Longrightarrow> p = r \<and> b \<noteq> r"
    and "k = Incarnation \<Longrightarrow> \<exists>h n. h \<in> set LANE_PROVIDERS \<and> p = r @ ''-'' @ h \<and> b = p @ ''-'' @ n"
proof -
  have l: "longest (filter (under_root b) roots) = Some r"
    using assms by (auto simp: parse_tree_node_def Let_def split: option.splits if_splits prod.splits)
  from longest_Some [OF l] show u: "r \<in> set roots" "under_root b r" "\<And>q. q \<in> set roots \<Longrightarrow> under_root b q \<Longrightarrow> length q \<le> length r"
    by auto
  show "k = Root \<Longrightarrow> b = r \<and> p = ''''" "k = Lane \<Longrightarrow> p = r \<and> b \<noteq> r"
    using assms l by (auto simp: parse_tree_node_def Let_def split: if_splits prod.splits)
  assume k: "k = Incarnation"
  then obtain h n where hn: "rpartition_dash (drop (length r + 1) b) = (h, n)" "h \<in> set LANE_PROVIDERS" "p = r @ ''-'' @ h" "b \<noteq> r"
    using assms l by (auto simp: parse_tree_node_def Let_def split: if_splits prod.splits)
  have "b = r @ ''-'' @ drop (length r + 1) b" using under_root_split [OF u(2) hn(4)] .
  also have "drop (length r + 1) b = h @ ''-'' @ n" using rpartition_dash_join hn(1) providers_named [OF hn(2)] by blast
  finally show "\<exists>h n. h \<in> set LANE_PROVIDERS \<and> p = r @ ''-'' @ h \<and> b = p @ ''-'' @ n" using hn(2,3) by auto
qed

definition tree_depth :: "string list \<Rightarrow> string \<Rightarrow> nat" where
  "tree_depth roots addr =
     (case parse_tree_node addr roots of None \<Rightarrow> 0 | Some (Root, _, _) \<Rightarrow> 0 | Some (Lane, _, _) \<Rightarrow> 1 | Some (Incarnation, _, _) \<Rightarrow> 2)"

lemma parent_node:
  assumes "parse_tree_node a roots = Some (k, r, p)"
  shows "k = Incarnation \<Longrightarrow> parse_tree_node p roots = Some (Lane, r, r)" and "k = Lane \<Longrightarrow> parse_tree_node p roots = Some (Root, r, '''')"
proof -
  let ?b = "before (CHR ''@'') a"
  note n = parse_node [OF assms refl]
  assume "k = Lane"
  then show "parse_tree_node p roots = Some (Root, r, '''')" using n(5) root_of_root [OF n(1) refl n(2,3)] by simp
next
  let ?b = "before (CHR ''@'') a"
  note n = parse_node [OF assms refl]
  assume "k = Incarnation"
  then obtain h o1 where h: "h \<in> set LANE_PROVIDERS" "p = r @ ''-'' @ h" "?b = p @ ''-'' @ o1" using n(6) by blast
  have bare: "before (CHR ''@'') p = p" using h(3) before_prefix by metis
  have "under_root ?b q" if "under_root p q" for q using under_longer [OF that] h(3) by simp
  then have "longest (filter (under_root p) roots) = Some r"
    using n(3) by (intro longest_root n(1)) (auto simp: h(2) under_root_def startswith_def)
  with bare h(1,2) show "parse_tree_node p roots = Some (Lane, r, r)" by (simp add: parse_tree_node_def Let_def)
qed

section \<open>Climbing runs out\<close>

definition mail_depth :: "settings \<Rightarrow> string list \<Rightarrow> table \<Rightarrow> nat" where
  "mail_depth cfg roots t = sum_list (map (\<lambda>r. if inbox_row cfg r then tree_depth roots (r_user_id r) else 0) t)"

definition mail_keys :: "settings \<Rightarrow> table \<Rightarrow> string list" where
  "mail_keys cfg t = map r_key (filter (inbox_row cfg) t)"

lemma climb_row_keeps [simp]:
  "r_key (climb_row o1 x p now r) = r_key r" "inbox_row cfg (climb_row o1 x p now r) = inbox_row cfg r"
  "r_user_id (climb_row o1 x p now r) = p" "r_value (climb_row o1 x p now r) = r_value r" "r_id (climb_row o1 x p now r) = r_id r"
  by (simp_all add: climb_row_def stamp_md_def set_md_def inbox_row_def split: option.split)

lemma message_at_climb [simp]: "message_at cfg i (climb_row o1 x p now r) = message_at cfg i r"
  by (simp add: message_at_def)

lemma one_message:
  assumes "distinct (mail_keys cfg u)" and "r \<in> set u" and "message_at cfg i r"
  obtains as bs where "u = as @ r # bs" "\<And>s. s \<in> set as \<union> set bs \<Longrightarrow> \<not> message_at cfg i s"
proof -
  obtain as bs where u: "u = as @ r # bs" using assms(2) by (meson split_list)
  have "\<not> message_at cfg i s" if "s \<in> set as \<union> set bs" for s
  proof
    assume s: "message_at cfg i s"
    have "r_key s \<noteq> r_key r"
      using assms(1,3) that s unfolding mail_keys_def u by (auto simp: message_at_def image_iff)
    with s assms(3) show False by (simp add: message_at_def)
  qed
  with u that show ?thesis by blast
qed

lemma sql_update_outside: "(\<And>s. s \<in> set t \<Longrightarrow> \<not> P s) \<Longrightarrow> sql_update P f t = t"
  by (auto simp: sql_update_def intro: map_idI)

lemma sql_update_append: "sql_update P f (as @ bs) = sql_update P f as @ sql_update P f bs"
  by (simp add: sql_update_def)

lemma update_one:
  assumes "u = as @ r # bs" and "P r" and "\<And>s. s \<in> set as \<union> set bs \<Longrightarrow> \<not> P s"
  shows "sql_update P f u = as @ f r # bs"
  using assms sql_update_outside [of as P f] sql_update_outside [of bs P f]
  by (simp add: sql_update_append) (simp add: sql_update_def)

lemma verdict_lowers:
  assumes "climb_verdict roots reg m = Inr (reason, parent)"
  shows "tree_depth roots (im_to m) = Suc (tree_depth roots parent)"
    and "\<exists>k root. parse_tree_node (im_to m) roots = Some (k, root, parent) \<and> k \<noteq> Root"
proof -
  obtain k root where k: "parse_tree_node (im_to m) roots = Some (k, root, parent)" "k \<noteq> Root"
    using assms by (auto simp: climb_verdict_def Let_def split: option.splits bool.splits if_splits prod.splits node_kind.splits)
  then show "\<exists>k root. parse_tree_node (im_to m) roots = Some (k, root, parent) \<and> k \<noteq> Root" by blast
  show "tree_depth roots (im_to m) = Suc (tree_depth roots parent)"
    using k parent_node [OF k(1)] by (cases k) (simp_all add: tree_depth_def)
qed

lemma climb_row_fields:
  "r_namespace (climb_row a b c now r) = r_namespace r" "r_key (climb_row a b c now r) = r_key r"
  "r_scope (climb_row a b c now r) = r_scope r" "r_id (climb_row a b c now r) = r_id r"
  by (simp_all add: climb_row_def stamp_md_def set_md_def split: option.split)

lemma climb_step_moves:
  assumes "distinct (mail_keys cfg u)" and "r \<in> set u" "message_at cfg (im_id m) r" "r_user_id r = im_to m"
    and ok: "table_ok u"
  obtains rep' u' where "climb_step cfg roots reg now m (Inr rep, u) = (Inr rep', u')"
    and "mail_depth cfg roots u' + length (cp_climbed rep') = mail_depth cfg roots u + length (cp_climbed rep)"
    and "mail_keys cfg u' = mail_keys cfg u" and "table_ok u'"
    and "\<And>s. s \<in> set u \<Longrightarrow> \<not> message_at cfg (im_id m) s \<Longrightarrow> s \<in> set u'"
proof (cases "climb_verdict roots reg m")
  case (Inl why)
  then show thesis using that [of "rep\<lparr>cp_skipped := cp_skipped rep @ [why]\<rparr>" u] ok by (simp add: climb_step_def)
next
  case (Inr c)
  obtain reason parent where v: "climb_verdict roots reg m = Inr (reason, parent)" using Inr by (cases c) simp
  obtain as bs where u: "u = as @ r # bs" "\<And>s. s \<in> set as \<union> set bs \<Longrightarrow> \<not> message_at cfg (im_id m) s"
    using one_message [OF assms(1-3)] by blast
  have in_r: "inbox_row cfg r" using assms(3) by (simp add: message_at_def)
  let ?r' = "climb_row (im_to m) reason parent now r" and ?u' = "sql_update (message_at cfg (im_id m)) (climb_row (im_to m) reason parent now) u"
  have u': "?u' = as @ ?r' # bs"
    using update_one [where P = "message_at cfg (im_id m)", OF u(1) assms(3) u(2)] .
  have other: "ukey_of s \<noteq> ukey_of ?r'" if "s \<in> set as \<union> set bs" for s
    using u(2) [OF that] assms(3) by (auto simp: message_at_def inbox_row_def ukey_of_def climb_row_fields)
  have "ukey_of ?r' \<notin> ukey_of ` (set as \<union> set bs)" using other by (metis imageE)
  then have ok': "table_ok ?u'"
    using ok by (simp add: table_ok_def u' climb_row_fields image_Un) (simp add: u(1))
  show thesis
  proof (rule that)
    show "climb_step cfg roots reg now m (Inr rep, u) =
        (Inr (rep\<lparr>cp_climbed := cp_climbed rep @ [\<lparr>cl_id = im_id m, cl_from = im_to m, cl_to = parent, cl_reason = reason\<rparr>]\<rparr>), ?u')"
      using ok' by (simp add: climb_step_def v Let_def table_ok_def)
    show "table_ok ?u'" by (rule ok')
    show "mail_keys cfg ?u' = mail_keys cfg u" unfolding u' by (simp add: u(1) mail_keys_def)
    show "s \<in> set ?u'" if "s \<in> set u" "\<not> message_at cfg (im_id m) s" for s
      unfolding u' using that assms(3) by (auto simp: u(1))
  qed (unfold u', use verdict_lowers(1) [OF v] in_r assms(4) in \<open>simp add: u(1) mail_depth_def\<close>)
qed

lemma climb_fold:
  assumes "distinct (mail_keys cfg u)" and "distinct (map im_id ms)"
    and "\<And>m. m \<in> set ms \<Longrightarrow> \<exists>r\<in>set u. message_at cfg (im_id m) r \<and> r_user_id r = im_to m" and "table_ok u"
  shows "\<exists>rep' u'. fold (climb_step cfg roots reg now) ms (Inr rep, u) = (Inr rep', u') \<and> table_ok u' \<and>
    mail_depth cfg roots u' + length (cp_climbed rep') = mail_depth cfg roots u + length (cp_climbed rep) \<and>
    mail_keys cfg u' = mail_keys cfg u"
  using assms
proof (induction ms arbitrary: rep u)
  case (Cons m ms)
  obtain r where r: "r \<in> set u" "message_at cfg (im_id m) r" "r_user_id r = im_to m" using Cons.prems(3) [of m] by auto
  obtain rep1 u1 where s1: "climb_step cfg roots reg now m (Inr rep, u) = (Inr rep1, u1)"
    and d1: "mail_depth cfg roots u1 + length (cp_climbed rep1) = mail_depth cfg roots u + length (cp_climbed rep)"
    and k1: "mail_keys cfg u1 = mail_keys cfg u" and ok1: "table_ok u1"
    and keep: "\<And>s. s \<in> set u \<Longrightarrow> \<not> message_at cfg (im_id m) s \<Longrightarrow> s \<in> set u1"
    using climb_step_moves [OF Cons.prems(1) r Cons.prems(4)] by metis
  have "\<exists>r\<in>set u1. message_at cfg (im_id m') r \<and> r_user_id r = im_to m'" if m': "m' \<in> set ms" for m'
  proof -
    obtain r' where r': "r' \<in> set u" "message_at cfg (im_id m') r'" "r_user_id r' = im_to m'" using Cons.prems(3) [of m'] m' by auto
    have "im_id m' \<noteq> im_id m" using Cons.prems(2) m' by (auto simp: image_iff)
    then have "\<not> message_at cfg (im_id m) r'" using r'(2) by (auto simp: message_at_def)
    with keep r' show ?thesis by blast
  qed
  then obtain rep' u' where "fold (climb_step cfg roots reg now) ms (Inr rep1, u1) = (Inr rep', u')" "table_ok u'"
      "mail_depth cfg roots u' + length (cp_climbed rep') = mail_depth cfg roots u1 + length (cp_climbed rep1)"
      "mail_keys cfg u' = mail_keys cfg u1"
    using Cons.IH [of u1 rep1] Cons.prems(1,2) k1 ok1 by auto
  with s1 d1 k1 show ?case by simp
qed simp

lemma climb_messages_ids:
  "map im_id (climb_messages cfg now t) = map r_key (filter (climb_candidate cfg) t)"
  "m \<in> set (climb_messages cfg now t) \<Longrightarrow> \<exists>r\<in>set t. message_at cfg (im_id m) r \<and> r_user_id r = im_to m"
  by (auto simp: climb_messages_def mark_handled_def row_to_inbox_message_def Let_def o_def message_at_def climb_candidate_def open_mail_def)

lemma candidates_distinct: "distinct (mail_keys cfg t) \<Longrightarrow> distinct (map r_key (filter (climb_candidate cfg) t))"
proof -
  assume d: "distinct (mail_keys cfg t)"
  have "filter (climb_candidate cfg) t = filter (climb_candidate cfg) (filter (inbox_row cfg) t)"
    unfolding filter_filter by (rule filter_cong) (auto simp: climb_candidate_def open_mail_def)
  with d show ?thesis unfolding mail_keys_def by (metis distinct_map_filter)
qed

lemma known_roots_filter:
  "fetch_known_roots cfg t = filter (\<lambda>p. p \<notin> set SEAT_EXEMPT_IDENTITIES) (remdups (List.map_filter r_project
     (filter (\<lambda>r. r_namespace r = cfg_primary_namespace cfg \<and> r_scope r \<in> set [PROJECT_REGISTRY_SCOPE, SEAT_SCOPE]) t)))"
  by (simp add: fetch_known_roots_def)

lemma inbox_write_keeps_roots:
  assumes "\<And>r. inbox_row cfg (f r) = inbox_row cfg r"
  shows "fetch_known_roots cfg (sql_update (message_at cfg i) f t) = fetch_known_roots cfg t"
proof -
  have out: "\<not> (r_namespace r = cfg_primary_namespace cfg \<and> r_scope r \<in> set [PROJECT_REGISTRY_SCOPE, SEAT_SCOPE])" if "inbox_row cfg r" for r
    using that by (auto simp: inbox_row_def INBOX_SCOPE_def PROJECT_REGISTRY_SCOPE_def SEAT_SCOPE_def)
  have "filter (\<lambda>r. r_namespace r = cfg_primary_namespace cfg \<and> r_scope r \<in> set [PROJECT_REGISTRY_SCOPE, SEAT_SCOPE]) (sql_update (message_at cfg i) f t)
      = filter (\<lambda>r. r_namespace r = cfg_primary_namespace cfg \<and> r_scope r \<in> set [PROJECT_REGISTRY_SCOPE, SEAT_SCOPE]) t"
    by (rule filter_update_outside) (use out assms in \<open>auto simp only: message_at_def\<close>)
  then show ?thesis by (simp only: known_roots_filter)
qed

lemma climb_keeps_roots:
  "fetch_known_roots cfg (snd (fold (climb_step cfg roots reg now) ms acc)) = fetch_known_roots cfg (snd acc)"
proof (induction ms arbitrary: acc)
  case (Cons m ms)
  have "fetch_known_roots cfg (snd (climb_step cfg roots reg now m acc)) = fetch_known_roots cfg (snd acc)"
    by (simp add: climb_step_def Let_def inbox_write_keeps_roots split: sum.split prod.split)
  with Cons show ?case by simp
qed simp

definition depth_left :: "settings \<Rightarrow> server \<Rightarrow> nat" where
  "depth_left cfg s = mail_depth cfg (fetch_known_roots cfg (memories s)) (memories s)"

lemma climb_pass_moves:
  assumes "distinct (mail_keys cfg (memories s))" and "table_ok (memories s)"
  obtains rep s' where "climb_pass cfg now s = (Inr rep, s')" and "table_ok (memories s')"
    and "depth_left cfg s' + length (cp_climbed rep) = depth_left cfg s" and "mail_keys cfg (memories s') = mail_keys cfg (memories s)"
proof -
  let ?t = "memories s" and ?roots = "fetch_known_roots cfg (memories s)"
  let ?reg = "register_dict (address_register cfg None now s)"
  let ?out = "fold (climb_step cfg ?roots ?reg now) (climb_messages cfg now ?t) (Inr \<lparr>cp_climbed = [], cp_skipped = []\<rparr>, ?t)"
  have "distinct (map im_id (climb_messages cfg now ?t))"
    unfolding climb_messages_ids(1) by (rule candidates_distinct [OF assms(1)])
  from climb_fold [OF assms(1) this climb_messages_ids(2) assms(2)]
  obtain rep t' where out: "?out = (Inr rep, t')" "table_ok t'"
    and f: "mail_depth cfg ?roots t' + length (cp_climbed rep) = mail_depth cfg ?roots ?t" "mail_keys cfg t' = mail_keys cfg ?t"
    by fastforce
  have "fetch_known_roots cfg t' = ?roots"
    using climb_keeps_roots [of cfg ?roots ?reg now "climb_messages cfg now ?t" "(Inr \<lparr>cp_climbed = [], cp_skipped = []\<rparr>, ?t)"] out by simp
  with f out that [of rep "s\<lparr>memories := t'\<rparr>"] show thesis by (simp add: climb_pass_def Let_def depth_left_def)
qed

text \<open>Whatever the mail looks like, a pass keeps the unique index.\<close>

lemma climb_pass_ok:
  assumes "table_ok (memories s)"
  shows "table_ok (memories (snd (climb_pass cfg now s)))"
proof -
  have "table_ok (snd (fold (climb_step cfg roots reg now) ms acc))" if "table_ok (snd acc)" for roots reg ms acc
    using that
  proof (induction ms arbitrary: acc)
    case (Cons m ms)
    have "map r_id (sql_update P (climb_row a b c now) t) = map r_id t" for P a b c t
      by (simp add: sql_update_def climb_row_fields)
    then have "table_ok (snd (climb_step cfg roots reg now m acc))"
      using Cons.prems by (auto simp: climb_step_def Let_def table_ok_def split: sum.split prod.split)
    with Cons.IH show ?case by simp
  qed simp
  with assms show ?thesis by (simp add: climb_pass_def Let_def)
qed

text \<open>A run of passes at given times: the number of climbs, and the server.\<close>

fun climb_run :: "settings \<Rightarrow> instant list \<Rightarrow> server \<Rightarrow> nat \<times> server" where
  "climb_run cfg [] s = (0, s)"
| "climb_run cfg (now # nows) s =
     (case climb_pass cfg now s of
        (Inl e, s') \<Rightarrow> climb_run cfg nows s'
      | (Inr rep, s') \<Rightarrow> (case climb_run cfg nows s' of (n, s'') \<Rightarrow> (length (cp_climbed rep) + n, s'')))"

lemma tree_depth_le: "tree_depth roots a \<le> 2"
  by (auto simp: tree_depth_def split: option.split node_kind.split)

lemma mail_depth_le: "mail_depth cfg roots t \<le> 2 * length (mail_keys cfg t)"
proof (induction t)
  case (Cons r t)
  then show ?case using tree_depth_le [of roots "r_user_id r"] by (simp add: mail_depth_def mail_keys_def)
qed (simp add: mail_depth_def)

text \<open>C37. Climbing runs out: however many passes run, at whatever times, together they move
  messages at most as often as the mail lies deep in the address tree, which is at most twice
  for every message, and what they move is exactly what the depth falls by.\<close>

theorem climbing_runs_out:
  assumes "distinct (mail_keys cfg (memories s))" and "table_ok (memories s)" and "climb_run cfg nows s = (n, s')"
  shows "n + depth_left cfg s' = depth_left cfg s \<and> n \<le> 2 * length (mail_keys cfg (memories s))"
proof -
  have "n + depth_left cfg s' = depth_left cfg s" using assms
  proof (induction nows arbitrary: s n)
    case (Cons now nows)
    from climb_pass_moves [OF Cons.prems(1,2)] obtain rep s1 where p: "climb_pass cfg now s = (Inr rep, s1)" "table_ok (memories s1)"
      and step: "depth_left cfg s1 + length (cp_climbed rep) = depth_left cfg s" "mail_keys cfg (memories s1) = mail_keys cfg (memories s)"
      by metis
    obtain k where k: "climb_run cfg nows s1 = (k, s')" "n = length (cp_climbed rep) + k"
      using Cons.prems(3) p by (auto split: prod.splits)
    have "k + depth_left cfg s' = depth_left cfg s1" using Cons.IH [OF _ p(2) k(1)] step(2) Cons.prems(1) by simp
    with step(1) k(2) show ?case by simp
  qed simp
  moreover have "depth_left cfg s \<le> 2 * length (mail_keys cfg (memories s))" unfolding depth_left_def by (rule mail_depth_le)
  ultimately show ?thesis by simp
qed


text \<open>A climb moves one level: every message a pass reports as climbed went from an address
  below a root to its parent in the address tree (an incarnation's lane, or a lane's root), for
  the address tree of the roots known at the time, and it was an ask found unanswered.\<close>

theorem climb_moves_one_level:
  assumes "climb_pass cfg now s = (Inr rep, s')" and "c \<in> set (cp_climbed rep)"
  shows "(\<exists>k root. parse_tree_node (cl_from c) (fetch_known_roots cfg (memories s)) = Some (k, root, cl_to c) \<and> k \<noteq> Root) \<and>
    tree_depth (fetch_known_roots cfg (memories s)) (cl_from c) = Suc (tree_depth (fetch_known_roots cfg (memories s)) (cl_to c)) \<and>
    list_ex (\<lambda>m. cl_id c = im_id m \<and> cl_from c = im_to m \<and> im_handled m = Some False) (climb_messages cfg now (memories s))"
proof -
  let ?t = "memories s" and ?roots = "fetch_known_roots cfg (memories s)"
  let ?reg = "register_dict (address_register cfg None now s)"
  let ?moved = "\<lambda>acc. case fst acc of Inl e \<Rightarrow> [] | Inr rep \<Rightarrow> cp_climbed rep"
  have gen: "c \<in> set (?moved (fold (climb_step cfg ?roots ?reg now) ms acc)) \<Longrightarrow>
      c \<in> set (?moved acc) \<or> (\<exists>m\<in>set ms. \<exists>x. climb_verdict ?roots ?reg m = Inr (x, cl_to c) \<and> cl_id c = im_id m \<and> cl_from c = im_to m)" for ms acc
  proof (induction ms arbitrary: acc)
    case (Cons m ms)
    then have "c \<in> set (?moved (climb_step cfg ?roots ?reg now m acc)) \<or>
        (\<exists>m\<in>set ms. \<exists>x. climb_verdict ?roots ?reg m = Inr (x, cl_to c) \<and> cl_id c = im_id m \<and> cl_from c = im_to m)" by simp
    moreover have "c \<in> set (?moved acc) \<or> (\<exists>x. climb_verdict ?roots ?reg m = Inr (x, cl_to c) \<and> cl_id c = im_id m \<and> cl_from c = im_to m)"
      if "c \<in> set (?moved (climb_step cfg ?roots ?reg now m acc))"
      using that by (auto simp: climb_step_def Let_def split: sum.splits prod.splits if_splits)
    ultimately show ?case by auto
  qed simp
  have "c \<in> set (?moved (fold (climb_step cfg ?roots ?reg now) (climb_messages cfg now ?t) (Inr \<lparr>cp_climbed = [], cp_skipped = []\<rparr>, ?t)))"
    using assms by (auto simp: climb_pass_def Let_def)
  from gen [OF this] obtain m x where m: "m \<in> set (climb_messages cfg now ?t)" "climb_verdict ?roots ?reg m = Inr (x, cl_to c)"
    "cl_id c = im_id m" "cl_from c = im_to m" by auto
  have "im_handled m = Some False" using m(2) by (auto simp: climb_verdict_def Let_def split: option.splits bool.splits)
  with m(1,3,4) have "list_ex (\<lambda>m. cl_id c = im_id m \<and> cl_from c = im_to m \<and> im_handled m = Some False) (climb_messages cfg now ?t)"
    by (auto simp: list_ex_iff)
  with verdict_lowers [OF m(2)] m(4) show ?thesis by auto
qed

section \<open>What the sweep spares\<close>

lemma sweep_row_keeps [simp]:
  "content (sweep_row x now r) = content r" "inbox_row cfg (sweep_row x now r) = inbox_row cfg r" "r_key (sweep_row x now r) = r_key r"
  by (simp_all add: sweep_row_def stamp_md_def set_md_def content_def ukey_of_def inbox_row_def)

lemma sweep_step_content: "map content (snd (sweep_step cfg roots reg now r acc)) = map content (snd acc)"
  by (simp add: sweep_step_def sql_update_def split: sum.split)

lemma sweep_fold_spares:
  assumes "w \<in> set (snd acc)" and "\<And>r x. r \<in> set rows \<Longrightarrow> sweep_verdict roots reg now r = Inr x \<Longrightarrow> \<not> message_at cfg (r_key r) w"
  shows "w \<in> set (snd (fold (sweep_step cfg roots reg now) rows acc))"
  using assms
proof (induction rows arbitrary: acc)
  case (Cons r rows)
  have "w \<in> set (snd (sweep_step cfg roots reg now r acc))"
    using Cons.prems(1) Cons.prems(2) [of r] by (auto simp: sweep_step_def intro!: keep_update split: sum.split)
  with Cons.IH Cons.prems(2) show ?case by simp
qed simp

text \<open>Mail the sweep must leave alone: asks, mail of a huddle, mail to a shared role, mail at a root
  or outside the address tree, and mail that is closed already.\<close>

definition out_of_sweep :: "settings \<Rightarrow> string list \<Rightarrow> row \<Rightarrow> bool" where
  "out_of_sweep cfg roots r \<longleftrightarrow>
     norm (jget_str (md r) ''intent'') \<in> set ASK_INTENTS \<or> is_meeting_thread (jget_text (md r) ''thread_id'') \<or>
     before (CHR ''@'') (r_user_id r) \<in> set SEAT_EXEMPT_IDENTITIES \<or> tree_depth roots (r_user_id r) = 0 \<or> \<not> open_mail cfg r"

lemma out_of_sweep_verdict:
  "out_of_sweep cfg roots r \<Longrightarrow> sweep_candidate cfg r \<Longrightarrow> \<exists>why. sweep_verdict roots reg now r = Inl why"
  by (auto simp: out_of_sweep_def sweep_candidate_def sweep_verdict_def Let_def tree_depth_def split: option.splits node_kind.splits)

text \<open>The sweep is a janitor, not a reader: it keeps every message with its key, addressee,
  text and age, and leaves asks, huddles, mail to shared roles, mail at a project's root or
  outside the address tree, and closed mail exactly as they were.\<close>

theorem sweep_spares_asks_and_roots:
  assumes "distinct (mail_keys cfg (memories s))" and "sweep_pass cfg now s = (rep, s')"
  shows "map content (memories s') = map content (memories s) \<and>
    (\<forall>w\<in>set (memories s). out_of_sweep cfg (fetch_known_roots cfg (memories s)) w \<longrightarrow> w \<in> set (memories s'))"
proof (intro conjI ballI impI)
  let ?t = "memories s" and ?roots = "fetch_known_roots cfg (memories s)"
  let ?reg = "register_dict (address_register cfg None now s)"
  let ?rows = "filter (sweep_candidate cfg) ?t"
  have out: "memories s' = snd (fold (sweep_step cfg ?roots ?reg now) ?rows (\<lparr>wp_swept = [], wp_skipped = []\<rparr>, ?t))"
    using assms(2) by (auto simp: sweep_pass_def Let_def)
  have "map content (snd (fold (sweep_step cfg ?roots ?reg now) rows acc)) = map content (snd acc)" for rows acc
    by (induction rows arbitrary: acc) (simp_all add: sweep_step_content)
  then show "map content (memories s') = map content ?t" by (simp add: out)
  fix w assume w: "w \<in> set ?t" "out_of_sweep cfg ?roots w"
  have "\<not> message_at cfg (r_key r) w" if r: "r \<in> set ?rows" "sweep_verdict ?roots ?reg now r = Inr x" for r x
  proof
    assume a: "message_at cfg (r_key r) w"
    have "r \<in> set (filter (inbox_row cfg) ?t)" "w \<in> set (filter (inbox_row cfg) ?t)" "r_key r = r_key w"
      using a r(1) w(1) by (auto simp: message_at_def sweep_candidate_def open_mail_def)
    then have "r = w" using assms(1) unfolding mail_keys_def by (blast intro: distinct_map_inj)
    then show False using out_of_sweep_verdict [OF w(2), of ?reg now] r by auto
  qed
  then show "w \<in> set (memories s')" unfolding out using w(1) by (intro sweep_fold_spares) auto
qed


section \<open>Witnesses\<close>

definition demo_mail :: "nat \<Rightarrow> string \<Rightarrow> jobj \<Rightarrow> instant \<Rightarrow> row" where
  "demo_mail i k m sent =
     (new_row (cfg_primary_namespace default_settings) k ''text'' INBOX_SCOPE ''engram-grok'' None sent)\<lparr>r_id := i, r_metadata := Some m\<rparr>"

definition climb_demo :: server where
  "climb_demo = empty_server\<lparr>memories := seats_demo @
     [demo_mail 3 ''m1'' [(''from'', JStr ''owner''), (''intent'', JStr ''action'')] 0,
      demo_mail 4 ''m2'' [(''from'', JStr ''owner'')] (- seconds 300000)]\<rparr>"

theorem climbing_runs_out_witness:
  "\<exists>n s'. climb_run default_settings [seconds 5, seconds 6] climb_demo = (n, s') \<and> n + depth_left default_settings s' = 2 \<and> n \<le> 4"
proof -
  obtain n s' where r: "climb_run default_settings [seconds 5, seconds 6] climb_demo = (n, s')" by fastforce
  have "distinct (mail_keys default_settings (memories climb_demo))" "depth_left default_settings climb_demo = 2"
    "length (mail_keys default_settings (memories climb_demo)) = 2" "table_ok (memories climb_demo)" by code_simp+
  with climbing_runs_out [OF _ _ r] r show ?thesis by auto
qed

theorem climb_moves_one_level_witness:
  "\<exists>c. map_sum id cp_climbed (fst (climb_pass default_settings (seconds 5) climb_demo)) = Inr [c] \<and> cl_to c = ''engram'' \<and>
     tree_depth (fetch_known_roots default_settings (memories climb_demo)) (cl_from c) = 1"
proof -
  let ?c = "\<lparr>cl_id = ''m1'', cl_from = ''engram-grok'', cl_to = ''engram'', cl_reason = LaneDormant\<rparr>"
  have e: "map_sum id cp_climbed (fst (climb_pass default_settings (seconds 5) climb_demo)) = Inr [?c]" by code_simp
  then obtain rep s' where p: "climb_pass default_settings (seconds 5) climb_demo = (Inr rep, s')" and c: "cp_climbed rep = [?c]"
    by (cases "climb_pass default_settings (seconds 5) climb_demo"; cases "fst (climb_pass default_settings (seconds 5) climb_demo)") auto
  have "tree_depth (fetch_known_roots default_settings (memories climb_demo)) ''engram'' = 0" by code_simp
  with climb_moves_one_level [OF p, of ?c] e show ?thesis unfolding c by auto
qed

theorem sweep_spares_asks_and_roots_witness:
  "memories climb_demo ! 2 \<in> set (memories (snd (sweep_pass default_settings (seconds 5) climb_demo)))"
proof -
  obtain rep s' where p: "sweep_pass default_settings (seconds 5) climb_demo = (rep, s')" by fastforce
  have "distinct (mail_keys default_settings (memories climb_demo))" "memories climb_demo ! 2 \<in> set (memories climb_demo)"
    "out_of_sweep default_settings (fetch_known_roots default_settings (memories climb_demo)) (memories climb_demo ! 2)" by code_simp+
  with sweep_spares_asks_and_roots [OF _ p] show ?thesis unfolding p snd_conv by blast
qed

end
