(* ===== verification/Seat_Refinement.thy ===== *)
theory Seat_Refinement
  imports Seat_Claims
begin

text \<open>
  What the seat registry promises, stripped of how it keeps it: in each project, names are held by
  sessions; a session may sit down on one name and leave any of its own names, and nothing else
  ever changes who sits where. The abstract system \<open>seat_spec\<close> says so of a map from names to
  session keys, and every step of the registry (claims with their renames and take-overs,
  certificates, releases, heartbeats) is shown to be a step of it.
\<close>

section \<open>The abstract system\<close>

inductive seat_spec :: "(string \<rightharpoonup> string) \<Rightarrow> (string \<rightharpoonup> string) \<Rightarrow> bool" where
  sit: "gone \<subseteq> {y. m y = Some k} \<Longrightarrow> seat_spec m ((m |` (- gone))(x \<mapsto> k))"
| leave: "gone \<subseteq> {y. m y = Some k} \<Longrightarrow> seat_spec m (m |` (- gone))"

inductive_cases seat_specE: "seat_spec m m'"

lemma spec_stutter: "seat_spec m m"
  using seat_spec.leave [of "{}" m] by (simp add: restrict_map_def)

text \<open>Who holds the names of a project.\<close>

definition seated :: "settings \<Rightarrow> string \<Rightarrow> table \<Rightarrow> string \<rightharpoonup> string" where
  "seated cfg p t = (\<lambda>x. Option.bind (fetchrow (seat_at cfg p x) t) (\<lambda>r. jget_text (md r) ''session_key''))"

section \<open>What keeps it\<close>

lemma seated_filter:
  assumes "filter (seat_row cfg) t' = filter (seat_row cfg) t"
  shows "seated cfg p t' = seated cfg p t"
proof -
  have "fetchrow (seat_at cfg p x) t' = fetchrow (seat_at cfg p x) t" for x
    using fetchrow_filter [of "seat_at cfg p x" "seat_row cfg" t] fetchrow_filter [of "seat_at cfg p x" "seat_row cfg" t'] assms
    by (simp add: seat_at_def)
  then show ?thesis by (simp add: seated_def)
qed

context row_writer
begin

lemma seated_update:
  assumes "\<And>r. seat_row cfg r \<Longrightarrow> P r \<Longrightarrow> jget_text (md (f r)) ''session_key'' = jget_text (md r) ''session_key''"
  shows "seated cfg p (sql_update P f t) = seated cfg p t"
proof
  fix x
  have "seat_row cfg r" if "fetchrow (seat_at cfg p x) t = Some r" for r
    using fetchrow_Some [OF that] by (simp add: seat_at_def)
  then show "seated cfg p (sql_update P f t) x = seated cfg p t x"
    by (auto simp: seated_def fetch_seat assms split: option.split bind_split)
qed

end

lemma seated_register [simp]: "seated cfg p (register_project cfg q now t) = seated cfg p t"
proof -
  let ?x = "(new_row (cfg_primary_namespace cfg) (''project/'' @ q) ''project-root'' PROJECT_REGISTRY_SCOPE
           SEAT_USER_ID (Some q) now)\<lparr>r_metadata := Some [(''kind'', JStr ''project-root'')]\<rparr>"
  show ?thesis unfolding register_project_def
    by (intro seated_filter filter_insert_do_update) (auto simp: seat_row_def new_row_def ukey_of_def PROJECT_REGISTRY_SCOPE_def SEAT_SCOPE_def)
qed

lemma seated_inherit [simp]: "seated cfg p (apply_lane_inheritance cfg seat q pv h k now t) = seated cfg p t"
proof -
  have "seated cfg p (sql_update (cursor_at cfg q l) (set_md m) u) = seated cfg p u" for l m u
    by (rule set_doc.seated_update) (auto simp: cursor_at_def seat_row_def LANE_CURSOR_SCOPE_def SEAT_SCOPE_def)
  moreover have "seated cfg p (sql_update (\<lambda>r. r_scope r = INBOX_SCOPE \<and> P r) (mark_read x) u) = seated cfg p u" for P x u
    by (rule reading.seated_update) (auto simp: seat_row_def INBOX_SCOPE_def SEAT_SCOPE_def)
  ultimately show ?thesis by (simp add: apply_lane_inheritance_def Let_def split: option.split)
qed

lemma seated_new:
  assumes "fetchrow (seat_at cfg q s) t = None" and "jget_text m ''session_key'' = Some k"
  shows "seated cfg p (t @ [(new_seat cfg s q m now)\<lparr>r_id := i\<rparr>]) = (if p = q then (seated cfg p t)(s \<mapsto> k) else seated cfg p t)"
proof -
  have "seat_at cfg p x ((new_seat cfg s q m now)\<lparr>r_id := i\<rparr>) \<longleftrightarrow> p = q \<and> x = s" for x
    by (auto simp: new_seat_def new_row_def seat_at_def seat_row_def)
  moreover have "md ((new_seat cfg s q m now)\<lparr>r_id := i\<rparr>) = m" by (simp add: new_seat_def md_def)
  ultimately show ?thesis using assms by (auto simp: seated_def fetchrow_append fun_eq_iff split: option.split)
qed

lemma seated_rewrite:
  assumes "presence_ok cfg t" and "w \<in> set t" and "seat_at cfg q s w" and "P w" and "\<And>r. P r \<Longrightarrow> seat_at cfg q s r"
    and "jget_text m ''session_key'' = Some k"
  shows "seated cfg p (sql_update P (rewatch m now) t) = (if p = q then (seated cfg p t)(s \<mapsto> k) else seated cfg p t)"
proof
  fix x
  have f: "fetchrow (seat_at cfg q s) t = Some w"
    using assms(2,3) seat_at_unique [OF assms(1) _ _ assms(2,3)] by (intro fetchrow_is) blast+
  show "seated cfg p (sql_update P (rewatch m now) t) x = (if p = q then (seated cfg p t)(s \<mapsto> k) else seated cfg p t) x"
  proof (cases "p = q \<and> x = s")
    case True
    then show ?thesis using f assms(4,6) by (simp add: seated_def stealing.fetch_seat rewatch_def)
  next
    case False
    have "\<not> P r" if "fetchrow (seat_at cfg p x) t = Some r" for r
    proof
      assume "P r"
      then have "seat_at cfg q s r" "seat_at cfg p x r" using assms(5) fetchrow_Some [OF that] by auto
      with False show False by (auto simp: seat_at_def)
    qed
    with False show ?thesis by (auto simp: seated_def stealing.fetch_seat split: option.split bind_split)
  qed
qed

lemma seated_delete:
  assumes "presence_ok cfg t"
  shows "seated cfg p (sql_delete P t) = seated cfg p t |` (- {x. \<exists>r\<in>set t. P r \<and> seat_at cfg p x r})"
proof
  fix x
  show "seated cfg p (sql_delete P t) x = (seated cfg p t |` (- {x. \<exists>r\<in>set t. P r \<and> seat_at cfg p x r})) x"
  proof (cases "\<exists>r\<in>set t. P r \<and> seat_at cfg p x r")
    case True
    then obtain r where r: "r \<in> set t" "P r" "seat_at cfg p x r" by blast
    have "fetchrow (seat_at cfg p x) (sql_delete P t) = None"
      using seat_at_unique [OF assms _ _ r(1,3)] r(2) by (auto simp: fetchrow_None sql_delete_def)
    with True show ?thesis by (auto simp: seated_def restrict_map_def)
  next
    case False
    have "fetchrow (seat_at cfg p x) (filter (\<lambda>r. \<not> P r) t) = fetchrow (seat_at cfg p x) t"
      using False by (induction t) (auto simp: fetchrow_def)
    with False show ?thesis by (simp add: seated_def sql_delete_def restrict_map_def)
  qed
qed


section \<open>Leaving one's own seats\<close>

definition leaves :: "string \<Rightarrow> (string \<rightharpoonup> string) \<Rightarrow> (string \<rightharpoonup> string) \<Rightarrow> bool" where
  "leaves k m m' \<longleftrightarrow> (\<exists>gone. gone \<subseteq> {y. m y = Some k} \<and> m' = m |` (- gone))"

lemma leaves_refl: "leaves k m m"
  by (auto simp: leaves_def restrict_map_def intro!: exI [of _ "{}"])

lemma leaves_trans: "leaves k m m' \<Longrightarrow> leaves k m' m'' \<Longrightarrow> leaves k m m''"
proof -
  assume "leaves k m m'" "leaves k m' m''"
  then obtain g h where g: "g \<subseteq> {y. m y = Some k}" "m' = m |` (- g)" and h: "h \<subseteq> {y. m' y = Some k}" "m'' = m' |` (- h)"
    unfolding leaves_def by blast
  then have "g \<union> h \<subseteq> {y. m y = Some k}" "m'' = m |` (- (g \<union> h))" by (auto simp: restrict_map_def fun_eq_iff split: if_splits)
  then show ?thesis unfolding leaves_def by blast
qed

lemma leaves_spec: "leaves k m m' \<Longrightarrow> seat_spec m m'"
  unfolding leaves_def by (blast intro: seat_spec.leave)

lemma sit_then_leave:
  assumes "leaves k (m(x \<mapsto> k)) m'" and "m' x = Some k"
  shows "seat_spec m m'"
proof -
  obtain g where g: "g \<subseteq> {y. (m(x \<mapsto> k)) y = Some k}" "m' = (m(x \<mapsto> k)) |` (- g)" using assms(1) unfolding leaves_def by blast
  have "x \<notin> g" using assms(2) g(2) by (auto simp: restrict_map_def split: if_splits)
  then have "g \<subseteq> {y. m y = Some k}" "m' = (m |` (- g))(x \<mapsto> k)" using g by (auto simp: restrict_map_def fun_eq_iff split: if_splits)
  then show ?thesis using seat_spec.sit by blast
qed

lemma delete_leaves:
  assumes "presence_ok cfg t" and "\<And>r. r \<in> set t \<Longrightarrow> P r \<Longrightarrow> seat_row cfg r \<Longrightarrow> jget_text (md r) ''session_key'' = Some k"
  shows "leaves k (seated cfg p t) (seated cfg p (sql_delete P t))"
proof -
  let ?g = "{x. \<exists>r\<in>set t. P r \<and> seat_at cfg p x r}"
  have "seated cfg p t x = Some k" if x: "x \<in> ?g" for x
  proof -
    obtain r where r: "r \<in> set t" "P r" "seat_at cfg p x r" using x by blast
    have "fetchrow (seat_at cfg p x) t = Some r"
      using r seat_at_unique [OF assms(1) _ _ r(1,3)] by (intro fetchrow_is) blast+
    with assms(2) [OF r(1,2)] r(3) show ?thesis by (simp add: seated_def seat_at_def)
  qed
  then show ?thesis using seated_delete [OF assms(1)] unfolding leaves_def by blast
qed

text \<open>The rows of a project at some key belong to the session.\<close>

definition keyed_mine :: "settings \<Rightarrow> string \<Rightarrow> string \<Rightarrow> string \<Rightarrow> table \<Rightarrow> bool" where
  "keyed_mine cfg q k key t \<longleftrightarrow>
     (\<forall>s\<in>set t. seat_row cfg s \<and> r_project s = Some q \<and> r_key s = key \<longrightarrow> jget_text (md s) ''session_key'' = Some k)"

lemma delete_seat_leaves:
  "presence_ok cfg t \<Longrightarrow> keyed_mine cfg q k key t \<Longrightarrow> leaves k (seated cfg p t) (seated cfg p (delete_seat cfg q key t))"
  unfolding delete_seat_def by (rule delete_leaves) (auto simp: keyed_mine_def)

lemma drops_leave:
  assumes "presence_ok cfg t" and "\<And>r. r \<in> set rows \<Longrightarrow> keyed_mine cfg q k (r_key r) t"
  shows "leaves k (seated cfg p t) (seated cfg p (fold (drop_duplicate cfg c q held) rows t))"
  using assms
proof (induction rows arbitrary: t)
  case Nil
  show ?case by (simp add: leaves_refl)
next
  case (Cons r rows)
  let ?u = "drop_duplicate cfg c q held r t"
  have l: "leaves k (seated cfg p t) (seated cfg p ?u)"
    using Cons.prems delete_seat_leaves leaves_refl by (auto simp: drop_duplicate_def)
  have "presence_ok cfg ?u" using Cons.prems(1) by (auto simp: drop_duplicate_def delete_seat_def presence_ok_delete)
  moreover have "keyed_mine cfg q k (r_key s) ?u" if "s \<in> set rows" for s
    using Cons.prems(2) [of s] that by (auto simp: keyed_mine_def drop_duplicate_def delete_seat_def sql_delete_def)
  ultimately show ?case using l Cons.IH leaves_trans by fastforce
qed

text \<open>The rows a claim found under its session key.\<close>

definition found :: "settings \<Rightarrow> seat_req \<Rightarrow> string \<Rightarrow> row list \<Rightarrow> table \<Rightarrow> bool" where
  "found cfg c q rows t \<longleftrightarrow> rows \<noteq> [] \<and> (\<forall>r\<in>set rows. r \<in> set t \<and> seat_at cfg q (seat_name r) r \<and>
     jget_text (md r) ''session_key'' = Some (sr_session_key c))"

lemma found_mine: "presence_ok cfg t \<Longrightarrow> found cfg c q rows t \<Longrightarrow> r \<in> set rows \<Longrightarrow> keyed_mine cfg q (sr_session_key c) (r_key r) t"
  unfolding keyed_mine_def found_def by (auto simp: seat_at_def dest: seat_at_same)

lemma refresh_leaves:
  assumes "presence_ok cfg t" and "found cfg c q rows t"
  shows "leaves (sr_session_key c) (seated cfg p t) (seated cfg p (snd (refresh_seat cfg c q pv pf ws rows now t)))"
proof -
  let ?k = "sr_session_key c" and ?h = "held_row c rows"
  let ?m = "refreshed_meta c (base_name q pv) pv pf rows now"
  let ?hit = "\<lambda>r. seat_row cfg r \<and> r_project r = Some q \<and> r_key r = r_key ?h"
  let ?t1 = "sql_update ?hit (rewatch ?m now) t"
  have h: "?h \<in> set t" "seat_at cfg q (seat_name ?h) ?h" "jget_text (md ?h) ''session_key'' = Some ?k"
    using assms(2) held_row_in [of rows c] by (auto simp: found_def)
  have m: "jget_text ?m ''session_key'' = Some ?k" by (simp add: refreshed_meta_def Let_def)
  have f: "fetchrow (seat_at cfg q (seat_name ?h)) t = Some ?h"
    using h(1,2) seat_at_unique [OF assms(1) _ _ h(1,2)] by (intro fetchrow_is) blast+
  have hit: "?hit ?h" "\<And>r. ?hit r \<Longrightarrow> seat_at cfg q (seat_name ?h) r" using h(2) by (auto simp: seat_at_def)
  have "seated cfg p ?t1 = (if p = q then (seated cfg p t)(seat_name ?h \<mapsto> ?k) else seated cfg p t)"
    using seated_rewrite [where P = ?hit, OF assms(1) h(1,2) hit m] by blast
  also have "\<dots> = seated cfg p t" using f h(3) by (auto simp: seated_def fun_eq_iff)
  finally have t1: "seated cfg p ?t1 = seated cfg p t" .
  have mine: "keyed_mine cfg q ?k (r_key r) ?t1" if "r \<in> set rows" for r
    using found_mine [OF assms that] m by (auto simp: keyed_mine_def rewatch_def seat_row_def elim!: in_sql_updateE)
  have "leaves ?k (seated cfg p ?t1) (seated cfg p (fold (drop_duplicate cfg c q ?h) rows ?t1))"
    using mine by (intro drops_leave stealing.presence_ok_update assms(1))
  then show ?thesis by (simp add: refresh_seat_def Let_def t1)
qed


section \<open>The simulation\<close>

lemma granted_sits:
  assumes "presence_ok cfg t" and "takeable cfg a now t seat"
  shows "seated cfg p (granted_table cfg c a seat now t) =
    (if p = ac_project a then (seated cfg p t)(seat \<mapsto> sr_session_key c) else seated cfg p t)"
proof -
  let ?m = "granted_meta c a seat now"
  have m: "jget_text ?m ''session_key'' = Some (sr_session_key c)" by (simp add: granted_meta_def)
  show ?thesis
  proof (cases "fetchrow (seat_at cfg (ac_project a) seat) t")
    case None
    then show ?thesis using seated_new [OF None m] by (simp add: granted_table_def)
  next
    case (Some r)
    let ?hit = "\<lambda>s. seat_at cfg (ac_project a) seat s \<and> r_last_used_at s < takeover_cutoff r now"
    obtain w where w: "w \<in> set t" "?hit w" using assms(2) Some by (auto simp: takeable_def list_ex_iff)
    have "seat_at cfg (ac_project a) seat w" "\<And>s. ?hit s \<Longrightarrow> seat_at cfg (ac_project a) seat s" using w(2) by auto
    from seated_rewrite [where P = ?hit, OF assms(1) w(1) this(1) w(2) this(2) m] Some show ?thesis
      by (simp add: granted_table_def)
  qed
qed

lemma allocate_refines:
  assumes "presence_ok cfg t" and "allocate cfg c a now t seats ws parked = (res, t')"
  shows "seat_spec (seated cfg p t) (seated cfg p t')"
proof (cases res)
  case (Inl e)
  then show ?thesis using assms(2) spec_stutter by (simp add: allocate_Inl)
next
  case (Inr r)
  then obtain s where s: "takeable cfg a now t s" "t' = inherit cfg c a s now (granted_table cfg c a s now t)"
    using allocate_Inr assms(2) by blast
  have "seated cfg p t' = (if p = ac_project a then (seated cfg p t)(s \<mapsto> sr_session_key c) else seated cfg p t)"
    using granted_sits [OF assms(1) s(1)] by (simp add: s(2) inherit_def)
  then show ?thesis using sit_then_leave [OF leaves_refl] spec_stutter by simp
qed

lemma move_refines:
  assumes "presence_ok cfg t" and "found cfg c q rows t" and "try_move cfg c q pv name rows now t = (True, u)"
    and "name \<noteq> seat_name (held_row c rows)"
  shows "seat_spec (seated cfg p t) (seated cfg p (delete_seat cfg q (r_key (held_row c rows)) u))"
    and "seat_spec (seated cfg p t) (seated cfg p u)"
proof -
  let ?k = "sr_session_key c" and ?h = "held_row c rows" and ?m = "move_meta c pv name rows now"
  have m: "jget_text ?m ''session_key'' = Some ?k" by (simp add: move_meta_def)
  have u: "seated cfg p u = (if p = q then (seated cfg p t)(name \<mapsto> ?k) else seated cfg p t)" for p
  proof (cases "fetchrow (seat_at cfg q name) t")
    case None
    with seated_new [OF None m] assms(3) show ?thesis by (auto simp: try_move_cases)
  next
    case (Some w)
    then have w: "w \<in> set t" "seat_at cfg q name w" by (blast dest: fetchrow_Some)+
    have "u = sql_update (seat_at cfg q name) (rewatch ?m now) t" using assms(3) Some by (auto simp: try_move_cases split: if_splits)
    with seated_rewrite [where P = "seat_at cfg q name", OF assms(1) w w(2) _ m] show ?thesis by simp
  qed
  show sat: "seat_spec (seated cfg p t) (seated cfg p u)"
    unfolding u using sit_then_leave [OF leaves_refl] spec_stutter by simp
  have h: "?h \<in> set rows" using assms(2) held_row_in by (auto simp: found_def)
  then have hk: "r_key ?h = ''seat/'' @ seat_name ?h" using assms(2) by (auto simp: found_def seat_at_def)
  have ok: "presence_ok cfg u" using try_move_ok [OF assms(1), of cfg c q pv name rows now] assms(3) by simp
  have mine: "keyed_mine cfg q ?k (r_key ?h) u"
  proof -
    have "keyed_mine cfg q ?k (r_key ?h) t" using found_mine [OF assms(1,2) h] .
    then show ?thesis using assms(3,4) hk m
      by (auto simp: keyed_mine_def try_move_cases new_seat_def rewatch_def elim!: in_sql_updateE split: option.splits if_splits)
  qed
  have l: "leaves ?k (seated cfg p u) (seated cfg p (delete_seat cfg q (r_key ?h) u))"
    using ok mine by (rule delete_seat_leaves)
  show "seat_spec (seated cfg p t) (seated cfg p (delete_seat cfg q (r_key ?h) u))"
  proof (cases "p = q")
    case True
    have "seated cfg p (delete_seat cfg q (r_key ?h) u) name = seated cfg p u name"
    proof -
      have "\<not> (\<exists>r\<in>set u. (seat_row cfg r \<and> r_project r = Some q \<and> r_key r = r_key ?h) \<and> seat_at cfg p name r)"
        using assms(4) hk by (auto simp: seat_at_def)
      then show ?thesis unfolding delete_seat_def seated_delete [OF ok] by (simp add: restrict_map_def)
    qed
    with True u [of p] l show ?thesis by (intro sit_then_leave) simp_all
  next
    case False
    have "seated cfg p (delete_seat cfg q (r_key ?h) u) = seated cfg p u"
    proof -
      have "{x. \<exists>r\<in>set u. (seat_row cfg r \<and> r_project r = Some q \<and> r_key r = r_key ?h) \<and> seat_at cfg p x r} = {}"
        using False by (auto simp: seat_at_def)
      then show ?thesis unfolding delete_seat_def seated_delete [OF ok] by (simp add: restrict_map_def)
    qed
    with sat show ?thesis by simp
  qed
qed

lemma continue_refines:
  assumes "presence_ok cfg t" and "found cfg c q rows t" and "continue_claim cfg c q pv pf ws rows now t = (r, t')"
  shows "seat_spec (seated cfg p t) (seated cfg p t')"
proof -
  have ref: "seat_spec (seated cfg p t) (seated cfg p (snd (refresh_seat cfg c q pv pf v rows now t)))" for v
    by (rule leaves_spec [OF refresh_leaves [OF assms(1,2)]])
  show ?thesis
  proof (cases "\<exists>name. pf = Some name \<and> sr_runtime c \<and> name \<noteq> seat_name (held_row c rows) \<and> same_process c rows")
    case False
    then have "continue_claim cfg c q pv pf ws rows now t = refresh_seat cfg c q pv pf ws rows now t"
      by (auto simp: continue_claim_def Let_def split: option.split)
    with assms(3) ref [of ws] show ?thesis by simp
  next
    case True
    then obtain name where pf: "pf = Some name" "sr_runtime c \<and> name \<noteq> seat_name (held_row c rows) \<and> same_process c rows" by blast
    obtain b u where bu: "try_move cfg c q pv name rows now t = (b, u)" by fastforce
    show ?thesis
    proof (cases b)
      case True
      then have mv: "try_move cfg c q pv name rows now t = (True, u)" using bu by simp
      have ne: "name \<noteq> seat_name (held_row c rows)" using pf(2) by blast
      note m = move_refines [OF assms(1,2) mv ne, of p]
      from assms(3) pf mv consider "t' = t" | "t' = u" | "t' = delete_seat cfg q (r_key (held_row c rows)) u"
        by (auto simp: continue_claim_def Let_def split: if_splits)
      then show ?thesis using m spec_stutter by cases simp_all
    next
      case False
      then have "u = t" using bu by (auto simp: try_move_cases split: if_splits option.splits)
      with assms(3) pf bu False ref [of "[RuntimeUnavailable name]"] spec_stutter show ?thesis
        by (auto simp: continue_claim_def Let_def split: if_splits)
    qed
  qed
qed

lemma claim_refines:
  assumes "presence_ok cfg t"
  shows "seat_spec (seated cfg p t) (seated cfg p (snd (seat_claim cfg c now t)))"
proof (cases "list_ex (\<lambda>y. or_none (norm (sr_preferred c)) = Some y) SEAT_EXEMPT_IDENTITIES \<or> norm (sr_project c) \<in> set SEAT_EXEMPT_IDENTITIES")
  case True
  then show ?thesis using spec_stutter by (auto simp: seat_claim_def Let_def)
next
  case False
  let ?q = "norm (sr_project c)"
  let ?t0 = "register_project cfg ?q now t"
  let ?rows = "in_order (base_name ?q (provider_of c)) (held_rows cfg ?q (sr_session_key c) ?t0)"
  have ne: "?q \<notin> set SEAT_EXEMPT_IDENTITIES" "\<not> list_ex (\<lambda>y. or_none (norm (sr_preferred c)) = Some y) SEAT_EXEMPT_IDENTITIES"
    using False by blast+
  note ok0 = register_project_ok [OF assms, of ?q now]
  from refl refl refl ne show ?thesis
  proof (cases rule: seat_claim_cases [where cfg = cfg and now = now and t = t])
    case (alloc ws)
    then show ?thesis unfolding start_allocation_def
      using allocate_refines [OF ok0, of c] by (metis seated_register prod.collapse)
  next
    case (hold r u)
    have "found cfg c ?q ?rows ?t0"
      using hold(1) seat_at_iff [OF ok0] by (auto simp: found_def held_rows_def seat_name_def)
    from continue_refines [OF ok0 this hold(4), of p] hold(3) show ?thesis by simp
  qed
qed

lemma certify_refines: "seat_spec (seated cfg p t) (seated cfg p (snd (death_certify cfg q now t)))"
proof -
  let ?p = "norm (dr_project q)"
  obtain b b' t1 where r: "record_cert (new_cert cfg ?p q now) (dr_died_at q) t = (b, b', t1)" by (metis surj_pair)
  have "filter (seat_row cfg) t1 = filter (seat_row cfg) t"
  proof -
    have "filter (seat_row cfg) (sql_update (\<lambda>s. ukey_of s = cert_key cfg ?p (cert_idem q)) (recert x) t) = filter (seat_row cfg) t" for x
      by (rule filter_update_outside) (auto simp: cert_key_def ukey_of_def recert_def seat_row_def DEATH_SCOPE_def SEAT_SCOPE_def)
    moreover have "\<not> seat_row cfg ((new_cert cfg ?p q now)\<lparr>r_id := i\<rparr>)" for i by (simp add: new_cert_def new_row_def seat_row_def)
    ultimately show ?thesis using r by (auto simp: record_cert_def split: option.splits if_splits)
  qed
  then have 1: "seated cfg p t1 = seated cfg p t" by (rule seated_filter)
  have 2: "seated cfg p (sql_update (seat_at cfg ?p (dr_seat q)) (cert_stamp q) u) = seated cfg p u" for u
    by (rule certifying.seated_update) (auto simp: cert_stamp_def split: option.split)
  have 3: "seated cfg p (snd (feed_cursor cfg ?p q now u)) = seated cfg p u" for u
  proof -
    have "seated cfg p (sql_update (cursor_at cfg ?p l) (set_md m) u) = seated cfg p u" for l m
      by (rule set_doc.seated_update) (auto simp: cursor_at_def seat_row_def LANE_CURSOR_SCOPE_def SEAT_SCOPE_def)
    moreover have "seated cfg p (snd (insert_do_update (\<lambda>x r. r\<lparr>r_metadata := r_metadata x\<rparr>) (new_cursor cfg ?p q ids now) u)) = seated cfg p u" for ids
      by (intro seated_filter filter_insert_do_update)
        (auto simp: new_cursor_def new_row_def ukey_of_def seat_row_def LANE_CURSOR_SCOPE_def SEAT_SCOPE_def)
    ultimately show ?thesis by (simp add: feed_cursor_def Let_def split: option.split)
  qed
  have "seated cfg p (snd (death_certify cfg q now t)) = seated cfg p t"
    using r by (simp add: death_certify_def Let_def split_beta 1 2 3)
  then show ?thesis by (simp add: spec_stutter)
qed

lemma release_refines:
  assumes "presence_ok cfg t"
  shows "seat_spec (seated cfg p t) (seated cfg p (snd (seat_release cfg k q ev n now t)))"
proof -
  let ?hit = "releases cfg (norm q) k (or_none (py_strip (or_empty n)))"
  have "leaves k (seated cfg p t) (seated cfg p (sql_delete ?hit t))"
    using assms by (rule delete_leaves) (simp add: releases_def)
  moreover have "seated cfg p (stamp_presence_released cfg s (norm q) m now u) = seated cfg p u" for s m u
    unfolding stamp_presence_released_def
    by (auto intro!: releasing.seated_update simp: presence_at_def)
  ultimately show ?thesis
    by (auto simp: seat_release_def Let_def intro: leaves_spec spec_stutter split: option.split)
qed

lemma beats_refine:
  "seated cfg p (snd (presence_update cfg b now t)) = seated cfg p t"
  "seated cfg p (snd (presence_watcher_beat cfg j q now t)) = seated cfg p t"
  "seated cfg p (snd (presence_farewell cfg j q now t)) = seated cfg p t"
proof -
  have md: "seated cfg p u = (\<lambda>x. Option.bind (map_option md (fetchrow (seat_at cfg p x) u)) (\<lambda>m. jget_text m ''session_key''))" for u
    by (auto simp: seated_def fun_eq_iff split: bind_split option.split)
  show "seated cfg p (snd (presence_update cfg b now t)) = seated cfg p t" unfolding md fetch_seat_update ..
  show "seated cfg p (snd (presence_watcher_beat cfg j q now t)) = seated cfg p t"
    by (auto simp: presence_watcher_beat_def Let_def presence_at_def touching.seated_update watcher_marking.seated_update)
  show "seated cfg p (snd (presence_farewell cfg j q now t)) = seated cfg p t"
    by (auto simp: presence_farewell_def Let_def presence_at_def farewell_marking.seated_update)
qed

text \<open>C33. The registry implements the abstract system: seen as a map from the names of any project
  to the sessions that hold them, every claim (with its renames, take-overs and dropped
  duplicates), certificate, release, heartbeat and farewell is a step of \<open>seat_spec\<close>, in which
  one session sits down on one name or leaves names of its own.\<close>

theorem registry_refines_seat_spec:
  assumes "presence_ok cfg t" and "registry_step cfg t t'"
  shows "seat_spec (seated cfg p t) (seated cfg p t')"
  using assms(2) assms(1)
  by cases (simp_all add: claim_refines certify_refines release_refines beats_refine spec_stutter)

theorem registry_refines_seat_spec_witness:
  "seat_spec (seated default_settings ''engram'' seats_demo)
     (seated default_settings ''engram'' (snd (seat_release default_settings ''k1'' (Some ''engram'') None (Some ''n1'') 9 seats_demo)))"
  using registry_refines_seat_spec [OF seats_demo_steps(2) registry_step.release] .

end
