(* ===== verification/Requests.thy ===== *)
theory Requests
  imports Access Project_Alias
begin

text \<open>
  The request models of \<^verbatim>\<open>server/models.py\<close>: the fields a client sends as records, and the
  validation of each model as a function that rejects the request (status 422) or returns it in
  its normal form. Legacy namespaces and renamed projects are resolved here, before a handler
  sees the request; an omitted \<^verbatim>\<open>user_id\<close> is filled in; sizes are bounded. Fields a handler never
  reads and the wording of messages are left out.
\<close>

section \<open>Bounds\<close>

definition MAX_VALUE :: nat where "MAX_VALUE = 256000"
definition MAX_KEY :: nat where "MAX_KEY = 512"
definition MAX_TAGS :: nat where "MAX_TAGS = 4000"
definition MAX_SUBJECT :: nat where "MAX_SUBJECT = 1000"
definition MAX_ADDR :: nat where "MAX_ADDR = 256"
definition MAX_LIST :: nat where "MAX_LIST = 64"
definition MAX_SEARCH_LIMIT :: int where "MAX_SEARCH_LIMIT = 200"
definition MAX_INBOX_LIMIT :: int where "MAX_INBOX_LIMIT = 500"
definition MAX_KEYS_LIMIT :: int where "MAX_KEYS_LIMIT = 2000"
definition MAX_EXPIRY_DAYS :: int where "MAX_EXPIRY_DAYS = 36500"

definition fits :: "nat \<Rightarrow> 'a list option \<Rightarrow> bool" where
  "fits n v = (case v of None \<Rightarrow> True | Some xs \<Rightarrow> length xs \<le> n)"

definition blank :: "string \<Rightarrow> bool" where
  "blank s \<longleftrightarrow> py_strip s = ''''"

text \<open>Validation errors are answered with 422.\<close>

definition valid :: "bool \<Rightarrow> 'a \<Rightarrow> 'a res" where
  "valid P x = (if P then Inr x else Inl (HTTPException 422))"

section \<open>Memory requests\<close>

text \<open>The identity of a row as \<^verbatim>\<open>MemoryGetRequest\<close> and \<^verbatim>\<open>MemoryForgetRequest\<close> send it; the
  user id is absent when the client left it out.\<close>

record row_ref =
  rf_namespace :: string
  rf_key :: string
  rf_scope :: string
  rf_user_id :: "string option"
  rf_project :: "string option"

datatype tags_field = TagText string | TagList "string list"

record memory_set_request = row_ref +
  ms_value :: string
  ms_tags :: tags_field
  ms_tags_search :: string
  ms_expiration_days :: int
  ms_listen_set :: "string list option"
  ms_reader_identity :: "string option"
  ms_if_match :: "string option"
  ms_extra :: "string list"
    \<comment> \<open>names of the fields the model does not know\<close>

record flag_request = row_ref +
  fl_reason :: string

record partition_ref =
  pf_namespace :: "string option"
  pf_namespaces :: "string list option"
  pf_scope :: string
  pf_user_id :: "string option"
  pf_project :: "string option"
  pf_limit :: int

record search_request = partition_ref +
  sq_query :: string
  sq_listen_set :: "string list option"
  sq_reader_identity :: "string option"
  sq_snippet_lines :: "nat option"
  sq_include_superseded :: bool

record keys_request = partition_ref +
  kq_prefix :: string

record supersede_request =
  sp_namespace :: string
  sp_key :: string
  sp_scope :: string
  sp_project :: "string option"
  sp_target_user_id :: string
  sp_reason :: string
  sp_replacement_key :: "string option"

text \<open>\<^verbatim>\<open>_canonicalize_project\<close>, on the map of old names the process has cached.\<close>

definition canonicalize_project :: "(string \<times> string) list \<Rightarrow> string option \<Rightarrow> string option" where
  "canonicalize_project al v =
     (case v of None \<Rightarrow> None | Some p \<Rightarrow> if blank p then Some p else Some (canonical al p))"

text \<open>The default of \<^verbatim>\<open>user_id\<close>, and \<^verbatim>\<open>_shared_scope_means_global\<close>.\<close>

definition default_user :: "string \<Rightarrow> string option \<Rightarrow> string" where
  "default_user sc u =
     (case u of Some x \<Rightarrow> x | None \<Rightarrow> if sc = ''shared'' then ''global'' else ''default'')"

definition canon_ref :: "settings \<Rightarrow> (string \<times> string) list \<Rightarrow> 'a row_ref_scheme \<Rightarrow> 'a row_ref_scheme" where
  "canon_ref cfg al r =
     r\<lparr>rf_namespace := canonical_namespace cfg (rf_namespace r),
       rf_user_id := Some (default_user (rf_scope r) (rf_user_id r)),
       rf_project := canonicalize_project al (rf_project r)\<rparr>"

text \<open>The key a request names, as the services take it.\<close>

definition ref_key :: "'a row_ref_scheme \<Rightarrow> ukey" where
  "ref_key r = (rf_namespace r, rf_key r, rf_scope r, or_empty (rf_user_id r), rf_project r)"

definition coerce_tags :: "tags_field \<Rightarrow> string" where
  "coerce_tags v = (case v of TagText s \<Rightarrow> s | TagList ts \<Rightarrow> join '', '' ts)"

definition parse_set :: "settings \<Rightarrow> (string \<times> string) list \<Rightarrow> memory_set_request \<Rightarrow> memory_set_request res" where
  "parse_set cfg al r0 =
     (let r = (canon_ref cfg al r0)\<lparr>ms_tags := TagText (coerce_tags (ms_tags r0))\<rparr>
      in valid (length (rf_key r) \<le> MAX_KEY \<and> length (ms_value r) \<le> MAX_VALUE \<and>
           fits MAX_ADDR (rf_user_id r0) \<and> fits MAX_ADDR (rf_project r) \<and>
           length (coerce_tags (ms_tags r0)) \<le> MAX_TAGS \<and> length (ms_tags_search r) \<le> MAX_TAGS \<and>
           0 \<le> ms_expiration_days r \<and> ms_expiration_days r \<le> MAX_EXPIRY_DAYS \<and>
           fits MAX_LIST (ms_listen_set r) \<and> fits MAX_ADDR (ms_reader_identity r) \<and>
           fits 64 (ms_if_match r)) r)"

definition parse_ref :: "settings \<Rightarrow> (string \<times> string) list \<Rightarrow> row_ref \<Rightarrow> row_ref res" where
  "parse_ref cfg al r0 = Inr (canon_ref cfg al r0)"

definition parse_flag :: "settings \<Rightarrow> (string \<times> string) list \<Rightarrow> flag_request \<Rightarrow> flag_request res" where
  "parse_flag cfg al r0 =
     (let r = canon_ref cfg al r0
      in valid (rf_scope r \<in> {''project'', ''shared'', ''user'', ''machine''} \<and>
           fits MAX_ADDR (rf_user_id r0) \<and> fits MAX_ADDR (rf_project r) \<and>
           3 \<le> length (fl_reason r) \<and> length (fl_reason r) \<le> 2000) r)"

definition canon_partition ::
  "settings \<Rightarrow> (string \<times> string) list \<Rightarrow> 'a partition_ref_scheme \<Rightarrow> 'a partition_ref_scheme" where
  "canon_partition cfg al r =
     r\<lparr>pf_namespace := map_option (canonical_namespace cfg) (pf_namespace r),
       pf_namespaces := map_option (map (canonical_namespace cfg)) (pf_namespaces r),
       pf_user_id := Some (default_user (pf_scope r) (pf_user_id r)),
       pf_project := canonicalize_project al (pf_project r)\<rparr>"

definition parse_search :: "settings \<Rightarrow> (string \<times> string) list \<Rightarrow> search_request \<Rightarrow> search_request res" where
  "parse_search cfg al r0 =
     (let r = canon_partition cfg al r0
      in valid (\<not> blank (sq_query r) \<and> length (sq_query r) \<le> MAX_VALUE \<and>
           fits MAX_ADDR (pf_user_id r0) \<and> fits MAX_ADDR (pf_project r) \<and>
           1 \<le> pf_limit r \<and> pf_limit r \<le> MAX_SEARCH_LIMIT \<and>
           fits MAX_LIST (sq_listen_set r) \<and> fits MAX_ADDR (sq_reader_identity r) \<and>
           (case sq_snippet_lines r of None \<Rightarrow> True | Some n \<Rightarrow> 1 \<le> n \<and> n \<le> 500)) r)"

definition parse_keys :: "settings \<Rightarrow> (string \<times> string) list \<Rightarrow> keys_request \<Rightarrow> keys_request res" where
  "parse_keys cfg al r0 =
     (let r = canon_partition cfg al r0
      in valid (length (kq_prefix r) \<le> MAX_KEY \<and>
           fits MAX_ADDR (pf_user_id r0) \<and> fits MAX_ADDR (pf_project r) \<and>
           1 \<le> pf_limit r \<and> pf_limit r \<le> MAX_KEYS_LIMIT) r)"

text \<open>\<^verbatim>\<open>explicit_namespaces\<close>: an empty list or an empty name counts as not given.\<close>

definition explicit_namespaces :: "'a partition_ref_scheme \<Rightarrow> string list option" where
  "explicit_namespaces r =
     (case pf_namespaces r of
        Some (n # ns) \<Rightarrow> Some (n # ns)
      | _ \<Rightarrow> (case Option.bind (pf_namespace r) or_none of Some n \<Rightarrow> Some [n] | None \<Rightarrow> None))"

definition parse_supersede ::
  "settings \<Rightarrow> (string \<times> string) list \<Rightarrow> supersede_request \<Rightarrow> supersede_request res" where
  "parse_supersede cfg al r0 =
     (let r = r0\<lparr>sp_namespace := canonical_namespace cfg (sp_namespace r0),
                  sp_project := canonicalize_project al (sp_project r0)\<rparr>
      in valid (sp_scope r \<in> {''project'', ''shared''} \<and> fits MAX_ADDR (sp_project r) \<and>
           length (sp_target_user_id r) \<le> MAX_ADDR \<and>
           3 \<le> length (sp_reason r) \<and> length (sp_reason r) \<le> 2000 \<and>
           fits MAX_KEY (sp_replacement_key r)) r)"

section \<open>Mail requests\<close>

definition INBOX_INTENTS :: "string list" where
  "INBOX_INTENTS = [''fyi'', ''action'', ''proceed'', ''escalate'', ''authority-directive'']"

datatype recipients = One string | Many "string list"

record inbox_send_request =
  is_to :: recipients
  is_body :: string
  is_subject :: string
  is_from :: "string option"
  is_thread_id :: "string option"
  is_supersedes :: "string option"
  is_intent :: "string option"
  is_listen_set :: "string list option"
  is_from_lane :: "string option"
  is_in_reply_to :: "string option"
  is_huddle_lifecycle :: bool
  is_relayed_from :: "string option"

text \<open>The loop of \<^verbatim>\<open>to_not_empty\<close> that drops an address named before in other letters.\<close>

fun dedupe_to :: "string list \<Rightarrow> string list \<Rightarrow> string list" where
  "dedupe_to seen [] = []"
| "dedupe_to seen (a # as) =
     (let b = py_strip a
      in if py_lower b \<in> set seen then dedupe_to seen as else b # dedupe_to (py_lower b # seen) as)"

definition to_not_empty :: "recipients \<Rightarrow> recipients res" where
  "to_not_empty v =
     (case v of
        One a \<Rightarrow> valid (\<not> blank a) (One (py_strip a))
      | Many as \<Rightarrow> valid (as \<noteq> [] \<and> \<not> list_ex blank as) (Many (dedupe_to [] as)))"

definition to_bounded :: "recipients \<Rightarrow> bool" where
  "to_bounded v = (case v of One a \<Rightarrow> True | Many as \<Rightarrow> length as \<le> MAX_LIST)"

definition raw_targets :: "recipients \<Rightarrow> string list" where
  "raw_targets v = (case v of One a \<Rightarrow> [a] | Many as \<Rightarrow> as)"

definition intent_valid :: "string option \<Rightarrow> bool" where
  "intent_valid v = (case v of None \<Rightarrow> True | Some i \<Rightarrow> i \<in> set INBOX_INTENTS)"

definition parse_send :: "inbox_send_request \<Rightarrow> inbox_send_request res" where
  "parse_send r =
     (case to_not_empty (is_to r) of
        Inl e \<Rightarrow> Inl e
      | Inr v \<Rightarrow>
          valid (to_bounded v \<and> \<not> blank (is_body r) \<and> length (is_body r) \<le> MAX_VALUE \<and>
            length (is_subject r) \<le> MAX_SUBJECT \<and> fits MAX_ADDR (is_from r) \<and>
            fits MAX_ADDR (is_thread_id r) \<and> fits MAX_ADDR (is_supersedes r) \<and>
            intent_valid (is_intent r) \<and> fits MAX_LIST (is_listen_set r) \<and>
            fits MAX_ADDR (is_from_lane r) \<and> fits MAX_ADDR (is_in_reply_to r) \<and>
            fits MAX_ADDR (is_relayed_from r)) (r\<lparr>is_to := v\<rparr>))"

record inbox_list_request =
  il_listen_set :: "string list"
  il_reader_identity :: "string option"
  il_unread_only :: bool
  il_include_resolved :: bool
  il_limit :: int
  il_newest_first :: bool
  il_unhandled_only :: bool
  il_mark_delivered :: bool

definition parse_list :: "inbox_list_request \<Rightarrow> inbox_list_request res" where
  "parse_list r =
     valid (length (il_listen_set r) \<le> MAX_LIST \<and> fits MAX_ADDR (il_reader_identity r) \<and>
       1 \<le> il_limit r \<and> il_limit r \<le> MAX_INBOX_LIMIT) r"

text \<open>Durations of a wait are in microseconds, as the clock is.\<close>

record inbox_wait_request =
  iw_listen_set :: "string list"
  iw_reader_identity :: "string option"
  iw_timeout :: int
  iw_since :: "instant option"
  iw_include_fyi :: bool

definition timeout_bounds :: "int \<Rightarrow> bool" where
  "timeout_bounds v \<longleftrightarrow> 0 \<le> v \<and> v \<le> seconds 300"

definition parse_wait :: "inbox_wait_request \<Rightarrow> inbox_wait_request res" where
  "parse_wait r = valid (timeout_bounds (iw_timeout r)) r"

record wake_request =
  wq_to :: recipients
  wq_ref :: string
  wq_note :: string
  wq_from :: "string option"
  wq_relayed_from :: "string option"

definition parse_wake :: "wake_request \<Rightarrow> wake_request res" where
  "parse_wake r =
     valid (length (wq_ref r) \<le> MAX_ADDR \<and> length (wq_note r) \<le> 280 \<and>
       fits MAX_ADDR (wq_from r) \<and> fits MAX_ADDR (wq_relayed_from r)) r"

text \<open>\<^verbatim>\<open>reader_not_empty\<close> of the acknowledgement and resolution models, \<^verbatim>\<open>thread_not_empty\<close>.\<close>

definition reader_not_empty :: "string \<Rightarrow> string res" where
  "reader_not_empty v = valid (\<not> blank v) (py_strip v)"

end
