(* ===== verification/Memory_Router.thy ===== *)
theory Memory_Router
  imports Requests Inbox Presence
begin

text \<open>
  The memory half of \<^verbatim>\<open>server/routers/memory.py\<close>: what each endpoint does with a validated
  request on behalf of the authenticated principal. A handler returns the structured fields of
  its response or the exception it raises, and the state of the server with the audit trail of
  \<^verbatim>\<open>audit_service.py\<close>. \<^verbatim>\<open>OwnershipConflict\<close> and \<^verbatim>\<open>VersionConflict\<close> are answered with 409 and
  \<^verbatim>\<open>ForgetDenied\<close> with 403, each with the fields of the exception; every other exception of a
  service becomes 500. Warnings are the names they list; their wording is left out.
\<close>

section \<open>Shared pieces\<close>

text \<open>The headers of a request, by lower-case name; an empty value counts as absent.\<close>

type_synonym headers = "(string \<times> string) list"

definition header :: "headers \<Rightarrow> string \<Rightarrow> string option" where
  "header h k = Option.bind (map_of h k) or_none"

definition pname :: "principal option \<Rightarrow> string option" where
  "pname p = map_option p_name p"

text \<open>\<^verbatim>\<open>bool(principal and principal.get("is_admin"))\<close>.\<close>

definition padmin :: "principal option \<Rightarrow> bool" where
  "padmin p = (case p of None \<Rightarrow> False | Some q \<Rightarrow> p_is_admin q)"

definition audit :: "string \<Rightarrow> principal option \<Rightarrow> jobj \<Rightarrow> string option \<Rightarrow> instant \<Rightarrow> server \<Rightarrow> server" where
  "audit action p detail target now s =
     s\<lparr>audit_log := audit_log s @
        [\<lparr>au_principal = pname p, au_action = action, au_target = target,
          au_detail = (case Option.bind (pname p) or_none of
                         None \<Rightarrow> detail | Some n \<Rightarrow> jput ''by'' (JStr n) detail),
          au_created_at = now\<rparr>]\<rparr>"

definition RESERVED_SCOPES :: "string list" where
  "RESERVED_SCOPES = [INBOX_SCOPE, PRESENCE_SCOPE, SEAT_SCOPE, WAKE_SCOPE]"

definition READ_REJECTED_SCOPES :: "string list" where
  "READ_REJECTED_SCOPES = [WAKE_SCOPE]"

definition reject_wake_read :: "string \<Rightarrow> unit res" where
  "reject_wake_read sc = (if sc \<in> set READ_REJECTED_SCOPES then Inl (HTTPException 400) else Inr ())"

definition reject_reserved_scope :: "string \<Rightarrow> unit res" where
  "reject_reserved_scope sc = (if sc \<in> set RESERVED_SCOPES then Inl (HTTPException 400) else Inr ())"

definition probe_namespaces :: "settings \<Rightarrow> principal option \<Rightarrow> string \<Rightarrow> server \<Rightarrow> string list res" where
  "probe_namespaces cfg p fallback s =
     (case p of None \<Rightarrow> Inr [fallback] | Some _ \<Rightarrow> resolve_read_namespaces cfg p s)"

text \<open>The other writers of the key, asked for in project scope only.\<close>

definition other_writers ::
  "settings \<Rightarrow> principal option \<Rightarrow> 'a row_ref_scheme \<Rightarrow> instant \<Rightarrow> server \<Rightarrow> string list res" where
  "other_writers cfg p r now s =
     (if rf_scope r \<noteq> ''project'' then Inr []
      else case probe_namespaces cfg p (rf_namespace r) s of
             Inl e \<Rightarrow> Inl e
           | Inr readable \<Rightarrow>
               Inr (partition_siblings readable (rf_key r) (rf_project r) (rf_user_id r) now (memories s)))"

type_synonym banner = "nat \<times> nat \<times> (string \<times> string \<times> string \<times> int option) list"

text \<open>The inbox banner that rides on a write or a search; a listen set that does not validate
  gives none.\<close>

definition banner_for ::
  "settings \<Rightarrow> string list option \<Rightarrow> string option \<Rightarrow> instant \<Rightarrow> server \<Rightarrow> banner option \<times> server" where
  "banner_for cfg listen reader now s =
     (case listen of
        None \<Rightarrow> (None, s)
      | Some ls \<Rightarrow>
          (case validate_listen_set ls of
             Inl _ \<Rightarrow> (None, s)
           | Inr [] \<Rightarrow> (None, s)
           | Inr ls' \<Rightarrow> inbox_banner cfg ls' reader 5 now s))"

section \<open>The write\<close>

definition provenance :: "headers \<Rightarrow> principal option \<Rightarrow> jobj" where
  "provenance h p =
     (let stamp = (\<lambda>k v. case v of None \<Rightarrow> [] | Some x \<Rightarrow> [(k, JStr x)])
      in stamp ''principal'' (pname p) @ stamp ''machine'' (header h ''x-engram-machine'')
         @ stamp ''project'' (header h ''x-engram-project'') @ stamp ''cwd'' (header h ''x-engram-cwd'')
         @ stamp ''model_source'' (header h ''x-engram-model-source'')
         @ stamp ''model'' (header h ''x-engram-model''))"

definition set_args :: "headers \<Rightarrow> principal option \<Rightarrow> memory_set_request \<Rightarrow> set_req" where
  "set_args h p r =
     \<lparr>wr_value = ms_value r, wr_tags = coerce_tags (ms_tags r), wr_tags_search = ms_tags_search r,
      wr_expiration_days = ms_expiration_days r,
      wr_metadata = (if provenance h p = [] then None else Some (provenance h p)),
      wr_owner = pname p, wr_if_match = ms_if_match r, wr_is_admin = padmin p\<rparr>"

record set_response =
  st_key :: string
  st_namespace :: string
  st_created :: bool
  st_version :: string
  st_other_writers :: "string list"
  st_if_match_applied :: bool
  st_unknown_fields :: "string list"
  st_banner :: "banner option"

definition row_detail :: "'a row_ref_scheme \<Rightarrow> jobj" where
  "row_detail r =
     [(''namespace'', JStr (rf_namespace r)), (''key'', JStr (rf_key r)), (''scope'', JStr (rf_scope r)),
      (''user_id'', jopt (rf_user_id r)), (''project'', jopt (rf_project r))]"

definition set_memory ::
  "(string \<Rightarrow> string) \<Rightarrow> settings \<Rightarrow> headers \<Rightarrow> principal option \<Rightarrow> memory_set_request \<Rightarrow> instant
     \<Rightarrow> server \<Rightarrow> set_response res \<times> server" where
  "set_memory sha cfg h p r now s =
     (case reject_reserved_scope (rf_scope r) of
        Inl e \<Rightarrow> (Inl e, s)
      | Inr _ \<Rightarrow>
     (case check_namespace_access cfg p (rf_namespace r) ''write'' False of
        Inl e \<Rightarrow> (Inl e, s)
      | Inr _ \<Rightarrow>
     (case memory_set sha (ref_key r) (set_args h p r) now (memories s) of
        (Inl (OwnershipConflict o' by), t) \<Rightarrow>
          (Inl (OwnershipConflict o' by),
           audit ''memory.set.refused'' p
             [(''namespace'', JStr (rf_namespace r)), (''key'', JStr (rf_key r)), (''scope'', JStr (rf_scope r)),
              (''project'', jopt (rf_project r)), (''owner'', JStr o'), (''attempted_by'', jopt by)]
             None now (s\<lparr>memories := t\<rparr>))
      | (Inl (VersionConflict v ver), t) \<Rightarrow> (Inl (VersionConflict v ver), s\<lparr>memories := t\<rparr>)
      | (Inl (HTTPException n), t) \<Rightarrow> (Inl (HTTPException n), s\<lparr>memories := t\<rparr>)
      | (Inl _, t) \<Rightarrow> (Inl (HTTPException 500), s\<lparr>memories := t\<rparr>)
      | (Inr (key, created, version), t) \<Rightarrow>
          (let s1 = audit ''memory.set'' p (row_detail r @ [(''created'', JBool created)]) None now
                      (s\<lparr>memories := t\<rparr>);
               (bn, s2) = banner_for cfg (ms_listen_set r) (ms_reader_identity r) now s1
           in case other_writers cfg p r now s2 of
                Inl e \<Rightarrow> (Inl e, s2)
              | Inr others \<Rightarrow>
                  (Inr \<lparr>st_key = key, st_namespace = rf_namespace r, st_created = created,
                        st_version = version, st_other_writers = others,
                        st_if_match_applied = (ms_if_match r \<noteq> None),
                        st_unknown_fields = sort (ms_extra r), st_banner = bn\<rparr>, s2)))))"

section \<open>The reads\<close>

datatype get_response = Found memory_item | Missing "string list"
  \<comment> \<open>the other writers of a key that was not found\<close>

text \<open>The \<^verbatim>\<open>except Exception\<close> of the read handlers also catches an \<^verbatim>\<open>HTTPException\<close>.\<close>

definition get_memory ::
  "(string \<Rightarrow> string) \<Rightarrow> settings \<Rightarrow> principal option \<Rightarrow> row_ref \<Rightarrow> instant \<Rightarrow> server
     \<Rightarrow> get_response res \<times> server" where
  "get_memory sha cfg p r now s =
     (case reject_wake_read (rf_scope r) of
        Inl e \<Rightarrow> (Inl e, s)
      | Inr _ \<Rightarrow>
     (case check_namespace_access cfg p (rf_namespace r) ''read'' False of
        Inl e \<Rightarrow> (Inl e, s)
      | Inr _ \<Rightarrow>
     (case memory_get sha (ref_key r) now (memories s) of
        (Some item, t) \<Rightarrow> (Inr (Found item), s\<lparr>memories := t\<rparr>)
      | (None, t) \<Rightarrow>
          (case other_writers cfg p r now (s\<lparr>memories := t\<rparr>) of
             Inl _ \<Rightarrow> (Inl (HTTPException 500), s\<lparr>memories := t\<rparr>)
           | Inr others \<Rightarrow> (Inr (Missing others), s\<lparr>memories := t\<rparr>)))))"

text \<open>\<^verbatim>\<open>str.splitlines\<close>.\<close>

definition line_break :: "char \<Rightarrow> bool" where
  "line_break c \<longleftrightarrow> (of_char c :: nat) \<in> {10, 11, 12, 13, 28, 29, 30, 133}"

fun split_lines :: "string \<Rightarrow> string \<Rightarrow> string list" where
  "split_lines acc [] = (if acc = [] then [] else [rev acc])"
| "split_lines acc (c # cs) =
     (if (of_char c :: nat) = 13 \<and> cs \<noteq> [] \<and> (of_char (hd cs) :: nat) = 10
      then rev acc # split_lines [] (tl cs)
      else if line_break c then rev acc # split_lines [] cs
      else split_lines (c # acc) cs)"

text \<open>A search hit as it is shown: in full, or the first lines with the number of lines left
  out and the key and writer of the call that returns the rest.\<close>

datatype shown = Whole string | Snippet string nat string "string option"

definition snippet :: "row \<Rightarrow> nat \<Rightarrow> shown" where
  "snippet r max_lines =
     (let lines = split_lines [] (r_value r)
      in if length lines \<le> max_lines then Whole (r_value r)
         else Snippet (join [CHR 0x0A] (take max_lines lines)) (length lines - max_lines) (r_key r)
                (if r_scope r = ''project'' \<and> r_user_id r \<noteq> '''' then Some (r_user_id r) else None))"

record search_response =
  sr_results :: "(row \<times> string \<times> shown) list"
    \<comment> \<open>hit, version of its full value, and the value as shown\<close>
  sr_banner :: "banner option"
  sr_searched :: "(string list \<times> string \<times> string option \<times> string option) option"
    \<comment> \<open>the partition named when there was no hit\<close>

definition read_namespaces ::
  "settings \<Rightarrow> principal option \<Rightarrow> 'a partition_ref_scheme \<Rightarrow> server \<Rightarrow> string list res" where
  "read_namespaces cfg p r s =
     (case explicit_namespaces r of
        None \<Rightarrow> resolve_read_namespaces cfg p s
      | Some nss \<Rightarrow> (case check_namespaces_access cfg p nss ''read'' of Inl e \<Rightarrow> Inl e | Inr _ \<Rightarrow> Inr nss))"

definition search_memory ::
  "(string \<Rightarrow> string) \<Rightarrow> 'a search_cfg \<Rightarrow> (string \<Rightarrow> string \<Rightarrow> 'a::linordered_idom) \<Rightarrow> (string \<Rightarrow> string \<Rightarrow> 'a)
     \<Rightarrow> settings \<Rightarrow> principal option \<Rightarrow> search_request \<Rightarrow> instant \<Rightarrow> server \<Rightarrow> search_response res \<times> server" where
  "search_memory sha sc vdist sim cfg p r now s =
     (case reject_wake_read (pf_scope r) of
        Inl e \<Rightarrow> (Inl e, s)
      | Inr _ \<Rightarrow>
     (case read_namespaces cfg p r s of
        Inl e \<Rightarrow> (Inl e, s)
      | Inr nss \<Rightarrow>
     (case memory_search sc vdist sim nss (sq_query r) (pf_scope r) (or_empty (pf_user_id r)) (pf_project r)
             (nat (pf_limit r)) (sq_include_superseded r) now (memories s) of
        (Inl _, t) \<Rightarrow> (Inl (HTTPException 500), s\<lparr>memories := t\<rparr>)
      | (Inr rows, t) \<Rightarrow>
          (let (bn, s1) = banner_for cfg (sq_listen_set r) (sq_reader_identity r) now (s\<lparr>memories := t\<rparr>)
           in (Inr \<lparr>sr_results = map (\<lambda>x. (x, compute_version sha (Some (r_value x)),
                      case sq_snippet_lines r of None \<Rightarrow> Whole (r_value x) | Some n \<Rightarrow> snippet x n)) rows,
                    sr_banner = bn,
                    sr_searched = (if rows = [] then Some (nss, pf_scope r, pf_user_id r, pf_project r)
                                   else None)\<rparr>, s1)))))"

definition list_keys ::
  "settings \<Rightarrow> principal option \<Rightarrow> keys_request \<Rightarrow> instant \<Rightarrow> server \<Rightarrow> (row list \<times> nat) res" where
  "list_keys cfg p r now s =
     (case reject_wake_read (pf_scope r) of
        Inl e \<Rightarrow> Inl e
      | Inr _ \<Rightarrow>
     (case read_namespaces cfg p r s of
        Inl e \<Rightarrow> Inl e
      | Inr nss \<Rightarrow>
          Inr (memory_keys nss (kq_prefix r) (pf_scope r) (or_empty (pf_user_id r)) (pf_project r)
                 (nat (pf_limit r)) now (memories s))))"

section \<open>Deletion and retirement\<close>

definition forget_memory ::
  "settings \<Rightarrow> principal option \<Rightarrow> row_ref \<Rightarrow> instant \<Rightarrow> server \<Rightarrow> (bool \<times> string list) res \<times> server" where
  "forget_memory cfg p r now s =
     (case reject_reserved_scope (rf_scope r) of
        Inl e \<Rightarrow> (Inl e, s)
      | Inr _ \<Rightarrow>
     (case check_namespace_access cfg p (rf_namespace r) ''write'' False of
        Inl e \<Rightarrow> (Inl e, s)
      | Inr _ \<Rightarrow>
     (case memory_forget (ref_key r) (pname p) (padmin p) (memories s) of
        (Inl (ForgetDenied c actor), t) \<Rightarrow>
          (Inl (ForgetDenied c actor),
           audit ''memory.forget.denied'' p (row_detail r @ [(''controller'', JStr c)]) None now (s\<lparr>memories := t\<rparr>))
      | (Inl _, t) \<Rightarrow> (Inl (HTTPException 500), s\<lparr>memories := t\<rparr>)
      | (Inr deleted, t) \<Rightarrow>
          (case other_writers cfg p r now (s\<lparr>memories := t\<rparr>) of
             Inl e \<Rightarrow> (Inl e, s\<lparr>memories := t\<rparr>)
           | Inr others \<Rightarrow>
               (Inr (deleted, others),
                audit ''memory.forget'' p (row_detail r @ [(''deleted'', JBool deleted)]) None now
                  (s\<lparr>memories := t\<rparr>))))))"

definition flag_deletion ::
  "settings \<Rightarrow> principal option \<Rightarrow> flag_request \<Rightarrow> instant \<Rightarrow> server \<Rightarrow> (string \<times> string) res \<times> server" where
  "flag_deletion cfg p r now s =
     (case check_namespace_access cfg p (rf_namespace r) ''write'' False of
        Inl e \<Rightarrow> (Inl e, s)
      | Inr _ \<Rightarrow>
     (case memory_flag_deletion (ref_key r) (pname p) (fl_reason r) now (memories s) of
        (Inl _, t) \<Rightarrow> (Inl (HTTPException 422), s\<lparr>memories := t\<rparr>)
      | (Inr row, t) \<Rightarrow>
          (case row of None \<Rightarrow> Inl (HTTPException 404) | Some x \<Rightarrow> Inr (r_key x, r_namespace x),
           audit ''memory.flag_deletion'' p
             (row_detail r @ [(''reason'', JStr (fl_reason r)), (''found'', JBool (row \<noteq> None))]) None now
             (s\<lparr>memories := t\<rparr>))))"

text \<open>The answers of \<^verbatim>\<open>/memory/supersede\<close>; the last two are sent with status 404.\<close>

datatype supersede_answer =
    Retired row
  | AlreadyRetired "string option \<times> string option \<times> string option \<times> string option"
  | NoLiveRow

definition supersede_memory ::
  "settings \<Rightarrow> principal option \<Rightarrow> supersede_request \<Rightarrow> instant \<Rightarrow> server \<Rightarrow> supersede_answer res \<times> server" where
  "supersede_memory cfg p r now s =
     (case check_namespace_access cfg p (sp_namespace r) ''read'' False of
        Inl e \<Rightarrow> (Inl e, s)
      | Inr _ \<Rightarrow>
     (case memory_supersede [sp_namespace r] (sp_key r) (sp_project r) (sp_target_user_id r) (pname p)
             (sp_reason r) (sp_replacement_key r) (Some (sp_scope r)) now (memories s) of
        (Inl _, t) \<Rightarrow> (Inl (HTTPException 422), s\<lparr>memories := t\<rparr>)
      | (Inr row, t) \<Rightarrow>
          (Inr (case row of
                  Some x \<Rightarrow> Retired x
                | None \<Rightarrow>
                    (case supersede_stamp [sp_namespace r] (sp_key r) (sp_project r) (sp_target_user_id r)
                            (Some (sp_scope r)) t of
                       Some st \<Rightarrow> AlreadyRetired st | None \<Rightarrow> NoLiveRow)),
           audit ''memory.supersede'' p
             [(''key'', JStr (sp_key r)), (''scope'', JStr (sp_scope r)), (''project'', jopt (sp_project r)),
              (''target_user_id'', JStr (sp_target_user_id r)), (''reason'', JStr (sp_reason r)),
              (''replacement_key'', jopt (sp_replacement_key r)), (''found'', JBool (row \<noteq> None))] None now
             (s\<lparr>memories := t\<rparr>))))"

section \<open>Operations confined to a scope\<close>

text \<open>The contract of a write that names a scope: rows of other scopes stay as they are and where
  they are.\<close>

locale confined =
  fixes f :: "table \<Rightarrow> table" and sc :: string
  assumes other_scopes: "filter (\<lambda>r. r_scope r \<noteq> sc) (f t) = filter (\<lambda>r. r_scope r \<noteq> sc) t"
begin

lemma spares:
  assumes "sc \<notin> set scs"
  shows "filter (\<lambda>r. r_scope r \<in> set scs) (f t) = filter (\<lambda>r. r_scope r \<in> set scs) t"
proof -
  have "filter (\<lambda>r. r_scope r \<in> set scs) u = filter (\<lambda>r. r_scope r \<in> set scs) (filter (\<lambda>r. r_scope r \<noteq> sc) u)"
    for u :: table
    using assms by (auto intro: filter_cong)
  then show ?thesis using other_scopes by metis
qed

end

definition key_scope :: "ukey \<Rightarrow> string" where
  "key_scope k = fst (snd (snd k))"

lemma scope_ukey: "key_scope (ukey_of r) = r_scope r"
  by (simp add: key_scope_def ukey_of_def)

lemma key_scope_normal [simp]: "key_scope (normalize_key_fields k) = py_lower (key_scope k)"
  by (cases k) (simp add: key_scope_def normalize_key_fields_def)

lemma key_scope_ref [simp]: "key_scope (ref_key r) = rf_scope r"
  by (simp add: key_scope_def ref_key_def)

lemma confined_upsert:
  "filter (\<lambda>r. r_scope r \<noteq> key_scope (ukey_of x)) (snd (upsert_memory x t)) =
   filter (\<lambda>r. r_scope r \<noteq> key_scope (ukey_of x)) t"
proof -
  have s: "r_scope (stored x t) = key_scope (ukey_of x)"
    by (metis scope_ukey stored_simps(1))
  have "ukey_of s = ukey_of x \<Longrightarrow> r_scope s = key_scope (ukey_of x)
      \<and> r_scope (overwrite x s) = key_scope (ukey_of x)" for s
    by (metis scope_ukey overwriting.keeps_ukey)
  then show ?thesis
    using s by (auto simp: upsert_memory_table filter_update_outside split: option.split)
qed

lemma confined_collapse:
  "filter (\<lambda>r. r_scope r \<noteq> key_scope k) (collapse_twins k w now t) = filter (\<lambda>r. r_scope r \<noteq> key_scope k) t"
  unfolding collapse_twins_def
  by (intro filter_update_outside) (auto simp: twin_of_def key_scope_def split: prod.splits)

interpretation setting: confined "\<lambda>t. snd (memory_set sha k w now t)" "py_lower (key_scope k)" for sha k w now
proof
  fix t
  let ?n = "normalize_key_fields k"
  obtain r t' where m: "memory_set sha k w now t = (r, t')" by force
  show "filter (\<lambda>r. r_scope r \<noteq> py_lower (key_scope k)) (snd (memory_set sha k w now t)) =
      filter (\<lambda>r. r_scope r \<noteq> py_lower (key_scope k)) t"
  proof (cases r)
    case (Inl e)
    with m show ?thesis by (auto dest: memory_set_Inl)
  next
    case (Inr out)
    from memory_set_Inr [OF m [unfolded Inr]] confined_upsert [of "written_row ?n w now" t]
      confined_collapse [of ?n]
    show ?thesis by (auto simp: m Let_def)
  qed
qed

interpretation forgetting: confined "\<lambda>t. snd (memory_forget k actor adm t)" "py_lower (key_scope k)" for k actor adm
proof
  fix t
  have "r_scope r \<noteq> py_lower (key_scope k) \<Longrightarrow> ukey_of r \<noteq> normalize_key_fields k" for r
    by (metis key_scope_normal scope_ukey)
  then show "filter (\<lambda>r. r_scope r \<noteq> py_lower (key_scope k)) (snd (memory_forget k actor adm t)) =
      filter (\<lambda>r. r_scope r \<noteq> py_lower (key_scope k)) t"
    by (auto simp: memory_forget_def Let_def sql_delete_def split: option.split intro!: filter_cong)
qed

interpretation flagging: confined "\<lambda>t. snd (memory_flag_deletion k actor reason now t)" "py_lower (key_scope k)"
  for k actor reason now
proof
  fix t
  have "ukey_of r = normalize_key_fields k \<Longrightarrow> r_scope r = py_lower (key_scope k)" for r
    by (metis key_scope_normal scope_ukey)
  then show "filter (\<lambda>r. r_scope r \<noteq> py_lower (key_scope k)) (snd (memory_flag_deletion k actor reason now t)) =
      filter (\<lambda>r. r_scope r \<noteq> py_lower (key_scope k)) t"
    by (auto simp: memory_flag_deletion_def Let_def intro!: filter_update_outside)
qed

interpretation superseding: confined "\<lambda>t. snd (memory_supersede nss key pr target actor reason repl sc now t)" "supersede_scope sc"
  for nss key pr target actor reason repl sc now
  by unfold_locales
    (auto simp: memory_supersede_def Let_def supersede_target_def intro!: filter_update_outside)

section \<open>Frames of the handlers\<close>

lemma audit_frame [simp]:
  "memories (audit a p d tg now s) = memories s"
  "principals (audit a p d tg now s) = principals s"
  by (simp_all add: audit_def)

lemma expand_audit [simp]: "audit_log (snd (expand_listen_set now l s)) = audit_log s"
  by (simp add: expand_listen_set_def Let_def alias_refresh_def role_refresh_def)

lemma inbox_list_peek:
  assumes "\<not> ls_mark_delivered q"
  shows "memories (snd (inbox_list cfg ls reader q now s)) = memories s"
    "audit_log (snd (inbox_list cfg ls reader q now s)) = audit_log s"
  using assms by (simp_all add: inbox_list_def Let_def split_beta)

lemma banner_frame [simp]:
  "memories (snd (inbox_banner cfg ls reader n now s)) = memories s"
  "audit_log (snd (inbox_banner cfg ls reader n now s)) = audit_log s"
  by (simp_all add: inbox_banner_def inbox_unread_count_def Let_def split_beta inbox_list_peek)

lemma banner_for_frame [simp]:
  "memories (snd (banner_for cfg ls reader now s)) = memories s"
  "audit_log (snd (banner_for cfg ls reader now s)) = audit_log s"
  by (auto simp: banner_for_def split: option.splits sum.splits list.splits)

section \<open>Who may probe\<close>

text \<open>A caller for whom \<^verbatim>\<open>_probe_namespaces\<close> cannot raise: anonymous, an admin, or a principal that may
  read something.\<close>

definition readable :: "principal option \<Rightarrow> bool" where
  "readable p = (case p of None \<Rightarrow> True | Some q \<Rightarrow> p_is_admin q \<or> p_read_namespaces q \<noteq> [])"

lemma readable_writers: "readable p \<Longrightarrow> \<exists>ws. other_writers cfg p r now s = Inr ws"
  by (auto simp: readable_def other_writers_def probe_namespaces_def resolve_read_namespaces_def
      split: option.splits sum.splits)

lemma access_error: "check_namespace_access cfg p ns ''write'' f = Inl e \<Longrightarrow> e = HTTPException 403"
  by (auto simp: check_namespace_access_def Let_def split: option.splits if_splits)

text \<open>The outcomes of the write handler: refused with the rows as they were, or stored, in the
  trail, and then answered unless the probe raises.\<close>

definition set_entry :: "principal option \<Rightarrow> 'a row_ref_scheme \<Rightarrow> bool \<Rightarrow> instant \<Rightarrow> audit_row" where
  "set_entry p r created now = last (audit_log
     (audit ''memory.set'' p (row_detail r @ [(''created'', JBool created)]) None now empty_server))"

lemma set_memory_outcomes:
  assumes "set_memory sha cfg h p r now s = (res, s')"
  shows "(\<exists>e. res = Inl e \<and> memories s' = memories s) \<or>
    (\<exists>k c v. memory_set sha (ref_key r) (set_args h p r) now (memories s) = (Inr (k, c, v), memories s') \<and>
       audit_log s' = audit_log s @ [set_entry p r c now] \<and>
       (case other_writers cfg p r now s' of
          Inl e \<Rightarrow> res = Inl e
        | Inr ws \<Rightarrow> \<exists>x. res = Inr x \<and> st_key x = k \<and> st_created x = c \<and> st_version x = v \<and> st_other_writers x = ws))"
proof (cases "reject_reserved_scope (rf_scope r)")
  case Inl
  with assms show ?thesis by (auto simp: set_memory_def)
next
  case ok: Inr
  show ?thesis
  proof (cases "check_namespace_access cfg p (rf_namespace r) ''write'' False")
    case Inl
    with ok assms show ?thesis by (auto simp: set_memory_def)
  next
    case acc: Inr
    obtain out t where m: "memory_set sha (ref_key r) (set_args h p r) now (memories s) = (out, t)" by force
    show ?thesis
    proof (cases out)
      case (Inl e)
      with m have "t = memories s" by (auto dest: memory_set_Inl)
      with Inl m ok acc assms show ?thesis
        by (cases e) (auto simp: set_memory_def)
    next
      case (Inr o')
      obtain k c v where o': "o' = (k, c, v)" by (cases o') auto
      let ?s1 = "audit ''memory.set'' p (row_detail r @ [(''created'', JBool c)]) None now (s\<lparr>memories := t\<rparr>)"
      obtain bn s2 where b: "banner_for cfg (ms_listen_set r) (ms_reader_identity r) now ?s1 = (bn, s2)" by force
      from b have f: "memories s2 = t" "audit_log s2 = audit_log s @ [set_entry p r c now]"
        using banner_for_frame [of cfg "ms_listen_set r" "ms_reader_identity r" now ?s1]
        by (simp_all add: set_entry_def audit_def)
      from assms ok acc m Inr o' b have "s' = s2 \<and> (case other_writers cfg p r now s2 of
          Inl e \<Rightarrow> res = Inl e
        | Inr ws \<Rightarrow> \<exists>x. res = Inr x \<and> st_key x = k \<and> st_created x = c \<and> st_version x = v \<and> st_other_writers x = ws)"
        by (auto simp: set_memory_def Let_def split: sum.splits)
      with f m Inr o' show ?thesis by auto
    qed
  qed
qed

lemma forget_memory_outcomes:
  assumes "forget_memory cfg p r now s = (res, s')"
  shows "(\<exists>e. res = Inl e \<and> memories s' = memories s) \<or>
    (\<exists>d. memory_forget (ref_key r) (pname p) (padmin p) (memories s) = (Inr d, memories s') \<and>
       (case other_writers cfg p r now (s\<lparr>memories := memories s'\<rparr>) of
          Inl e \<Rightarrow> res = Inl e \<and> audit_log s' = audit_log s
        | Inr ws \<Rightarrow> res = Inr (d, ws) \<and>
            s' = audit ''memory.forget'' p (row_detail r @ [(''deleted'', JBool d)]) None now (s\<lparr>memories := memories s'\<rparr>)))"
proof -
  obtain out t where m: "memory_forget (ref_key r) (pname p) (padmin p) (memories s) = (out, t)" by force
  then have "out = Inl e \<Longrightarrow> t = memories s \<and> (\<exists>c a. e = ForgetDenied c a)" for e
    by (auto simp: memory_forget_def Let_def split: option.splits)
  with assms m show ?thesis
    by (cases out) (auto simp: forget_memory_def split: sum.splits)
qed

section \<open>Protocol rows\<close>

definition protocol_rows :: "server \<Rightarrow> row list" where
  "protocol_rows s = filter (\<lambda>r. r_scope r \<in> set RESERVED_SCOPES) (memories s)"

text \<open>A write call of a client that spells the scope in lower case.\<close>

inductive memory_call :: "(string \<Rightarrow> string) \<Rightarrow> settings \<Rightarrow> server \<Rightarrow> server \<Rightarrow> bool" for sha cfg where
  set: "py_lower (rf_scope r) = rf_scope r \<Longrightarrow> memory_call sha cfg s (snd (set_memory sha cfg h p r now s))"
| forget: "py_lower (rf_scope r) = rf_scope r \<Longrightarrow> memory_call sha cfg s (snd (forget_memory cfg p r now s))"
| flag: "memory_call sha cfg s (snd (flag_deletion cfg p q now s))"
| supersede: "memory_call sha cfg s (snd (supersede_memory cfg p x now s))"

lemma data_scopes_free: "set DATA_SCOPES \<inter> set RESERVED_SCOPES = {}" by code_simp

lemma set_spares:
  assumes "py_lower (rf_scope r) = rf_scope r"
  shows "protocol_rows (snd (set_memory sha cfg h p r now s)) = protocol_rows s"
proof (cases "rf_scope r \<in> set RESERVED_SCOPES")
  case True
  then show ?thesis by (simp add: set_memory_def reject_reserved_scope_def)
next
  case False
  obtain res s' where m: "set_memory sha cfg h p r now s = (res, s')" by force
  from setting.spares [of "ref_key r" RESERVED_SCOPES sha "set_args h p r" now "memories s"] False assms
    set_memory_outcomes [OF m]
  show ?thesis by (auto simp: protocol_rows_def m)
qed

lemma forget_spares:
  assumes "py_lower (rf_scope r) = rf_scope r"
  shows "protocol_rows (snd (forget_memory cfg p r now s)) = protocol_rows s"
proof (cases "rf_scope r \<in> set RESERVED_SCOPES")
  case True
  then show ?thesis by (simp add: forget_memory_def reject_reserved_scope_def)
next
  case False
  obtain res s' where m: "forget_memory cfg p r now s = (res, s')" by force
  from forgetting.spares [of "ref_key r" RESERVED_SCOPES "pname p" "padmin p" "memories s"] False assms
    forget_memory_outcomes [OF m]
  show ?thesis by (auto simp: protocol_rows_def m)
qed

lemma flag_spares: "protocol_rows (snd (flag_deletion cfg p q now s)) = protocol_rows s"
proof -
  let ?t = "snd (memory_flag_deletion (ref_key q) (pname p) (fl_reason q) now (memories s))"
  have "protocol_rows (s\<lparr>memories := ?t\<rparr>) = protocol_rows s"
  proof (cases "py_lower (rf_scope q) \<in> set DATA_SCOPES")
    case True
    with data_scopes_free have "py_lower (key_scope (ref_key q)) \<notin> set RESERVED_SCOPES" by auto
    then show ?thesis by (simp add: protocol_rows_def flagging.spares)
  next
    case False
    then have "?t = memories s"
      by (simp add: memory_flag_deletion_def Let_def normalize_key_fields_def ref_key_def)
    then show ?thesis by simp
  qed
  then show ?thesis
    by (auto simp: flag_deletion_def protocol_rows_def split: sum.splits prod.splits)
qed

lemma supersede_spares: "protocol_rows (snd (supersede_memory cfg p x now s)) = protocol_rows s"
proof -
  let ?t = "snd (memory_supersede [sp_namespace x] (sp_key x) (sp_project x) (sp_target_user_id x) (pname p)
    (sp_reason x) (sp_replacement_key x) (Some (sp_scope x)) now (memories s))"
  have "protocol_rows (s\<lparr>memories := ?t\<rparr>) = protocol_rows s"
  proof (cases "supersede_scope (Some (sp_scope x)) \<in> {''project'', ''shared''}")
    case True
    with data_scopes_free have "supersede_scope (Some (sp_scope x)) \<notin> set RESERVED_SCOPES"
      by (auto simp: DATA_SCOPES_def)
    then show ?thesis by (simp add: protocol_rows_def superseding.spares)
  next
    case False
    then have "?t = memories s" by (simp add: memory_supersede_def Let_def)
    then show ?thesis by simp
  qed
  then show ?thesis
    by (auto simp: supersede_memory_def protocol_rows_def split: sum.splits prod.splits)
qed

lemma memory_call_spares: "memory_call sha cfg s s' \<Longrightarrow> protocol_rows s' = protocol_rows s"
  by (induction rule: memory_call.induct) (simp_all only: set_spares forget_spares flag_spares supersede_spares)

section \<open>Properties\<close>

text \<open>C12. The generic endpoints cannot touch the rows of the four reserved scopes, inbox, presence, seat
  and wake, through requests that spell their scope in lower case: however many such
  writes, deletions, flags and retirements are called, by whomever, every row of these scopes
  stays as it is and in its place. (The watch rows are in no reserved scope; a scope in capitals gets past
  the guard, \<open>reserved_scope_in_capitals\<close> below.)\<close>

theorem memory_calls_spare_protocol_rows:
  assumes "(memory_call sha cfg)\<^sup>*\<^sup>* s s'"
  shows "protocol_rows s' = protocol_rows s"
  using assms by (induction rule: rtranclp_induct) (simp_all add: memory_call_spares)

text \<open>C13. Attribution cannot be forged: whatever the body and the headers of an accepted write
  claim, the stored row belongs to the authenticated principal (to nobody when there is none),
  its value is the one sent, and the trail has gained exactly one entry, under that principal,
  which names the row.\<close>

theorem accepted_write_is_attributed:
  assumes "set_memory sha cfg h p r now s = (Inr x, s')"
  shows "\<exists>row a. row_at (normalize_key_fields (ref_key r)) (memories s') = Some row \<and>
      r_owner row = pname p \<and> r_value row = ms_value r \<and> st_version x = compute_version sha (Some (ms_value r)) \<and>
      audit_log s' = audit_log s @ [a] \<and> au_principal a = pname p \<and> au_action a = ''memory.set'' \<and>
      jget_str (au_detail a) ''key'' = Some (rf_key r) \<and> jget_str (au_detail a) ''scope'' = Some (rf_scope r)"
proof -
  from set_memory_outcomes [OF assms] obtain k c v
    where m: "memory_set sha (ref_key r) (set_args h p r) now (memories s) = (Inr (k, c, v), memories s')"
      and a: "audit_log s' = audit_log s @ [set_entry p r c now]"
      and v: "st_version x = v"
    by (cases "other_writers cfg p r now s'") auto
  from memory_set_Inr [OF m] have "v = compute_version sha (Some (ms_value r))"
    by (simp add: Let_def set_args_def)
  with memory_set_row_at [OF m] a v show ?thesis
    by (auto simp: set_args_def set_entry_def audit_def row_detail_def jget_str_def jget_text_def jget_def jput_def
        split: option.splits)
qed

text \<open>A refused write or deletion changed nothing: unless the caller is a principal that may
  read no namespace at all, an error answer of the endpoints means that every row is as it
  was.\<close>

theorem refused_memory_calls_change_nothing:
  assumes "readable p"
  shows "(set_memory sha cfg h p r now s = (Inl e, s') \<longrightarrow> memories s' = memories s) \<and>
    (forget_memory cfg p q now s = (Inl e', s'') \<longrightarrow> memories s'' = memories s)"
proof -
  have "memories s' = memories s" if "set_memory sha cfg h p r now s = (Inl e, s')"
    using set_memory_outcomes [OF that] readable_writers [OF assms, of cfg r now s'] by auto
  moreover have "memories s'' = memories s" if "forget_memory cfg p q now s = (Inl e', s'')"
    using forget_memory_outcomes [OF that] readable_writers [OF assms, of cfg q now "s\<lparr>memories := memories s''\<rparr>"]
    by auto
  ultimately show ?thesis by blast
qed

text \<open>Every deletion is in the trail: when a call to the endpoint changed the rows, it removed
  exactly the row named and appended one entry under the caller, again unless the caller may
  read no namespace.\<close>

theorem deletion_is_in_the_trail:
  assumes "readable p" and "forget_memory cfg p r now s = (res, s')" and "memories s' \<noteq> memories s"
  shows "memories s' = sql_delete (\<lambda>x. ukey_of x = normalize_key_fields (ref_key r)) (memories s) \<and>
    (\<exists>a. audit_log s' = audit_log s @ [a] \<and> au_action a = ''memory.forget'' \<and> au_principal a = pname p \<and>
         jget_str (au_detail a) ''key'' = Some (rf_key r))"
proof -
  from forget_memory_outcomes [OF assms(2)] assms(3) readable_writers [OF assms(1), of cfg r now "s\<lparr>memories := memories s'\<rparr>"]
  obtain d where f: "memory_forget (ref_key r) (pname p) (padmin p) (memories s) = (Inr d, memories s')"
    and a: "s' = audit ''memory.forget'' p (row_detail r @ [(''deleted'', JBool d)]) None now (s\<lparr>memories := memories s'\<rparr>)"
    by auto
  from f have "memories s' = sql_delete (\<lambda>x. ukey_of x = normalize_key_fields (ref_key r)) (memories s)"
    by (auto simp: memory_forget_def Let_def split: option.splits)
  moreover have "\<exists>a. audit_log s' = audit_log s @ [a] \<and> au_action a = ''memory.forget'' \<and> au_principal a = pname p \<and>
         jget_str (au_detail a) ''key'' = Some (rf_key r)"
    by (subst a) (auto simp: audit_def row_detail_def jget_str_def jget_text_def jget_def jput_def split: option.splits)
  ultimately show ?thesis by blast
qed

lemma supersede_target_key:
  "supersede_target [ns] key pr target sc r \<longleftrightarrow> ukey_of r = (ns, key, sc, target, pr)"
  by (auto simp: supersede_target_def ukey_of_def)

definition retired_key :: "supersede_request \<Rightarrow> ukey" where
  "retired_key x =
     (let sc = supersede_scope (Some (sp_scope x))
      in (py_lower (sp_namespace x), py_lower (sp_key x), sc, py_lower (sp_target_user_id x),
          if sc = ''shared'' then None else map_option py_lower (sp_project x)))"

lemma supersede_by_key:
  "memory_supersede [sp_namespace x] (sp_key x) (sp_project x) (sp_target_user_id x) actor reason repl
     (Some (sp_scope x)) now t =
   (if supersede_scope (Some (sp_scope x)) \<notin> {''project'', ''shared''} \<or> py_strip reason = '''' then (Inl ValueError, t)
    else (Inr (fetchrow (\<lambda>r. ukey_of r = retired_key x \<and> or_empty (status r) \<noteq> ''superseded'') t),
          sql_update (\<lambda>r. ukey_of r = retired_key x \<and> or_empty (status r) \<noteq> ''superseded'')
            (stamp_md (lifecycle_stamp actor reason repl now)) t))"
  by (auto simp: memory_supersede_def Let_def supersede_target_key retired_key_def)

lemma stamp_by_key:
  "supersede_stamp [sp_namespace x] (sp_key x) (sp_project x) (sp_target_user_id x) (Some (sp_scope x)) t =
   map_option (\<lambda>r. (jget_str (md r) ''superseded_at'', jget_str (md r) ''superseded_by_principal'',
                    jget_str (md r) ''superseded_reason'', jget_str (md r) ''superseded_by_key''))
     (fetchrow (\<lambda>r. ukey_of r = retired_key x \<and> status r = Some ''superseded'') t)"
  by (simp add: supersede_stamp_def Let_def supersede_target_key retired_key_def)

lemma stamped_reads [simp]:
  "status (stamp_md (lifecycle_stamp actor reason repl now) r) = Some ''superseded''"
  "jget_str (jmerge m (lifecycle_stamp actor reason repl now)) ''superseded_by_principal'' = actor"
  "jget_str (jmerge m (lifecycle_stamp actor reason repl now)) ''superseded_at'' = Some (isoformat now)"
  "jget_str (jmerge m (lifecycle_stamp actor reason repl now)) ''superseded_reason'' = Some (py_strip reason)"
  by (auto simp: lifecycle_stamp_def status_def jget_str_def jopt_def split: option.splits)

text \<open>A retirement that is asked for twice is answered with its receipt: after a row was
  retired, the same request, by anyone who may read the namespace, changes no row and is told
  when, by whom and why the row was retired, not that it does not exist.\<close>

theorem second_retirement_gets_the_receipt:
  assumes "table_ok (memories s)" and "supersede_memory cfg p x now s = (Inr (Retired row), s')"
    and "check_namespace_access cfg p' (sp_namespace x) ''read'' False = Inr ()"
  shows "\<exists>k. fst (supersede_memory cfg p' x later s') =
      Inr (AlreadyRetired (Some (isoformat now), pname p, Some (py_strip (sp_reason x)), k)) \<and>
    memories (snd (supersede_memory cfg p' x later s')) = memories s'"
proof -
  let ?K = "retired_key x"
  let ?live = "\<lambda>r. ukey_of r = ?K \<and> or_empty (status r) \<noteq> ''superseded''"
  let ?f = "stamp_md (lifecycle_stamp (pname p) (sp_reason x) (sp_replacement_key x) now)"
  from assms(2) have v: "supersede_scope (Some (sp_scope x)) \<in> {''project'', ''shared''}" "py_strip (sp_reason x) \<noteq> ''''"
    and hit: "fetchrow ?live (memories s) = Some row"
    and s': "memories s' = sql_update ?live ?f (memories s)"
    by (auto simp: supersede_memory_def supersede_by_key split: sum.splits option.splits if_splits)
  from fetchrow_Some [OF hit] have row: "row \<in> set (memories s)" "ukey_of row = ?K"
    "or_empty (status row) \<noteq> ''superseded''" by auto
  then have at: "row_at ?K (memories s') = Some (?f row)"
    using row_at_eq [OF assms(1) row(1)] by (simp add: s' stamp_doc.row_at_update)
  have ok: "table_ok (memories s')" by (simp add: s' stamp_doc.table_ok_update assms(1))
  have only: "r \<in> set (memories s') \<Longrightarrow> ukey_of r = ?K \<Longrightarrow> r = ?f row" for r
    using row_at_eq [OF ok] at by fastforce
  have none: "fetchrow ?live (memories s') = None"
    unfolding fetchrow_None
  proof (intro ballI notI)
    fix r assume "r \<in> set (memories s')" and "?live r"
    then show False using only [of r] by (simp add: or_empty_def)
  qed
  then have keep: "sql_update ?live g (memories s') = memories s'" for g
    by (intro sql_update_none) (simp add: fetchrow_None)
  from fetchrow_row_at [OF ok at, of "\<lambda>r. status r = Some ''superseded''"]
  show ?thesis using assms(3) v none
    by (simp add: supersede_memory_def supersede_by_key stamp_by_key keep)
qed

section \<open>Search hits that are cut\<close>

lemma snippet_accounts:
  assumes "snippet r n = Snippet body hidden key writer"
  shows "length (split_lines [] (r_value r)) = n + hidden" "0 < hidden"
    "body = join [CHR 0x0A] (take n (split_lines [] (r_value r)))" "key = r_key r"
    "r_scope r = ''project'' \<Longrightarrow> r_user_id r \<noteq> '''' \<Longrightarrow> writer = Some (r_user_id r)"
  using assms by (auto simp: snippet_def Let_def split: if_splits)

text \<open>A search hit that is shown cut can be read in full: the answer states how many lines
  were left out, shows exactly the first ones, and the call it names, with the writer of a
  project row, returns the whole value with the version the search gave.\<close>

theorem cut_hit_can_be_read_in_full:
  assumes "table_ok (memories s)" and "r \<in> set (memories s)" and "snippet r n = Snippet body hidden key writer"
    and "r_scope r = ''project''" and "r_user_id r \<noteq> ''''" and "r_user_id r \<noteq> ''*''"
    and "normalize_key_fields (ukey_of r) = ukey_of r"
    and "unexpired now r" and "or_empty (status r) \<noteq> ''deletion_requested''"
    and "check_namespace_access cfg p (r_namespace r) ''read'' False = Inr ()"
  shows "length (split_lines [] (r_value r)) = n + hidden \<and>
    body = join [CHR 0x0A] (take n (split_lines [] (r_value r))) \<and>
    (\<exists>i. fst (get_memory sha cfg p \<lparr>rf_namespace = r_namespace r, rf_key = key, rf_scope = ''project'',
              rf_user_id = writer, rf_project = r_project r\<rparr> now s) = Inr (Found i) \<and>
         r_value (mi_row i) = r_value r \<and> mi_version i = compute_version sha (Some (r_value r)))"
proof -
  from snippet_accounts [OF assms(3)] assms(4,5) have k: "key = r_key r" "writer = Some (r_user_id r)" by auto
  let ?q = "\<lparr>rf_namespace = r_namespace r, rf_key = key, rf_scope = ''project'',
     rf_user_id = writer, rf_project = r_project r\<rparr>"
  have q: "ref_key ?q = ukey_of r"
    using k assms(4) by (simp add: ref_key_def ukey_of_def or_empty_def)
  have aw: "\<not> all_writers (normalize_key_fields (ukey_of r))"
    using assms(6,7) by (simp add: all_writers_def ukey_of_def)
  have "row_at (normalize_key_fields (ukey_of r)) (memories s) = Some r"
    using row_at_eq [OF assms(1,2)] assms(7) by simp
  from memory_get_exact [OF assms(1) this aw assms(8,9)]
  have "\<exists>t. memory_get sha (ukey_of r) now (memories s)
      = (Some \<lparr>mi_row = r, mi_version = compute_version sha (Some (r_value r))\<rparr>, t)"
    by (metis prod.collapse)
  then obtain t where g: "memory_get sha (ref_key ?q) now (memories s)
      = (Some \<lparr>mi_row = r, mi_version = compute_version sha (Some (r_value r))\<rparr>, t)"
    by (auto simp: q)
  have "reject_wake_read ''project'' = Inr ()" by code_simp
  with g assms(10) have "fst (get_memory sha cfg p ?q now s)
      = Inr (Found \<lparr>mi_row = r, mi_version = compute_version sha (Some (r_value r))\<rparr>)"
    by (simp add: get_memory_def)
  with snippet_accounts [OF assms(3)] show ?thesis by simp
qed

section \<open>Examples\<close>

definition demo_caller :: "string list \<Rightarrow> principal" where
  "demo_caller reads =
     \<lparr>p_name = ''codex'', p_type = ''agent'', p_is_admin = False, p_token_hash = None, p_token_lookup = None,
      p_password_hash = None, p_read_namespaces = reads, p_write_namespaces = [''fleet''], p_active = True,
      p_created_at = 0, p_updated_at = None\<rparr>"

definition demo_ref :: "string \<Rightarrow> string \<Rightarrow> row_ref" where
  "demo_ref sc k = \<lparr>rf_namespace = ''fleet'', rf_key = k, rf_scope = sc, rf_user_id = Some ''codex'', rf_project = Some ''engram''\<rparr>"

definition demo_set :: "string \<Rightarrow> string \<Rightarrow> string \<Rightarrow> memory_set_request" where
  "demo_set sc k v = \<lparr>rf_namespace = ''fleet'', rf_key = k, rf_scope = sc, rf_user_id = Some ''codex'',
     rf_project = (if sc = ''project'' then Some ''engram'' else None), ms_value = v, ms_tags = TagText [],
     ms_tags_search = [], ms_expiration_days = 0, ms_listen_set = None, ms_reader_identity = None,
     ms_if_match = None, ms_extra = []\<rparr>"

definition strict :: settings where
  "strict = default_settings\<lparr>cfg_require_auth := True\<rparr>"

definition noted :: server where
  "noted = snd (set_memory id strict [] (Some (demo_caller [''fleet''])) (demo_set ''project'' ''note'' ''v'') 5 empty_server)"

definition demo_supersede :: supersede_request where
  "demo_supersede = \<lparr>sp_namespace = ''fleet'', sp_key = ''note'', sp_scope = ''project'', sp_project = Some ''engram'',
     sp_target_user_id = ''codex'', sp_reason = ''stale'', sp_replacement_key = None\<rparr>"

theorem memory_calls_spare_protocol_rows_witness:
  "protocol_rows noted = []"
proof -
  have "memory_call id strict empty_server noted"
    unfolding noted_def by (rule memory_call.set) code_simp
  then have "(memory_call id strict)\<^sup>*\<^sup>* empty_server noted" by blast
  from memory_calls_spare_protocol_rows [OF this] show ?thesis by (simp add: protocol_rows_def empty_server_def)
qed

theorem accepted_write_is_attributed_witness:
  "\<exists>row. row_at (''fleet'', ''note'', ''project'', ''codex'', Some ''engram'') (memories noted) = Some row
     \<and> r_owner row = Some ''codex''"
proof -
  let ?r = "demo_set ''project'' ''note'' ''v''"
  let ?out = "set_memory id strict [] (Some (demo_caller [''fleet''])) ?r 5 empty_server"
  have "\<not> isl (fst ?out)" by code_simp
  then have "?out = (Inr (projr (fst ?out)), noted)" by (simp add: noted_def)
  from accepted_write_is_attributed [OF this]
  have "\<exists>row. row_at (normalize_key_fields (ref_key ?r)) (memories noted) = Some row \<and> r_owner row = pname (Some (demo_caller [''fleet'']))"
    by blast
  moreover have "normalize_key_fields (ref_key ?r) = (''fleet'', ''note'', ''project'', ''codex'', Some ''engram'')"
    "pname (Some (demo_caller [''fleet''])) = Some ''codex''" by code_simp+
  ultimately show ?thesis by simp
qed

theorem refused_memory_calls_change_nothing_witness:
  "memories (snd (forget_memory strict (Some ((demo_caller [''fleet''])\<lparr>p_name := ''grok''\<rparr>)) (demo_ref ''project'' ''note'') 9 noted))
     = memories noted"
proof -
  let ?p = "Some ((demo_caller [''fleet''])\<lparr>p_name := ''grok''\<rparr>)"
  have r: "readable ?p" by code_simp
  let ?out = "forget_memory strict ?p (demo_ref ''project'' ''note'') 9 noted"
  have "isl (fst ?out)" by code_simp
  then have "?out = (Inl (projl (fst ?out)), snd ?out)" by simp
  with refused_memory_calls_change_nothing [OF r, where cfg = strict and q = "demo_ref ''project'' ''note''" and now = 9 and s = noted]
  show ?thesis by blast
qed

theorem deletion_is_in_the_trail_witness:
  "map au_action (audit_log (snd (forget_memory strict (Some (demo_caller [''fleet''])) (demo_ref ''project'' ''note'') 9 noted)))
     = [''memory.set'', ''memory.forget'']"
proof -
  let ?out = "forget_memory strict (Some (demo_caller [''fleet''])) (demo_ref ''project'' ''note'') 9 noted"
  have r: "readable (Some (demo_caller [''fleet'']))" and c: "memories (snd ?out) \<noteq> memories noted"
    and l: "map au_action (audit_log noted) = [''memory.set'']" by code_simp+
  from deletion_is_in_the_trail [OF r prod.collapse [symmetric] c] l show ?thesis by auto
qed

theorem second_retirement_gets_the_receipt_witness:
  "\<exists>k. fst (supersede_memory strict (Some (demo_caller [''fleet''])) demo_supersede 8
       (snd (supersede_memory strict (Some (demo_caller [''fleet''])) demo_supersede 7 noted)))
     = Inr (AlreadyRetired (Some (isoformat 7), Some ''codex'', Some ''stale'', k))"
proof -
  let ?p = "Some (demo_caller [''fleet''])"
  have ok: "table_ok (memories noted)" by code_simp
  let ?out = "supersede_memory strict ?p demo_supersede 7 noted"
  have "case fst ?out of Inr (Retired row) \<Rightarrow> True | _ \<Rightarrow> False" by code_simp
  then obtain row where d: "?out = (Inr (Retired row), snd ?out)"
    by (cases ?out) (auto split: sum.splits supersede_answer.splits)
  have a: "check_namespace_access strict ?p (sp_namespace demo_supersede) ''read'' False = Inr ()" by code_simp
  have n: "pname ?p = Some ''codex''" "py_strip (sp_reason demo_supersede) = ''stale''" by code_simp+
  from second_retirement_gets_the_receipt [OF ok d a, of 8] n show ?thesis by auto
qed

definition demo_long :: row where
  "demo_long = (new_row ''fleet'' ''note'' [CHR ''a'', CHR 0x0A, CHR ''b'', CHR 0x0A, CHR ''c''] ''project'' ''codex'' (Some ''engram'') 5)\<lparr>r_id := 1\<rparr>"

theorem cut_hit_can_be_read_in_full_witness:
  "\<exists>i. fst (get_memory id strict (Some (demo_caller [''fleet''])) (demo_ref ''project'' ''note'') 9
        (empty_server\<lparr>memories := [demo_long]\<rparr>)) = Inr (Found i) \<and> r_value (mi_row i) = r_value demo_long"
proof -
  have s: "snippet demo_long 1 = Snippet ''a'' 2 ''note'' (Some ''codex'')"
    and h: "table_ok (memories (empty_server\<lparr>memories := [demo_long]\<rparr>))"
      "demo_long \<in> set (memories (empty_server\<lparr>memories := [demo_long]\<rparr>))"
      "r_scope demo_long = ''project''" "r_user_id demo_long \<noteq> ''''" "r_user_id demo_long \<noteq> ''*''"
      "normalize_key_fields (ukey_of demo_long) = ukey_of demo_long"
      "unexpired 9 demo_long" "or_empty (status demo_long) \<noteq> ''deletion_requested''"
      "check_namespace_access strict (Some (demo_caller [''fleet''])) (r_namespace demo_long) ''read'' False = Inr ()"
    by code_simp+
  have e: "\<lparr>rf_namespace = r_namespace demo_long, rf_key = ''note'', rf_scope = ''project'',
      rf_user_id = Some ''codex'', rf_project = r_project demo_long\<rparr> = demo_ref ''project'' ''note''" by code_simp
  from cut_hit_can_be_read_in_full [OF h(1,2) s h(3-9), of id] show ?thesis unfolding e by blast
qed

section \<open>Where the guards miss\<close>

text \<open>The guard on reserved scopes compares the scope as it was sent, and the service lowers it:
  a scope spelt in capitals reaches the rows of the inbox.\<close>

lemma reserved_scope_in_capitals:
  "let t = [(new_row ''fleet'' ''inbox/1'' ''the owner said no'' ''inbox'' ''codex'' None 5)\<lparr>r_id := 1\<rparr>];
       out = set_memory id strict [] (Some (demo_caller [''fleet''])) (demo_set ''Inbox'' ''inbox/1'' ''the owner said yes'') 9
               (empty_server\<lparr>memories := t\<rparr>)
   in map r_value (memories (snd out)) = [''the owner said yes'']"
  by code_simp

text \<open>The probe for other writers is meant never to fail a request. A principal that may write
  but read nothing is answered with 403 after its row was stored; its deletion is answered with
  403 after the row is gone, and the trail has no entry of it.\<close>

lemma probe_fails_a_stored_write:
  "let out = set_memory id strict [] (Some (demo_caller [])) (demo_set ''project'' ''note'' ''v'') 5 empty_server
   in fst out = Inl (HTTPException 403) \<and> map r_value (memories (snd out)) = [''v'']"
  by code_simp

lemma probe_hides_a_deletion:
  "let out = forget_memory strict (Some (demo_caller [])) (demo_ref ''project'' ''note'') 9 noted
   in fst out = Inl (HTTPException 403) \<and> memories (snd out) = [] \<and> audit_log (snd out) = audit_log noted"
  by code_simp

end
