(* ===== verification/Mail_Router.thy ===== *)
theory Mail_Router
  imports Memory_Router Register Mail_Signal
begin

text \<open>
  The mail half of \<^verbatim>\<open>server/routers/memory.py\<close>: sending (with the correction of addresses, the
  refusals at the door, relayed authorship and group threads), the inbox and its lifecycle,
  wakes, the long poll, presence, the roster and the unauthenticated mail signal. Identifiers
  drawn with \<^verbatim>\<open>uuid4\<close> are arguments. Guidance texts are left out; warnings are structured.
\<close>

section \<open>Room posts\<close>

text \<open>\<^verbatim>\<open>_ROOM_QUOTED_RE.sub(" ", body)\<close>: text between two backticks or two double quotes becomes a
  space.\<close>

function unquoted :: "string \<Rightarrow> string" where
  "unquoted [] = []"
| "unquoted (c # cs) =
     (if c \<in> {CHR 0x60, CHR 0x22} \<and> c \<in> set cs
      then CHR '' '' # unquoted (tl (dropWhile (\<lambda>x. x \<noteq> c) cs))
      else c # unquoted cs)"
  by pat_completeness auto

termination
proof (relation "measure length")
  fix c cs
  have "length (dropWhile (\<lambda>x. x \<noteq> c) cs) \<le> length cs" by (rule length_dropWhile_le)
  then show "(tl (dropWhile (\<lambda>x. x \<noteq> c) cs), c # cs) \<in> measure length" by simp
qed simp_all

text \<open>\<^verbatim>\<open>(?<![\w@])@([A-Za-z0-9][\w.@-]*)\<close>, on ASCII text.\<close>

definition word_char :: "char \<Rightarrow> bool" where
  "word_char c \<longleftrightarrow> is_alnum c \<or> c = CHR ''_''"

definition mention_char :: "char \<Rightarrow> bool" where
  "mention_char c \<longleftrightarrow> word_char c \<or> c \<in> {CHR ''.'', CHR ''@'', CHR ''-''}"

function mentions :: "char option \<Rightarrow> string \<Rightarrow> string list" where
  "mentions prev [] = []"
| "mentions prev (c # cs) =
     (if c = CHR ''@'' \<and> (case prev of None \<Rightarrow> True | Some d \<Rightarrow> \<not> word_char d \<and> d \<noteq> CHR ''@'')
         \<and> cs \<noteq> [] \<and> is_alnum (hd cs)
      then let m = takeWhile mention_char cs
           in m # mentions (Some (last m)) (drop (length m) cs)
      else mentions (Some c) cs)"
  by pat_completeness auto

termination
  by (relation "measure (\<lambda>(_, s). length s)") auto

definition room_mentions :: "string \<Rightarrow> string list" where
  "room_mentions body = mentions None (unquoted body)"

section \<open>Sending\<close>

definition loose_address :: "string option \<Rightarrow> string option" where
  "loose_address address =
     (case Option.bind address or_none of
        None \<Rightarrow> None
      | Some a \<Rightarrow>
          (let b = py_lower (py_strip a)
           in if b = '''' \<or> startswith b ''machine:'' then or_none b else or_none (before (CHR ''@'') b)))"

definition add_participant :: "string list \<Rightarrow> string option \<Rightarrow> string list" where
  "add_participant out addr =
     (case loose_address addr of
        None \<Rightarrow> out
      | Some l \<Rightarrow>
          (let name = (if is_unqualified_admin l \<and> CHR ''@'' \<in> set (or_empty addr)
                       then py_lower (py_strip (or_empty addr)) else l)
           in if name = '''' \<or> name \<in> set out then out else out @ [name]))"

definition participant_set :: "string list \<Rightarrow> string option \<Rightarrow> string list" where
  "participant_set recips sender = foldl add_participant [] (map Some recips @ [sender])"

type_synonym target = "string \<times> string option"
  \<comment> \<open>the address, and what it was corrected from\<close>

fun autocorrect_all :: "string list \<Rightarrow> target list res" where
  "autocorrect_all [] = Inr []"
| "autocorrect_all (a # as) =
     (case autocorrect_address a of
        Inl e \<Rightarrow> Inl (HTTPException 422)
      | Inr t \<Rightarrow> (case autocorrect_all as of Inl e \<Rightarrow> Inl e | Inr ts \<Rightarrow> Inr (t # ts)))"

datatype send_warning =
    RelayReplaced string
  | RelayIgnored string
  | Retargeted string string
  | Renamed string string
  | OutsideTheRoom string
  | Listener string liveness
  | UnknownRoot string

text \<open>Renamed projects: every target under its current name, once.\<close>

definition rename_target ::
  "(string \<times> string) list \<Rightarrow> target list \<times> send_warning list \<Rightarrow> target \<Rightarrow> target list \<times> send_warning list" where
  "rename_target al acc t =
     (let c = canonical_address al (fst t)
      in ((if c \<in> fst ` set (fst acc) then fst acc else fst acc @ [(c, snd t)]),
          (if c \<noteq> fst t then snd acc @ [Renamed (fst t) c] else snd acc)))"

definition rename_targets :: "(string \<times> string) list \<Rightarrow> target list \<Rightarrow> target list \<times> send_warning list" where
  "rename_targets al ts = foldl (rename_target al) ([], []) ts"

text \<open>A reply to one lane goes to the live seat of the parent's sender.\<close>

definition retarget ::
  "settings \<Rightarrow> inbox_send_request \<Rightarrow> instant \<Rightarrow> table \<Rightarrow> target list \<Rightarrow> target list \<times> send_warning list" where
  "retarget cfg r now t ts =
     (case ts of
        [(lane, orig)] \<Rightarrow>
          (case reply_seat_retarget cfg (is_in_reply_to r) lane now t of
             None \<Rightarrow> (ts, [])
           | Some seat \<Rightarrow> if seat = '''' then (ts, []) else ([(seat, None)], [Retargeted seat lane]))
      | _ \<Rightarrow> (ts, []))"

definition owner_name :: "settings \<Rightarrow> string" where
  "owner_name cfg = norm (Some (cfg_owner_principal_name cfg))"

definition in_huddle :: "inbox_send_request \<Rightarrow> bool" where
  "in_huddle r \<longleftrightarrow> startswith (or_empty (is_thread_id r)) ''huddle/''"

definition bare :: "string \<Rightarrow> string" where
  "bare a = before (CHR ''@'') a"

text \<open>The refusals at the door, in the order of the code.\<close>

definition refuse_hash :: "target list \<Rightarrow> bool" where
  "refuse_hash ts \<longleftrightarrow> list_ex (\<lambda>t. startswith (fst t) ''#'') ts"

definition refuse_bare_admin :: "settings \<Rightarrow> target list \<Rightarrow> bool" where
  "refuse_bare_admin cfg ts \<longleftrightarrow> cfg_require_qualified_admin cfg \<and> list_ex (\<lambda>t. is_unqualified_admin (fst t)) ts"

definition refuse_room_post :: "settings \<Rightarrow> principal option \<Rightarrow> inbox_send_request \<Rightarrow> target list \<Rightarrow> bool" where
  "refuse_room_post cfg p r ts \<longleftrightarrow>
     owner_name cfg \<noteq> '''' \<and> in_huddle r \<and> \<not> is_huddle_lifecycle r \<and> norm (pname p) \<noteq> owner_name cfg \<and>
     map (\<lambda>t. bare (fst t)) ts = [owner_name cfg] \<and> room_mentions (is_body r) = []"

definition refuse_fanout :: "settings \<Rightarrow> principal option \<Rightarrow> inbox_send_request \<Rightarrow> target list \<Rightarrow> bool" where
  "refuse_fanout cfg p r ts \<longleftrightarrow>
     cfg_huddle_fanout_refusal_enabled cfg \<and> owner_name cfg \<noteq> '''' \<and>
     (case p of None \<Rightarrow> False | Some q \<Rightarrow> py_lower (p_name q) = owner_name cfg) \<and> in_huddle r \<and>
     \<not> is_huddle_lifecycle r \<and> list_ex (\<lambda>t. bare (fst t) \<noteq> owner_name cfg) ts"

text \<open>What the envelope says of the author.\<close>

record envelope =
  en_label :: "string option"
  en_relayed :: "string option"
  en_authority :: bool
  en_warning :: "send_warning list"

definition envelope_of :: "settings \<Rightarrow> principal option \<Rightarrow> inbox_send_request \<Rightarrow> envelope" where
  "envelope_of cfg p r =
     (let label = or_none (py_strip (or_empty (is_from r)));
          asked = or_none (norm (is_relayed_from r))
      in if is_owner_relay cfg p
         then \<lparr>en_label = Some (case label of None \<Rightarrow> owner_name cfg | Some l \<Rightarrow> l),
               en_relayed = Some (owner_name cfg), en_authority = True,
               en_warning = (case asked of None \<Rightarrow> [] | Some a \<Rightarrow> if a \<noteq> owner_name cfg then [RelayReplaced a] else [])\<rparr>
         else let relayed = (if padmin p then asked else None)
              in \<lparr>en_label = (case label of None \<Rightarrow> pname p | Some l \<Rightarrow> Some l),
                  en_relayed = relayed,
                  en_authority = (padmin p \<and> (relayed = None \<or> relayed = Some (norm (pname p)))),
                  en_warning = (case asked of None \<Rightarrow> [] | Some a \<Rightarrow> if padmin p then [] else [RelayIgnored a])\<rparr>)"

definition thread_of :: "settings \<Rightarrow> inbox_send_request \<Rightarrow> table \<Rightarrow> string option" where
  "thread_of cfg r t =
     (if Option.bind (is_thread_id r) or_none = None \<and> Option.bind (is_in_reply_to r) or_none \<noteq> None
      then reply_thread_of cfg (is_in_reply_to r) t else is_thread_id r)"

definition group_fyi :: "settings \<Rightarrow> principal option \<Rightarrow> inbox_send_request \<Rightarrow> bool \<Rightarrow> bool" where
  "group_fyi cfg p r fanout \<longleftrightarrow>
     fanout \<and> py_strip (or_empty (is_intent r)) = '''' \<and> \<not> is_huddle_lifecycle r \<and>
     \<not> (owner_name cfg \<noteq> '''' \<and> norm (pname p) = owner_name cfg)"

text \<open>The letter to one recipient; \<open>first\<close> is true for the copy that supersedes.\<close>

definition compose ::
  "settings \<Rightarrow> headers \<Rightarrow> principal option \<Rightarrow> inbox_send_request \<Rightarrow> string \<Rightarrow> target list \<Rightarrow> table \<Rightarrow> string \<Rightarrow> bool \<Rightarrow> letter" where
  "compose cfg h p r thread_uuid ts t to first =
     (let e = envelope_of cfg p r; fanout = (1 < length ts); th = thread_of cfg r t
      in \<lparr>lt_to = to, lt_body = is_body r, lt_subject = is_subject r, lt_from = en_label e,
          lt_thread_id = (if fanout \<and> Option.bind th or_none = None then Some (''inbox/'' @ thread_uuid) else th),
          lt_supersedes = (if first then is_supersedes r else None),
          lt_from_principal = pname p, lt_authority = en_authority e,
          lt_intent = (if group_fyi cfg p r fanout then Some ''fyi'' else is_intent r),
          lt_participants = (if fanout then Some (participant_set (map fst ts) (en_label e)) else None),
          lt_machine = map_of h ''x-engram-machine'', lt_model = map_of h ''x-engram-model'',
          lt_model_source = map_of h ''x-engram-model-source'', lt_from_lane = is_from_lane r,
          lt_from_project = or_none (norm (map_of h ''x-engram-project'')),
          lt_in_reply_to = is_in_reply_to r, lt_huddle_lifecycle = is_huddle_lifecycle r,
          lt_relayed_from = en_relayed e\<rparr>)"

text \<open>One message per recipient. Each insert commits on its own, so a failure leaves the copies
  before it.\<close>

fun send_copies ::
  "settings \<Rightarrow> (string \<Rightarrow> bool \<Rightarrow> letter) \<Rightarrow> instant \<Rightarrow> (string \<times> string) list \<Rightarrow> bool \<Rightarrow> table
     \<Rightarrow> string list res \<times> table" where
  "send_copies cfg mk now [] first t = (Inr [], t)"
| "send_copies cfg mk now ((to, uuid) # rest) first t =
     (case inbox_send cfg uuid (mk to first) now t of
        (Inl _, t') \<Rightarrow> (Inl (HTTPException 500), t')
      | (Inr i, t') \<Rightarrow>
          (case send_copies cfg mk now rest False t' of
             (Inl e, t'') \<Rightarrow> (Inl e, t'')
           | (Inr is, t'') \<Rightarrow> (Inr (i # is), t'')))"

record send_response =
  sd_ids :: "string list"
  sd_corrected_from :: "string option"
  sd_warnings :: "send_warning list"
  sd_group_fyi :: bool
  sd_cost :: "cost_line list"

definition outside_room :: "settings \<Rightarrow> principal option \<Rightarrow> inbox_send_request \<Rightarrow> target list \<Rightarrow> send_warning list" where
  "outside_room cfg p r ts =
     (if owner_name cfg \<noteq> '''' \<and> in_huddle r \<and> \<not> is_huddle_lifecycle r \<and> norm (pname p) \<noteq> owner_name cfg
      then map (\<lambda>t. OutsideTheRoom (fst t)) (filter (\<lambda>t. bare (fst t) \<noteq> owner_name cfg) ts) else [])"

definition quiet :: "liveness \<Rightarrow> bool" where
  "quiet i \<longleftrightarrow> lv_is_stale i \<or> lv_watcher_alive i = Some False \<or> jtruthy (lv_farewell_at i) \<or> lv_death i \<noteq> None"

definition listener_warnings ::
  "settings \<Rightarrow> string option \<Rightarrow> target list \<Rightarrow> instant \<Rightarrow> table \<Rightarrow> send_warning list" where
  "listener_warnings cfg intent ts now t =
     (if py_lower (or_empty intent) = ''fyi'' then []
      else map (\<lambda>(a, i). Listener a i) (filter (\<lambda>(a, i). quiet i)
             (recipient_liveness cfg
               (filter (\<lambda>a. \<not> (owner_name cfg \<noteq> '''' \<and> bare a = owner_name cfg)) (map fst ts)) now t)))"

text \<open>The targets of a request after the corrections, with the notes for the sender, or the
  status it is refused with.\<close>

definition targets_of ::
  "settings \<Rightarrow> principal option \<Rightarrow> inbox_send_request \<Rightarrow> target list \<Rightarrow> instant \<Rightarrow> server
     \<Rightarrow> (target list \<times> send_warning list) res" where
  "targets_of cfg p r ts0 now s =
     (let (ts1, renamed) = rename_targets (alias_cache s) ts0;
          (ts, moved) = retarget cfg r now (memories s) ts1
      in if refuse_bare_admin cfg ts then Inl (HTTPException 409)
         else if refuse_room_post cfg p r ts then Inl (HTTPException 422)
         else if refuse_fanout cfg p r ts then Inl (HTTPException 409)
         else Inr (ts, moved @ renamed))"

definition send_inbox ::
  "settings \<Rightarrow> headers \<Rightarrow> principal option \<Rightarrow> inbox_send_request \<Rightarrow> string \<Rightarrow> (nat \<Rightarrow> string) \<Rightarrow> instant \<Rightarrow> server
     \<Rightarrow> send_response res \<times> server" where
  "send_inbox cfg h p r thread_uuid uuid now s0 =
     (case check_namespace_access cfg p (cfg_primary_namespace cfg) ''read'' False of
        Inl e \<Rightarrow> (Inl e, s0)
      | Inr _ \<Rightarrow>
     (case autocorrect_all (raw_targets (is_to r)) of
        Inl e \<Rightarrow> (Inl e, s0)
      | Inr ts0 \<Rightarrow>
     (if refuse_hash ts0 then (Inl (HTTPException 409), s0)
      else let s = alias_refresh False now s0
      in case targets_of cfg p r ts0 now s of
        Inl e \<Rightarrow> (Inl e, s)
      | Inr (ts, notes) \<Rightarrow>
          (case send_copies cfg (compose cfg h p r thread_uuid ts (memories s)) now
                  (zip (map fst ts) (map uuid [0..<length ts])) True (memories s) of
             (Inl e, t) \<Rightarrow> (Inl e, s\<lparr>memories := t\<rparr>)
           | (Inr ids, t) \<Rightarrow>
               if ts = [] then (Inl (HTTPException 500), s\<lparr>memories := t\<rparr>) else
               (let fyi = group_fyi cfg p r (1 < length ts);
                    intent = (if fyi then Some ''fyi'' else is_intent r);
                    e = envelope_of cfg p r;
                    (cost, s') = send_cost_facts cfg (map fst ts) (en_label e) intent ids (is_thread_id r) now
                                   (s\<lparr>memories := t\<rparr>)
                in (Inr \<lparr>sd_ids = ids, sd_corrected_from = snd (hd ts),
                         sd_warnings = en_warning e @ notes @ outside_room cfg p r ts
                            @ listener_warnings cfg intent ts now t
                            @ map UnknownRoot (unknown_root_advisories cfg (map (\<lambda>t. Some (fst t)) ts) s'),
                         sd_group_fyi = fyi, sd_cost = cost\<rparr>, s'))))))"

section \<open>The inbox and its lifecycle\<close>

definition reader_access :: "settings \<Rightarrow> principal option \<Rightarrow> unit res" where
  "reader_access cfg p = check_namespace_access cfg p (cfg_primary_namespace cfg) ''read'' False"

definition list_inbox ::
  "settings \<Rightarrow> principal option \<Rightarrow> inbox_list_request \<Rightarrow> instant \<Rightarrow> server
     \<Rightarrow> (inbox_message list \<times> digest) res \<times> server" where
  "list_inbox cfg p r now s =
     (case reader_access cfg p of
        Inl e \<Rightarrow> (Inl e, s)
      | Inr _ \<Rightarrow>
     (case validate_listen_set (il_listen_set r) of
        Inl _ \<Rightarrow> (Inl (HTTPException 422), s)
      | Inr ls \<Rightarrow>
          if is_owner_relay cfg p \<and> list_ex (\<lambda>a. bare a \<noteq> owner_name cfg) ls then (Inl (HTTPException 403), s)
          else let (ms, s1) = inbox_list cfg ls (il_reader_identity r)
                     \<lparr>ls_unread_only = il_unread_only r, ls_limit = nat (il_limit r),
                      ls_include_resolved = il_include_resolved r, ls_newest_first = il_newest_first r,
                      ls_unhandled_only = il_unhandled_only r, ls_mark_delivered = il_mark_delivered r\<rparr> now s;
                   (counts, s2) = inbox_counts cfg ls now s1
               in (Inr (ms, counts), s2)))"

text \<open>The bounds of \<^verbatim>\<open>InboxUnreadSummaryRequest\<close>, and \<^verbatim>\<open>thread_not_empty\<close>.\<close>

definition parse_summary :: "string list \<Rightarrow> string \<Rightarrow> (string list \<times> string) res" where
  "parse_summary listen reader = valid (length listen \<le> MAX_LIST \<and> length reader \<le> MAX_ADDR) (listen, reader)"

definition thread_not_empty :: "string \<Rightarrow> string res" where
  "thread_not_empty v = valid (\<not> blank v) (py_strip v)"

definition unread_summary ::
  "settings \<Rightarrow> principal option \<Rightarrow> string list \<Rightarrow> string \<Rightarrow> instant \<Rightarrow> server
     \<Rightarrow> ((string \<times> nat \<times> instant) list \<times> nat) res \<times> server" where
  "unread_summary cfg p listen reader now s =
     (case reader_access cfg p of
        Inl e \<Rightarrow> (Inl e, s)
      | Inr _ \<Rightarrow>
     (case validate_listen_set listen of
        Inl _ \<Rightarrow> (Inl (HTTPException 422), s)
      | Inr ls \<Rightarrow>
          (let (rows, s') = inbox_unread_by_sender cfg ls reader now s
           in (Inr (rows, sum_list (map (\<lambda>x. fst (snd x)) rows)), s'))))"

text \<open>The three lifecycle endpoints share their frame: a message that is not there is a 404.\<close>

definition lifecycle ::
  "settings \<Rightarrow> principal option \<Rightarrow> (table \<Rightarrow> bool \<times> table) \<Rightarrow> server \<Rightarrow> unit res \<times> server" where
  "lifecycle cfg p f s =
     (case reader_access cfg p of
        Inl e \<Rightarrow> (Inl e, s)
      | Inr _ \<Rightarrow> (let (updated, t) = f (memories s)
                  in (if updated then Inr () else Inl (HTTPException 404), s\<lparr>memories := t\<rparr>)))"

definition ack_inbox :: "settings \<Rightarrow> principal option \<Rightarrow> string \<Rightarrow> string \<Rightarrow> server \<Rightarrow> unit res \<times> server" where
  "ack_inbox cfg p i reader s = lifecycle cfg p (inbox_ack cfg i reader) s"

definition archive_inbox :: "settings \<Rightarrow> principal option \<Rightarrow> string \<Rightarrow> string \<Rightarrow> server \<Rightarrow> unit res \<times> server" where
  "archive_inbox cfg p i reader s = lifecycle cfg p (inbox_archive cfg i (Some reader)) s"

definition resolve_inbox :: "settings \<Rightarrow> principal option \<Rightarrow> string \<Rightarrow> string \<Rightarrow> instant \<Rightarrow> server \<Rightarrow> unit res \<times> server" where
  "resolve_inbox cfg p i reader now s = lifecycle cfg p (inbox_resolve cfg i (Some reader) now) s"

definition resolve_inbox_thread ::
  "settings \<Rightarrow> principal option \<Rightarrow> string \<Rightarrow> string list \<Rightarrow> string option \<Rightarrow> instant \<Rightarrow> server \<Rightarrow> nat res \<times> server" where
  "resolve_inbox_thread cfg p thread listen reader now s =
     (case reader_access cfg p of
        Inl e \<Rightarrow> (Inl e, s)
      | Inr _ \<Rightarrow> (let (n, s') = inbox_resolve_thread cfg thread listen reader now s in (Inr n, s')))"

section \<open>Wakes and the long poll\<close>

definition send_wake ::
  "settings \<Rightarrow> principal option \<Rightarrow> wake_request \<Rightarrow> string list \<Rightarrow> instant \<Rightarrow> server \<Rightarrow> string list res \<times> server" where
  "send_wake cfg p r uuids now s =
     (case reader_access cfg p of
        Inl e \<Rightarrow> (Inl e, s)
      | Inr _ \<Rightarrow>
          (case wake_send cfg uuids (raw_targets (wq_to r))
                  \<lparr>wk_ref = wq_ref r, wk_note = wq_note r, wk_from = wq_from r, wk_from_principal = pname p,
                   wk_relayed_from = wq_relayed_from r\<rparr> now (memories s) of
             (Inl _, t) \<Rightarrow> (Inl (HTTPException 500), s\<lparr>memories := t\<rparr>)
           | (Inr ids, t) \<Rightarrow> (Inr ids, s\<lparr>memories := t\<rparr>)))"

definition poll_wakes ::
  "settings \<Rightarrow> principal option \<Rightarrow> inbox_wait_request \<Rightarrow> instant \<Rightarrow> server \<Rightarrow> row list res \<times> server" where
  "poll_wakes cfg p r now s =
     (case reader_access cfg p of
        Inl e \<Rightarrow> (Inl e, s)
      | Inr _ \<Rightarrow>
     (case validate_listen_set (iw_listen_set r) of
        Inl _ \<Rightarrow> (Inl (HTTPException 422), s)
      | Inr ls \<Rightarrow> (let (ws, s') = wake_list_fresh cfg ls (iw_since r) (iw_reader_identity r) now s in (Inr ws, s'))))"

text \<open>One turn of the loop of \<^verbatim>\<open>wait_inbox\<close>: the server as the turn finds it at the given time, and
  whether it is shutting down after the sleep that ends the turn.\<close>

record turn =
  tn_now :: instant
  tn_server :: server
  tn_stopping :: bool

datatype wait_answer =
    Woken "inbox_message list" "row list"
  | Timeout
  | Restarting

definition own_labels :: "inbox_wait_request \<Rightarrow> string list \<Rightarrow> string list" where
  "own_labels r ls =
     map py_lower ls @ (case Option.bind (iw_reader_identity r) or_none of None \<Rightarrow> [] | Some a \<Rightarrow> [norm (Some a)])"

definition wait_fresh :: "inbox_wait_request \<Rightarrow> string list \<Rightarrow> instant \<Rightarrow> inbox_message \<Rightarrow> bool" where
  "wait_fresh r ls since m \<longleftrightarrow>
     since < im_created_at m \<and> norm (im_from m) \<notin> set (own_labels r ls) \<and>
     (iw_include_fyi r \<or> or_empty (im_intent m) \<noteq> ''fyi'')"

definition wait_poll ::
  "settings \<Rightarrow> inbox_wait_request \<Rightarrow> string list \<Rightarrow> instant \<Rightarrow> instant \<Rightarrow> server \<Rightarrow> inbox_message list \<times> row list" where
  "wait_poll cfg r ls since now s =
     (let (ms, s1) = inbox_list cfg ls (iw_reader_identity r)
            \<lparr>ls_unread_only = True, ls_limit = 50, ls_include_resolved = False, ls_newest_first = True,
             ls_unhandled_only = False, ls_mark_delivered = False\<rparr> now s;
          (ws, s2) = wake_list_fresh cfg ls (Some since) (iw_reader_identity r) now s1
      in (sort_key im_created_at (filter (wait_fresh r ls since) ms), ws))"

definition wait_turn ::
  "settings \<Rightarrow> inbox_wait_request \<Rightarrow> string list \<Rightarrow> instant \<Rightarrow> turn \<Rightarrow> wait_answer option" where
  "wait_turn cfg r ls started tn =
     (let since = (case iw_since r of None \<Rightarrow> started | Some x \<Rightarrow> x);
          (fresh, ws) = wait_poll cfg r ls since (tn_now tn) (tn_server tn)
      in if fresh \<noteq> [] \<or> ws \<noteq> [] then Some (Woken fresh ws)
         else if iw_timeout r \<le> tn_now tn - started then Some Timeout
         else if tn_stopping tn then Some Restarting
         else None)"

text \<open>\<^verbatim>\<open>min(poll_every, max(0.05, timeout - waited))\<close>, in microseconds.\<close>

definition POLL_EVERY :: int where "POLL_EVERY = seconds 2"

definition sleep_for :: "inbox_wait_request \<Rightarrow> instant \<Rightarrow> instant \<Rightarrow> int" where
  "sleep_for r started now = min POLL_EVERY (max 50000 (iw_timeout r - (now - started)))"

fun wait_loop ::
  "settings \<Rightarrow> inbox_wait_request \<Rightarrow> string list \<Rightarrow> instant \<Rightarrow> nat \<Rightarrow> (nat \<Rightarrow> turn) \<Rightarrow> nat \<Rightarrow> wait_answer option" where
  "wait_loop cfg r ls started 0 w n = None"
| "wait_loop cfg r ls started (Suc fuel) w n =
     (case wait_turn cfg r ls started (w n) of
        Some a \<Rightarrow> Some a
      | None \<Rightarrow> wait_loop cfg r ls started fuel w (Suc n))"

definition wait_inbox ::
  "settings \<Rightarrow> principal option \<Rightarrow> inbox_wait_request \<Rightarrow> instant \<Rightarrow> nat \<Rightarrow> (nat \<Rightarrow> turn) \<Rightarrow> wait_answer option res" where
  "wait_inbox cfg p r started fuel w =
     (case reader_access cfg p of
        Inl e \<Rightarrow> Inl e
      | Inr _ \<Rightarrow>
     (case validate_listen_set (iw_listen_set r) of
        Inl _ \<Rightarrow> Inl (HTTPException 422)
      | Inr ls \<Rightarrow> Inr (wait_loop cfg r ls started fuel w 0)))"

section \<open>Presence, roster, names, the mail signal\<close>

record presence_request = beat_req +
  pq_watcher :: bool
  pq_farewell :: bool
  pq_channels :: "string list"
    \<comment> \<open>validated and then ignored\<close>


text \<open>The validation of \<^verbatim>\<open>PresenceUpdateRequest\<close>: \<^verbatim>\<open>presence_not_empty\<close>, \<^verbatim>\<open>state_valid\<close> and the
  lengths.\<close>

definition PRESENCE_STATES :: "string list" where
  "PRESENCE_STATES = [''running'', ''awaiting-input'', ''done'']"

definition parse_presence :: "presence_request \<Rightarrow> presence_request res" where
  "parse_presence r0 =
     (let r = r0\<lparr>be_identity := norm (Some (be_identity r0)), be_project := norm (Some (be_project r0))\<rparr>
      in valid (\<not> blank (be_identity r0) \<and> \<not> blank (be_project r0) \<and> length (be_identity r) \<le> MAX_ADDR \<and>
           length (be_project r) \<le> MAX_ADDR \<and> be_state r \<in> set PRESENCE_STATES \<and> fits MAX_ADDR (be_provider r) \<and>
           length (be_overlays r) \<le> MAX_LIST \<and> length (pq_channels r) \<le> MAX_LIST \<and> fits MAX_ADDR (be_host r)) r)"

definition update_presence ::
  "settings \<Rightarrow> principal option \<Rightarrow> presence_request \<Rightarrow> instant \<Rightarrow> server \<Rightarrow> collision option res \<times> server" where
  "update_presence cfg p r now s =
     (case reader_access cfg p of
        Inl e \<Rightarrow> (Inl e, s)
      | Inr _ \<Rightarrow>
          if pq_farewell r
          then (Inr None, s\<lparr>memories := snd (presence_farewell cfg (be_identity r) (be_project r) now (memories s))\<rparr>)
          else if pq_watcher r
          then (Inr None, s\<lparr>memories := snd (presence_watcher_beat cfg (be_identity r) (be_project r) now (memories s))\<rparr>)
          else case presence_update cfg (beat_req.truncate r) now (memories s) of
                 (c, t) \<Rightarrow> (Inr c, s\<lparr>memories := t\<rparr>))"

definition get_roster ::
  "settings \<Rightarrow> principal option \<Rightarrow> roster_query \<Rightarrow> instant \<Rightarrow> server \<Rightarrow> (roster_entry list \<times> nat) res" where
  "get_roster cfg p q now s =
     (case reader_access cfg p of
        Inl e \<Rightarrow> Inl e
      | Inr _ \<Rightarrow> (let es = roster_list cfg q now (memories s)
                  in Inr (es, length (filter (\<lambda>e. \<not> re_is_stale e) es))))"

definition project_info :: "string \<Rightarrow> instant \<Rightarrow> server \<Rightarrow> described \<times> server" where
  "project_info name now s0 =
     (let s = alias_refresh False now s0 in (describe (alias_cache s) (Some name), s))"

definition role_info :: "string \<Rightarrow> instant \<Rightarrow> server \<Rightarrow> (string \<times> string) res \<times> server" where
  "role_info name now s0 =
     (let s = role_refresh False now s0
      in (case Option.bind (holder (role_cache s) (Some name)) or_none of
            None \<Rightarrow> Inl (HTTPException 404)
          | Some h \<Rightarrow> Inr (norm (Some name), h), s))"

definition mail_signal_poll ::
  "(string \<Rightarrow> string) \<Rightarrow> settings \<Rightarrow> string \<Rightarrow> instant \<Rightarrow> server \<Rightarrow> signal_report res \<times> server" where
  "mail_signal_poll sha cfg key0 now s0 =
     (let key = py_strip key0
      in case rate_limited (hash_key sha key) now s0 of
           (True, s) \<Rightarrow> (Inl (HTTPException 429), s)
         | (False, s) \<Rightarrow>
             (case lookup_signal sha key now s of
                (None, s1) \<Rightarrow> (Inl (HTTPException 404), s1)
              | (Some row, s1) \<Rightarrow> (let (rep, s2) = signal_state sha cfg (sg_address row) now s1 in (Inr rep, s2))))"

section \<open>What a send leaves in the store\<close>

text \<open>The message with the given id is the letter, up to its lifecycle.\<close>

definition sent_as :: "settings \<Rightarrow> table \<Rightarrow> string \<Rightarrow> letter \<Rightarrow> bool" where
  "sent_as cfg t i l \<longleftrightarrow>
     (\<exists>row \<in> set t. message_at cfg i row \<and> r_user_id row = py_lower (lt_to l) \<and>
        r_value row = strip_toolcall_trailer (lt_body l) \<and>
        (\<forall>k. k \<notin> {''status'', ''superseded_by''} \<longrightarrow> jget (md row) k = jget (letter_metadata l) k))"

lemma sent_asE:
  assumes "sent_as cfg t i l"
  obtains row where "row \<in> set t" "message_at cfg i row" "r_user_id row = py_lower (lt_to l)"
    "\<And>k. k \<notin> {''status'', ''superseded_by''} \<Longrightarrow> jget (md row) k = jget (letter_metadata l) k"
  using assms by (auto simp: sent_as_def)

lemma message_at_stamp [simp]: "message_at cfg i (stamp_md m r) = message_at cfg i r"
  by (simp add: message_at_def inbox_row_def)

lemma sent_as_update:
  assumes "sent_as cfg t i l" and "\<And>k. k \<notin> {''status'', ''superseded_by''} \<Longrightarrow> jget m k = None"
  shows "sent_as cfg (sql_update P (stamp_md m) t) i l"
proof -
  from assms(1) obtain row where r: "row \<in> set t" "message_at cfg i row" "r_user_id row = py_lower (lt_to l)"
    "r_value row = strip_toolcall_trailer (lt_body l)"
    "\<And>k. k \<notin> {''status'', ''superseded_by''} \<Longrightarrow> jget (md row) k = jget (letter_metadata l) k"
    by (auto simp: sent_as_def)
  let ?row = "if P row then stamp_md m row else row"
  have "?row \<in> set (sql_update P (stamp_md m) t)" using r(1) by (auto simp: sql_update_def)
  moreover have "message_at cfg i ?row \<and> r_user_id ?row = py_lower (lt_to l) \<and>
      r_value ?row = strip_toolcall_trailer (lt_body l)" using r by simp
  moreover have "jget (md ?row) k = jget (letter_metadata l) k" if "k \<notin> {''status'', ''superseded_by''}" for k
    using r(5) [OF that] assms(2) [OF that] by simp
  ultimately show ?thesis unfolding sent_as_def by blast
qed

lemma sent_as_superseding:
  "sent_as cfg t i l \<Longrightarrow>
   sent_as cfg (sql_update P (stamp_md [(''status'', a), (''superseded_by'', b)]) t) i l"
  by (rule sent_as_update) (auto split: if_splits)

lemma sent_as_send:
  assumes "sent_as cfg t i l"
  shows "sent_as cfg (snd (inbox_send cfg uuid l' now t)) i l"
proof -
  have "sent_as cfg (t @ [x]) i l" for x using assms by (auto simp: sent_as_def)
  then show ?thesis
    using assms by (auto simp: inbox_send_def Let_def sql_insert_def insert_do_nothing_def
        intro!: sent_as_superseding split: option.splits)
qed

lemma inbox_send_sent:
  assumes "inbox_send cfg uuid l now t = (Inr i, t')"
  shows "i = ''inbox/'' @ uuid \<and> sent_as cfg t' i l"
proof -
  let ?row = "(letter_row cfg (''inbox/'' @ uuid) l now)\<lparr>r_id := next_id t\<rparr>"
  have "sent_as cfg (t @ [?row]) (''inbox/'' @ uuid) l"
    unfolding sent_as_def by (rule bexI [of _ ?row]) (simp_all add: message_at_def inbox_row_def)
  with assms show ?thesis
    by (auto simp: inbox_send_def Let_def sql_insert_def insert_do_nothing_def
        intro!: sent_as_superseding split: option.splits)
qed

lemma send_copies_keep:
  "sent_as cfg t i l \<Longrightarrow> sent_as cfg (snd (send_copies cfg mk now tus first t)) i l"
proof (induction cfg mk now tus first t rule: send_copies.induct)
  case (2 cfg mk now to uuid rest first t)
  then show ?case
    using sent_as_send [of cfg t i l uuid "mk to first" now]
    by (auto split: prod.splits sum.splits)
qed simp

lemma send_copies_sent:
  assumes "send_copies cfg mk now tus first t = (Inr ids, t')"
  shows "ids = map (\<lambda>x. ''inbox/'' @ snd x) tus \<and>
    (\<forall>j < length tus. sent_as cfg t' (ids ! j) (mk (fst (tus ! j)) (first \<and> j = 0)))"
  using assms
proof (induction cfg mk now tus first t arbitrary: ids t' rule: send_copies.induct)
  case (2 cfg mk now to uuid rest first t)
  from "2.prems" obtain i t1 js where i: "inbox_send cfg uuid (mk to first) now t = (Inr i, t1)"
    and r: "send_copies cfg mk now rest False t1 = (Inr js, t')" and ids: "ids = i # js"
    by (auto split: prod.splits sum.splits)
  note ih = "2.IH" [OF i [symmetric] refl r]
  have head: "i = ''inbox/'' @ uuid \<and> sent_as cfg t' i (mk to first)"
    using inbox_send_sent [OF i] send_copies_keep [of cfg t1 i "mk to first" mk now rest False] r by auto
  show ?case
  proof (intro conjI allI impI)
    show "ids = map (\<lambda>x. ''inbox/'' @ snd x) ((to, uuid) # rest)" using head ih ids by simp
    fix j assume "j < length ((to, uuid) # rest)"
    then show "sent_as cfg t' (ids ! j) (mk (fst (((to, uuid) # rest) ! j)) (first \<and> j = 0))"
      using head ih ids by (cases j) auto
  qed
qed simp

lemma send_inbox_outcomes:
  assumes "send_inbox cfg h p r tu uuid now s = (Inr x, s')"
  obtains ts0 ts ns u where
    "autocorrect_all (raw_targets (is_to r)) = Inr ts0" "\<not> refuse_hash ts0"
    "u = alias_refresh False now s" "targets_of cfg p r ts0 now u = Inr (ts, ns)" "ts \<noteq> []"
    "send_copies cfg (compose cfg h p r tu ts (memories s)) now (zip (map fst ts) (map uuid [0..<length ts])) True (memories s)
       = (Inr (sd_ids x), memories s')"
    "check_namespace_access cfg p (cfg_primary_namespace cfg) ''read'' False = Inr ()"
proof -
  have m: "memories (alias_refresh False now s) = memories s" by (simp add: alias_refresh_def)
  have c: "send_cost_facts cfg rs sn int ids th now q = (c, q') \<Longrightarrow> memories q' = memories q" for rs sn int ids th q c q'
    by (auto simp: send_cost_facts_def Let_def alias_refresh_def role_refresh_def split: if_splits)
  from assms obtain ts0 where a: "check_namespace_access cfg p (cfg_primary_namespace cfg) ''read'' False = Inr ()"
      "autocorrect_all (raw_targets (is_to r)) = Inr ts0" "\<not> refuse_hash ts0"
    by (auto simp: send_inbox_def split: sum.splits if_splits)
  with assms obtain ts ns where tg: "targets_of cfg p r ts0 now (alias_refresh False now s) = Inr (ts, ns)"
    by (cases "targets_of cfg p r ts0 now (alias_refresh False now s)") (auto simp: send_inbox_def Let_def)
  obtain out t where o: "send_copies cfg (compose cfg h p r tu ts (memories s)) now
      (zip (map fst ts) (map uuid [0..<length ts])) True (memories s) = (out, t)" by force
  have "ts \<noteq> [] \<and> out = Inr (sd_ids x) \<and> t = memories s'"
    using assms a tg o m by (auto simp: send_inbox_def Let_def dest: c split: sum.splits if_splits prod.splits)
  with a tg o show thesis by (intro that [OF a(2,3) refl tg]) auto
qed

section \<open>Properties of sending\<close>

text \<open>C15. A send that is refused stores nothing: whichever of the refusals applies (access,
  malformed address, channel, bare admin, room post without a name, fan-out of a room), the
  rows are as they were.\<close>

theorem refused_send_stores_nothing:
  assumes "send_inbox cfg h p r tu uuid now s = (Inl (HTTPException n), s')" and "n \<noteq> 500"
  shows "memories s' = memories s"
proof -
  have k: "fst (send_copies cfg mk now' tus f t) \<noteq> Inl (HTTPException n)" for mk now' tus f t
    using assms(2)
    by (induction cfg mk now' tus f t rule: send_copies.induct) (auto split: prod.splits sum.splits)
  have m: "memories (alias_refresh False now s) = memories s" by (simp add: alias_refresh_def)
  show ?thesis
    using assms k m by (auto simp: send_inbox_def Let_def split_beta split: sum.splits prod.splits if_splits)
qed

lemma compose_simps [simp]:
  "lt_to (compose cfg h p r tu ts t to f) = to" "lt_from_principal (compose cfg h p r tu ts t to f) = pname p"
  "lt_authority (compose cfg h p r tu ts t to f) = en_authority (envelope_of cfg p r)"
  "lt_relayed_from (compose cfg h p r tu ts t to f) = en_relayed (envelope_of cfg p r)"
  "lt_body (compose cfg h p r tu ts t to f) = is_body r"
  by (simp_all add: compose_def Let_def)

lemma letter_reads:
  "jget (letter_metadata l) ''from_principal'' = Some (jopt (lt_from_principal l))"
  "jget (letter_metadata l) ''authority'' = Some (JBool (lt_authority l))"
  "jget (letter_metadata l) ''relayed_from'' = Some (jopt (lt_relayed_from l))"
  "jget (letter_metadata l) ''thread_id'' = Some (jopt (lt_thread_id l))"
  "jget (letter_metadata l) ''intent'' = Some (jopt (lt_intent l))"
  "jget (letter_metadata l) ''participants'' = Some (case lt_participants l of None \<Rightarrow> JNull
      | Some ps \<Rightarrow> if ps = [] then JNull else JArr (map JStr ps))"
  by (simp_all add: letter_metadata_def)

text \<open>What the envelope of a message says, from the caller and the request alone.\<close>

definition enveloped :: "settings \<Rightarrow> principal option \<Rightarrow> inbox_send_request \<Rightarrow> row \<Rightarrow> bool" where
  "enveloped cfg p r row \<longleftrightarrow>
     (let asked = or_none (norm (is_relayed_from r))
      in inbox_row cfg row \<and> r_value row = strip_toolcall_trailer (is_body r) \<and>
         jget (md row) ''from_principal'' = Some (jopt (pname p)) \<and>
         jget (md row) ''authority'' = Some (JBool (is_owner_relay cfg p \<or>
           padmin p \<and> (asked = None \<or> asked = Some (norm (pname p))))) \<and>
         jget (md row) ''relayed_from'' = Some (jopt (if is_owner_relay cfg p then Some (owner_name cfg)
           else if padmin p then asked else None)))"

lemma envelope_values:
  "en_authority (envelope_of cfg p r) \<longleftrightarrow> is_owner_relay cfg p \<or>
     padmin p \<and> (or_none (norm (is_relayed_from r)) = None \<or> or_none (norm (is_relayed_from r)) = Some (norm (pname p)))"
  "en_relayed (envelope_of cfg p r) = (if is_owner_relay cfg p then Some (owner_name cfg)
     else if padmin p then or_none (norm (is_relayed_from r)) else None)"
  by (auto simp: envelope_of_def Let_def)

lemma enveloped_stamp:
  assumes "enveloped cfg p r row"
  shows "enveloped cfg p r (stamp_md [(''status'', a), (''superseded_by'', b)] row)"
  using assms by (simp add: enveloped_def Let_def inbox_row_def)

lemma composed_enveloped:
  "enveloped cfg p r ((letter_row cfg key (compose cfg h p r tu ts t to f) now)\<lparr>r_id := i\<rparr>)"
  by (simp add: enveloped_def Let_def inbox_row_def letter_reads envelope_values)

lemma send_enveloped:
  assumes "\<forall>row \<in> set t. r_id row \<in> I \<or> enveloped cfg p r row" and "row \<in> set (snd (inbox_send cfg uuid l now t))"
    and "\<And>key i. enveloped cfg p r ((letter_row cfg key l now)\<lparr>r_id := i\<rparr>)"
  shows "r_id row \<in> I \<or> enveloped cfg p r row"
proof -
  let ?new = "(letter_row cfg (''inbox/'' @ uuid) l now)\<lparr>r_id := next_id t\<rparr>"
  have keep: "r_id x \<in> I \<or> enveloped cfg p r x" if "x \<in> set (sql_update P (stamp_md [(''status'', a), (''superseded_by'', b)]) u)"
    and "\<forall>y \<in> set u. r_id y \<in> I \<or> enveloped cfg p r y" for x P a b u
    using that by (auto simp: sql_update_def enveloped_stamp split: if_splits)
  have "\<forall>x \<in> set (t @ [?new]). r_id x \<in> I \<or> enveloped cfg p r x" using assms(1,3) by auto
  with assms(1,2) keep [where u = t] keep [where u = "t @ [?new]"] show ?thesis
    by (auto simp: inbox_send_def Let_def sql_insert_def insert_do_nothing_def split: option.splits)
qed

lemma copies_enveloped:
  assumes "\<forall>row \<in> set t. r_id row \<in> I \<or> enveloped cfg p r row"
    and "\<And>to f key i. enveloped cfg p r ((letter_row cfg key (mk to f) now)\<lparr>r_id := i\<rparr>)"
  shows "\<forall>row \<in> set (snd (send_copies cfg mk now tus first t)). r_id row \<in> I \<or> enveloped cfg p r row"
  using assms(1)
proof (induction tus arbitrary: first t)
  case (Cons a tus)
  obtain to uuid where a: "a = (to, uuid)" by fastforce
  have k: "\<forall>row \<in> set (snd (inbox_send cfg uuid (mk to first) now t)). r_id row \<in> I \<or> enveloped cfg p r row"
    using send_enveloped [OF Cons.prems] assms(2) by blast
  with Cons.IH [OF k] show ?case by (auto simp: a split_beta split: sum.split)
qed simp

lemma send_inbox_rows:
  "memories (snd (send_inbox cfg h p r tu uuid now s)) = memories s \<or>
   (\<exists>ts. memories (snd (send_inbox cfg h p r tu uuid now s)) =
      snd (send_copies cfg (compose cfg h p r tu ts (memories s)) now
        (zip (map fst ts) (map uuid [0..<length ts])) True (memories s)))"
proof -
  have m: "memories (alias_refresh False now s) = memories s" by (simp add: alias_refresh_def)
  have c: "memories (snd (send_cost_facts cfg rs sn int ids th now q)) = memories q" for rs sn int ids th q
    by (auto simp: send_cost_facts_def Let_def alias_refresh_def role_refresh_def)
  show ?thesis unfolding send_inbox_def Let_def
    by (auto simp: m c split_beta split: sum.split)
qed

text \<open>C14. The envelope cannot be forged. Every message a send adds to the store, also one that
  fails between two of its copies, is stored with the values the server computes: the
  authenticated principal as the sender, whatever the request says; the owner's authority exactly
  when that principal is an owner relay or an administrator who declares no author or itself; as the relayed
  author the owner for a relay, the declared one for an administrator, and none for anybody
  else. Each identifier a successful send returns is that of such a message.\<close>

theorem mail_envelope_cannot_be_forged:
  assumes "send_inbox cfg h p r tu uuid now s = (out, s')"
  shows "(\<forall>row \<in> set (memories s'). r_id row \<in> r_id ` set (memories s) \<or> enveloped cfg p r row) \<and>
    (\<forall>x. out = Inr x \<longrightarrow> (\<forall>i \<in> set (sd_ids x). \<exists>row \<in> set (memories s'). message_at cfg i row \<and> enveloped cfg p r row))"
proof (intro conjI allI impI)
  have "\<forall>row \<in> set (snd (send_copies cfg (compose cfg h p r tu ts (memories s)) now tus True (memories s))).
      r_id row \<in> r_id ` set (memories s) \<or> enveloped cfg p r row" for ts tus
    by (rule copies_enveloped) (simp_all add: composed_enveloped)
  then show "\<forall>row \<in> set (memories s'). r_id row \<in> r_id ` set (memories s) \<or> enveloped cfg p r row"
    using send_inbox_rows [of cfg h p r tu uuid now s] assms by fastforce
next
  fix x assume "out = Inr x"
  with assms obtain ts where c: "send_copies cfg (compose cfg h p r tu ts (memories s)) now
      (zip (map fst ts) (map uuid [0..<length ts])) True (memories s) = (Inr (sd_ids x), memories s')"
    by (metis send_inbox_outcomes)
  note sent = send_copies_sent [OF c]
  show "\<forall>i \<in> set (sd_ids x). \<exists>row \<in> set (memories s'). message_at cfg i row \<and> enveloped cfg p r row"
  proof
    fix i assume "i \<in> set (sd_ids x)"
    moreover from sent have "length (sd_ids x) = length (zip (map fst ts) (map uuid [0..<length ts]))" by (metis length_map)
    ultimately obtain to f where "sent_as cfg (memories s') i (compose cfg h p r tu ts (memories s) to f)"
      using sent by (metis in_set_conv_nth)
    then obtain row where row: "row \<in> set (memories s')" "message_at cfg i row"
        "r_value row = strip_toolcall_trailer (is_body r)"
      and k: "\<And>k. k \<notin> {''status'', ''superseded_by''} \<Longrightarrow>
        jget (md row) k = jget (letter_metadata (compose cfg h p r tu ts (memories s) to f)) k"
      by (auto simp: sent_as_def)
    then have "enveloped cfg p r row"
      by (simp add: enveloped_def Let_def k letter_reads envelope_values message_at_def)
    with row show "\<exists>row \<in> set (memories s'). message_at cfg i row \<and> enveloped cfg p r row" by blast
  qed
qed

text \<open>The corrected targets of a send name each address once.\<close>

lemma rename_targets_distinct: "distinct (map fst (fst (rename_targets al ts)))"
proof -
  have "distinct (map fst (fst acc)) \<Longrightarrow> distinct (map fst (fst (foldl (rename_target al) acc ts)))" for acc
  proof (induction ts arbitrary: acc)
    case (Cons t ts)
    then show ?case by (simp add: Cons.IH rename_target_def Let_def)
  qed simp
  then show ?thesis by (simp add: rename_targets_def)
qed

lemma retarget_cases:
  "retarget cfg r now t ts = (ts, []) \<or> (\<exists>seat w. retarget cfg r now t ts = ([(seat, None)], w))"
  by (auto simp: retarget_def split: list.split option.split prod.split)

lemma targets_distinct:
  assumes "targets_of cfg p r ts0 now s = Inr (ts, ns)"
  shows "distinct (map fst ts)"
proof -
  let ?ts1 = "fst (rename_targets (alias_cache s) ts0)"
  have "ts = fst (retarget cfg r now (memories s) ?ts1)"
    using assms by (auto simp: targets_of_def Let_def split_beta split: if_splits)
  then show ?thesis
    using rename_targets_distinct [of "alias_cache s" ts0] retarget_cases [of cfg r now "memories s" ?ts1] by auto
qed

lemma add_participant_mono: "set out \<subseteq> set (add_participant out a)"
  by (auto simp: add_participant_def Let_def split: option.split)

lemma add_participant_again:
  "set (add_participant out a) \<subseteq> set ps \<Longrightarrow> add_participant ps a = ps"
  by (auto simp: add_participant_def Let_def split: option.splits if_splits)

lemma participants_listed:
  assumes "a \<in> set as"
  shows "add_participant (foldl add_participant out as) a = foldl add_participant out as"
proof -
  have mono: "set u \<subseteq> set (foldl add_participant u as)" for u as
  proof (induction as arbitrary: u)
    case (Cons a as)
    then show ?case using add_participant_mono by (metis foldl_Cons order_trans)
  qed simp
  obtain xs ys where as: "as = xs @ a # ys" using assms by (metis split_list)
  let ?u = "foldl add_participant out xs"
  have "set (add_participant ?u a) \<subseteq> set (foldl add_participant out as)"
    using mono [of "add_participant ?u a" ys] by (simp add: as)
  then show ?thesis by (rule add_participant_again)
qed

text \<open>A group send is one conversation: the copies go to different addresses, share one thread
  and one list of participants, which has every recipient and the sender in it, and unless the
  sender asked for more, the owner sent it or it is a room's own letter, no copy wakes anyone.\<close>

theorem group_send_is_one_conversation:
  assumes "send_inbox cfg h p r tu uuid now s = (Inr x, s')" and "1 < length (sd_ids x)"
  shows "\<exists>tos th ps. distinct tos \<and> length tos = length (sd_ids x) \<and> th \<noteq> '''' \<and>
     (\<forall>a \<in> set tos. add_participant ps (Some a) = ps) \<and> add_participant ps (en_label (envelope_of cfg p r)) = ps \<and>
     (\<forall>j < length tos. \<exists>row \<in> set (memories s'). message_at cfg (sd_ids x ! j) row \<and>
        r_user_id row = py_lower (tos ! j) \<and> jget_text (md row) ''thread_id'' = Some th \<and>
        jlist (md row) ''participants'' = map JStr ps \<and>
        (is_intent r = None \<and> \<not> is_huddle_lifecycle r \<and> norm (pname p) \<noteq> owner_name cfg \<longrightarrow>
           jget_text (md row) ''intent'' = Some ''fyi''))"
proof -
  from assms(1) obtain ts0 ts ns u where tg: "targets_of cfg p r ts0 now u = Inr (ts, ns)"
    and c: "send_copies cfg (compose cfg h p r tu ts (memories s)) now
      (zip (map fst ts) (map uuid [0..<length ts])) True (memories s) = (Inr (sd_ids x), memories s')"
    by (rule send_inbox_outcomes) auto
  note sent = send_copies_sent [OF c]
  from sent have len: "length (sd_ids x) = length ts" by simp
  with assms(2) have fan: "1 < length ts" by simp
  define th where "th = (case Option.bind (thread_of cfg r (memories s)) or_none of
      None \<Rightarrow> ''inbox/'' @ tu | Some y \<Rightarrow> y)"
  let ?ps = "participant_set (map fst ts) (en_label (envelope_of cfg p r))"
  have th: "th \<noteq> ''''" by (auto simp: th_def or_none_def bind_eq_Some_conv split: option.splits if_splits)
  have ps: "\<forall>a \<in> set (map fst ts). add_participant ?ps (Some a) = ?ps"
    "add_participant ?ps (en_label (envelope_of cfg p r)) = ?ps"
    using participants_listed [of _ "map Some (map fst ts) @ [en_label (envelope_of cfg p r)]" "[]"]
    by (auto simp: participant_set_def)
  have "\<exists>row \<in> set (memories s'). message_at cfg (sd_ids x ! j) row \<and> r_user_id row = py_lower (map fst ts ! j) \<and>
      jget_text (md row) ''thread_id'' = Some th \<and> jlist (md row) ''participants'' = map JStr ?ps \<and>
      (is_intent r = None \<and> \<not> is_huddle_lifecycle r \<and> norm (pname p) \<noteq> owner_name cfg \<longrightarrow>
         jget_text (md row) ''intent'' = Some ''fyi'')" if j: "j < length ts" for j
  proof -
    let ?l = "compose cfg h p r tu ts (memories s) (map fst ts ! j) (True \<and> j = 0)"
    from conjunct2 [OF sent] j have "sent_as cfg (memories s') (sd_ids x ! j) ?l" by simp
    then obtain row where row: "row \<in> set (memories s')" "message_at cfg (sd_ids x ! j) row"
        "r_user_id row = py_lower (map fst ts ! j)"
      and k: "\<And>k. k \<notin> {''status'', ''superseded_by''} \<Longrightarrow> jget (md row) k = jget (letter_metadata ?l) k"
      by (rule sent_asE) simp
    have "lt_thread_id ?l = Some th"
      using fan by (auto simp: compose_def Let_def th_def or_none_def bind_eq_Some_conv split: option.splits if_splits)
    moreover have "lt_participants ?l = Some ?ps" using fan by (simp add: compose_def Let_def)
    moreover have "is_intent r = None \<and> \<not> is_huddle_lifecycle r \<and> norm (pname p) \<noteq> owner_name cfg \<longrightarrow>
        lt_intent ?l = Some ''fyi''"
      using fan by (simp add: compose_def Let_def group_fyi_def or_empty_def py_strip_def py_lstrip_def py_rstrip_def)
    ultimately have "jget_text (md row) ''thread_id'' = Some th" "jlist (md row) ''participants'' = map JStr ?ps"
      "is_intent r = None \<and> \<not> is_huddle_lifecycle r \<and> norm (pname p) \<noteq> owner_name cfg \<longrightarrow>
         jget_text (md row) ''intent'' = Some ''fyi''"
      by (simp_all add: jget_text_def jlist_def k letter_reads jopt_def)
    with row show ?thesis by blast
  qed
  moreover have "distinct (map fst ts)" by (rule targets_distinct [OF tg])
  ultimately show ?thesis
    using th ps len by (intro exI [of _ "map fst ts"] exI [of _ th] exI [of _ ?ps]) simp
qed

text \<open>An owner relay is answered only when every address it asked for is the owner's.\<close>

lemma relay_lists_only_the_owner:
  assumes "list_inbox cfg p r now s = (Inr x, s')" and "is_owner_relay cfg p"
  shows "\<exists>ls. validate_listen_set (il_listen_set r) = Inr ls \<and> (\<forall>a \<in> set ls. bare a = owner_name cfg)"
  using assms by (auto simp: list_inbox_def list_ex_iff split: sum.splits if_splits)

section \<open>Properties of the long poll\<close>

text \<open>The clock of the turns: the first is not before the request, and each sleep lasts at least as
  long as it was asked to.\<close>

definition clocked :: "inbox_wait_request \<Rightarrow> instant \<Rightarrow> (nat \<Rightarrow> turn) \<Rightarrow> bool" where
  "clocked r started w \<longleftrightarrow>
     started \<le> tn_now (w 0) \<and>
     (\<forall>n. tn_now (w n) + sleep_for r started (tn_now (w n)) \<le> tn_now (w (Suc n)))"

lemma wait_loop_answers:
  assumes "clocked r started w" and "iw_timeout r - (tn_now (w n) - started) \<le> int m * POLL_EVERY"
  shows "\<exists>a. wait_loop cfg r ls started (Suc m) w n = Some a"
  using assms(2)
proof (induction m arbitrary: n)
  case 0
  then show ?case by (auto simp: wait_turn_def Let_def split_beta)
next
  case (Suc m)
  show ?case
  proof (cases "wait_turn cfg r ls started (w n)")
    case None
    let ?left = "iw_timeout r - (tn_now (w n) - started)"
    from None have "0 < ?left" by (auto simp: wait_turn_def Let_def split_beta split: if_splits)
    then have "sleep_for r started (tn_now (w n)) \<ge> min POLL_EVERY ?left" by (simp add: sleep_for_def)
    moreover have "tn_now (w n) + sleep_for r started (tn_now (w n)) \<le> tn_now (w (Suc n))"
      using assms(1) by (simp add: clocked_def)
    ultimately have "iw_timeout r - (tn_now (w (Suc n)) - started) \<le> int m * POLL_EVERY"
      using Suc.prems by (auto simp: min_def POLL_EVERY_def split: if_splits)
    from Suc.IH [OF this] None show ?thesis by simp
  qed simp
qed

text \<open>Turns that are not late: apart from the sleep each takes at most the given time.\<close>

definition prompt :: "int \<Rightarrow> inbox_wait_request \<Rightarrow> instant \<Rightarrow> (nat \<Rightarrow> turn) \<Rightarrow> bool" where
  "prompt slack r started w \<longleftrightarrow>
     tn_now (w 0) \<le> started + slack \<and>
     (\<forall>n. tn_now (w (Suc n)) \<le> tn_now (w n) + sleep_for r started (tn_now (w n)) + slack)"

lemma wait_loop_turn:
  assumes "wait_loop cfg r ls started fuel w n = Some a"
  shows "\<exists>m < fuel. wait_turn cfg r ls started (w (n + m)) = Some a \<and> (\<forall>j < m. wait_turn cfg r ls started (w (n + j)) = None)"
  using assms
proof (induction fuel arbitrary: n)
  case (Suc fuel)
  show ?case
  proof (cases "wait_turn cfg r ls started (w n)")
    case None
    with Suc.prems Suc.IH [of "Suc n"] obtain m where m: "m < fuel" "wait_turn cfg r ls started (w (Suc n + m)) = Some a"
      "\<forall>j < m. wait_turn cfg r ls started (w (Suc n + j)) = None" by auto
    then have "\<forall>j < Suc m. wait_turn cfg r ls started (w (n + j)) = None" using None by (auto simp: less_Suc_eq_0_disj)
    with m show ?thesis by (intro exI [of _ "Suc m"]) simp
  next
    case (Some b)
    with Suc.prems show ?thesis by (intro exI [of _ 0]) simp
  qed
qed simp

lemma wait_turn_cases:
  "wait_turn cfg r ls started tn = None \<Longrightarrow> tn_now tn - started < iw_timeout r"
  "wait_turn cfg r ls started tn = Some Timeout \<Longrightarrow> iw_timeout r \<le> tn_now tn - started"
  "wait_turn cfg r ls started tn = Some (Woken fresh ws) \<Longrightarrow> fresh \<noteq> [] \<or> ws \<noteq> []"
  "wait_turn cfg r ls started tn = Some Restarting \<Longrightarrow> tn_stopping tn"
  by (auto simp: wait_turn_def Let_def split_beta split: if_splits)

text \<open>C16. A long poll whose timeout passed validation is always answered, by one turn among the first
  151: before that turn the timeout had not passed, so it is the first turn that finds it passed
  unless an earlier one answers. The answer is a timeout only when the requested time is over, carries mail or a
  wake when it reports any, and is a restart only when the server shuts down. When no turn takes longer than
  \<open>slack\<close> besides its sleep, the answer comes within the requested timeout, the shortest
  sleep of 50 ms and \<open>slack\<close>.\<close>

theorem long_poll_is_bounded:
  assumes "parse_wait r0 = Inr r" and "clocked r started w"
    and "check_namespace_access cfg p (cfg_primary_namespace cfg) ''read'' False = Inr ()"
    and "validate_listen_set (iw_listen_set r) = Inr ls"
  shows "\<exists>n \<le> 150. \<exists>a. wait_inbox cfg p r started 151 w = Inr (Some a) \<and> wait_turn cfg r ls started (w n) = Some a \<and>
    (\<forall>j < n. tn_now (w j) - started < iw_timeout r) \<and>
    (case a of Timeout \<Rightarrow> iw_timeout r \<le> tn_now (w n) - started
     | Woken fresh ws \<Rightarrow> fresh \<noteq> [] \<or> ws \<noteq> []
     | Restarting \<Rightarrow> tn_stopping (w n)) \<and>
    (\<forall>slack. prompt slack r started w \<longrightarrow> tn_now (w n) \<le> started + iw_timeout r + 50000 + slack)"
proof -
  from assms(1) have t: "0 \<le> iw_timeout r" "iw_timeout r \<le> seconds 300"
    by (auto simp: parse_wait_def valid_def timeout_bounds_def split: if_splits)
  then have "iw_timeout r - (tn_now (w 0) - started) \<le> int 150 * POLL_EVERY"
    using assms(2) by (simp add: clocked_def POLL_EVERY_def)
  from wait_loop_answers [OF assms(2) this] obtain a where a: "wait_loop cfg r ls started 151 w 0 = Some a" by auto
  then obtain n where n: "n < 151" "wait_turn cfg r ls started (w n) = Some a"
    "\<forall>j < n. wait_turn cfg r ls started (w j) = None"
    using wait_loop_turn [OF a] by auto
  have early: "\<forall>j < n. tn_now (w j) - started < iw_timeout r" using n(3) wait_turn_cases(1) by blast
  have late: "tn_now (w n) \<le> started + iw_timeout r + 50000 + slack" if "prompt slack r started w" for slack
  proof (cases n)
    case 0
    with that t show ?thesis by (simp add: prompt_def)
  next
    case (Suc m)
    then have "tn_now (w n) \<le> tn_now (w m) + sleep_for r started (tn_now (w m)) + slack" using that by (simp add: prompt_def)
    moreover have "tn_now (w m) - started < iw_timeout r" using early Suc by simp
    ultimately show ?thesis by (auto simp: sleep_for_def min_def max_def split: if_splits)
  qed
  have kind: "case a of Timeout \<Rightarrow> iw_timeout r \<le> tn_now (w n) - started
     | Woken fresh ws \<Rightarrow> fresh \<noteq> [] \<or> ws \<noteq> [] | Restarting \<Rightarrow> tn_stopping (w n)"
    using n(2) wait_turn_cases(2-4) by (cases a) auto
  have "wait_inbox cfg p r started 151 w = Inr (Some a)"
    using a assms(3,4) by (simp add: wait_inbox_def reader_access_def)
  with n early late kind show ?thesis by (intro exI [of _ n] conjI exI [of _ a]) auto
qed

text \<open>A long poll wakes for the right mail: what it returns is newer than the cursor, not by the
  reader itself and, unless asked for, not informational; and a message that is all this and
  among the fifty newest unread ones ends the turn that sees it.\<close>

theorem long_poll_wakes_for_fresh_mail:
  assumes "ms = fst (inbox_list cfg ls (iw_reader_identity r)
            \<lparr>ls_unread_only = True, ls_limit = 50, ls_include_resolved = False, ls_newest_first = True,
             ls_unhandled_only = False, ls_mark_delivered = False\<rparr> (tn_now tn) (tn_server tn))"
    and "since = (case iw_since r of None \<Rightarrow> started | Some x \<Rightarrow> x)"
  shows "(\<forall>fresh ws. wait_turn cfg r ls started tn = Some (Woken fresh ws) \<longrightarrow>
        set fresh = {m \<in> set ms. wait_fresh r ls since m} \<and> sorted (map im_created_at fresh)) \<and>
    (\<forall>m \<in> set ms. wait_fresh r ls since m \<longrightarrow>
        (\<exists>fresh ws. wait_turn cfg r ls started tn = Some (Woken fresh ws) \<and> m \<in> set fresh))"
proof -
  let ?f = "fst (wait_poll cfg r ls since (tn_now tn) (tn_server tn))"
  have f: "?f = sort_key im_created_at (filter (wait_fresh r ls since) ms)"
    by (simp add: wait_poll_def Let_def split_beta assms(1))
  have t: "wait_turn cfg r ls started tn = Some (Woken fresh ws) \<Longrightarrow> fresh = ?f" for fresh ws
    using assms(2) by (auto simp: wait_turn_def Let_def split_beta split: if_splits)
  have w: "?f \<noteq> [] \<Longrightarrow> \<exists>ws. wait_turn cfg r ls started tn = Some (Woken ?f ws)"
    using assms(2) by (auto simp: wait_turn_def Let_def split_beta)
  have "\<exists>fresh ws. wait_turn cfg r ls started tn = Some (Woken fresh ws) \<and> m \<in> set fresh"
    if "m \<in> set ms" "wait_fresh r ls since m" for m
  proof -
    from that have "m \<in> set ?f" by (simp add: f)
    moreover from this have "?f \<noteq> []" by auto
    ultimately show ?thesis using w by blast
  qed
  with t show ?thesis by (auto simp: f)
qed

section \<open>Examples\<close>

definition demo_send :: "recipients \<Rightarrow> inbox_send_request" where
  "demo_send to = \<lparr>is_to = to, is_body = ''ship it'', is_subject = [], is_from = Some ''engram@hosta'', is_thread_id = None,
     is_supersedes = None, is_intent = None, is_listen_set = None, is_from_lane = None, is_in_reply_to = None,
     is_huddle_lifecycle = False, is_relayed_from = Some ''owner''\<rparr>"

definition demo_uuid :: "nat \<Rightarrow> string" where
  "demo_uuid n = nat_str n"

definition demo_group :: "send_response res \<times> server" where
  "demo_group = send_inbox strict [] (Some (demo_caller [''fleet''])) (demo_send (Many [''web'', ''api''])) ''g'' demo_uuid 5 empty_server"

lemma demo_group_ids: "map_sum id sd_ids (fst demo_group) = Inr [''inbox/0'', ''inbox/1'']"
  by code_simp

lemma demo_group_sent:
  obtains x where "demo_group = (Inr x, snd demo_group)" "sd_ids x = [''inbox/0'', ''inbox/1'']"
proof -
  obtain x where x: "fst demo_group = Inr x" "sd_ids x = [''inbox/0'', ''inbox/1'']"
    using demo_group_ids by (cases "fst demo_group") auto
  from x(1) have "demo_group = (Inr x, snd demo_group)" by (metis prod.collapse)
  from that [OF this x(2)] show thesis .
qed

theorem refused_send_stores_nothing_witness:
  "memories (snd (send_inbox strict [] (Some (demo_caller [''fleet''])) (demo_send (One ''#dev'')) ''g'' demo_uuid 9 (snd demo_group)))
     = memories (snd demo_group)"
proof -
  let ?o = "send_inbox strict [] (Some (demo_caller [''fleet''])) (demo_send (One ''#dev'')) ''g'' demo_uuid 9 (snd demo_group)"
  have "fst ?o = Inl (HTTPException 409)" by code_simp
  then have "?o = (Inl (HTTPException 409), snd ?o)" by (metis prod.collapse)
  from refused_send_stores_nothing [OF this] show ?thesis by simp
qed

theorem mail_envelope_cannot_be_forged_witness:
  "\<exists>row \<in> set (memories (snd demo_group)). r_key row = ''inbox/1'' \<and>
     jget (md row) ''from_principal'' = Some (JStr ''codex'') \<and> jget (md row) ''authority'' = Some (JBool False) \<and>
     jget (md row) ''relayed_from'' = Some JNull"
proof -
  obtain x where x: "demo_group = (Inr x, snd demo_group)" "sd_ids x = [''inbox/0'', ''inbox/1'']"
    by (rule demo_group_sent)
  let ?p = "Some (demo_caller [''fleet''])"
  have n: "\<not> is_owner_relay strict ?p" "\<not> padmin ?p" "jopt (pname ?p) = JStr ''codex''" by code_simp+
  from x(2) have "''inbox/1'' \<in> set (sd_ids x)" by simp
  with mail_envelope_cannot_be_forged [OF x(1) [unfolded demo_group_def]]
  obtain row where "row \<in> set (memories (snd demo_group))" "message_at strict ''inbox/1'' row"
    "enveloped strict ?p (demo_send (Many [''web'', ''api''])) row"
    unfolding demo_group_def [symmetric] by blast
  with n show ?thesis by (intro bexI [of _ row]) (simp_all add: enveloped_def Let_def message_at_def jopt_def)
qed

theorem group_send_is_one_conversation_witness:
  "\<exists>th. th \<noteq> '''' \<and> (\<forall>i \<in> {''inbox/0'', ''inbox/1''}. \<exists>row \<in> set (memories (snd demo_group)).
     r_key row = i \<and> jget_text (md row) ''thread_id'' = Some th \<and> jget_text (md row) ''intent'' = Some ''fyi'')"
proof -
  obtain x where x: "demo_group = (Inr x, snd demo_group)" "sd_ids x = [''inbox/0'', ''inbox/1'']"
    by (rule demo_group_sent)
  let ?r = "demo_send (Many [''web'', ''api''])"
  have n: "is_intent ?r = None" "\<not> is_huddle_lifecycle ?r"
    "norm (pname (Some (demo_caller [''fleet'']))) \<noteq> owner_name strict" by code_simp+
  from x(2) have l: "1 < length (sd_ids x)" by simp
  from group_send_is_one_conversation [OF x(1) [unfolded demo_group_def] l, unfolded demo_group_def [symmetric]]
  obtain tos th ps where t: "length tos = length (sd_ids x)" "th \<noteq> ''''"
    and all: "\<forall>j < length tos. \<exists>row \<in> set (memories (snd demo_group)). message_at strict (sd_ids x ! j) row \<and>
        r_user_id row = py_lower (tos ! j) \<and> jget_text (md row) ''thread_id'' = Some th \<and>
        jlist (md row) ''participants'' = map JStr ps \<and>
        (is_intent ?r = None \<and> \<not> is_huddle_lifecycle ?r \<and> norm (pname (Some (demo_caller [''fleet'']))) \<noteq> owner_name strict \<longrightarrow>
           jget_text (md row) ''intent'' = Some ''fyi'')"
    by blast
  have row: "\<exists>row \<in> set (memories (snd demo_group)). r_key row = sd_ids x ! j \<and>
      jget_text (md row) ''thread_id'' = Some th \<and> jget_text (md row) ''intent'' = Some ''fyi''" if "j < 2" for j
    using all [rule_format, of j] that t(1) n unfolding x(2) message_at_def by auto
  show ?thesis using row [of 0] row [of 1] t(2) unfolding x(2) by (intro exI [of _ th]) simp
qed

definition demo_wait :: inbox_wait_request where
  "demo_wait = \<lparr>iw_listen_set = [''web''], iw_reader_identity = Some ''web'', iw_timeout = seconds 30, iw_since = Some 0, iw_include_fyi = True\<rparr>"

definition idle_turns :: "nat \<Rightarrow> turn" where
  "idle_turns n = \<lparr>tn_now = seconds (2 * int n), tn_server = empty_server, tn_stopping = False\<rparr>"

theorem long_poll_is_bounded_witness:
  "\<exists>n. \<exists>a. wait_inbox strict (Some (demo_caller [''fleet''])) demo_wait 0 151 idle_turns = Inr (Some a) \<and>
     tn_now (idle_turns n) \<le> seconds 31"
proof -
  have p: "parse_wait demo_wait = Inr demo_wait" by code_simp
  have c: "clocked demo_wait 0 idle_turns" by (simp add: clocked_def idle_turns_def sleep_for_def POLL_EVERY_def)
  have a: "check_namespace_access strict (Some (demo_caller [''fleet''])) (cfg_primary_namespace strict) ''read'' False = Inr ()"
    and v: "validate_listen_set (iw_listen_set demo_wait) = Inr [''web'']" by code_simp+
  obtain n b where n: "wait_inbox strict (Some (demo_caller [''fleet''])) demo_wait 0 151 idle_turns = Inr (Some b)"
    "\<forall>j < n. tn_now (idle_turns j) - 0 < iw_timeout demo_wait"
    using long_poll_is_bounded [OF p c a v] by blast
  have "n \<le> 15"
  proof (rule ccontr)
    assume "\<not> n \<le> 15"
    then have "tn_now (idle_turns 15) < iw_timeout demo_wait" using n(2) by simp
    then show False by (simp add: idle_turns_def demo_wait_def)
  qed
  then have "tn_now (idle_turns n) \<le> seconds 31" by (simp add: idle_turns_def)
  with n(1) show ?thesis by blast
qed

definition mail_turn :: turn where
  "mail_turn = \<lparr>tn_now = 9, tn_server = snd demo_group, tn_stopping = False\<rparr>"

theorem long_poll_wakes_for_fresh_mail_witness:
  "\<exists>fresh ws. wait_turn strict demo_wait [''web''] 5 mail_turn = Some (Woken fresh ws) \<and> fresh \<noteq> []"
proof -
  let ?ms = "fst (inbox_list strict [''web''] (iw_reader_identity demo_wait)
      \<lparr>ls_unread_only = True, ls_limit = 50, ls_include_resolved = False, ls_newest_first = True,
       ls_unhandled_only = False, ls_mark_delivered = False\<rparr> (tn_now mail_turn) (tn_server mail_turn))"
  have "list_ex (wait_fresh demo_wait [''web''] 0) ?ms" by code_simp
  then obtain m where m: "m \<in> set ?ms" "wait_fresh demo_wait [''web''] 0 m" by (auto simp: list_ex_iff)
  have "(0::int) = (case iw_since demo_wait of None \<Rightarrow> 5 | Some x \<Rightarrow> x)" by (simp add: demo_wait_def)
  from conjunct2 [OF long_poll_wakes_for_fresh_mail [OF refl this]] m show ?thesis by fastforce
qed

end
