(* ===== verification/Administration.thy ===== *)
theory Administration
  imports Memory_Router Address_Roles Mail_Signal Climb
begin

text \<open>
  The administrative surface: \<^verbatim>\<open>server/services/admin_service.py\<close> (listing, statistics, moving,
  bulk deletion and expiry of rows), the endpoints of \<^verbatim>\<open>server/routers/admin.py\<close>,
  \<^verbatim>\<open>routers/principals.py\<close> and \<^verbatim>\<open>routers/identity.py\<close>, and one turn of the periodic tasks of
  \<^verbatim>\<open>cleanup_task.py\<close>. Every endpoint of the first two routers stands behind \<^const>\<open>admin_or_open\<close>;
  it takes the caller that gate let through.
\<close>

section \<open>Listing and statistics\<close>

text \<open>\<^verbatim>\<open>column ILIKE pattern\<close>, on ASCII text.\<close>

definition sql_ilike :: "string \<Rightarrow> string \<Rightarrow> bool" where
  "sql_ilike s pat = sql_like (py_lower s) (py_lower pat)"

record memory_filter =
  mf_namespaces :: "string list option"
  mf_scope :: "string option"
  mf_user_id :: "string option"
  mf_key_prefix :: "string option"
  mf_search :: "string option"
  mf_machine :: "string option"
  mf_created_after :: "instant option"
  mf_created_before :: "instant option"

definition given :: "'a option \<Rightarrow> ('a \<Rightarrow> bool) \<Rightarrow> bool" where
  "given v P = (case v of None \<Rightarrow> True | Some x \<Rightarrow> P x)"

definition filter_where :: "memory_filter \<Rightarrow> row \<Rightarrow> bool" where
  "filter_where f r \<longleftrightarrow>
     (case mf_namespaces f of Some (n # ns) \<Rightarrow> r_namespace r \<in> set (n # ns) | _ \<Rightarrow> True) \<and>
     given (mf_scope f) (\<lambda>x. r_scope r = x) \<and> given (mf_user_id f) (\<lambda>x. r_user_id r = x) \<and>
     given (mf_key_prefix f) (\<lambda>x. sql_like (r_key r) (x @ ''%'')) \<and>
     given (mf_search f) (\<lambda>x. sql_ilike (r_search_text r) (''%'' @ x @ ''%'')) \<and>
     given (mf_machine f) (\<lambda>x. jget_text (md r) ''machine'' = Some x) \<and>
     given (mf_created_after f) (\<lambda>x. x \<le> r_created_at r) \<and>
     given (mf_created_before f) (\<lambda>x. r_created_at r < x)"

definition ordered_rows :: "string \<Rightarrow> string \<Rightarrow> row list \<Rightarrow> row list" where
  "ordered_rows sort_by sort_order rs =
     (let up = (if sort_by = ''created_at'' then sort_key r_created_at rs
                else if sort_by = ''last_used_at'' then sort_key r_last_used_at rs
                else sort_key r_key rs)
      in if py_lower sort_order = ''desc'' then rev up else up)"

definition list_memories ::
  "memory_filter \<Rightarrow> nat \<Rightarrow> nat \<Rightarrow> string \<Rightarrow> string \<Rightarrow> bool \<Rightarrow> nat \<Rightarrow> table \<Rightarrow> nat \<times> (row \<times> string option) list" where
  "list_memories f offset lim sort_by sort_order include_value value_max t =
     (length (filter (filter_where f) t),
      map (\<lambda>r. (r, if include_value then Some (take value_max (r_value r)) else None))
        (take lim (drop offset (ordered_rows sort_by sort_order (filter (filter_where f) t)))))"

definition list_machines :: "table \<Rightarrow> string list" where
  "list_machines t = sort (remdups (List.map_filter (\<lambda>r. jget_text (md r) ''machine'') t))"

record namespace_stats =
  ns_namespace :: string
  ns_scope :: "string option"
  ns_count :: nat
  ns_oldest :: instant
  ns_newest :: instant
  ns_expired_count :: nat

definition expired_at :: "instant \<Rightarrow> row \<Rightarrow> bool" where
  "expired_at now r = (case r_expires_at r of None \<Rightarrow> False | Some e \<Rightarrow> e \<le> now)"

definition stats_of :: "instant \<Rightarrow> string \<times> string option \<Rightarrow> row list \<Rightarrow> namespace_stats" where
  "stats_of now g rs =
     \<lparr>ns_namespace = fst g, ns_scope = snd g, ns_count = length rs,
      ns_oldest = Min (r_created_at ` set rs), ns_newest = Max (r_created_at ` set rs),
      ns_expired_count = length (filter (expired_at now) rs)\<rparr>"

definition get_stats :: "string option \<Rightarrow> bool \<Rightarrow> instant \<Rightarrow> table \<Rightarrow> namespace_stats list" where
  "get_stats namespace by_scope now t =
     (let rows = filter (\<lambda>r. given namespace (\<lambda>n. r_namespace r = n)) t;
          group = (\<lambda>r. (r_namespace r, if by_scope then Some (r_scope r) else None));
          groups = sort_key (\<lambda>g. [fst g, or_empty (snd g)]) (remdups (map group rows))
      in map (\<lambda>g. stats_of now g (filter (\<lambda>r. group r = g) rows)) groups)"

section \<open>Moving, deleting, expiring\<close>

record memory_update_request =
  mu_namespace :: string
  mu_key :: string
  mu_scope :: string
  mu_user_id :: string
  mu_new_namespace :: "string option"
  mu_new_scope :: "string option"
  mu_new_user_id :: "string option"
  mu_new_key :: "string option"
  mu_new_tags :: "string option"

definition else_old :: "'a option \<Rightarrow> 'a \<Rightarrow> 'a" where
  "else_old v x = (case v of None \<Rightarrow> x | Some y \<Rightarrow> y)"

definition moved_row :: "memory_update_request \<Rightarrow> row \<Rightarrow> row" where
  "moved_row u r =
     r\<lparr>r_namespace := else_old (mu_new_namespace u) (r_namespace r), r_scope := else_old (mu_new_scope u) (r_scope r),
       r_user_id := else_old (mu_new_user_id u) (r_user_id r), r_key := else_old (mu_new_key u) (r_key r),
       r_tags := else_old (mu_new_tags u) (r_tags r)\<rparr>"

definition update_hit :: "memory_update_request \<Rightarrow> row \<Rightarrow> bool" where
  "update_hit u r \<longleftrightarrow>
     r_namespace r = mu_namespace u \<and> r_key r = mu_key u \<and> r_scope r = mu_scope u \<and> r_user_id r = mu_user_id u"

definition nothing_new :: "memory_update_request \<Rightarrow> bool" where
  "nothing_new u \<longleftrightarrow> mu_new_namespace u = None \<and> mu_new_scope u = None \<and> mu_new_user_id u = None \<and>
     mu_new_key u = None \<and> mu_new_tags u = None"

text \<open>A move onto a key that is taken violates the unique index and leaves the table alone.\<close>

definition update_memory :: "memory_update_request \<Rightarrow> table \<Rightarrow> bool res \<times> table" where
  "update_memory u t =
     (if nothing_new u then (Inr False, t)
      else let t' = sql_update (update_hit u) (moved_row u) t
           in if distinct (map ukey_of t') then (Inr (sql_count (update_hit u) t \<noteq> 0), t')
              else (Inl UniqueViolation, t))"

record bulk_delete_request =
  bd_namespace :: string
  bd_key_prefix :: string
  bd_scope :: "string option"
  bd_user_id :: "string option"
  bd_older_than_days :: "int option"
  bd_dry_run :: bool
  bd_i_understand :: "string option"

text \<open>The one \<^verbatim>\<open>WHERE\<close> clause of the preview and the deletion.\<close>

definition bulk_where :: "bulk_delete_request \<Rightarrow> instant \<Rightarrow> row \<Rightarrow> bool" where
  "bulk_where q now r \<longleftrightarrow>
     r_namespace r = bd_namespace q \<and> sql_like (r_key r) (prefix_pattern (bd_key_prefix q)) \<and>
     given (bd_scope q) (\<lambda>x. r_scope r = x) \<and> given (bd_user_id q) (\<lambda>x. r_user_id r = x) \<and>
     given (bd_older_than_days q) (\<lambda>d. r_created_at r < now - hours (24 * d))"

definition bulk_delete :: "bulk_delete_request \<Rightarrow> bool \<Rightarrow> instant \<Rightarrow> table \<Rightarrow> (nat \<times> string list) \<times> table" where
  "bulk_delete q dry_run now t =
     ((sql_count (bulk_where q now) t, take 10 (sort (map r_key (filter (bulk_where q now) t)))),
      if dry_run then t else sql_delete (bulk_where q now) t)"

text \<open>The loop of \<^verbatim>\<open>cleanup_expired\<close>; the clock gives the time of each statement. The statement may
  pick any rows up to its limit; the model picks the first.\<close>

definition expired_batch :: "nat \<Rightarrow> instant \<Rightarrow> table \<Rightarrow> nat list" where
  "expired_batch batch now t = map r_id (take batch (filter (expired_at now) t))"

partial_function (option) cleanup_loop :: "nat \<Rightarrow> (nat \<Rightarrow> instant) \<Rightarrow> nat \<Rightarrow> nat \<Rightarrow> table \<Rightarrow> (nat \<times> table) option" where
  "cleanup_loop batch clock i deleted t =
     (let ids = expired_batch batch (clock i) t;
          n = sql_count (\<lambda>r. r_id r \<in> set ids) t;
          t' = sql_delete (\<lambda>r. r_id r \<in> set ids) t
      in if n < batch then Some (deleted + n, t') else cleanup_loop batch clock (Suc i) (deleted + n) t')"

definition cleanup_expired :: "nat \<Rightarrow> (nat \<Rightarrow> instant) \<Rightarrow> table \<Rightarrow> (nat \<times> table) option" where
  "cleanup_expired batch clock t = cleanup_loop batch clock 0 0 t"

section \<open>Endpoints on rows\<close>

text \<open>Every endpoint of the surface runs behind this gate.\<close>

definition admin_call ::
  "settings \<Rightarrow> principal option \<Rightarrow> auth_source \<Rightarrow> (principal option \<Rightarrow> server \<Rightarrow> 'a res \<times> server) \<Rightarrow> server
     \<Rightarrow> 'a res \<times> server" where
  "admin_call cfg p src f s = (case admin_or_open cfg p src of Inl e \<Rightarrow> (Inl e, s) | Inr who \<Rightarrow> f who s)"

text \<open>\<^verbatim>\<open>namespace.split(",")\<close> of the listing endpoint.\<close>

definition split_namespaces :: "string option \<Rightarrow> string list option" where
  "split_namespaces v =
     (case Option.bind v or_none of None \<Rightarrow> None
      | Some x \<Rightarrow> Some (map py_strip (filter (\<lambda>n. py_strip n \<noteq> '''') (py_split (CHR '','') x))))"

definition update_memory_endpoint ::
  "settings \<Rightarrow> memory_update_request \<Rightarrow> principal option \<Rightarrow> server \<Rightarrow> unit res \<times> server" where
  "update_memory_endpoint cfg u who s =
     (case check_namespace_access cfg who (mu_namespace u) ''write'' True of
        Inl e \<Rightarrow> (Inl e, s)
      | Inr _ \<Rightarrow>
     (case (case Option.bind (mu_new_namespace u) or_none of
              None \<Rightarrow> Inr ()
            | Some n \<Rightarrow> if n \<noteq> mu_namespace u then check_namespace_access cfg who n ''write'' True else Inr ()) of
        Inl e \<Rightarrow> (Inl e, s)
      | Inr _ \<Rightarrow>
     (case update_memory u (memories s) of
        (Inl _, t) \<Rightarrow> (Inl (HTTPException 500), s\<lparr>memories := t\<rparr>)
      | (Inr updated, t) \<Rightarrow> (if updated then Inr () else Inl (HTTPException 404), s\<lparr>memories := t\<rparr>))))"

definition BROAD_MIN_LEN :: nat where "BROAD_MIN_LEN = 12"

definition is_broad :: "bulk_delete_request \<Rightarrow> bool" where
  "is_broad q =
     (let p = py_strip (bd_key_prefix q)
      in length p < BROAD_MIN_LEN \<or> list_ex (endswith p) [''/'', '':'', ''-'', ''_''])"

definition blast_label :: "bulk_delete_request \<Rightarrow> string" where
  "blast_label q = bd_namespace q @ '':'' @ bd_key_prefix q"

record bulk_response =
  br_deleted :: nat
  br_matched :: nat
  br_dry_run :: bool
  br_sample :: "string list"

text \<open>\<^verbatim>\<open>key_prefix_not_empty\<close> and the alias of the namespace, from the request model.\<close>

definition parse_bulk :: "settings \<Rightarrow> bulk_delete_request \<Rightarrow> bulk_delete_request res" where
  "parse_bulk cfg q =
     valid (\<not> blank (bd_key_prefix q)) (q\<lparr>bd_namespace := canonical_namespace cfg (bd_namespace q)\<rparr>)"

text \<open>The other request models of the surface. The one that declines a deletion request is no
  \<^verbatim>\<open>_NamespacedRequest\<close>: unlike the request to delete it resolves neither a legacy namespace nor a renamed
  project, and an omitted user id is \<^verbatim>\<open>default\<close> in every scope.\<close>

definition parse_update :: "settings \<Rightarrow> memory_update_request \<Rightarrow> memory_update_request res" where
  "parse_update cfg u = Inr (u\<lparr>mu_namespace := canonical_namespace cfg (mu_namespace u)\<rparr>)"

definition parse_reject :: "flag_request \<Rightarrow> flag_request res" where
  "parse_reject r =
     valid (3 \<le> length (fl_reason r) \<and> length (fl_reason r) \<le> 2000)
       (r\<lparr>rf_user_id := Some (case rf_user_id r of None \<Rightarrow> ''default'' | Some u \<Rightarrow> u)\<rparr>)"

text \<open>An integer as it stands in a JSON document.\<close>

definition jint :: "int \<Rightarrow> json" where
  "jint n = JNum (if n < 0 then ''-'' @ nat_str (nat (- n)) else nat_str (nat n))"

definition bulk_delete_endpoint ::
  "bulk_delete_request \<Rightarrow> instant \<Rightarrow> principal option \<Rightarrow> server \<Rightarrow> bulk_response res \<times> server" where
  "bulk_delete_endpoint q now who s =
     (let (matched, sample) = fst (bulk_delete q True now (memories s))
      in if bd_dry_run q
         then (Inr \<lparr>br_deleted = 0, br_matched = matched, br_dry_run = True, br_sample = sample\<rparr>, s)
         else if is_broad q \<and> py_strip (or_empty (bd_i_understand q)) \<noteq> blast_label q
         then (Inl (HTTPException 422), s)
         else case bulk_delete q False now (memories s) of
                ((deleted, keys), t) \<Rightarrow>
                  (Inr \<lparr>br_deleted = deleted, br_matched = deleted, br_dry_run = False, br_sample = keys\<rparr>,
                   audit ''admin.bulk_delete'' who
                     [(''namespace'', JStr (bd_namespace q)), (''key_prefix'', JStr (bd_key_prefix q)),
                      (''scope'', jopt (bd_scope q)), (''user_id'', jopt (bd_user_id q)),
                      (''older_than_days'', case bd_older_than_days q of None \<Rightarrow> JNull | Some d \<Rightarrow> jint d),
                      (''deleted'', jint (int deleted))] None now (s\<lparr>memories := t\<rparr>)))"

record estate_request =
  et_from :: string
  et_to :: string
  et_namespace :: "string option"
  et_project :: "string option"
  et_dry_run :: bool

definition parse_estate :: "estate_request \<Rightarrow> estate_request res" where
  "parse_estate q =
     valid (1 \<le> length (et_from q) \<and> length (et_from q) \<le> 128 \<and> 1 \<le> length (et_to q) \<and> length (et_to q) \<le> 128 \<and>
       fits 128 (et_namespace q) \<and> fits 128 (et_project q)) q"

definition estate_transfer_endpoint ::
  "estate_request \<Rightarrow> instant \<Rightarrow> principal option \<Rightarrow> server \<Rightarrow> nat res \<times> server" where
  "estate_transfer_endpoint q now who s =
     (case get_principal (norm (Some (et_to q))) s of
        None \<Rightarrow> (Inl (HTTPException 422), s)
      | Some _ \<Rightarrow>
     (case estate_transfer (Some (et_from q)) (Some (et_to q)) (et_namespace q) (et_project q) (et_dry_run q) (memories s) of
        (Inl _, t) \<Rightarrow> (Inl (HTTPException 422), s\<lparr>memories := t\<rparr>)
      | (Inr n, t) \<Rightarrow>
          (Inr n, if et_dry_run q then s\<lparr>memories := t\<rparr>
                  else audit ''admin.estate_transfer'' who
                    [(''from_principal'', JStr (et_from q)), (''to_principal'', JStr (et_to q)),
                     (''namespace'', jopt (et_namespace q)), (''project'', jopt (et_project q)),
                     (''rows'', jint (int n))] None now (s\<lparr>memories := t\<rparr>))))"

definition deletion_queue_endpoint :: "nat \<Rightarrow> server \<Rightarrow> row list" where
  "deletion_queue_endpoint lim s = deletion_queue_list lim (memories s)"

definition deletion_queue_reject_endpoint ::
  "flag_request \<Rightarrow> instant \<Rightarrow> principal option \<Rightarrow> server \<Rightarrow> string res \<times> server" where
  "deletion_queue_reject_endpoint q now who s =
     (case deletion_queue_reject (ref_key q) (pname who) (fl_reason q) now (memories s) of
        (Inl _, t) \<Rightarrow> (Inl (HTTPException 422), s\<lparr>memories := t\<rparr>)
      | (Inr None, t) \<Rightarrow> (Inl (HTTPException 404), s\<lparr>memories := t\<rparr>)
      | (Inr (Some _), t) \<Rightarrow>
          (Inr (rf_key q), audit ''admin.deletion_queue.reject'' who (row_detail q @ [(''reason'', JStr (fl_reason q))])
             None now (s\<lparr>memories := t\<rparr>)))"

text \<open>So a row flagged under a legacy namespace is not found again by a refusal that names it the same
  way; only its current name is.\<close>

definition legacy_flag :: "string \<Rightarrow> flag_request" where
  "legacy_flag ns = \<lparr>rf_namespace = ns, rf_key = ''startup/next'', rf_scope = ''project'', rf_user_id = Some ''codex'',
     rf_project = Some ''engram'', fl_reason = ''leaked''\<rparr>"

definition legacy_demo :: server where
  "legacy_demo =
     (let cfg = default_settings\<lparr>cfg_namespace_aliases := ''claude=fleet''\<rparr>; s = empty_server\<lparr>memories := flag_demo\<rparr>
      in case parse_flag cfg [] (legacy_flag ''claude'') of Inl _ \<Rightarrow> s | Inr r \<Rightarrow> snd (flag_deletion cfg None r 6 s))"

lemma reject_misses_legacy_name:
  "length (deletion_queue_list 10 (memories legacy_demo)) = 1"
  "fst (deletion_queue_reject_endpoint (legacy_flag ''claude'') 7 None legacy_demo) = Inl (HTTPException 404)"
  "fst (deletion_queue_reject_endpoint (legacy_flag ''fleet'') 7 None legacy_demo) = Inr ''startup/next''"
  "parse_reject (legacy_flag ns) = Inr (legacy_flag ns)"
proof -
  show "parse_reject (legacy_flag ns) = Inr (legacy_flag ns)" by (simp add: parse_reject_def legacy_flag_def valid_def)
qed code_simp+

definition climb_endpoint :: "settings \<Rightarrow> instant \<Rightarrow> principal option \<Rightarrow> server \<Rightarrow> climb_report res \<times> server" where
  "climb_endpoint cfg now who s =
     (case climb_pass cfg now s of
        (Inl e, s') \<Rightarrow> (Inl (HTTPException 500), s')
      | (Inr rep, s') \<Rightarrow> (Inr rep, s'))"

definition sweep_endpoint :: "settings \<Rightarrow> instant \<Rightarrow> principal option \<Rightarrow> server \<Rightarrow> sweep_report res \<times> server" where
  "sweep_endpoint cfg now who s = (let (rep, s') = sweep_pass cfg now s in (Inr rep, s'))"

definition unanswered_endpoint :: "settings \<Rightarrow> int \<Rightarrow> nat \<Rightarrow> instant \<Rightarrow> server \<Rightarrow> row list res" where
  "unanswered_endpoint cfg min_age lim now s =
     (case unanswered_asks cfg min_age lim now (memories s) of Inl _ \<Rightarrow> Inl (HTTPException 500) | Inr rs \<Rightarrow> Inr rs)"

text \<open>\<^verbatim>\<open>batch_size or settings.cleanup_batch_size\<close>; no answer when the loop never ends.\<close>

definition cleanup_endpoint ::
  "nat option \<Rightarrow> nat \<Rightarrow> (nat \<Rightarrow> instant) \<Rightarrow> server \<Rightarrow> (nat \<times> server) option" where
  "cleanup_endpoint batch_size configured clock s =
     map_option (\<lambda>(n, t). (n, s\<lparr>memories := t\<rparr>))
       (cleanup_expired (case batch_size of None \<Rightarrow> configured | Some 0 \<Rightarrow> configured | Some b \<Rightarrow> b) clock (memories s))"

text \<open>One turn of \<^verbatim>\<open>expiration_cleanup_loop\<close> and of \<^verbatim>\<open>inbox_autoresolve_loop\<close>.\<close>

definition expiration_turn :: "nat \<Rightarrow> (nat \<Rightarrow> instant) \<Rightarrow> instant \<Rightarrow> server \<Rightarrow> server option" where
  "expiration_turn configured clock now s =
     map_option (\<lambda>(n, t). if n = 0 then s\<lparr>memories := t\<rparr>
        else audit ''system.expiration_sweep'' None [(''deleted'', jint (int n))] None now (s\<lparr>memories := t\<rparr>))
       (cleanup_expired configured clock (memories s))"

definition autoresolve_turn :: "settings \<Rightarrow> int \<Rightarrow> nat \<Rightarrow> instant \<Rightarrow> server \<Rightarrow> server" where
  "autoresolve_turn cfg after_hours batch now s =
     s\<lparr>memories := snd (inbox_autoresolve_stale cfg after_hours INBOX_STALE_SWEEP_ACTOR batch now (memories s))\<rparr>"

section \<open>Signals, renames and roles\<close>

text \<open>\<^verbatim>\<open>issue_mail_signal\<close>: a signal is tied to a login that is active now. The path handed out is the
  prefix of the signal routes and the raw key.\<close>

definition issue_mail_signal ::
  "(string \<Rightarrow> string) \<Rightarrow> string \<Rightarrow> string \<Rightarrow> string option \<Rightarrow> instant \<Rightarrow> principal option \<Rightarrow> server
     \<Rightarrow> (signal_row \<times> string) res \<times> server" where
  "issue_mail_signal sha random address0 prin now caller s =
     (let address = norm (Some address0);
          principal_name = norm (Some (case Option.bind prin or_none of None \<Rightarrow> address | Some p \<Rightarrow> p))
      in if \<not> (1 \<le> length address0 \<and> length address0 \<le> MAX_ADDR \<and> fits MAX_ADDR prin)
         then (Inl (HTTPException 422), s)
         else case get_principal principal_name s of
           None \<Rightarrow> (Inl (HTTPException 422), s)
         | Some p \<Rightarrow>
             if \<not> p_active p then (Inl (HTTPException 422), s)
             else case issue_signal sha random address principal_name (pname caller) now s of
               (Inl _, s') \<Rightarrow> (Inl (HTTPException 500), s')
             | (Inr (r, raw), s') \<Rightarrow>
                 (Inr (r, SIGNAL_PATH_PREFIX @ raw),
                  audit ''mail_signal.issue'' caller
                    [(''address'', JStr address), (''principal'', JStr principal_name),
                     (''signal_id'', jint (int (sg_id r)))] None now s'))"

definition list_mail_signals :: "bool \<Rightarrow> server \<Rightarrow> signal_row list" where
  "list_mail_signals include_revoked s = list_signals include_revoked s"

definition revoke_mail_signal :: "string \<Rightarrow> instant \<Rightarrow> principal option \<Rightarrow> server \<Rightarrow> nat res \<times> server" where
  "revoke_mail_signal address now caller s =
     (case revoke_signal address now s of
        (n, s') \<Rightarrow> (Inr n, audit ''mail_signal.revoke'' caller
                      [(''address'', JStr (norm (Some address))), (''revoked'', jint (int n))] None now s'))"

definition list_project_aliases :: "server \<Rightarrow> alias_row list" where
  "list_project_aliases s = list_aliases s"

definition relabel_project ::
  "settings \<Rightarrow> string list \<Rightarrow> string \<Rightarrow> bool \<Rightarrow> instant \<Rightarrow> principal option \<Rightarrow> server
     \<Rightarrow> relabel_result res \<times> server" where
  "relabel_project cfg sources target dry_run now caller s =
     (if \<not> (1 \<le> length sources \<and> length sources \<le> 32 \<and> length target \<le> MAX_ADDR)
      then (Inl (HTTPException 422), s)
      else case relabel cfg sources target dry_run (pname caller) now s of
        (Inl e, s') \<Rightarrow> (Inl (HTTPException (if e = ValueError then 422 else 500)), s')
      | (Inr res, s') \<Rightarrow>
          (Inr res,
           if dry_run then s'
           else audit ''admin.project_relabel'' caller
             [(''sources'', JArr (map (\<lambda>a. JStr (fst a)) (rr_aliases res))), (''target'', JStr (rr_target res)),
              (''moved'', JObj (map (\<lambda>(n, k). (n, jint (int k))) (rr_moved res))),
              (''renamed'', jint (int (length (rr_renamed res))))] None now s'))"

definition reverse_project_relabel ::
  "string \<Rightarrow> string \<Rightarrow> instant \<Rightarrow> principal option \<Rightarrow> server \<Rightarrow> (nat \<times> bool) res \<times> server" where
  "reverse_project_relabel source target now caller s =
     (if MAX_ADDR < length source \<or> MAX_ADDR < length target then (Inl (HTTPException 422), s)
      else case reverse source target (pname caller) now s of
        (Inl e, s') \<Rightarrow> (Inl (HTTPException (if e = ValueError then 422 else 500)), s')
      | (Inr (n, dropped), s') \<Rightarrow>
          (Inr (n, dropped),
           audit ''admin.project_relabel_reverse'' caller
             [(''source'', JStr (norm (Some source))), (''target'', JStr (norm (Some target))),
              (''restored'', jint (int n)), (''alias_dropped'', JBool dropped)] None now s'))"

definition list_roles_endpoint :: "server \<Rightarrow> role_row list" where
  "list_roles_endpoint s = list_roles s"

definition assign_role ::
  "settings \<Rightarrow> string \<Rightarrow> string \<Rightarrow> instant \<Rightarrow> principal option \<Rightarrow> server \<Rightarrow> assigned res \<times> server" where
  "assign_role cfg role h now caller s =
     (if MAX_ADDR < length h then (Inl (HTTPException 422), s)
      else case assign cfg role h (pname caller) now s of
        (Inl _, s') \<Rightarrow> (Inl (HTTPException 422), s')
      | (Inr a, s') \<Rightarrow>
          (Inr a,
           if as_changed a
           then audit ''admin.role_assign'' caller
                  [(''role'', JStr (as_role a)), (''holder'', JStr (as_holder a)), (''previous'', jopt (as_previous a))]
                  None now s'
           else s'))"

definition retire_role :: "string \<Rightarrow> instant \<Rightarrow> principal option \<Rightarrow> server \<Rightarrow> string res \<times> server" where
  "retire_role role now caller s =
     (case unassign role now s of
        (retired, s') \<Rightarrow>
          if retired then (Inr role, audit ''admin.role_retire'' caller [(''role'', JStr role)] None now s')
          else (Inl (HTTPException 404), s'))"

definition role_history_endpoint :: "string \<Rightarrow> server \<Rightarrow> history_row list" where
  "role_history_endpoint role s = role_history role s"

section \<open>Principals\<close>

text \<open>What a response shows of a principal: that it has a token and a password, never their
  hashes.\<close>

record principal_response =
  pr_name :: string
  pr_type :: string
  pr_is_admin :: bool
  pr_has_token :: bool
  pr_has_password :: bool
  pr_read_namespaces :: "string list"
  pr_write_namespaces :: "string list"
  pr_active :: bool
  pr_created_at :: instant
  pr_updated_at :: "instant option"

definition principal_dict :: "principal \<Rightarrow> principal_response" where
  "principal_dict p =
     \<lparr>pr_name = p_name p, pr_type = p_type p, pr_is_admin = p_is_admin p, pr_has_token = (p_token_hash p \<noteq> None),
      pr_has_password = (p_password_hash p \<noteq> None), pr_read_namespaces = p_read_namespaces p,
      pr_write_namespaces = p_write_namespaces p, pr_active = p_active p, pr_created_at = p_created_at p,
      pr_updated_at = p_updated_at p\<rparr>"

definition parse_principal :: "new_principal \<Rightarrow> new_principal res" where
  "parse_principal np =
     valid (\<not> blank (np_name np) \<and> np_type np \<in> set [''human'', ''agent''])
       (np\<lparr>np_name := py_lower (py_strip (np_name np))\<rparr>)"

definition create_principal_endpoint ::
  "hashing \<Rightarrow> string \<Rightarrow> string \<Rightarrow> string \<Rightarrow> new_principal \<Rightarrow> instant \<Rightarrow> principal option \<Rightarrow> server
     \<Rightarrow> (principal_response \<times> string option) res \<times> server" where
  "create_principal_endpoint h random salt salt2 np now caller s =
     (case create_principal h random salt salt2 np now s of
        (Inl e, s') \<Rightarrow> (Inl (HTTPException (if e = UniqueViolation then 409 else 500)), s')
      | (Inr (p, raw), s') \<Rightarrow> (Inr (principal_dict p, raw), s'))"

definition list_principals_endpoint :: "string option \<Rightarrow> bool \<Rightarrow> server \<Rightarrow> principal_response list" where
  "list_principals_endpoint type active_only s = map principal_dict (list_principals type active_only s)"

definition get_principal_endpoint :: "string \<Rightarrow> server \<Rightarrow> principal_response res" where
  "get_principal_endpoint name s =
     (case get_principal name s of None \<Rightarrow> Inl (HTTPException 404) | Some p \<Rightarrow> Inr (principal_dict p))"

text \<open>The names of the fields a request sets, sorted.\<close>

definition changed_fields :: "principal_update \<Rightarrow> string list" where
  "changed_fields u =
     (if pu_active u = None then [] else [''active'']) @ (if pu_is_admin u = None then [] else [''is_admin'']) @
     (if pu_password u = None then [] else [''password'']) @
     (if pu_read u = None then [] else [''read_namespaces'']) @ (if pu_token u = None then [] else [''token'']) @
     (if pu_write u = None then [] else [''write_namespaces''])"

definition update_principal_endpoint ::
  "hashing \<Rightarrow> string \<Rightarrow> string \<Rightarrow> string \<Rightarrow> principal_update \<Rightarrow> instant \<Rightarrow> principal option \<Rightarrow> server
     \<Rightarrow> principal_response res \<times> server" where
  "update_principal_endpoint h salt salt2 name u now caller s =
     (case update_principal h salt salt2 name u now s of
        ((None, _), s') \<Rightarrow> (Inl (HTTPException 404), s')
      | ((Some p, _), s') \<Rightarrow>
          (Inr (principal_dict p),
           audit ''principal.update'' caller
             [(''target'', JStr name), (''fields'', JArr (map JStr (changed_fields u)))] (Some (p_name p)) now s'))"

definition deactivate_principal_endpoint ::
  "string \<Rightarrow> instant \<Rightarrow> principal option \<Rightarrow> server \<Rightarrow> string res \<times> server" where
  "deactivate_principal_endpoint name now caller s =
     (case deactivate_principal name now s of
        (done, s') \<Rightarrow>
          if done then (Inr name, audit ''principal.deactivate'' caller [(''target'', JStr name)] None now s')
          else (Inl (HTTPException 404), s'))"

definition token_update :: "string \<Rightarrow> principal_update" where
  "token_update raw =
     \<lparr>pu_is_admin = None, pu_password = None, pu_token = Some raw, pu_read = None, pu_write = None, pu_active = None\<rparr>"

definition regenerate_token ::
  "hashing \<Rightarrow> string \<Rightarrow> string \<Rightarrow> string \<Rightarrow> instant \<Rightarrow> principal option \<Rightarrow> server \<Rightarrow> string res \<times> server" where
  "regenerate_token h random salt name now caller s =
     (let raw = fst (generate_token h random salt)
      in case update_principal h salt salt name (token_update raw) now s of
           ((None, _), s') \<Rightarrow> (Inl (HTTPException 404), s')
         | ((Some p, _), s') \<Rightarrow>
             (Inr raw, audit ''principal.token_regenerate'' caller [(''target'', JStr name)] (Some (p_name p)) now s'))"

text \<open>The aliases of a principal; the request model strips both fields and refuses blank ones.\<close>

definition parse_alias :: "string \<Rightarrow> string \<Rightarrow> (string \<times> string) res" where
  "parse_alias alias source = valid (\<not> blank alias \<and> \<not> blank source) (py_strip alias, py_strip source)"

definition add_alias_endpoint :: "string \<Rightarrow> string \<Rightarrow> string \<Rightarrow> server \<Rightarrow> unit res \<times> server" where
  "add_alias_endpoint name alias source s =
     (case add_alias name alias source s of (ok, s') \<Rightarrow> (if ok then Inr () else Inl (HTTPException 404), s'))"

definition list_aliases_endpoint :: "string \<Rightarrow> server \<Rightarrow> (string \<times> string \<times> string) list res" where
  "list_aliases_endpoint name s =
     (case get_principal name s of None \<Rightarrow> Inl (HTTPException 404) | Some _ \<Rightarrow> Inr (list_principal_aliases name s))"

definition remove_alias_endpoint :: "string \<Rightarrow> string \<Rightarrow> string \<Rightarrow> server \<Rightarrow> unit res \<times> server" where
  "remove_alias_endpoint name alias source s =
     (case remove_alias alias (Some source) (Some name) s of
        (ok, s') \<Rightarrow> (if ok then Inr () else Inl (HTTPException 404), s'))"

section \<open>Who am I\<close>

definition whoami :: "principal option \<Rightarrow> instant \<Rightarrow> server \<Rightarrow> (principal_response \<times> string \<times> string list) res \<times> server" where
  "whoami p now s =
     (case require_principal p of
        Inl e \<Rightarrow> (Inl e, s)
      | Inr q \<Rightarrow>
          let address = norm (Some (p_name q)); (extra, s') = expand_listen_set now [address] s
          in (Inr (principal_dict q, address, address # extra), s'))"

definition namespaces :: "principal option \<Rightarrow> server \<Rightarrow> (string list \<times> string list) res" where
  "namespaces p s =
     (case require_principal p of
        Inl e \<Rightarrow> Inl e
      | Inr q \<Rightarrow>
          let visible = (\<lambda>perms. if ''*'' \<in> set perms then list_namespaces s else perms)
          in Inr (visible (p_read_namespaces q), visible (p_write_namespaces q)))"


section \<open>Bulk deletion\<close>

text \<open>The rows a bulk deletion aims at: literal prefix of the key, no pattern characters.\<close>

definition aimed :: "bulk_delete_request \<Rightarrow> instant \<Rightarrow> row \<Rightarrow> bool" where
  "aimed q now r \<longleftrightarrow>
     r_namespace r = bd_namespace q \<and> startswith (r_key r) (bd_key_prefix q) \<and>
     (\<forall>x. bd_scope q = Some x \<longrightarrow> r_scope r = x) \<and> (\<forall>x. bd_user_id q = Some x \<longrightarrow> r_user_id r = x) \<and>
     (\<forall>d. bd_older_than_days q = Some d \<longrightarrow> r_created_at r < now - hours (24 * d))"

lemma bulk_where_aimed: "bulk_where q now = aimed q now"
  by (auto simp: fun_eq_iff bulk_where_def aimed_def given_def sql_like_prefix split: option.splits)

lemma aimed_dry [simp]: "aimed (q\<lparr>bd_dry_run := d\<rparr>) now = aimed q now"
  by (simp add: aimed_def fun_eq_iff)

lemma sql_count_delete: "sql_count P t + length (sql_delete P t) = length t"
  by (simp add: sql_count_def sql_delete_def sum_length_filter_compl)

lemma audit_simps [simp]:
  "memories (audit a p d g now s) = memories s"
  "principals (audit a p d g now s) = principals s"
  by (simp_all add: audit_def)

lemma bulk_delete_idle:
  assumes "bd_dry_run q \<or> isl (fst (bulk_delete_endpoint q now who s))"
  shows "snd (bulk_delete_endpoint q now who s) = s"
  using assms by (auto simp: bulk_delete_endpoint_def bulk_delete_def Let_def split: if_splits)

lemma bulk_delete_done:
  assumes "bulk_delete_endpoint q now who s = (Inr r, s')" and "\<not> bd_dry_run q"
  shows "memories s' = sql_delete (aimed q now) (memories s) \<and> br_deleted r = sql_count (aimed q now) (memories s)"
    and "is_broad q \<longrightarrow> py_strip (or_empty (bd_i_understand q)) = blast_label q"
    and "map au_action (audit_log s') = map au_action (audit_log s) @ [''admin.bulk_delete'']"
  using assms by (auto simp: bulk_delete_endpoint_def bulk_delete_def bulk_where_aimed Let_def audit_def split: if_splits)

text \<open>C17. What a bulk deletion destroys is what its preview counted. An executed deletion removes
  exactly the rows of the namespace whose key starts with the prefix, taken literally, that pass
  the optional filters; the count it reports, the count the dry run of the same request reports
  and the rows that went agree, and the trail gains its entry. A prefix that names a class of
  keys was confirmed by echoing the label of this very request. A dry run and a refused request
  change nothing.\<close>

theorem bulk_delete_destroys_what_was_previewed:
  assumes "bulk_delete_endpoint q now who s = (res, s')"
  shows "case res of
      Inl e \<Rightarrow> e = HTTPException 422 \<and> s' = s
    | Inr r \<Rightarrow> if bd_dry_run q then s' = s else
        memories s' = filter (\<lambda>x. \<not> aimed q now x) (memories s) \<and>
        br_deleted r + length (memories s') = length (memories s) \<and>
        map_sum id br_matched (fst (bulk_delete_endpoint (q\<lparr>bd_dry_run := True\<rparr>) now who s)) = Inr (br_deleted r) \<and>
        (is_broad q \<longrightarrow> py_strip (or_empty (bd_i_understand q)) = bd_namespace q @ '':'' @ bd_key_prefix q) \<and>
        map au_action (audit_log s') = map au_action (audit_log s) @ [''admin.bulk_delete'']"
proof (cases res)
  case (Inl e)
  moreover from this have "e = HTTPException 422"
    using assms by (auto simp: bulk_delete_endpoint_def bulk_delete_def Let_def split: if_splits)
  ultimately show ?thesis using bulk_delete_idle [of q now who s] assms by simp
next
  case (Inr r)
  show ?thesis
  proof (cases "bd_dry_run q")
    case True
    then show ?thesis using bulk_delete_idle [of q now who s] assms Inr by simp
  next
    case False
    note facts = bulk_delete_done [OF assms [unfolded Inr] False]
    have dry: "map_sum id br_matched (fst (bulk_delete_endpoint (q\<lparr>bd_dry_run := True\<rparr>) now who s))
        = Inr (sql_count (aimed q now) (memories s))"
      by (simp add: bulk_delete_endpoint_def bulk_delete_def bulk_where_aimed Let_def)
    show ?thesis
      using facts False sql_count_delete [of "aimed q now" "memories s"] dry
      by (simp add: Inr blast_label_def sql_delete_def)
  qed
qed

definition demo_bulk :: bulk_delete_request where
  "demo_bulk = \<lparr>bd_namespace = ''fleet'', bd_key_prefix = ''no'', bd_scope = None, bd_user_id = None,
     bd_older_than_days = None, bd_dry_run = False, bd_i_understand = Some ''fleet:no''\<rparr>"

theorem bulk_delete_destroys_what_was_previewed_witness:
  "memories noted \<noteq> [] \<and> memories (snd (bulk_delete_endpoint demo_bulk 9 None noted)) = []"
proof -
  let ?out = "bulk_delete_endpoint demo_bulk 9 None noted"
  have "\<not> isl (fst ?out)" "\<not> bd_dry_run demo_bulk" by code_simp+
  moreover from this have "?out = (Inr (projr (fst ?out)), snd ?out)" by (simp add: prod_eq_iff)
  ultimately have "memories (snd ?out) = filter (\<lambda>x. \<not> aimed demo_bulk 9 x) (memories noted)"
    using bulk_delete_destroys_what_was_previewed [of demo_bulk 9 None noted "fst ?out" "snd ?out"]
    by (auto split: sum.splits)
  moreover have "\<forall>x \<in> set (memories noted). aimed demo_bulk 9 x"
    unfolding bulk_where_aimed [symmetric] by code_simp
  moreover have "memories noted \<noteq> []" by code_simp
  ultimately show ?thesis by simp
qed

section \<open>Expiry\<close>

text \<open>The expired rows a pass over the table would find.\<close>

lemma expired_batch_hits:
  assumes "distinct (map r_id t)"
  shows "sql_count (\<lambda>r. r_id r \<in> set (expired_batch batch now t)) t = min batch (length (filter (expired_at now) t))"
    and "\<And>r. r \<in> set t \<Longrightarrow> r_id r \<in> set (expired_batch batch now t) \<Longrightarrow> expired_at now r"
proof -
  let ?b = "take batch (filter (expired_at now) t)"
  have sub: "set ?b \<subseteq> set t" by (auto dest: in_set_takeD)
  have inj: "inj_on r_id (set t)" using assms by (simp add: distinct_map)
  have hit: "r_id r \<in> set (expired_batch batch now t) \<longleftrightarrow> r \<in> set ?b" if "r \<in> set t" for r
    using that sub inj by (auto simp: expired_batch_def dest: inj_onD)
  then show "expired_at now r" if "r \<in> set t" "r_id r \<in> set (expired_batch batch now t)" for r
    using that by (auto dest: in_set_takeD)
  have d: "distinct t" using assms by (simp add: distinct_map)
  have "sql_count (\<lambda>r. r_id r \<in> set (expired_batch batch now t)) t = card {r \<in> set t. r \<in> set ?b}"
    using hit d by (auto simp: sql_count_def distinct_length_filter intro!: arg_cong [where f = card])
  also have "{r \<in> set t. r \<in> set ?b} = set ?b" using sub by blast
  also have "card (set ?b) = length ?b" using d by (simp add: distinct_card)
  finally show "sql_count (\<lambda>r. r_id r \<in> set (expired_batch batch now t)) t = min batch (length (filter (expired_at now) t))"
    by (simp add: min.commute)
qed

text \<open>What a run of the loop leaves behind: the count is right, only rows that expired by some
  statement of the run are gone, and no row is left that had expired when it started.\<close>

definition swept :: "(nat \<Rightarrow> instant) \<Rightarrow> nat \<Rightarrow> nat \<Rightarrow> table \<Rightarrow> nat \<times> table \<Rightarrow> bool" where
  "swept clock i deleted t res \<longleftrightarrow>
     fst res + length (snd res) = deleted + length t \<and> set (snd res) \<subseteq> set t \<and>
     (\<forall>r \<in> set t - set (snd res). \<exists>j \<ge> i. expired_at (clock j) r) \<and>
     (\<forall>r \<in> set (snd res). \<not> expired_at (clock i) r)"

lemma expired_mono: "expired_at a r \<Longrightarrow> a \<le> b \<Longrightarrow> expired_at b r"
  by (auto simp: expired_at_def split: option.splits)

lemma cleanup_loop_ends:
  assumes "0 < batch" and mono: "\<And>i j. i \<le> j \<Longrightarrow> clock i \<le> clock j" and "distinct (map r_id t)"
  shows "\<exists>res. cleanup_loop batch clock i deleted t = Some res \<and> swept clock i deleted t res"
  using assms(3)
proof (induction "length t" arbitrary: t i deleted rule: less_induct)
  case less
  define ids where "ids = expired_batch batch (clock i) t"
  define n where "n = sql_count (\<lambda>r. r_id r \<in> set ids) t"
  define t' where "t' = sql_delete (\<lambda>r. r_id r \<in> set ids) t"
  have n: "n = min batch (length (filter (expired_at (clock i)) t))"
    and hit: "\<And>r. r \<in> set t \<Longrightarrow> r_id r \<in> set ids \<Longrightarrow> expired_at (clock i) r"
    unfolding n_def ids_def using expired_batch_hits [OF less.prems] by blast+
  have len: "n + length t' = length t" unfolding n_def t'_def by (rule sql_count_delete)
  have t': "set t' \<subseteq> set t" "\<forall>r \<in> set t - set t'. expired_at (clock i) r"
    using hit by (auto simp: t'_def)
  have unfold: "cleanup_loop batch clock i deleted t =
      (if n < batch then Some (deleted + n, t') else cleanup_loop batch clock (Suc i) (deleted + n) t')"
    by (subst cleanup_loop.simps) (simp add: Let_def n_def t'_def ids_def)
  show ?case
  proof (cases "n < batch")
    case True
    have "\<forall>r \<in> set t'. \<not> expired_at (clock i) r"
      using True n by (auto simp: t'_def ids_def expired_batch_def)
    then have "swept clock i deleted t (deleted + n, t')" using len t' by (auto simp: swept_def)
    then show ?thesis using unfold True by simp
  next
    case False
    then have "length t' < length t" using n len \<open>0 < batch\<close> by simp
    moreover have "distinct (map r_id t')" using less.prems by (simp add: t'_def sql_delete_def distinct_map_filter)
    ultimately obtain res where res: "cleanup_loop batch clock (Suc i) (deleted + n) t' = Some res"
      "swept clock (Suc i) (deleted + n) t' res" using less.hyps by blast
    have "swept clock i deleted t res"
    proof -
      have "\<exists>j \<ge> i. expired_at (clock j) r" if "r \<in> set t - set (snd res)" for r
      proof (cases "r \<in> set t'")
        case True
        then show ?thesis using res(2) that by (meson DiffD2 DiffI Suc_leD swept_def)
      next
        case False
        then show ?thesis using t'(2) that by blast
      qed
      moreover have "\<not> expired_at (clock i) r" if "r \<in> set (snd res)" for r
        using res(2) that expired_mono [OF _ mono [of i "Suc i"]] by (auto simp: swept_def)
      ultimately show ?thesis using res(2) len t'(1) by (auto simp: swept_def)
    qed
    then show ?thesis using unfold False res(1) by simp
  qed
qed


text \<open>C18. The expiry sweep ends. With a positive batch size and a clock that does not run
  backwards, it returns after finitely many statements; the number it reports is the number of
  rows that went, it removed only rows that had expired by one of its statements, and no row
  is left that had expired when it started.\<close>

theorem expiry_sweep_ends:
  assumes "0 < batch" and "\<And>i j. i \<le> j \<Longrightarrow> clock i \<le> clock j" and "table_ok t"
  shows "\<exists>n t'. cleanup_expired batch clock t = Some (n, t') \<and>
    n + length t' = length t \<and> set t' \<subseteq> set t \<and>
    (\<forall>r \<in> set t - set t'. \<exists>j. expired_at (clock j) r) \<and> (\<forall>r \<in> set t'. \<not> expired_at (clock 0) r)"
proof -
  obtain res where "cleanup_loop batch clock 0 0 t = Some res" "swept clock 0 0 t res"
    using cleanup_loop_ends [of batch clock t 0 0] assms by (auto simp: table_ok_def)
  then show ?thesis by (cases res) (auto simp: cleanup_expired_def swept_def)
qed

definition stale_note :: row where
  "stale_note = (hd (memories noted))\<lparr>r_expires_at := Some 7\<rparr>"

theorem expiry_sweep_ends_witness: "cleanup_expired 1 (\<lambda>_. 9) [stale_note] = Some (1, [])"
proof -
  obtain n t' where r: "cleanup_expired 1 (\<lambda>_. 9) [stale_note] = Some (n, t')" "n + length t' = 1"
      "set t' \<subseteq> {stale_note}" "\<forall>r \<in> set t'. \<not> expired_at 9 r"
    using expiry_sweep_ends [of 1 "\<lambda>_. 9" "[stale_note]"] by (auto simp: table_ok_def)
  have "expired_at 9 stale_note" by code_simp
  with r(3,4) have "t' = []" by (metis list.set_intros(1) neq_Nil_conv singletonD subsetD)
  with r(1,2) show ?thesis by simp
qed

text \<open>A batch size of zero, which the settings do not exclude, deletes nothing for ever: no run
  of the loop ends.\<close>

lemma cleanup_loop_some: "cleanup_loop batch clock i deleted t = Some res \<Longrightarrow> 0 < batch"
  by (erule cleanup_loop.raw_induct [rotated]) (auto simp: Let_def split: if_splits)

lemma cleanup_batch_zero_never_ends: "cleanup_expired 0 clock t = None"
  by (cases "cleanup_expired 0 clock t") (auto simp: cleanup_expired_def dest: cleanup_loop_some)

section \<open>Moves\<close>

lemma update_memory_done:
  assumes "update_memory u t = (Inr b, t')"
  shows "length t' = length t" and "b \<Longrightarrow> \<exists>r \<in> set t. update_hit u r"
    and "i < length t \<Longrightarrow> t' ! i = (if update_hit u (t ! i) then moved_row u (t ! i) else t ! i)"
    and "distinct (map ukey_of t) \<Longrightarrow> distinct (map ukey_of t')"
proof -
  show "b \<Longrightarrow> \<exists>r \<in> set t. update_hit u r"
    using assms by (auto simp: update_memory_def Let_def sql_count_def filter_empty_conv split: if_splits)
  have t': "t' = t \<and> nothing_new u \<or> t' = sql_update (update_hit u) (moved_row u) t \<and> distinct (map ukey_of t')"
    using assms by (auto simp: update_memory_def Let_def split: if_splits)
  then show "length t' = length t" "distinct (map ukey_of t) \<Longrightarrow> distinct (map ukey_of t')"
    by (auto simp: sql_update_def)
  have "nothing_new u \<Longrightarrow> moved_row u r = r" for r by (simp add: nothing_new_def moved_row_def else_old_def)
  with t' show "i < length t \<Longrightarrow> t' ! i = (if update_hit u (t ! i) then moved_row u (t ! i) else t ! i)"
    by (auto simp: sql_update_def)
qed

lemma update_memory_idle:
  "update_memory u t = (Inl e, t') \<Longrightarrow> t' = t" "update_memory u t = (Inr False, t') \<Longrightarrow> t' = t"
  by (auto simp: update_memory_def Let_def sql_count_def filter_empty_conv sql_update_none split: if_splits)

text \<open>The namespaces a row is in before and after a move, each checked for writing.\<close>

lemma update_endpoint_done:
  assumes "update_memory_endpoint cfg u who s = (Inr (), s')"
  shows "update_memory u (memories s) = (Inr True, memories s')"
    and "check_namespace_access cfg who (mu_namespace u) ''write'' True = Inr ()"
    and "mu_new_namespace u = Some n \<Longrightarrow> n \<noteq> '''' \<Longrightarrow> check_namespace_access cfg who n ''write'' True = Inr ()"
  using assms
  by (auto simp: update_memory_endpoint_def or_none_def split: sum.splits prod.splits if_splits option.splits)

text \<open>An administrative move stays within the caller's rights and loses nothing. When a move
  is accepted, the caller may write the namespace the row was in and the namespace it goes to,
  a row was there to be moved, every row keeps its place in the table with its id, value, author
  and custodian, only the addressed rows changed, each name of the key to what the request asked
  for, and no two rows share a key afterwards. A refused move changes nothing.\<close>

theorem administrative_move_is_authorised:
  assumes "update_memory_endpoint cfg u who s = (res, s')" and "table_ok (memories s)"
  shows "case res of
      Inl e \<Rightarrow> s' = s
    | Inr _ \<Rightarrow>
        check_namespace_access cfg who (mu_namespace u) ''write'' True = Inr () \<and>
        (\<forall>n. mu_new_namespace u = Some n \<and> n \<noteq> '''' \<longrightarrow> check_namespace_access cfg who n ''write'' True = Inr ()) \<and>
        (\<exists>r \<in> set (memories s). update_hit u r) \<and> table_ok (memories s') \<and>
        (\<forall>i < length (memories s). let old = memories s ! i; new = memories s' ! i in
           r_id new = r_id old \<and> r_value new = r_value old \<and> r_owner new = r_owner old \<and> r_custodian new = r_custodian old \<and>
           (if update_hit u old then r_namespace new = else_old (mu_new_namespace u) (r_namespace old)
              \<and> r_key new = else_old (mu_new_key u) (r_key old) else new = old))"
proof (cases res)
  case (Inl e)
  have "s' = s"
    using assms(1) Inl
    by (auto simp: update_memory_endpoint_def split: sum.splits prod.splits if_splits option.splits dest: update_memory_idle)
  then show ?thesis using Inl by simp
next
  case (Inr x)
  note facts = update_endpoint_done [OF assms(1) [unfolded Inr unit_eq [of x]]]
  note upd = update_memory_done [OF facts(1)]
  have nth: "i < length (memories s) \<Longrightarrow> r_id (memories s' ! i) = r_id (memories s ! i)" for i
    using upd(3) [of i] by (simp add: moved_row_def)
  have "map r_id (memories s') = map r_id (memories s)"
    using upd(1) nth by (simp add: list_eq_iff_nth_eq)
  then have "table_ok (memories s')" using upd(4) assms(2) by (simp add: table_ok_def)
  then show ?thesis using facts(2,3) upd(2,3) Inr by (auto simp: Let_def moved_row_def)
qed


definition demo_move :: memory_update_request where
  "demo_move = \<lparr>mu_namespace = ''fleet'', mu_key = ''note'', mu_scope = ''project'', mu_user_id = ''codex'',
     mu_new_namespace = Some ''attic'', mu_new_scope = None, mu_new_user_id = None, mu_new_key = None, mu_new_tags = None\<rparr>"

definition demo_mover :: "principal option" where
  "demo_mover = Some ((demo_caller [''fleet''])\<lparr>p_write_namespaces := [''fleet'', ''attic'']\<rparr>)"

theorem administrative_move_is_authorised_witness:
  "check_namespace_access default_settings demo_mover ''attic'' ''write'' True = Inr () \<and>
   table_ok (memories (snd (update_memory_endpoint default_settings demo_move
     demo_mover noted)))"
proof -
  let ?p = "demo_mover"
  let ?out = "update_memory_endpoint default_settings demo_move ?p noted"
  have ok: "table_ok (memories noted)" "\<not> isl (fst ?out)" "mu_new_namespace demo_move = Some ''attic''" by code_simp+
  have "?out = (fst ?out, snd ?out)" by simp
  from administrative_move_is_authorised [OF this ok(1)] show ?thesis
    using ok(2,3) by (auto split: sum.splits)
qed


section \<open>Secrets\<close>

text \<open>Two requests to change a principal that differ in the values of the secrets only.\<close>

definition same_but_secrets :: "principal_update \<Rightarrow> principal_update \<Rightarrow> bool" where
  "same_but_secrets u u' \<longleftrightarrow>
     pu_is_admin u = pu_is_admin u' \<and> pu_read u = pu_read u' \<and> pu_write u = pu_write u' \<and> pu_active u = pu_active u' \<and>
     (pu_password u = None \<longleftrightarrow> pu_password u' = None) \<and> (pu_token u = None \<longleftrightarrow> pu_token u' = None)"

lemma find_map_if:
  assumes "\<And>p. p_name (f p) = p_name p"
  shows "find (\<lambda>p. p_name p = n) (map (\<lambda>p. if p_name p = n then f p else p) ps)
    = map_option f (find (\<lambda>p. p_name p = n) ps)"
  using assms by (induction ps) auto

lemma apply_update_name [simp]: "p_name (apply_update h salt salt2 u now p) = p_name p"
  by (simp add: apply_update_def)

lemma get_updated:
  "get_principal name (s\<lparr>principals := map (\<lambda>p. if p_name p = name then apply_update h salt salt2 u now p else p) (principals s)\<rparr>)
    = map_option (apply_update h salt salt2 u now) (get_principal name s)"
  by (simp add: get_principal_def find_map_if)

lemma update_principal_outcome:
  "update_principal h salt salt2 name u now s = (res, s') \<Longrightarrow>
     fst res = (if no_change u then get_principal name s
                else map_option (apply_update h salt salt2 u now) (get_principal name s)) \<and>
     audit_log s' = audit_log s"
  by (auto simp: update_principal_def Let_def get_updated split: if_splits option.splits)

lemma apply_update_dict:
  "same_but_secrets u u' \<Longrightarrow>
   principal_dict (apply_update h a b u now p) = principal_dict (apply_update h' a' b' u' now p)"
  by (auto simp: same_but_secrets_def principal_dict_def apply_update_def split: option.splits)


lemma update_endpoint_shows:
  "fst (update_principal_endpoint h salt salt2 name u now who s) =
     (case get_principal name s of None \<Rightarrow> Inl (HTTPException 404)
      | Some p \<Rightarrow> Inr (principal_dict (if no_change u then p else apply_update h salt salt2 u now p)))"
  "audit_log (snd (update_principal_endpoint h salt salt2 name u now who s)) =
     (case get_principal name s of None \<Rightarrow> audit_log s
      | Some p \<Rightarrow> audit_log (audit ''principal.update'' who
          [(''target'', JStr name), (''fields'', JArr (map JStr (changed_fields u)))] (Some (p_name p)) now s))"
proof -
  obtain po tok s' where upd: "update_principal h salt salt2 name u now s = ((po, tok), s')" by (metis prod.collapse)
  note out = update_principal_outcome [OF upd]
  show "fst (update_principal_endpoint h salt salt2 name u now who s) =
     (case get_principal name s of None \<Rightarrow> Inl (HTTPException 404)
      | Some p \<Rightarrow> Inr (principal_dict (if no_change u then p else apply_update h salt salt2 u now p)))"
    using out by (cases "get_principal name s") (simp_all add: update_principal_endpoint_def upd)
  show "audit_log (snd (update_principal_endpoint h salt salt2 name u now who s)) =
     (case get_principal name s of None \<Rightarrow> audit_log s
      | Some p \<Rightarrow> audit_log (audit ''principal.update'' who
          [(''target'', JStr name), (''fields'', JArr (map JStr (changed_fields u)))] (Some (p_name p)) now s))"
    using out by (cases "get_principal name s") (simp_all add: update_principal_endpoint_def upd audit_def)
qed

lemma regenerate_shows:
  "audit_log (snd (regenerate_token h random salt name now who s)) =
     (case get_principal name s of None \<Rightarrow> audit_log s
      | Some p \<Rightarrow> audit_log (audit ''principal.token_regenerate'' who [(''target'', JStr name)] (Some (p_name p)) now s))"
proof -
  let ?u = "token_update (fst (generate_token h random salt))"
  obtain po tok s' where upd: "update_principal h salt salt name ?u now s = ((po, tok), s')" by (metis prod.collapse)
  have "\<not> no_change ?u" by (simp add: no_change_def token_update_def)
  with update_principal_outcome [OF upd] show ?thesis
    by (cases "get_principal name s") (simp_all add: regenerate_token_def Let_def upd audit_def)
qed

text \<open>C26. No secret leaves through the answer or the trail. Changing a principal gives the same
  answer and the same audit trail whatever the new token and password are, so long as the same
  fields are set; rotating a token leaves the same trail whatever token was drawn.\<close>

theorem principal_secrets_stay_hidden:
  assumes "same_but_secrets u u'"
  shows "fst (update_principal_endpoint h salt salt2 name u now who s)
      = fst (update_principal_endpoint h salt' salt2' name u' now who s) \<and>
    audit_log (snd (update_principal_endpoint h salt salt2 name u now who s))
      = audit_log (snd (update_principal_endpoint h salt' salt2' name u' now who s)) \<and>
    audit_log (snd (regenerate_token h random salt name now who s))
      = audit_log (snd (regenerate_token h random' salt' name now who s))"
proof -
  have "no_change u = no_change u'" "changed_fields u = changed_fields u'"
    using assms by (auto simp: same_but_secrets_def no_change_def changed_fields_def)
  then show ?thesis
    using apply_update_dict [OF assms]
    by (cases "get_principal name s") (simp_all add: update_endpoint_shows regenerate_shows)
qed

theorem principal_secrets_stay_hidden_witness:
  "audit_log agent_demo = [] \<and>
   fst (update_principal_endpoint demo_hashing ''s'' ''s'' ''codex'' (token_update ''a'') 5 None agent_demo)
     = fst (update_principal_endpoint demo_hashing ''t'' ''t'' ''codex'' (token_update ''b'') 5 None agent_demo)"
proof -
  have "same_but_secrets (token_update ''a'') (token_update ''b'')" by code_simp
  from principal_secrets_stay_hidden [OF this] have
    "fst (update_principal_endpoint demo_hashing ''s'' ''s'' ''codex'' (token_update ''a'') 5 None agent_demo)
     = fst (update_principal_endpoint demo_hashing ''t'' ''t'' ''codex'' (token_update ''b'') 5 None agent_demo)" by blast
  moreover have "audit_log agent_demo = []" by code_simp
  ultimately show ?thesis by simp
qed


end
