(* ===== verification/Session_Router.thy ===== *)
theory Session_Router
  imports Memory_Router Watch_Claim Register
begin

text \<open>
  \<^verbatim>\<open>server/routers/session.py\<close> and its request models: the endpoints through which sessions claim
  and release their address, spawners certify deaths, watchers hold the watch of a seat, and anyone
  on the fleet reads the registry. The texts of the guidance are left out.
\<close>

section \<open>Requests\<close>

text \<open>\<^verbatim>\<open>claim_not_empty\<close> and \<^verbatim>\<open>release_not_empty\<close>: the key and the project, stripped and lowered.\<close>

definition parse_claim :: "seat_req \<Rightarrow> seat_req res" where
  "parse_claim c =
     (let key = py_lower (py_strip (sr_session_key c)); project = norm (sr_project c)
      in valid (key \<noteq> '''' \<and> project \<noteq> '''' \<and> length key \<le> MAX_ADDR \<and> length project \<le> MAX_ADDR \<and>
                fits MAX_ADDR (sr_provider c) \<and> fits MAX_ADDR (sr_host c) \<and> fits MAX_ADDR (sr_preferred c))
           (c\<lparr>sr_session_key := key, sr_project := Some project\<rparr>))"

record release_request =
  rl_session_key :: string
  rl_project :: string
  rl_evidence :: "string option"
  rl_nonce :: "string option"

definition parse_release :: "release_request \<Rightarrow> release_request res" where
  "parse_release r =
     (let key = py_lower (py_strip (rl_session_key r)); project = py_lower (py_strip (rl_project r))
      in valid (key \<noteq> '''' \<and> project \<noteq> '''' \<and> length key \<le> MAX_ADDR \<and> length project \<le> MAX_ADDR \<and>
                fits 32 (rl_evidence r) \<and> fits MAX_ADDR (rl_nonce r))
           (r\<lparr>rl_session_key := key, rl_project := project\<rparr>))"

text \<open>\<^verbatim>\<open>death_normalize\<close> lowers every text but the cause; the project and the provider must not be
  blank.\<close>

definition parse_death :: "death_req \<Rightarrow> death_req res" where
  "parse_death q =
     (let low = (\<lambda>x. py_lower (py_strip x));
          q' = q\<lparr>dr_session_key := low (dr_session_key q), dr_seat := low (dr_seat q), dr_lane := low (dr_lane q),
                 dr_project := Some (norm (dr_project q)), dr_provider := low (dr_provider q), dr_host := low (dr_host q),
                 dr_nonce := Some (norm (dr_nonce q))\<rparr>
      in valid (norm (dr_project q) \<noteq> '''' \<and> dr_provider q' \<noteq> '''' \<and>
                list_all (\<lambda>x. length x \<le> MAX_ADDR)
                  [dr_session_key q', dr_seat q', dr_lane q', norm (dr_project q), dr_provider q', dr_host q', norm (dr_nonce q)] \<and>
                length (dr_cause q) \<le> 64) q')"

definition parse_watch :: "claim_req \<Rightarrow> claim_req res" where
  "parse_watch c =
     valid (fits 200 (cl_seat c) \<and> 8 \<le> length (cl_nonce c) \<and> length (cl_nonce c) \<le> 64 \<and> length (cl_armed_by c) \<le> 20 \<and>
            length (cl_project_dir c) \<le> 4096 \<and> length (cl_listen_set c) \<le> 32 \<and> fits 200 (cl_host c) \<and>
            fits 64 (cl_seat_nonce c)) c"

record watch_beat_request =
  wb_seat :: string
  wb_nonce :: string
  wb_fetched_through :: "instant option"

definition parse_beat :: "watch_beat_request \<Rightarrow> watch_beat_request res" where
  "parse_beat b = valid (length (wb_seat b) \<le> 200 \<and> 8 \<le> length (wb_nonce b) \<and> length (wb_nonce b) \<le> 64) b"

section \<open>Endpoints\<close>

definition member_access :: "settings \<Rightarrow> principal option \<Rightarrow> string \<Rightarrow> unit res" where
  "member_access cfg p mode = check_namespace_access cfg p (cfg_primary_namespace cfg) mode False"

text \<open>The shape of the endpoints that write the table behind the membership check.\<close>

definition on_table ::
  "settings \<Rightarrow> principal option \<Rightarrow> (table \<Rightarrow> 'a \<times> table) \<Rightarrow> server \<Rightarrow> 'a res \<times> server" where
  "on_table cfg p f s =
     (case member_access cfg p ''write'' of
        Inl e \<Rightarrow> (Inl e, s)
      | Inr _ \<Rightarrow> (case f (memories s) of (x, t) \<Rightarrow> (Inr x, s\<lparr>memories := t\<rparr>)))"

definition claim_seat ::
  "settings \<Rightarrow> principal option \<Rightarrow> seat_req \<Rightarrow> instant \<Rightarrow> server \<Rightarrow> claim_result res \<times> server" where
  "claim_seat cfg p c now s =
     (case on_table cfg p (seat_claim cfg c now) s of
        (Inl e, s') \<Rightarrow> (Inl e, s')
      | (Inr (Inl e), s') \<Rightarrow> (Inl (HTTPException (if e = ValueError then 409 else 500)), s')
      | (Inr (Inr x), s') \<Rightarrow> (Inr x, s'))"

definition release_seat ::
  "settings \<Rightarrow> principal option \<Rightarrow> release_request \<Rightarrow> instant \<Rightarrow> server \<Rightarrow> string option res \<times> server" where
  "release_seat cfg p r now s =
     on_table cfg p (seat_release cfg (rl_session_key r) (Some (rl_project r)) (rl_evidence r) (rl_nonce r) now) s"

text \<open>Testimony carries a name: the principal when the call was authenticated, else how the
  middleware let it through.\<close>

definition auth_source_name :: "auth_source \<Rightarrow> string" where
  "auth_source_name src =
     (case src of Anonymous \<Rightarrow> ''anonymous'' | ViaPrincipal \<Rightarrow> ''principal'' | Legacy \<Rightarrow> ''legacy'')"

definition certifier :: "principal option \<Rightarrow> auth_source \<Rightarrow> string" where
  "certifier p src =
     (case Option.bind (pname p) or_none of Some n \<Rightarrow> n | None \<Rightarrow> auth_source_name src)"

definition certify_death ::
  "settings \<Rightarrow> principal option \<Rightarrow> auth_source \<Rightarrow> death_req \<Rightarrow> instant \<Rightarrow> server \<Rightarrow> death_result res \<times> server" where
  "certify_death cfg p src q now s =
     (if dr_session_key q = '''' \<and> dr_seat q = '''' then (Inl (HTTPException 422), s)
      else if dr_seat q \<noteq> '''' \<and> is_reserved_lane cfg (dr_seat q) (or_empty (dr_project q))
      then (Inl (HTTPException 422), s)
      else case death_certify cfg (q\<lparr>dr_certified_by := Some (certifier p src)\<rparr>) now (memories s) of
             (r, t) \<Rightarrow> (Inr r, s\<lparr>memories := t\<rparr>))"

definition on_read :: "settings \<Rightarrow> principal option \<Rightarrow> 'a \<Rightarrow> 'a res" where
  "on_read cfg p x = (case member_access cfg p ''read'' of Inl e \<Rightarrow> Inl e | Inr _ \<Rightarrow> Inr x)"

definition list_addresses ::
  "settings \<Rightarrow> principal option \<Rightarrow> string option \<Rightarrow> instant \<Rightarrow> server \<Rightarrow> register_entry list res" where
  "list_addresses cfg p project now s = on_read cfg p (address_register cfg project now s)"

definition list_projects ::
  "settings \<Rightarrow> principal option \<Rightarrow> instant \<Rightarrow> server \<Rightarrow> (project_entry \<times> bool) list res" where
  "list_projects cfg p now s = on_read cfg p (project_registry cfg now (memories s))"

definition list_seats ::
  "settings \<Rightarrow> principal option \<Rightarrow> string option \<Rightarrow> string option \<Rightarrow> instant \<Rightarrow> server \<Rightarrow> seat_view list res" where
  "list_seats cfg p project session_key now s = on_read cfg p (seat_list cfg project session_key now (memories s))"

definition watch_claim_endpoint ::
  "settings \<Rightarrow> principal option \<Rightarrow> claim_req \<Rightarrow> instant \<Rightarrow> server \<Rightarrow> claim_verdict res \<times> server" where
  "watch_claim_endpoint cfg p c now s = on_table cfg p (watch_claim cfg c now) s"

definition watch_beat_endpoint ::
  "settings \<Rightarrow> principal option \<Rightarrow> watch_beat_request \<Rightarrow> instant \<Rightarrow> server \<Rightarrow> bool res \<times> server" where
  "watch_beat_endpoint cfg p b now s =
     on_table cfg p (watch_beat cfg (Some (wb_seat b)) (wb_nonce b) (wb_fetched_through b) now) s"

definition watch_release_endpoint ::
  "settings \<Rightarrow> principal option \<Rightarrow> watch_beat_request \<Rightarrow> server \<Rightarrow> bool res \<times> server" where
  "watch_release_endpoint cfg p b s = on_table cfg p (watch_release cfg (Some (wb_seat b)) (wb_nonce b)) s"

definition watch_status_endpoint ::
  "settings \<Rightarrow> headers \<Rightarrow> principal option \<Rightarrow> string \<Rightarrow> instant \<Rightarrow> server \<Rightarrow> watch_report res" where
  "watch_status_endpoint cfg h p seat now s =
     on_read cfg p (watch_status cfg (Some seat) (map_of h ''x-engram-machine'') now (memories s))"

section \<open>Certificates\<close>

text \<open>The certificate a call records.\<close>

definition cert_for :: "settings \<Rightarrow> death_req \<Rightarrow> row \<Rightarrow> bool" where
  "cert_for cfg q r \<longleftrightarrow>
     r_namespace r = cfg_primary_namespace cfg \<and> r_scope r = DEATH_SCOPE \<and> r_user_id r = SEAT_USER_ID \<and>
     r_project r = Some (norm (dr_project q)) \<and> r_key r = ''death/'' @ cert_idem q"

lemma cert_for_key: "cert_for cfg q r \<longleftrightarrow> ukey_of r = ukey_of (new_cert cfg (norm (dr_project q)) q now)"
  by (auto simp: cert_for_def ukey_of_def new_cert_def new_row_def)

lemma record_cert_written:
  assumes "record_cert x died t = (created, updated, t')" and "created \<or> updated"
  shows "\<exists>r \<in> set t'. ukey_of r = ukey_of x \<and> r_metadata r = r_metadata x"
proof (cases "row_at (ukey_of x) t")
  case None
  with assms show ?thesis by (auto simp: record_cert_def ukey_of_def)
next
  case (Some r)
  then have r: "r \<in> set t" "ukey_of r = ukey_of x" by (auto simp: row_at_def dest: find_in)
  have "ukey_of (recert x r) = ukey_of r" by (simp add: recert_def ukey_of_def)
  moreover have "t' = sql_update (\<lambda>s. ukey_of s = ukey_of x) (recert x) t"
    using assms Some by (auto simp: record_cert_def split: option.splits if_splits)
  ultimately show ?thesis using r by (auto simp: sql_update_def recert_def intro!: bexI [of _ "recert x r"])
qed

lemma kept_by_update: "r \<in> set t \<Longrightarrow> \<not> P r \<Longrightarrow> r \<in> set (sql_update P f t)"
  by (auto simp: sql_update_def image_iff)

lemma kept_by_feed:
  assumes "r \<in> set t" and "r_scope r = DEATH_SCOPE"
  shows "r \<in> set (snd (feed_cursor cfg p q now t))"
proof -
  have no: "\<not> cursor_at cfg p l r" for l
    using assms(2) by (auto simp: cursor_at_def DEATH_SCOPE_def LANE_CURSOR_SCOPE_def)
  have "ukey_of r \<noteq> ukey_of (new_cursor cfg p q ids now)" for ids
    using assms(2) by (auto simp: ukey_of_def new_cursor_def new_row_def DEATH_SCOPE_def LANE_CURSOR_SCOPE_def)
  then have "r \<in> set (snd (insert_do_update upd (new_cursor cfg p q ids now) t))" for upd ids
    using assms(1) by (auto simp: insert_do_update_def intro: kept_by_update split: option.splits)
  then show ?thesis
    using assms(1) no by (auto simp: feed_cursor_def Let_def intro: kept_by_update split: option.splits)
qed

lemma death_certify_written:
  assumes "death_certify cfg q now t = (res, t')" and "dt_created res \<or> dt_updated res"
  shows "\<exists>r \<in> set t'. cert_for cfg q r \<and> r_metadata r = Some (cert_meta q now)"
proof -
  let ?p = "norm (dr_project q)" and ?x = "new_cert cfg (norm (dr_project q)) q now"
  obtain created updated t1 where c: "record_cert ?x (dr_died_at q) t = (created, updated, t1)" by (metis prod_cases3)
  with assms have "created \<or> updated" by (auto simp: death_certify_def Let_def split: if_splits prod.splits)
  then obtain r where r: "r \<in> set t1" "ukey_of r = ukey_of ?x" "r_metadata r = Some (cert_meta q now)"
    using record_cert_written [OF c] by (auto simp: new_cert_def)
  then have cert: "cert_for cfg q r" using cert_for_key [of cfg q r now] by blast
  then have scope: "r_scope r = DEATH_SCOPE" by (simp add: cert_for_def)
  then have "\<not> seat_at cfg ?p i r" for i
    by (auto simp: seat_at_def seat_row_def DEATH_SCOPE_def SEAT_SCOPE_def)
  then have "r \<in> set (if dr_seat q = '''' then t1 else sql_update (seat_at cfg ?p (dr_seat q)) (cert_stamp q) t1)"
    using r(1) by (auto intro: kept_by_update)
  then have "r \<in> set t'"
    using assms(1) c kept_by_feed [OF _ scope]
    by (auto simp: death_certify_def Let_def split: if_splits prod.splits) (metis snd_conv)+
  with cert r(3) show ?thesis by blast
qed

text \<open>Testimony carries a name. A certificate of death is refused only when it names neither
  session nor seat, or, with lanes reserved, names the lane of the project as the dead seat; then
  nothing changes. A certificate that was recorded, new or in place of an older one, is in the
  store under its key and says who certified it: the authenticated principal, else how the call
  was let in, never nobody.\<close>

theorem testimony_carries_a_name:
  assumes "certify_death cfg p src q now s = (res, s')"
  shows "case res of
      Inl e \<Rightarrow> e = HTTPException 422 \<and> s' = s \<and>
        (dr_session_key q = '''' \<and> dr_seat q = '''' \<or> is_reserved_lane cfg (dr_seat q) (or_empty (dr_project q)))
    | Inr r \<Rightarrow> certifier p src \<noteq> '''' \<and> (dt_created r \<or> dt_updated r \<longrightarrow>
        (\<exists>c \<in> set (memories s'). cert_for cfg q c \<and> jget_text (md c) ''certified_by'' = Some (certifier p src)))"
proof (cases res)
  case (Inl e)
  then show ?thesis using assms by (auto simp: certify_death_def split: if_splits prod.splits)
next
  case (Inr r)
  let ?q = "q\<lparr>dr_certified_by := Some (certifier p src)\<rparr>"
  have d: "death_certify cfg ?q now (memories s) = (r, memories s')"
    using assms Inr by (auto simp: certify_death_def split: if_splits prod.splits)
  have name: "certifier p src \<noteq> ''''"
    by (auto simp: certifier_def auth_source_name_def or_none_def bind_eq_Some_conv split: option.split auth_source.split if_splits)
  have meta: "jget_text (cert_meta ?q now) ''certified_by'' = Some (certifier p src)"
    by (simp add: cert_meta_def jget_text_def jget_def jopt_def)
  have same: "cert_for cfg ?q = cert_for cfg q" by (simp add: fun_eq_iff cert_for_def cert_idem_def)
  have "\<exists>c \<in> set (memories s'). cert_for cfg q c \<and> jget_text (md c) ''certified_by'' = Some (certifier p src)"
    if w: "dt_created r \<or> dt_updated r"
  proof -
    from death_certify_written [OF d w] obtain c where "c \<in> set (memories s')" "cert_for cfg ?q c"
      "md c = cert_meta ?q now" by (auto simp: md_def)
    then show ?thesis using meta unfolding same by (intro bexI [of _ c]) simp_all
  qed
  then show ?thesis using name Inr by simp
qed


definition demo_death :: death_req where
  "demo_death = \<lparr>dr_session_key = ''k1'', dr_seat = ''engram-claude'', dr_lane = '''', dr_project = Some ''engram'',
     dr_provider = ''claude'', dr_host = '''', dr_died_at = 3, dr_cause = ''stop'', dr_graceful = None,
     dr_certified_by = None, dr_nonce = Some ''''\<rparr>"

theorem testimony_carries_a_name_witness:
  "\<exists>c \<in> set (memories (snd (certify_death default_settings None Legacy demo_death 9 empty_server))).
     jget_text (md c) ''certified_by'' = Some ''legacy''"
proof -
  let ?out = "certify_death default_settings None Legacy demo_death 9 empty_server"
  have ok: "\<not> isl (fst ?out)" "dt_created (projr (fst ?out))" "certifier None Legacy = ''legacy''" by code_simp+
  then obtain r where r: "fst ?out = Inr r" "dt_created r" by (cases "fst ?out") auto
  have "?out = (fst ?out, snd ?out)" by simp
  from testimony_carries_a_name [OF this] show ?thesis using r ok(3) by auto
qed


end
