(* ===== verification/Service.thy ===== *)
theory Service
  imports Mail_Router Session_Router Administration
begin

text \<open>
  \<^verbatim>\<open>server/main.py\<close>: the application. A request passes the middleware, finds its route, passes the
  gate of the route, is validated and served; between requests the background tasks take their
  turns. The routes that answer without a new state (listings, the roster, the register, the long
  poll) are left to the theories of their routers. A refusal of the middleware is the
  error with its status.
\<close>

section \<open>Routes\<close>

text \<open>The requests with their path parameters, bodies and what the handlers draw at random, by
  router.\<close>

datatype memory_action =
    SetMemory memory_set_request
  | GetMemory row_ref
  | SearchMemory search_request
  | ForgetMemory row_ref
  | FlagDeletion flag_request
  | SupersedeMemory supersede_request

datatype mail_action =
    SendInbox inbox_send_request string "nat \<Rightarrow> string"
  | ListInbox inbox_list_request
  | UnreadSummary "string list" string
  | AckInbox string string
  | ArchiveInbox string string
  | ResolveInbox string string
  | ResolveThread string "string list" "string option"
  | SendWake wake_request "string list"
  | PollWakes inbox_wait_request
  | UpdatePresence presence_request
  | GetRoster roster_query
  | ProjectInfo string
  | RoleInfo string
  | PollSignal string

datatype session_action =
    ClaimSeat seat_req
  | ReleaseSeat release_request
  | CertifyDeath death_req
  | WatchClaim claim_req
  | WatchBeat watch_beat_request
  | WatchRelease watch_beat_request

datatype admin_action =
    UpdateMemory memory_update_request
  | BulkDelete bulk_delete_request
  | EstateTransfer estate_request
  | RejectDeletion flag_request
  | ClimbPass
  | SweepPass
  | IssueSignal string "string option" string
  | RevokeSignal string
  | RelabelProject "string list" string bool
  | ReverseRelabel string string
  | AssignRole string string
  | RetireRole string

datatype principal_action =
    CreatePrincipal new_principal string string string
  | UpdatePrincipal string principal_update string string
  | DeactivatePrincipal string
  | RegenerateToken string string string
  | AddAlias string string string
  | RemoveAlias string string string

datatype api_call =
    MemoryCall memory_action
  | MailCall mail_action
  | SessionCall session_action
  | AdminCall admin_action
  | PrincipalCall principal_action
  | WhoAmI

definition memory_route :: "memory_action \<Rightarrow> string" where
  "memory_route c =
     (case c of SetMemory _ \<Rightarrow> ''/memory/set'' | GetMemory _ \<Rightarrow> ''/memory/get'' | SearchMemory _ \<Rightarrow> ''/memory/search''
      | ForgetMemory _ \<Rightarrow> ''/memory/forget'' | FlagDeletion _ \<Rightarrow> ''/memory/flag_deletion''
      | SupersedeMemory _ \<Rightarrow> ''/memory/supersede'')"

definition mail_route :: "mail_action \<Rightarrow> string \<times> string" where
  "mail_route c =
     (case c of SendInbox _ _ _ \<Rightarrow> (''POST'', ''/memory/send'') | ListInbox _ \<Rightarrow> (''POST'', ''/memory/inbox'')
      | UnreadSummary _ _ \<Rightarrow> (''POST'', ''/memory/inbox/unread-summary'')
      | AckInbox i _ \<Rightarrow> (''POST'', ''/memory/inbox/'' @ i @ ''/ack'')
      | ArchiveInbox i _ \<Rightarrow> (''POST'', ''/memory/inbox/'' @ i @ ''/archive'')
      | ResolveInbox i _ \<Rightarrow> (''POST'', ''/memory/inbox/'' @ i @ ''/resolve'')
      | ResolveThread _ _ _ \<Rightarrow> (''POST'', ''/memory/inbox/resolve-thread'')
      | SendWake _ _ \<Rightarrow> (''POST'', ''/memory/wake'') | PollWakes _ \<Rightarrow> (''POST'', ''/memory/wake/poll'')
      | UpdatePresence _ \<Rightarrow> (''POST'', ''/memory/presence'') | GetRoster _ \<Rightarrow> (''POST'', ''/memory/roster'') | ProjectInfo n \<Rightarrow> (''GET'', ''/memory/project/'' @ n)
      | RoleInfo n \<Rightarrow> (''GET'', ''/memory/role/'' @ n) | PollSignal k \<Rightarrow> (''GET'', SIGNAL_PATH_PREFIX @ k))"

definition session_route :: "session_action \<Rightarrow> string" where
  "session_route c =
     (case c of ClaimSeat _ \<Rightarrow> ''/session/claim'' | ReleaseSeat _ \<Rightarrow> ''/session/release'' | CertifyDeath _ \<Rightarrow> ''/session/death''
      | WatchClaim _ \<Rightarrow> ''/session/watch/claim'' | WatchBeat _ \<Rightarrow> ''/session/watch/beat''
      | WatchRelease _ \<Rightarrow> ''/session/watch/release'')"

definition admin_route :: "admin_action \<Rightarrow> string \<times> string" where
  "admin_route c =
     (case c of UpdateMemory _ \<Rightarrow> (''PATCH'', ''/admin/memories'') | BulkDelete _ \<Rightarrow> (''POST'', ''/admin/bulk-delete'')
      | EstateTransfer _ \<Rightarrow> (''POST'', ''/admin/estate/transfer'') | RejectDeletion _ \<Rightarrow> (''POST'', ''/admin/deletion-queue/reject'')
      | ClimbPass \<Rightarrow> (''POST'', ''/admin/inbox/climb'') | SweepPass \<Rightarrow> (''POST'', ''/admin/inbox/sweep'')
      | IssueSignal _ _ _ \<Rightarrow> (''POST'', ''/admin/signal'') | RevokeSignal a \<Rightarrow> (''DELETE'', ''/admin/signal/'' @ a)
      | RelabelProject _ _ _ \<Rightarrow> (''POST'', ''/admin/projects/relabel'')
      | ReverseRelabel _ _ \<Rightarrow> (''POST'', ''/admin/projects/relabel/reverse'')
      | AssignRole r _ \<Rightarrow> (''PUT'', ''/admin/roles/'' @ r) | RetireRole r \<Rightarrow> (''DELETE'', ''/admin/roles/'' @ r))"

definition principal_route :: "principal_action \<Rightarrow> string \<times> string" where
  "principal_route c =
     (case c of CreatePrincipal _ _ _ _ \<Rightarrow> (''POST'', ''/admin/principals'')
      | UpdatePrincipal n _ _ _ \<Rightarrow> (''PATCH'', ''/admin/principals/'' @ n)
      | DeactivatePrincipal n \<Rightarrow> (''DELETE'', ''/admin/principals/'' @ n)
      | RegenerateToken n _ _ \<Rightarrow> (''POST'', ''/admin/principals/'' @ n @ ''/token'')
      | AddAlias n _ _ \<Rightarrow> (''POST'', ''/admin/principals/'' @ n @ ''/aliases'')
      | RemoveAlias n _ _ \<Rightarrow> (''DELETE'', ''/admin/principals/'' @ n @ ''/aliases''))"

definition route :: "api_call \<Rightarrow> string \<times> string" where
  "route c =
     (case c of MemoryCall m \<Rightarrow> (''POST'', memory_route m) | MailCall m \<Rightarrow> mail_route m
      | SessionCall m \<Rightarrow> (''POST'', session_route m) | AdminCall m \<Rightarrow> admin_route m
      | PrincipalCall m \<Rightarrow> principal_route m | WhoAmI \<Rightarrow> (''GET'', ''/whoami''))"

section \<open>The handlers behind the routes\<close>

text \<open>What is configured, and the functions the server is given: the hashes, the distance of
  embeddings and the full-text score.\<close>

record 'a env =
  ev_hash :: hashing
  ev_cfg :: settings
  ev_search :: "'a search_cfg"
  ev_distance :: "string \<Rightarrow> string \<Rightarrow> 'a"
  ev_score :: "string \<Rightarrow> string \<Rightarrow> 'a"

text \<open>Of the answer only the status is kept.\<close>

definition reply :: "'b res \<times> server \<Rightarrow> unit res \<times> server" where
  "reply out = (map_sum id (\<lambda>_. ()) (fst out), snd out)"

text \<open>A body that does not validate is refused before the handler runs.\<close>

definition parsed :: "'b res \<Rightarrow> server \<Rightarrow> ('b \<Rightarrow> server \<Rightarrow> 'c res \<times> server) \<Rightarrow> unit res \<times> server" where
  "parsed p s f = (case p of Inl e \<Rightarrow> (Inl e, s) | Inr r \<Rightarrow> reply (f r s))"

definition serve_memory ::
  "'a::linordered_idom env \<Rightarrow> headers \<Rightarrow> principal option \<Rightarrow> memory_action \<Rightarrow> instant \<Rightarrow> server \<Rightarrow> unit res \<times> server" where
  "serve_memory ev h p c now s =
     (let cfg = ev_cfg ev; sha = h_sha (ev_hash ev); al = alias_cache s
      in case c of
           SetMemory r \<Rightarrow> parsed (parse_set cfg al r) s (\<lambda>r. set_memory sha cfg h p r now)
         | GetMemory r \<Rightarrow> parsed (parse_ref cfg al r) s (\<lambda>r. get_memory sha cfg p r now)
         | SearchMemory r \<Rightarrow> parsed (parse_search cfg al r) s
             (\<lambda>r. search_memory sha (ev_search ev) (ev_distance ev) (ev_score ev) cfg p r now)
         | ForgetMemory r \<Rightarrow> parsed (parse_ref cfg al r) s (\<lambda>r. forget_memory cfg p r now)
         | FlagDeletion r \<Rightarrow> parsed (parse_flag cfg al r) s (\<lambda>r. flag_deletion cfg p r now)
         | SupersedeMemory r \<Rightarrow> parsed (parse_supersede cfg al r) s (\<lambda>r. supersede_memory cfg p r now))"

definition serve_mail ::
  "'a env \<Rightarrow> headers \<Rightarrow> principal option \<Rightarrow> mail_action \<Rightarrow> instant \<Rightarrow> server \<Rightarrow> unit res \<times> server" where
  "serve_mail ev h p c now s =
     (let cfg = ev_cfg ev
      in case c of
           SendInbox r tid uuid \<Rightarrow> parsed (parse_send r) s (\<lambda>r. send_inbox cfg h p r tid uuid now)
         | ListInbox r \<Rightarrow> parsed (parse_list r) s (\<lambda>r. list_inbox cfg p r now)
         | UnreadSummary ls reader \<Rightarrow> parsed (parse_summary ls reader) s (\<lambda>(ls, reader). unread_summary cfg p ls reader now)
         | AckInbox i reader \<Rightarrow> parsed (reader_not_empty reader) s (ack_inbox cfg p i)
         | ArchiveInbox i reader \<Rightarrow> parsed (reader_not_empty reader) s (archive_inbox cfg p i)
         | ResolveInbox i reader \<Rightarrow> parsed (reader_not_empty reader) s (\<lambda>reader. resolve_inbox cfg p i reader now)
         | ResolveThread th ls reader \<Rightarrow> parsed (thread_not_empty th) s (\<lambda>th. resolve_inbox_thread cfg p th ls reader now)
         | SendWake r uuids \<Rightarrow> parsed (parse_wake r) s (\<lambda>r. send_wake cfg p r uuids now)
         | PollWakes r \<Rightarrow> parsed (parse_wait r) s (\<lambda>r. poll_wakes cfg p r now)
         | UpdatePresence r \<Rightarrow> parsed (parse_presence r) s (\<lambda>r. update_presence cfg p r now)
         | GetRoster q \<Rightarrow> reply (get_roster cfg p q now s, s)
         | ProjectInfo n \<Rightarrow> (Inr (), snd (project_info n now s))
         | RoleInfo n \<Rightarrow> reply (role_info n now s)
         | PollSignal k \<Rightarrow> reply (mail_signal_poll (h_sha (ev_hash ev)) cfg k now s))"

definition serve_session ::
  "'a env \<Rightarrow> principal option \<Rightarrow> auth_source \<Rightarrow> session_action \<Rightarrow> instant \<Rightarrow> server \<Rightarrow> unit res \<times> server" where
  "serve_session ev p src c now s =
     (let cfg = ev_cfg ev
      in case c of
           ClaimSeat r \<Rightarrow> parsed (parse_claim r) s (\<lambda>r. claim_seat cfg p r now)
         | ReleaseSeat r \<Rightarrow> parsed (parse_release r) s (\<lambda>r. release_seat cfg p r now)
         | CertifyDeath r \<Rightarrow> parsed (parse_death r) s (\<lambda>r. certify_death cfg p src r now)
         | WatchClaim r \<Rightarrow> parsed (parse_watch r) s (\<lambda>r. watch_claim_endpoint cfg p r now)
         | WatchBeat r \<Rightarrow> parsed (parse_beat r) s (\<lambda>r. watch_beat_endpoint cfg p r now)
         | WatchRelease r \<Rightarrow> parsed (parse_beat r) s (\<lambda>r. watch_release_endpoint cfg p r))"

definition serve_admin ::
  "'a env \<Rightarrow> principal option \<Rightarrow> auth_source \<Rightarrow> admin_action \<Rightarrow> instant \<Rightarrow> server \<Rightarrow> unit res \<times> server" where
  "serve_admin ev p src c now =
     (let cfg = ev_cfg ev; sha = h_sha (ev_hash ev)
      in admin_call cfg p src (\<lambda>who s.
        case c of
          UpdateMemory u \<Rightarrow> parsed (parse_update cfg u) s (\<lambda>u. update_memory_endpoint cfg u who)
        | BulkDelete q \<Rightarrow> parsed (parse_bulk cfg q) s (\<lambda>q. bulk_delete_endpoint q now who)
        | EstateTransfer q \<Rightarrow> parsed (parse_estate q) s (\<lambda>q. estate_transfer_endpoint q now who)
        | RejectDeletion q \<Rightarrow> parsed (parse_reject q) s (\<lambda>q. deletion_queue_reject_endpoint q now who)
        | ClimbPass \<Rightarrow> reply (climb_endpoint cfg now who s)
        | SweepPass \<Rightarrow> reply (sweep_endpoint cfg now who s)
        | IssueSignal a prin random \<Rightarrow> reply (issue_mail_signal sha random a prin now who s)
        | RevokeSignal a \<Rightarrow> reply (revoke_mail_signal a now who s)
        | RelabelProject srcs target dry \<Rightarrow> reply (relabel_project cfg srcs target dry now who s)
        | ReverseRelabel source target \<Rightarrow> reply (reverse_project_relabel source target now who s)
        | AssignRole role h \<Rightarrow> reply (assign_role cfg role h now who s)
        | RetireRole role \<Rightarrow> reply (retire_role role now who s)))"

definition serve_principals ::
  "'a env \<Rightarrow> principal option \<Rightarrow> auth_source \<Rightarrow> principal_action \<Rightarrow> instant \<Rightarrow> server \<Rightarrow> unit res \<times> server" where
  "serve_principals ev p src c now =
     (let h = ev_hash ev
      in admin_call (ev_cfg ev) p src (\<lambda>who s.
        case c of
          CreatePrincipal np random salt salt2 \<Rightarrow>
            parsed (parse_principal np) s (\<lambda>np. create_principal_endpoint h random salt salt2 np now who)
        | UpdatePrincipal n u salt salt2 \<Rightarrow> reply (update_principal_endpoint h salt salt2 n u now who s)
        | DeactivatePrincipal n \<Rightarrow> reply (deactivate_principal_endpoint n now who s)
        | RegenerateToken n random salt \<Rightarrow> reply (regenerate_token h random salt n now who s)
        | AddAlias n al source \<Rightarrow> parsed (parse_alias al source) s (\<lambda>(al, source). add_alias_endpoint n al source)
        | RemoveAlias n al source \<Rightarrow> parsed (parse_alias al source) s (\<lambda>(al, source). remove_alias_endpoint n al source)))"

definition handle ::
  "'a::linordered_idom env \<Rightarrow> headers \<Rightarrow> principal option \<Rightarrow> auth_source \<Rightarrow> api_call \<Rightarrow> instant \<Rightarrow> server
     \<Rightarrow> unit res \<times> server" where
  "handle ev h p src c now s =
     (case c of
        MemoryCall m \<Rightarrow> serve_memory ev h p m now s
      | MailCall m \<Rightarrow> serve_mail ev h p m now s
      | SessionCall m \<Rightarrow> serve_session ev p src m now s
      | AdminCall m \<Rightarrow> serve_admin ev p src m now s
      | PrincipalCall m \<Rightarrow> serve_principals ev p src m now s
      | WhoAmI \<Rightarrow> reply (whoami p now s))"

text \<open>A request as it arrives: its token, its headers and what it calls.\<close>

definition request_for :: "string \<Rightarrow> headers \<Rightarrow> api_call \<Rightarrow> request" where
  "request_for authorization h c =
     \<lparr>rq_method = fst (route c), rq_path = snd (route c), rq_authorization = authorization, rq_headers = h\<rparr>"

definition serve ::
  "'a::linordered_idom env \<Rightarrow> string \<Rightarrow> headers \<Rightarrow> api_call \<Rightarrow> instant \<Rightarrow> server \<Rightarrow> unit res \<times> server" where
  "serve ev authorization h c now s =
     (case dispatch (ev_hash ev) (ev_cfg ev) (request_for authorization h c) now s of
        (Refuse n, s') \<Rightarrow> (Inl (HTTPException n), s')
      | (Pass p src, s') \<Rightarrow> handle ev h p src c now s')"

section \<open>Start\<close>

text \<open>\<^verbatim>\<open>check_bind_security\<close>: whether the server starts at all.\<close>

definition check_bind_security :: "string \<Rightarrow> bool \<Rightarrow> string \<Rightarrow> bool \<Rightarrow> bool" where
  "check_bind_security host require_auth api_token allow_insecure_bind \<longleftrightarrow>
     host \<in> set [''127.0.0.1'', ''localhost'', ''::1''] \<or> require_auth \<or> api_token \<noteq> '''' \<or> allow_insecure_bind"

text \<open>\<^verbatim>\<open>_bootstrap_admin\<close>: the first admin, from the operator's token.\<close>

definition bootstrap_principal :: "string \<Rightarrow> new_principal" where
  "bootstrap_principal token =
     \<lparr>np_name = ''_bootstrap'', np_type = ''agent'', np_is_admin = True, np_password = None, np_token = Some token,
      np_read = [''*''], np_write = [''*'']\<rparr>"

definition bootstrap_admin :: "'a env \<Rightarrow> string \<Rightarrow> string \<Rightarrow> string \<Rightarrow> instant \<Rightarrow> server \<Rightarrow> server" where
  "bootstrap_admin ev random salt salt2 now s =
     (let cfg = ev_cfg ev
      in if \<not> cfg_require_auth cfg \<or> cfg_api_token cfg = '''' then s
         else if list_ex p_is_admin (list_principals None True s) then s
         else snd (create_principal (ev_hash ev) random salt salt2 (bootstrap_principal (cfg_api_token cfg)) now s))"

text \<open>\<^verbatim>\<open>_project_alias_refresh_loop\<close>, one turn.\<close>

definition refresh_turn :: "instant \<Rightarrow> server \<Rightarrow> server" where
  "refresh_turn now s = role_refresh True now (alias_refresh True now s)"

text \<open>The steps of the running server. The expiry sweeps are steps when they end.\<close>

inductive service_step :: "'a::linordered_idom env \<Rightarrow> server \<Rightarrow> server \<Rightarrow> bool" for ev where
  call: "service_step ev s (snd (serve ev authorization h c now s))"
| start: "service_step ev s (bootstrap_admin ev random salt salt2 now s)"
| refresh: "service_step ev s (refresh_turn now s)"
| resolve: "service_step ev s (autoresolve_turn (ev_cfg ev) hrs batch now s)"
| expire: "expiration_turn batch clock now s = Some s' \<Longrightarrow> service_step ev s s'"
| cleanup: "cleanup_endpoint b batch clock s = Some (n, s') \<Longrightarrow> service_step ev s s'"

section \<open>The invariant of the server, and what an ordinary call leaves alone\<close>

text \<open>The indexes of every table hold, renames are flat, a role has one open entry of its history,
  an address at most one live signal key, and principals have different names.\<close>

definition server_ok :: "server \<Rightarrow> bool" where
  "server_ok s \<longleftrightarrow> table_ok (memories s) \<and> alias_inv (project_aliases s) \<and> role_inv s \<and>
     (\<forall>a. length (live_keys a (mail_signal s)) \<le> 1) \<and> distinct (map p_name (principals s))"

text \<open>What only the administrators decide: who may log in and with which rights, which names are
  renamed, who holds a role, which signal keys are good. The lookup key of an old token, filled in
  at its first use, and the poll counters are no part of it.\<close>

definition signal_grant :: "signal_row \<Rightarrow> signal_row" where
  "signal_grant r = r\<lparr>sg_last_polled_at := None, sg_poll_count := 0\<rparr>"

definition without_lookup :: "principal \<Rightarrow> principal" where
  "without_lookup p = p\<lparr>p_token_lookup := None\<rparr>"

definition registers ::
  "server \<Rightarrow> principal list \<times> (string \<times> string \<times> string) list \<times> alias_row list \<times> role_row list \<times> history_row list \<times> signal_row list" where
  "registers s =
     (map without_lookup (principals s), principal_aliases s, project_aliases s, address_roles s,
      address_role_history s, map signal_grant (mail_signal s))"

definition lawful :: "server \<Rightarrow> server \<Rightarrow> bool" where
  "lawful s s' \<longleftrightarrow> (server_ok s \<longrightarrow> server_ok s') \<and> prefix (audit_log s) (audit_log s')"

definition ordinary :: "server \<Rightarrow> server \<Rightarrow> bool" where
  "ordinary s s' \<longleftrightarrow> registers s' = registers s \<and> prefix (audit_log s) (audit_log s') \<and>
     (table_ok (memories s) \<longrightarrow> table_ok (memories s'))"

named_theorems serving

lemma live_keys_grant: "length (live_keys a (map signal_grant rows)) = length (live_keys a rows)"
  by (induction rows) (auto simp: live_keys_def signal_grant_def)

lemma server_ok_registers:
  assumes "registers s' = registers s" and "table_ok (memories s')" and "server_ok s"
  shows "server_ok s'"
proof -
  have names: "map p_name (principals x) = map p_name (map without_lookup (principals x))" for x
    by (simp add: without_lookup_def comp_def)
  have "map without_lookup (principals s') = map without_lookup (principals s)"
    using assms(1) by (simp add: registers_def)
  then have "map p_name (principals s') = map p_name (principals s)" unfolding names by (rule arg_cong)
  moreover have "length (live_keys a (mail_signal s')) = length (live_keys a (mail_signal s))" for a
    using assms(1) live_keys_grant [of a "mail_signal s'"] live_keys_grant [of a "mail_signal s"]
    by (simp add: registers_def)
  ultimately show ?thesis using assms by (simp add: server_ok_def role_inv_def registers_def)
qed

lemma ordinary_lawful: "ordinary s s' \<Longrightarrow> lawful s s'"
  by (auto simp: ordinary_def lawful_def intro: server_ok_registers) (auto simp: server_ok_def intro: server_ok_registers)

lemma ordinary_refl [simp, intro]: "ordinary s s"
  by (simp add: ordinary_def)

lemma ordinary_trans [trans]: "ordinary s s' \<Longrightarrow> ordinary s' s'' \<Longrightarrow> ordinary s s''"
  by (auto simp: ordinary_def)

lemma lawful_trans [trans]: "lawful s s' \<Longrightarrow> lawful s' s'' \<Longrightarrow> lawful s s''"
  by (auto simp: lawful_def)

lemma ordinary_rows: "(table_ok (memories s) \<Longrightarrow> table_ok t) \<Longrightarrow> ordinary s (s\<lparr>memories := t\<rparr>)"
  by (simp add: ordinary_def registers_def)

lemma audit_registers [simp]: "registers (audit a p d tg now s) = registers s"
  by (simp add: audit_def registers_def)

lemma audit_grows [simp]: "prefix xs (audit_log s) \<Longrightarrow> prefix xs (audit_log (audit a p d tg now s))"
  by (simp add: audit_def prefix_prefix)

lemma ordinary_audit: "ordinary s s' \<Longrightarrow> ordinary s (audit a p d tg now s')"
  by (auto simp: ordinary_def)

lemma lawful_audit: "lawful s s' \<Longrightarrow> lawful s (audit a p d tg now s')"
  using server_ok_registers [OF audit_registers] by (auto simp: lawful_def server_ok_def)

lemma ordinary_refresh [simp]: "ordinary s (alias_refresh f now s)" "ordinary s (role_refresh f now s)"
  by (simp_all add: ordinary_def registers_def alias_refresh_def role_refresh_def)

lemma ordinary_expand [simp]: "ordinary s (snd (expand_listen_set now ls s))"
  using ordinary_trans [OF ordinary_refresh] by (simp add: expand_listen_set_def Let_def)

section \<open>Operations keep the indexes\<close>

lemmas updates_keep = touching.table_ok_update stamp_doc.table_ok_update set_doc.table_ok_update heir.table_ok_update
  acking.table_ok_update archiving.table_ok_update resolving.table_ok_update

named_theorems keeping

lemma memory_ops_keep [keeping]:
  assumes "table_ok t"
  shows "table_ok (snd (memory_set sha k w now t))"
    and "table_ok (snd (memory_get sha k now t))"
    and "table_ok (snd (memory_search sc vd sim nss q scope uid pr lim inc now t))"
    and "table_ok (snd (memory_forget k actor adm t))"
    and "table_ok (snd (memory_flag_deletion k actor reason now t))"
    and "table_ok (snd (memory_supersede nss key pr target actor reason repl scs now t))"
    and "table_ok (snd (deletion_queue_reject k actor reason now t))"
    and "table_ok (snd (estate_transfer from_p to_p ns pr' dry t))"
  using assms memory_set_ok [OF assms prod.collapse [symmetric]]
  by (simp_all add: memory_get_def memory_search_def memory_forget_def flag_ok memory_supersede_def
      deletion_queue_reject_def estate_transfer_def Let_def updates_keep split: option.split)

lemma table_ops_keep [keeping]:
  assumes "table_ok t"
  shows "table_ok (snd (update_memory u t))"
    and "table_ok (snd (bulk_delete q dry now t))"
proof -
  have "map r_id (sql_update P (moved_row u) t) = map r_id t" for P by (simp add: sql_update_def moved_row_def)
  then show "table_ok (snd (update_memory u t))" using assms by (simp add: update_memory_def Let_def table_ok_def)
  show "table_ok (snd (bulk_delete q dry now t))" using assms by (simp add: bulk_delete_def)
qed

lemma cleanup_keeps:
  assumes "cleanup_expired batch clock t = Some (n, t')" and "table_ok t"
  shows "table_ok t'"
proof -
  have "cleanup_loop batch clock 0 0 t = Some (n, t')" using assms(1) by (simp add: cleanup_expired_def)
  then have "table_ok t \<longrightarrow> table_ok (snd (n, t'))"
    by (rule cleanup_loop.raw_induct [where P = "\<lambda>batch clock i d u res. table_ok u \<longrightarrow> table_ok (snd res)", rotated])
      (fastforce simp: Let_def split: if_splits)
  with assms(2) show ?thesis by simp
qed

lemma mail_ops_keep [keeping]:
  assumes "table_ok t"
  shows "table_ok (snd (inbox_ack cfg i who t))"
    and "table_ok (snd (inbox_archive cfg i reader t))"
    and "table_ok (snd (inbox_resolve cfg i resolver now t))"
    and "table_ok (snd (wake_send cfg uuids to w now t))"
    and "table_ok (snd (inbox_autoresolve_stale cfg hrs actor batch now t))"
proof -
  let ?s = "empty_server\<lparr>memories := t\<rparr>"
  have k: "mail_step cfg ?s s' \<Longrightarrow> table_ok (memories s')" for s' using mail_step_keeps [of cfg ?s s'] assms by simp
  show "table_ok (snd (inbox_ack cfg i who t))" using k [OF mail_step.ack] by simp
  show "table_ok (snd (inbox_archive cfg i reader t))" using k [OF mail_step.archive] by simp
  show "table_ok (snd (inbox_resolve cfg i resolver now t))" using k [OF mail_step.resolve] by simp
  show "table_ok (snd (wake_send cfg uuids to w now t))" using k [OF mail_step.wakes] by simp
  show "table_ok (snd (inbox_autoresolve_stale cfg hrs actor batch now t))" using k [OF mail_step.sweep] by simp
qed

section \<open>The calls of the memory router\<close>

lemma ordinary_list_inbox [simp]: "ordinary s (snd (inbox_list cfg ls reader q now s))"
proof -
  have "ordinary s (snd (expand_listen_set now l s))" for l by simp
  moreover have "table_ok (memories (snd (inbox_list cfg ls reader q now s))) = table_ok (memories s)"
    by (rule table_ok_content [OF inbox_list_content])
  ultimately show ?thesis
    by (auto simp: inbox_list_def Let_def split_beta ordinary_def registers_def)
qed

lemma ordinary_peek [simp]:
  "ordinary s (snd (inbox_unread_count cfg ls reader now s))"
  "ordinary s (snd (inbox_counts cfg ls now s))"
  "ordinary s (snd (inbox_unread_by_sender cfg ls r now s))"
  "ordinary s (snd (wake_list_fresh cfg ls since reader now s))"
  by (simp_all add: inbox_unread_count_def inbox_counts_def inbox_unread_by_sender_def wake_list_fresh_def Let_def split_beta)

lemma ordinary_banner [simp]: "ordinary s (snd (inbox_banner cfg ls reader n now s))"
  using ordinary_trans [OF ordinary_peek(1) ordinary_list_inbox]
  by (simp add: inbox_banner_def Let_def split_beta)

lemma ordinary_banner_for [simp]: "ordinary s (snd (banner_for cfg ls reader now s))"
  by (auto simp: banner_for_def split: option.split sum.split list.split)

lemma ordinary_then_banner: "ordinary s s' \<Longrightarrow> ordinary s (snd (banner_for cfg ls reader now s'))"
  by (rule ordinary_trans [OF _ ordinary_banner_for])

lemma ordinary_set_memory [serving]: "ordinary s (snd (set_memory sha cfg h p r now s))"
proof -
  let ?t = "snd (memory_set sha (ref_key r) (set_args h p r) now (memories s))"
  have w: "ordinary s (s\<lparr>memories := ?t\<rparr>)" by (intro ordinary_rows memory_ops_keep)
  have b: "ordinary s (snd (banner_for cfg (ms_listen_set r) (ms_reader_identity r) now
      (audit a p d tg now (s\<lparr>memories := ?t\<rparr>))))" for a d tg
    by (intro ordinary_then_banner ordinary_audit w)
  show ?thesis using w b
    by (auto simp: set_memory_def Let_def split_beta ordinary_audit split: sum.split exc.split)
qed

lemma ordinary_get_memory [serving]: "ordinary s (snd (get_memory sha cfg p r now s))"
  by (auto simp: get_memory_def split_beta intro!: ordinary_rows memory_ops_keep split: sum.split option.split)

lemma ordinary_search_memory [serving]: "ordinary s (snd (search_memory sha sc vd sim cfg p r now s))"
proof -
  have w: "ordinary s (s\<lparr>memories := snd (memory_search sc vd sim nss q scope uid pr lim inc now (memories s))\<rparr>)"
    for nss q scope uid pr lim inc by (intro ordinary_rows memory_ops_keep)
  show ?thesis
    by (auto simp: search_memory_def Let_def split_beta w ordinary_then_banner split: sum.split)
qed

lemma ordinary_forget_memory [serving]: "ordinary s (snd (forget_memory cfg p r now s))"
  by (auto simp: forget_memory_def split_beta intro!: ordinary_audit ordinary_rows memory_ops_keep split: sum.split exc.split)

lemma ordinary_flag_deletion [serving]: "ordinary s (snd (flag_deletion cfg p r now s))"
  by (auto simp: flag_deletion_def split_beta intro!: ordinary_audit ordinary_rows memory_ops_keep split: sum.split)

lemma ordinary_supersede_memory [serving]: "ordinary s (snd (supersede_memory cfg p r now s))"
  by (auto simp: supersede_memory_def split_beta intro!: ordinary_audit ordinary_rows memory_ops_keep split: sum.split)

lemma ordinary_parsed [intro]: "(\<And>r. ordinary s (snd (f r s))) \<Longrightarrow> ordinary s (snd (parsed p s f))"
  by (simp add: parsed_def reply_def split: sum.split)

lemma snd_reply [simp]: "snd (reply out) = snd out"
  by (simp add: reply_def)

lemma ordinary_serve_memory: "ordinary s (snd (serve_memory ev h p c now s))"
  by (cases c) (auto simp: serve_memory_def Let_def serving)

section \<open>The calls of the mail and session routers\<close>

lemma send_copies_index: "table_ok t \<Longrightarrow> table_ok (snd (send_copies cfg mk now ts first t))"
proof (induction ts arbitrary: first t)
  case (Cons a ts)
  obtain to uuid where "a = (to, uuid)" by fastforce
  with Cons.IH [OF inbox_send_ok [OF Cons.prems]] inbox_send_ok [OF Cons.prems] show ?case
    by (auto simp: split_beta split: sum.split)
qed simp

lemma ordinary_cost [simp]: "ordinary s (snd (send_cost_facts cfg rs sender intent ids th now s))"
  using ordinary_trans [OF ordinary_refresh] by (simp add: send_cost_facts_def Let_def)

lemma ordinary_send_inbox [serving]: "ordinary s (snd (send_inbox cfg h p r tid uuid now s))"
proof -
  let ?s = "alias_refresh False now s"
  have w: "ordinary s (?s\<lparr>memories := snd (send_copies cfg mk now ts first (memories ?s))\<rparr>)" for mk ts first
    by (rule ordinary_trans [OF ordinary_refresh(1) [of s False now]]) (intro ordinary_rows send_copies_index)
  have n: "ordinary s (?s\<lparr>memories := memories s\<rparr>)"
    by (rule ordinary_trans [OF ordinary_refresh(1) [of s False now]]) (intro ordinary_rows, simp add: alias_refresh_def split: if_splits)
  show ?thesis using w n ordinary_trans [OF w ordinary_cost] ordinary_trans [OF n ordinary_cost]
    by (auto simp: send_inbox_def Let_def split_beta split: sum.split)
qed

lemma ordinary_mail_reads [serving]:
  "ordinary s (snd (list_inbox cfg p lr now s))"
  "ordinary s (snd (unread_summary cfg p ls reader now s))"
  "ordinary s (snd (poll_wakes cfg p wr now s))"
  "ordinary s (snd (project_info n now s))"
  "ordinary s (snd (role_info n now s))"
  using ordinary_trans [OF ordinary_list_inbox ordinary_peek(2)]
  by (auto simp: list_inbox_def unread_summary_def poll_wakes_def project_info_def role_info_def Let_def split_beta split: sum.split)

lemma ordinary_lifecycle: "(\<And>t. table_ok t \<Longrightarrow> table_ok (snd (f t))) \<Longrightarrow> ordinary s (snd (lifecycle cfg p f s))"
  by (auto simp: lifecycle_def Let_def split_beta intro!: ordinary_rows split: sum.split)

lemma ordinary_lifecycles [serving]:
  "ordinary s (snd (ack_inbox cfg p i reader s))"
  "ordinary s (snd (archive_inbox cfg p i reader s))"
  "ordinary s (snd (resolve_inbox cfg p i reader now s))"
  by (auto simp: ack_inbox_def archive_inbox_def resolve_inbox_def intro!: ordinary_lifecycle mail_ops_keep)

lemma ordinary_resolve_thread [serving]: "ordinary s (snd (resolve_inbox_thread cfg p th ls reader now s))"
proof -
  have "ordinary s (snd (inbox_resolve_thread cfg th ls reader now s))"
    using ordinary_trans [OF ordinary_expand ordinary_rows]
    by (auto simp: inbox_resolve_thread_def Let_def split_beta updates_keep)
  then show ?thesis by (simp add: resolve_inbox_thread_def Let_def split_beta split: sum.split)
qed

lemma ordinary_send_wake [serving]: "ordinary s (snd (send_wake cfg p r uuids now s))"
  by (auto simp: send_wake_def split_beta intro!: ordinary_rows mail_ops_keep split: sum.split)

lemma presence_update_keeps: "table_ok t \<Longrightarrow> table_ok (snd (presence_update cfg b now t))"
proof -
  assume ok: "table_ok t"
  let ?p = "py_lower (be_project b)" and ?i = "py_lower (be_identity b)"
  have b: "table_ok (beaten cfg b now t)"
    unfolding beaten_def Let_def by (intro touching.table_ok_update beating_presence.table_ok_update ok)
  have "ukey_of (born cfg b now t) = (cfg_primary_namespace cfg, ''presence/'' @ ?i, PRESENCE_SCOPE, ?p, None)"
    by (simp add: born_def Let_def)
  moreover have "row_at (cfg_primary_namespace cfg, ''presence/'' @ ?i, PRESENCE_SCOPE, ?p, None) (beaten cfg b now t) = None"
    if "fetchrow (presence_at cfg ?p ?i) t = None"
    using that by (intro row_at_presence) (simp add: fetch_presence_beaten)
  ultimately show ?thesis
    using b table_ok_append [OF b] by (auto simp: presence_update_table born_def Let_def)
qed

lemma ordinary_update_presence [serving]: "ordinary s (snd (update_presence cfg p r now s))"
  by (auto simp: update_presence_def split_beta indexed.watcher_and_farewell_keep presence_update_keeps
      intro!: ordinary_rows split: sum.split)

lemma ordinary_signal_poll [serving]: "ordinary s (snd (mail_signal_poll sha cfg key now s))"
proof -
  have r: "ordinary s (snd (rate_limited k now s))" for k
    by (auto simp: rate_limited_def ordinary_def registers_def split: option.split)
  have "signal_grant (polled now r) = signal_grant r" for r by (simp add: signal_grant_def polled_def)
  then have l: "ordinary x (snd (lookup_signal sha k now x))" for k x
    by (auto simp: lookup_signal_def ordinary_def registers_def)
  have st: "ordinary x (snd (signal_state sha cfg a now x))" for a x
    by (simp add: signal_state_def Let_def)
  show ?thesis
    using r ordinary_trans [OF r l] ordinary_trans [OF ordinary_trans [OF r l] st]
    by (auto simp: mail_signal_poll_def Let_def split_beta split: option.split bool.split)
qed

lemma ordinary_serve_mail: "ordinary s (snd (serve_mail ev h p c now s))"
  by (cases c) (auto simp: serve_mail_def Let_def serving)

lemma watch_ops_keep:
  assumes "table_ok t"
  shows "table_ok (snd (watch_claim cfg c now t))"
    and "table_ok (snd (watch_beat cfg seat n f now t))"
    and "table_ok (snd (watch_release cfg seat n t))"
proof -
  have i: "table_ok (snd (insert_do_nothing x t))" for x by (rule table_ok_insert_do_nothing [OF assms])
  have u: "table_ok (sql_update P (\<lambda>w. touch now (set_md m w)) t)" for P m
    using stealing.table_ok_update [OF assms, of P m now] by (simp only: rewatch_def [abs_def])
  have "snd (watch_claim cfg c now t) = t \<or> (\<exists>x. snd (watch_claim cfg c now t) = snd (insert_do_nothing x t)) \<or>
      (\<exists>P m. snd (watch_claim cfg c now t) = sql_update P (\<lambda>w. touch now (set_md m w)) t)"
    unfolding watch_claim_def Let_def split_beta by (simp split: option.split) blast
  with i u assms show "table_ok (snd (watch_claim cfg c now t))" by metis
qed (simp_all add: watch_beat_def watch_release_def beating.table_ok_update assms)

lemma ordinary_on_table: "(\<And>t. table_ok t \<Longrightarrow> table_ok (snd (f t))) \<Longrightarrow> ordinary s (snd (on_table cfg p f s))"
  by (auto simp: on_table_def split_beta intro!: ordinary_rows split: sum.split)

lemma ordinary_session [serving]:
  "ordinary s (snd (claim_seat cfg p c now s))"
  "ordinary s (snd (release_seat cfg p rl now s))"
  "ordinary s (snd (certify_death cfg p src q now s))"
  "ordinary s (snd (watch_claim_endpoint cfg p wc now s))"
  "ordinary s (snd (watch_beat_endpoint cfg p wb now s))"
  "ordinary s (snd (watch_release_endpoint cfg p wb s))"
proof -
  have "ordinary s (snd (on_table cfg p (seat_claim cfg c now) s))"
    by (intro ordinary_on_table indexed.seat_claim_keeps)
  then show "ordinary s (snd (claim_seat cfg p c now s))"
    by (auto simp: claim_seat_def split: prod.split sum.split)
qed (auto simp: release_seat_def certify_death_def watch_claim_endpoint_def watch_beat_endpoint_def watch_release_endpoint_def
    split_beta intro!: ordinary_on_table ordinary_rows indexed.seat_release_keeps indexed.death_certify_keeps watch_ops_keep)

lemma ordinary_serve_session: "ordinary s (snd (serve_session ev p src c now s))"
  by (cases c) (auto simp: serve_session_def Let_def serving)


section \<open>The calls of the administrators\<close>

text \<open>An operation on one register or on the rows: it keeps its own part of the invariant, and the
  rest of the server is as before.\<close>

lemma lawfulI:
  assumes "audit_log s' = audit_log s"
    and "table_ok (memories s) \<Longrightarrow> table_ok (memories s')"
    and "alias_inv (project_aliases s) \<Longrightarrow> alias_inv (project_aliases s')"
    and "role_inv s \<Longrightarrow> role_inv s'"
    and "\<forall>a. length (live_keys a (mail_signal s)) \<le> 1 \<Longrightarrow> \<forall>a. length (live_keys a (mail_signal s')) \<le> 1"
    and "distinct (map p_name (principals s)) \<Longrightarrow> distinct (map p_name (principals s'))"
  shows "lawful s s'"
  using assms by (simp add: lawful_def server_ok_def)

lemma lawful_rows: "(table_ok (memories s) \<Longrightarrow> table_ok t) \<Longrightarrow> lawful s (s\<lparr>memories := t\<rparr>)"
  by (intro ordinary_lawful ordinary_rows)

lemma lawful_refl [simp, intro]: "lawful s s"
  by (intro ordinary_lawful ordinary_refl)

lemma lawful_relabel: "lawful s (snd (relabel cfg srcs target dry actor now s))"
proof (rule lawfulI)
  let ?s = "snd (relabel cfg srcs target dry actor now s)"
  have f: "audit_log ?s = audit_log s \<and> principals ?s = principals s \<and> mail_signal ?s = mail_signal s \<and>
      address_roles ?s = address_roles s \<and> address_role_history ?s = address_role_history s"
    by (simp add: relabel_def Let_def alias_refresh_def split: sum.split)
  then show "audit_log ?s = audit_log s" by blast
  show "role_inv s \<Longrightarrow> role_inv ?s" using f by (simp add: role_inv_def)
  show "\<forall>a. length (live_keys a (mail_signal s)) \<le> 1 \<Longrightarrow> \<forall>a. length (live_keys a (mail_signal ?s)) \<le> 1"
    using f by simp
  show "distinct (map p_name (principals s)) \<Longrightarrow> distinct (map p_name (principals ?s))" using f by simp
qed (use relabel_memories [OF prod.collapse [symmetric]] relabel_alias_inv [OF prod.collapse [symmetric]] in blast)+

lemma restore_rows_keep: "restore_rows source ids t = Some t' \<Longrightarrow> table_ok t \<Longrightarrow> table_ok t'"
proof (induction ids arbitrary: t)
  case (Cons i ids)
  have "map r_id (sql_update P (restore_row source) t) = map r_id t" for P
    by (simp add: sql_update_def restore_row_def set_md_def)
  with Cons show ?case by (auto simp: Let_def table_ok_def split: if_splits)
qed simp

lemma lawful_reverse: "lawful s (snd (reverse source target actor now s))"
proof (rule lawfulI)
  let ?s = "snd (reverse source target actor now s)"
  have f: "audit_log ?s = audit_log s \<and> principals ?s = principals s \<and> mail_signal ?s = mail_signal s \<and>
      address_roles ?s = address_roles s \<and> address_role_history ?s = address_role_history s"
    by (simp add: reverse_def Let_def alias_refresh_def split: sum.split option.split)
  then show "audit_log ?s = audit_log s" by blast
  show "role_inv s \<Longrightarrow> role_inv ?s" using f by (simp add: role_inv_def)
  show "\<forall>a. length (live_keys a (mail_signal s)) \<le> 1 \<Longrightarrow> \<forall>a. length (live_keys a (mail_signal ?s)) \<le> 1"
    using f by simp
  show "distinct (map p_name (principals s)) \<Longrightarrow> distinct (map p_name (principals ?s))" using f by simp
  show "table_ok (memories s) \<Longrightarrow> table_ok (memories ?s)"
    by (simp add: reverse_def Let_def restore_rows_keep split: sum.split option.split)
qed (use reverse_alias_inv [OF prod.collapse [symmetric]] in blast)

lemma lawful_assign: "lawful s (snd (assign cfg role h actor now s))"
proof (rule lawfulI)
  let ?s = "snd (assign cfg role h actor now s)"
  have f: "audit_log ?s = audit_log s \<and> principals ?s = principals s \<and> mail_signal ?s = mail_signal s \<and>
      memories ?s = memories s \<and> project_aliases ?s = project_aliases s"
    by (simp add: assign_def Let_def role_refresh_def)
  then show "audit_log ?s = audit_log s" by blast
  show "\<forall>a. length (live_keys a (mail_signal s)) \<le> 1 \<Longrightarrow> \<forall>a. length (live_keys a (mail_signal ?s)) \<le> 1"
    using f by simp
  show "distinct (map p_name (principals s)) \<Longrightarrow> distinct (map p_name (principals ?s))" using f by simp
  show "table_ok (memories s) \<Longrightarrow> table_ok (memories ?s)" using f by simp
  show "alias_inv (project_aliases s) \<Longrightarrow> alias_inv (project_aliases ?s)" using f by simp
qed (use assign_inv [OF _ prod.collapse [symmetric]] in blast)

lemma lawful_unassign: "lawful s (snd (unassign role now s))"
proof (rule lawfulI)
  show "role_inv s \<Longrightarrow> role_inv (snd (unassign role now s))" using unassign_inv [OF _ prod.collapse [symmetric]] by blast
qed (simp_all add: unassign_def Let_def role_refresh_def)

lemma lawful_signals:
  "lawful s (snd (issue_signal sha random a prin issuer now s))"
  "lawful s (snd (revoke_signal a now s))"
proof -
  have st: "lawful s s'" if "signal_step sha s s'" "s' = s\<lparr>mail_signal := mail_signal s'\<rparr>" for s'
  proof (rule lawfulI)
    show "audit_log s' = audit_log s" by (subst that(2)) simp
    show "role_inv s \<Longrightarrow> role_inv s'" by (subst that(2)) (simp add: role_inv_def)
    show "table_ok (memories s) \<Longrightarrow> table_ok (memories s')" by (subst that(2)) simp
    show "alias_inv (project_aliases s) \<Longrightarrow> alias_inv (project_aliases s')" by (subst that(2)) simp
    show "distinct (map p_name (principals s)) \<Longrightarrow> distinct (map p_name (principals s'))" by (subst that(2)) simp
  qed (use signal_step_live [OF that(1)] in blast)
  show "lawful s (snd (issue_signal sha random a prin issuer now s))"
    by (rule st [OF signal_step.issue]) (simp add: issue_signal_def Let_def)
  show "lawful s (snd (revoke_signal a now s))"
    by (rule st [OF signal_step.revoke]) (simp add: revoke_signal_def Let_def)
qed

lemma lawful_principals:
  "lawful s (snd (create_principal h random salt salt2 np now s))"
  "lawful s (snd (update_principal h salt salt2 name u now s))"
  "lawful s (snd (deactivate_principal name now s))"
  "lawful s (snd (add_alias name al source s))"
  "lawful s (snd (remove_alias al src nm s))"
proof -
  have names: "map p_name (map (\<lambda>p. if P p then f p else p) ps) = map p_name ps"
    if "\<And>p. p_name (f p) = p_name p" for P f and ps :: "principal list"
    using that by (simp add: comp_def cong: if_cong)
  show "lawful s (snd (create_principal h random salt salt2 np now s))"
    by (rule lawfulI) (auto simp: create_principal_def Let_def role_inv_def)
  show "lawful s (snd (update_principal h salt salt2 name u now s))"
    by (rule lawfulI) (simp_all add: update_principal_def Let_def role_inv_def names del: map_map split: option.split)
  show "lawful s (snd (deactivate_principal name now s))"
    by (rule lawfulI) (simp_all add: deactivate_principal_def role_inv_def names del: map_map)
  show "lawful s (snd (add_alias name al source s))"
    by (rule lawfulI) (simp_all add: add_alias_def role_inv_def)
  show "lawful s (snd (remove_alias al src nm s))"
    by (rule lawfulI) (simp_all add: remove_alias_def role_inv_def)
qed

lemma lawful_serve_principals: "lawful s (snd (serve_principals ev p src c now s))"
proof -
  have e: "lawful s (snd (create_principal_endpoint h random salt salt2 np now who s))"
    "lawful s (snd (update_principal_endpoint h salt salt2 n u now who s))"
    "lawful s (snd (deactivate_principal_endpoint n now who s))"
    "lawful s (snd (regenerate_token h random salt n now who s))"
    "lawful s (snd (add_alias_endpoint n al source s))"
    "lawful s (snd (remove_alias_endpoint n al source s))" for h random salt salt2 np who n u al source
    by (auto simp: create_principal_endpoint_def update_principal_endpoint_def deactivate_principal_endpoint_def
        regenerate_token_def add_alias_endpoint_def remove_alias_endpoint_def Let_def split_beta lawful_principals
        intro!: lawful_audit split: sum.split option.split)
  show ?thesis
    by (cases c) (auto simp: serve_principals_def Let_def admin_call_def parsed_def split_beta e split: sum.split)
qed

lemma sweep_keeps: "table_ok (memories s) \<Longrightarrow> table_ok (memories (snd (sweep_pass cfg now s)))"
proof -
  have "map content (snd (fold (sweep_step cfg roots reg now) rows acc)) = map content (snd acc)" for roots reg rows acc
    by (induction rows arbitrary: acc) (simp_all add: sweep_step_content)
  then have k: "table_ok (snd (fold (sweep_step cfg roots reg now) rows (x, t)))" if "table_ok t" for roots reg rows x t
    using that table_ok_content [of "snd (fold (sweep_step cfg roots reg now) rows (x, t))" t] by simp
  show "table_ok (memories s) \<Longrightarrow> ?thesis"
    by (simp add: sweep_pass_def Let_def split_beta k)
qed

lemma lawful_rows_endpoints:
  "lawful s (snd (update_memory_endpoint cfg u who s))"
  "lawful s (snd (bulk_delete_endpoint q now who s))"
  "lawful s (snd (estate_transfer_endpoint et now who s))"
  "lawful s (snd (deletion_queue_reject_endpoint fr now who s))"
proof -
  have u: "lawful s (s\<lparr>memories := snd (update_memory u (memories s))\<rparr>)"
    and b: "lawful s (s\<lparr>memories := snd (bulk_delete q d now (memories s))\<rparr>)"
    and e: "lawful s (s\<lparr>memories := snd (estate_transfer from_p to_p ns pr dry (memories s))\<rparr>)"
    and r: "lawful s (s\<lparr>memories := snd (deletion_queue_reject k actor reason now (memories s))\<rparr>)"
    for d from_p to_p ns pr dry k actor reason
    by (rule lawful_rows, erule keeping)+
  show "lawful s (snd (update_memory_endpoint cfg u who s))" using u
    by (simp add: update_memory_endpoint_def split_beta split: sum.split)
  show "lawful s (snd (bulk_delete_endpoint q now who s))" using b
    by (simp add: bulk_delete_endpoint_def Let_def split_beta lawful_audit)
  show "lawful s (snd (estate_transfer_endpoint et now who s))" using e
    by (simp add: estate_transfer_endpoint_def split_beta lawful_audit split: sum.split option.split)
  show "lawful s (snd (deletion_queue_reject_endpoint fr now who s))" using r
    by (simp add: deletion_queue_reject_endpoint_def split_beta lawful_audit split: sum.split option.split)
qed

lemma lawful_passes:
  "lawful s (snd (climb_endpoint cfg now who s))"
  "lawful s (snd (sweep_endpoint cfg now who s))"
proof -
  have c: "snd (climb_pass cfg now s) = s\<lparr>memories := memories (snd (climb_pass cfg now s))\<rparr>"
    by (simp add: climb_pass_def Let_def)
  have "lawful s (snd (climb_pass cfg now s))" by (subst c) (intro lawful_rows climb_pass_ok)
  then show "lawful s (snd (climb_endpoint cfg now who s))" by (simp add: climb_endpoint_def split_beta split: sum.split)
  have w: "snd (sweep_pass cfg now s) = s\<lparr>memories := memories (snd (sweep_pass cfg now s))\<rparr>"
    by (simp add: sweep_pass_def Let_def split_beta)
  have "lawful s (snd (sweep_pass cfg now s))" by (subst w) (intro lawful_rows sweep_keeps)
  then show "lawful s (snd (sweep_endpoint cfg now who s))" by (simp add: sweep_endpoint_def split_beta Let_def)
qed

lemma lawful_register_endpoints:
  "lawful s (snd (issue_mail_signal sha random a prin now who s))"
  "lawful s (snd (revoke_mail_signal a now who s))"
  "lawful s (snd (relabel_project cfg srcs target dry now who s))"
  "lawful s (snd (reverse_project_relabel source tg now who s))"
  "lawful s (snd (assign_role cfg role hol now who s))"
  "lawful s (snd (retire_role role now who s))"
  by (auto simp: issue_mail_signal_def revoke_mail_signal_def relabel_project_def reverse_project_relabel_def
      assign_role_def retire_role_def Let_def split_beta lawful_signals lawful_relabel lawful_reverse lawful_assign
      lawful_unassign intro!: lawful_audit split: sum.split option.split)

lemma lawful_serve_admin: "lawful s (snd (serve_admin ev p src c now s))"
  by (cases c) (auto simp: serve_admin_def Let_def admin_call_def parsed_def split_beta lawful_rows_endpoints
      lawful_passes lawful_register_endpoints split: sum.split)


section \<open>A request, a turn, a run\<close>

lemma ordinary_token: "ordinary s (snd (get_principal_by_token h raw now s))"
proof -
  have "map without_lookup (map (\<lambda>q. if p_name q = n then q\<lparr>p_token_lookup := lk\<rparr> else q) ps) = map without_lookup ps"
    for n lk ps by (simp add: without_lookup_def comp_def cong: if_cong)
  then show ?thesis
    by (auto simp: get_principal_by_token_def Let_def remember_verified_def ordinary_def registers_def
        simp del: map_map split: option.split)
qed

lemma ordinary_dispatch: "ordinary s (snd (dispatch h cfg rq now s))"
  using ordinary_token [of s h _ now]
  by (simp add: dispatch_def enforce_def enrich_def split_beta split: option.split)

lemma ordinary_whoami: "ordinary s (snd (whoami p now s))"
  by (simp add: whoami_def Let_def split_beta split: sum.split)

lemma handle_lawful: "lawful s (snd (handle ev h p src c now s))"
  by (cases c) (simp_all add: handle_def ordinary_lawful [OF ordinary_serve_memory] ordinary_lawful [OF ordinary_serve_mail]
      ordinary_lawful [OF ordinary_serve_session] ordinary_lawful [OF ordinary_whoami] lawful_serve_admin lawful_serve_principals)

lemma serve_unfold:
  "serve ev authorization h c now s =
     (case fst (dispatch (ev_hash ev) (ev_cfg ev) (request_for authorization h c) now s) of
        Refuse n \<Rightarrow> (Inl (HTTPException n), snd (dispatch (ev_hash ev) (ev_cfg ev) (request_for authorization h c) now s))
      | Pass p src \<Rightarrow> handle ev h p src c now (snd (dispatch (ev_hash ev) (ev_cfg ev) (request_for authorization h c) now s)))"
  by (simp add: serve_def split_beta split: passage.split)

lemma serve_lawful: "lawful s (snd (serve ev authorization h c now s))"
proof -
  let ?d = "dispatch (ev_hash ev) (ev_cfg ev) (request_for authorization h c) now s"
  have d: "lawful s (snd ?d)" by (rule ordinary_lawful [OF ordinary_dispatch])
  have "lawful s (snd (handle ev h p src c now (snd ?d)))" for p src by (rule lawful_trans [OF d handle_lawful])
  with d show ?thesis by (simp add: serve_unfold split: passage.split)
qed

lemma expiry_lawful:
  "expiration_turn batch clock now s = Some s' \<Longrightarrow> lawful s s'"
  "cleanup_endpoint b batch clock s = Some (n, s') \<Longrightarrow> lawful s s'"
proof -
  have "lawful s (s\<lparr>memories := t\<rparr>)" if "cleanup_expired k clock (memories s) = Some (m, t)" for k m t
    using cleanup_keeps [OF that] by (rule lawful_rows)
  then show "expiration_turn batch clock now s = Some s' \<Longrightarrow> lawful s s'"
    and "cleanup_endpoint b batch clock s = Some (n, s') \<Longrightarrow> lawful s s'"
    by (auto simp: expiration_turn_def cleanup_endpoint_def intro: lawful_audit split: if_splits)
qed

lemma turns_lawful:
  "lawful s (bootstrap_admin ev random salt salt2 now s)"
  "lawful s (refresh_turn now s)"
  "lawful s (autoresolve_turn cfg hrs batch now s)"
proof -
  show "lawful s (bootstrap_admin ev random salt salt2 now s)"
    by (simp add: bootstrap_admin_def Let_def lawful_principals)
  show "lawful s (refresh_turn now s)"
    unfolding refresh_turn_def by (rule ordinary_lawful [OF ordinary_trans [OF ordinary_refresh(1) ordinary_refresh(2)]])
  show "lawful s (autoresolve_turn cfg hrs batch now s)"
    unfolding autoresolve_turn_def by (intro lawful_rows keeping)
qed

text \<open>A system whose steps are lawful: its runs are. What rests on this does not look into the
  steps again.\<close>

locale lawful_system =
  fixes step :: "server \<Rightarrow> server \<Rightarrow> bool"
  assumes step_lawful: "step s s' \<Longrightarrow> lawful s s'"
begin

lemma run_lawful: "step\<^sup>*\<^sup>* s s' \<Longrightarrow> lawful s s'"
  by (induction rule: rtranclp_induct) (auto intro: lawful_trans step_lawful)

lemma run_keeps: "step\<^sup>*\<^sup>* s s' \<Longrightarrow> server_ok s \<Longrightarrow> server_ok s'"
  using run_lawful by (simp add: lawful_def)

lemma run_audit: "step\<^sup>*\<^sup>* s s' \<Longrightarrow> prefix (audit_log s) (audit_log s')"
  using run_lawful by (simp add: lawful_def)

end

interpretation service: lawful_system "service_step ev"
proof unfold_locales
  show "service_step ev s s' \<Longrightarrow> lawful s s'" for s s'
    by (induction rule: service_step.induct) (simp_all add: serve_lawful turns_lawful expiry_lawful)
qed

section \<open>Properties\<close>

text \<open>C1. Whatever runs against the server, from whatever callers and in whatever order, requests,
  restarts and background turns alike: the unique index of the store holds, renames stay
  flat, every role has exactly one open entry of its history, an address has at most one live signal key,
  no two principals share a name, and no entry of the audit log is lost or rewritten.\<close>

theorem service_runs_keep_the_store:
  assumes "(service_step ev)\<^sup>*\<^sup>* s s'" and "server_ok s"
  shows "server_ok s' \<and> prefix (audit_log s) (audit_log s')"
  using service.run_keeps [OF assms] service.run_audit [OF assms(1)] by blast

definition demo_env :: "int env" where
  "demo_env = \<lparr>ev_hash = demo_hashing,
     ev_cfg = default_settings\<lparr>cfg_require_auth := True, cfg_api_token := ''root''\<rparr>,
     ev_search = \<lparr>sc_vector_threshold = 0, sc_trigram_weight = 1, sc_trigram_threshold = 0\<rparr>,
     ev_distance = (\<lambda>_ _. 0), ev_score = (\<lambda>_ _. 0)\<rparr>"

definition started_demo :: server where
  "started_demo = bootstrap_admin demo_env ''r0'' ''s1'' ''s2'' 1 empty_server"

definition role_call :: api_call where
  "role_call = AdminCall (AssignRole ''lead'' ''codex'')"

lemma empty_server_ok: "server_ok empty_server"
  by (simp add: server_ok_def role_inv_def empty_server_def role_map_def open_holders_def live_keys_def
      alias_inv_def alias_rows_flat_iff table_ok_def)

theorem service_runs_keep_the_store_witness:
  "let s = snd (serve demo_env ''Bearer root'' [] role_call 5 started_demo)
   in server_ok s \<and> map au_action (audit_log s) = [''admin.role_assign'']"
proof -
  let ?s = "snd (serve demo_env ''Bearer root'' [] role_call 5 started_demo)"
  have r: "(service_step demo_env)\<^sup>*\<^sup>* empty_server ?s"
    unfolding started_demo_def
    by (rule rtranclp.rtrancl_into_rtrancl [OF r_into_rtranclp]) (rule service_step.intros)+
  have a: "map au_action (audit_log ?s) = [''admin.role_assign'']" by code_simp
  show ?thesis using service_runs_keep_the_store [OF r empty_server_ok] a by (simp only: Let_def simp_thms)
qed

text \<open>What stands behind a call that changes a register.\<close>

lemma handle_registers:
  "registers (snd (handle ev h p src c now s)) = registers s \<or> (\<exists>who. admin_or_open (ev_cfg ev) p src = Inr who)"
proof (cases c)
  case (AdminCall m)
  then show ?thesis by (auto simp: handle_def serve_admin_def Let_def admin_call_def split: sum.split)
next
  case (PrincipalCall m)
  then show ?thesis by (auto simp: handle_def serve_principals_def Let_def admin_call_def split: sum.split)
next
  case (MemoryCall m)
  then show ?thesis using ordinary_serve_memory [of s ev h p m now] by (simp add: handle_def ordinary_def)
next
  case (MailCall m)
  then show ?thesis using ordinary_serve_mail [of s ev h p m now] by (simp add: handle_def ordinary_def)
next
  case (SessionCall m)
  then show ?thesis using ordinary_serve_session [of s ev p src m now] by (simp add: handle_def ordinary_def)
next
  case WhoAmI
  then show ?thesis using ordinary_whoami [of s p now] by (simp add: handle_def ordinary_def)
qed

text \<open>The routes a relay reaches, and those that are exempt from authentication.\<close>

lemma relay_routes:
  assumes "relay_route_allowed (fst (route c)) (snd (route c)) \<or> exempt_path (request_for authorization h c)"
  shows "(\<exists>r tid uuid. c = MailCall (SendInbox r tid uuid)) \<or> (\<exists>r. c = MailCall (ListInbox r)) \<or>
    (\<exists>i reader. c = MailCall (AckInbox i reader)) \<or> (\<exists>i reader. c = MailCall (ResolveInbox i reader)) \<or>
    (\<exists>k. c = MailCall (PollSignal k)) \<or> (\<exists>q. c = MailCall (GetRoster q))"
proof (cases c)
  case (MemoryCall m)
  with assms show ?thesis
    by (cases m) (auto simp: route_def memory_route_def relay_route_allowed_def exempt_path_def request_for_def
        startswith_def is_signal_path_def SIGNAL_PATH_PREFIX_def)
next
  case (MailCall m)
  with assms show ?thesis
    by (cases m) (auto simp: route_def mail_route_def relay_route_allowed_def exempt_path_def request_for_def
        startswith_def endswith_def is_signal_path_def SIGNAL_PATH_PREFIX_def)
next
  case (SessionCall m)
  with assms show ?thesis
    by (cases m) (auto simp: route_def session_route_def relay_route_allowed_def exempt_path_def request_for_def
        startswith_def is_signal_path_def SIGNAL_PATH_PREFIX_def)
next
  case (AdminCall m)
  with assms show ?thesis
    by (cases m) (auto simp: route_def admin_route_def relay_route_allowed_def exempt_path_def request_for_def
        startswith_def is_signal_path_def SIGNAL_PATH_PREFIX_def)
next
  case (PrincipalCall m)
  with assms show ?thesis
    by (cases m) (auto simp: route_def principal_route_def relay_route_allowed_def exempt_path_def request_for_def
        startswith_def is_signal_path_def SIGNAL_PATH_PREFIX_def)
next
  case WhoAmI
  with assms show ?thesis
    by (auto simp: route_def relay_route_allowed_def exempt_path_def request_for_def
        startswith_def is_signal_path_def SIGNAL_PATH_PREFIX_def)
qed

lemma registers_call:
  assumes "registers (snd (handle ev h p src c now s)) \<noteq> registers s"
  shows "\<not> exempt_path (request_for authorization h c)"
proof
  assume "exempt_path (request_for authorization h c)"
  then obtain m where m: "c = MailCall m" using relay_routes by blast
  show False using assms ordinary_serve_mail [of s ev h p m now] by (simp add: m handle_def ordinary_def)
qed

text \<open>Who stands behind a request that passes the middleware and the gate of the administrators: the
  bearer of a principal's token, who is an admin or calls a server that is open on a loopback address;
  the operator, by the server's own token; or, on an open loopback server without a token of its own,
  anybody.\<close>

lemma dispatch_admin:
  assumes "\<not> exempt_path rq" and "fst (dispatch h cfg rq now s) = Pass q src" and "admin_or_open cfg q src = Inr who"
  shows "(\<exists>p tok. bearer rq = Some tok \<and> fst (get_principal_by_token h tok now s) = Some p \<and> p_active p \<and>
            \<not> refuse_admin_on_public cfg rq p \<and> (p_is_admin p \<or> \<not> cfg_require_auth cfg \<and> loopback_bind cfg)) \<or>
         (\<not> cfg_require_auth cfg \<and> cfg_api_token cfg \<noteq> '''' \<and> bearer rq = Some (cfg_api_token cfg)) \<or>
         (\<not> cfg_require_auth cfg \<and> loopback_bind cfg \<and> cfg_api_token cfg = '''' \<and> bearer rq = None)"
proof -
  have d: "dispatch h cfg rq now s = (Pass q src, snd (dispatch h cfg rq now s))" using assms(2) by (simp add: prod_eq_iff)
  show ?thesis
  proof (cases "cfg_require_auth cfg")
    case True
    with d assms(1) have "enforce h cfg rq now s = (Pass q src, snd (dispatch h cfg rq now s))" by (simp add: dispatch_def)
    from enforce_Pass [OF this] True assms(3) show ?thesis
      by (fastforce simp: admin_or_open_def require_admin_def require_principal_def split: if_splits)
  next
    case False
    with d assms(1) have "enrich h cfg rq now s = (Pass q src, snd (dispatch h cfg rq now s))" by (simp add: dispatch_def)
    from enrich_Pass [OF this] show ?thesis
    proof (elim disjE exE conjE)
      fix p tok
      assume "q = Some p" "bearer rq = Some tok" "p_active p" "fst (get_principal_by_token h tok now s) = Some p"
        "\<not> refuse_admin_on_public cfg rq p" "src = ViaPrincipal"
      moreover from this False assms(3) have "p_is_admin p \<or> loopback_bind cfg"
        by (auto simp: admin_or_open_def split: if_splits)
      ultimately show ?thesis using False by blast
    qed (use False assms(3) in \<open>auto simp: admin_or_open_def split: if_splits\<close>)
  qed
qed

text \<open>C2. Who may change the registers, in every configuration: a request that changes who may log in
  and with which rights, a rename, a role or a signal key carries the token of an active principal, who is an admin
  that did not come through the public edge or, where logins are not enforced and the server listens on a loopback
  address only, anybody; or, where logins are not enforced, the operator's own token; or
  no token at all, and then logins are not enforced, the server listens on a loopback address only, and the operator
  has set no token.\<close>

theorem registers_change_only_by_admins:
  assumes "registers (snd (serve ev authorization h c now s)) \<noteq> registers s"
  shows "(\<exists>p tok. bearer (request_for authorization h c) = Some tok \<and>
        fst (get_principal_by_token (ev_hash ev) tok now s) = Some p \<and> p_active p \<and>
        (p_is_admin p \<and> (cfg_public_proxy_header (ev_cfg ev) = '''' \<or>
           or_empty (map_of h (py_lower (cfg_public_proxy_header (ev_cfg ev)))) = '''') \<or>
         \<not> p_is_admin p \<and> \<not> cfg_require_auth (ev_cfg ev) \<and> loopback_bind (ev_cfg ev))) \<or>
     (\<not> cfg_require_auth (ev_cfg ev) \<and> cfg_api_token (ev_cfg ev) \<noteq> '''' \<and>
        bearer (request_for authorization h c) = Some (cfg_api_token (ev_cfg ev))) \<or>
     (\<not> cfg_require_auth (ev_cfg ev) \<and> loopback_bind (ev_cfg ev) \<and> cfg_api_token (ev_cfg ev) = '''' \<and>
        bearer (request_for authorization h c) = None)"
proof -
  let ?rq = "request_for authorization h c"
  let ?d = "dispatch (ev_hash ev) (ev_cfg ev) ?rq now s"
  have r: "registers (snd ?d) = registers s" using ordinary_dispatch [of s "ev_hash ev" "ev_cfg ev" ?rq now]
    by (simp add: ordinary_def)
  with assms obtain q src where q: "fst ?d = Pass q src"
    and n: "registers (snd (handle ev h q src c now (snd ?d))) \<noteq> registers (snd ?d)"
    by (auto simp: serve_unfold split: passage.splits)
  from handle_registers [of ev h q src c now "snd ?d"] n obtain who where "admin_or_open (ev_cfg ev) q src = Inr who" by blast
  from dispatch_admin [OF registers_call [OF n] q this] show ?thesis
    unfolding refuse_admin_on_public_def by (auto simp: request_for_def)
qed

theorem registers_change_only_by_admins_witness:
  "\<exists>p. fst (get_principal_by_token demo_hashing ''root'' 5 started_demo) = Some p \<and> p_is_admin p"
proof -
  have a: "cfg_require_auth (ev_cfg demo_env)" by (simp add: demo_env_def)
  have ne: "address_roles (snd (serve demo_env ''Bearer root'' [] role_call 5 started_demo)) \<noteq> address_roles started_demo"
    by code_simp
  then have n: "registers (snd (serve demo_env ''Bearer root'' [] role_call 5 started_demo)) \<noteq> registers started_demo"
    by (auto simp: registers_def)
  have b: "bearer (request_for ''Bearer root'' [] role_call) = Some ''root''" by code_simp
  from registers_change_only_by_admins [OF n] a b show ?thesis by (auto simp: demo_env_def)
qed


text \<open>The guard on reserved scopes does not name the scope of the watches: the generic delete removes the
  row that says who holds a watch.\<close>

lemma watch_rows_are_not_reserved:
  "let s = empty_server\<lparr>memories := watch_demo\<rparr>;
       r = (demo_ref WATCH_SCOPE ''watch/engram-1'')\<lparr>rf_user_id := Some WATCH_USER_ID, rf_project := Some ''''\<rparr>;
       out = forget_memory default_settings None (r\<lparr>rf_namespace := cfg_primary_namespace default_settings\<rparr>) 9 s
   in length (memories s) = 1 \<and> memories (snd out) = []"
  by code_simp

section \<open>What an owner relay can do\<close>

text \<open>The registers and the audit log are as before, every row is there with its content, and what is
  new is mail.\<close>

definition only_mail_added :: "settings \<Rightarrow> server \<Rightarrow> server \<Rightarrow> bool" where
  "only_mail_added cfg s s' \<longleftrightarrow> registers s' = registers s \<and> audit_log s' = audit_log s \<and>
     (\<exists>new. map content (memories s') = map content (memories s) @ map content new \<and> list_all (inbox_row cfg) new)"

lemma only_mail_refl [simp, intro]: "only_mail_added cfg s s"
  by (simp add: only_mail_added_def exI [of _ "[]"])

lemma only_mail_trans [trans]:
  assumes "only_mail_added cfg s s'" and "only_mail_added cfg s' s''"
  shows "only_mail_added cfg s s''"
proof -
  obtain n n' where "map content (memories s') = map content (memories s) @ map content n" "list_all (inbox_row cfg) n"
    and "map content (memories s'') = map content (memories s') @ map content n'" "list_all (inbox_row cfg) n'"
    using assms by (auto simp: only_mail_added_def)
  then have "map content (memories s'') = map content (memories s) @ map content (n @ n')" "list_all (inbox_row cfg) (n @ n')"
    by simp_all
  with assms show ?thesis unfolding only_mail_added_def by metis
qed

lemma only_mail_same: "registers s' = registers s \<Longrightarrow> audit_log s' = audit_log s \<Longrightarrow>
    map content (memories s') = map content (memories s) \<Longrightarrow> only_mail_added cfg s s'"
  by (simp add: only_mail_added_def exI [of _ "[]"])

lemma only_mail_refresh [simp]: "only_mail_added cfg s (alias_refresh f now s)" "only_mail_added cfg s (role_refresh f now s)"
  by (rule only_mail_same; simp add: registers_def alias_refresh_def role_refresh_def)+

lemma only_mail_expand [simp]: "only_mail_added cfg s (snd (expand_listen_set now ls s))"
  using only_mail_trans [OF only_mail_refresh(1) only_mail_refresh(2)] by (simp add: expand_listen_set_def Let_def)

lemma update_content: "(\<And>r. content (f r) = content r) \<Longrightarrow> map content (sql_update P f t) = map content t"
  by (simp add: sql_update_def)

lemma send_copies_adds:
  "\<exists>new. map content (snd (send_copies cfg mk now ts first t)) = map content t @ map content new \<and> list_all (inbox_row cfg) new"
proof (induction ts arbitrary: first t)
  case Nil
  show ?case by (simp add: exI [of _ "[]"])
next
  case (Cons a ts)
  obtain to uuid where a: "a = (to, uuid)" by fastforce
  let ?r = "inbox_send cfg uuid (mk to first) now t"
  let ?row = "(letter_row cfg (''inbox/'' @ uuid) (mk to first) now)\<lparr>r_id := next_id t\<rparr>"
  have i: "inbox_row cfg ?row" by (simp add: inbox_row_def letter_row_def Let_def new_row_def)
  have "map content (snd ?r) = map content t \<or> map content (snd ?r) = map content t @ [content ?row]"
    by (auto simp: inbox_send_def Let_def sql_insert_def insert_do_nothing_def update_content split: option.split)
  with i obtain n where n: "map content (snd ?r) = map content t @ map content n" "list_all (inbox_row cfg) n"
    by (auto intro: exI [of _ "[]"] exI [of _ "[?row]"] that [of "[]"] that [of "[?row]"])
  obtain n' where n': "map content (snd (send_copies cfg mk now ts False (snd ?r))) = map content (snd ?r) @ map content n'"
    "list_all (inbox_row cfg) n'" using Cons.IH by blast
  have "snd (send_copies cfg mk now (a # ts) first t) = snd ?r \<or>
      snd (send_copies cfg mk now (a # ts) first t) = snd (send_copies cfg mk now ts False (snd ?r))"
    by (auto simp: a split_beta split: sum.split)
  then show ?case
  proof
    assume "snd (send_copies cfg mk now (a # ts) first t) = snd ?r"
    with n show ?case by metis
  next
    assume "snd (send_copies cfg mk now (a # ts) first t) = snd (send_copies cfg mk now ts False (snd ?r))"
    then have "map content (snd (send_copies cfg mk now (a # ts) first t)) = map content t @ map content (n @ n')"
      using n n' by simp
    moreover have "list_all (inbox_row cfg) (n @ n')" using n n' by simp
    ultimately show ?case by metis
  qed
qed

lemma only_mail_send: "only_mail_added cfg s (snd (send_inbox cfg h p r tid uuid now s))"
proof -
  let ?s = "alias_refresh False now s"
  have rows: "only_mail_added cfg s (?s\<lparr>memories := snd (send_copies cfg mk now ts first (memories s))\<rparr>)" for mk ts first
    using only_mail_refresh(1) [of cfg s False now] send_copies_adds [of cfg mk now ts first "memories s"]
    by (simp add: only_mail_added_def registers_def)
  have cost: "only_mail_added cfg x (snd (send_cost_facts cfg rs sender intent ids th now x))" for x rs sender intent ids th
    using only_mail_trans [OF only_mail_refresh(1) only_mail_refresh(2)] by (simp add: send_cost_facts_def Let_def)
  have none: "only_mail_added cfg s (?s\<lparr>memories := memories s\<rparr>)" using rows [where ts = "[]"] by simp
  show ?thesis using rows none only_mail_trans [OF rows cost] only_mail_trans [OF none cost]
    by (auto simp: send_inbox_def Let_def split_beta split: sum.split)
qed

lemma only_mail_list: "only_mail_added cfg s (snd (inbox_list cfg ls reader q now s))"
proof -
  have m: "only_mail_added cfg x (x\<lparr>memories := mark_delivered ms rd (memories x)\<rparr>)" for x ms rd
    by (rule only_mail_same) (simp_all add: registers_def mark_delivered_content)
  show ?thesis using only_mail_trans [OF only_mail_expand m]
    by (simp add: inbox_list_def Let_def split_beta)
qed

lemma only_mail_lifecycle:
  "(\<And>t. map content (snd (f t)) = map content t) \<Longrightarrow> only_mail_added cfg s (snd (lifecycle cfg p f s))"
  by (auto simp: lifecycle_def Let_def split_beta registers_def intro!: only_mail_same split: sum.split)

lemma only_mail_relay_calls:
  "only_mail_added cfg s (snd (list_inbox cfg p lr now s))"
  "only_mail_added cfg s (snd (ack_inbox cfg p i reader s))"
  "only_mail_added cfg s (snd (resolve_inbox cfg p i reader now s))"
proof -
  have "only_mail_added cfg x (snd (inbox_counts cfg ls now x))" for x ls
    by (simp add: inbox_counts_def Let_def split_beta)
  from only_mail_trans [OF only_mail_list this]
  show "only_mail_added cfg s (snd (list_inbox cfg p lr now s))"
    by (auto simp: list_inbox_def Let_def split_beta split: sum.split)
  show "only_mail_added cfg s (snd (ack_inbox cfg p i reader s))"
    unfolding ack_inbox_def by (rule only_mail_lifecycle) (simp add: inbox_ack_def update_content)
  show "only_mail_added cfg s (snd (resolve_inbox cfg p i reader now s))"
    unfolding resolve_inbox_def by (rule only_mail_lifecycle) (simp add: inbox_resolve_def update_content)
qed

lemma only_mail_signal_poll: "only_mail_added cfg s (snd (mail_signal_poll sha cfg key now s))"
proof -
  have r: "only_mail_added cfg s (snd (rate_limited k now s))" for k
    by (auto simp: rate_limited_def registers_def intro!: only_mail_same split: option.split)
  have "signal_grant (polled now r) = signal_grant r" for r by (simp add: signal_grant_def polled_def)
  then have l: "only_mail_added cfg x (snd (lookup_signal sha k now x))" for k x
    by (auto simp: lookup_signal_def registers_def intro!: only_mail_same)
  have st: "only_mail_added cfg x (snd (signal_state sha cfg a now x))" for a x
    by (simp add: signal_state_def Let_def)
  show ?thesis
    using r only_mail_trans [OF r l] only_mail_trans [OF only_mail_trans [OF r l] st]
    by (auto simp: mail_signal_poll_def Let_def split_beta split: option.split bool.split)
qed

lemma only_mail_dispatch: "only_mail_added cfg s (snd (dispatch hs cfg' rq now s))"
proof -
  have rem: "memories (remember_verified lk hd n x) = memories x \<and> audit_log (remember_verified lk hd n x) = audit_log x"
    for lk hd n x by (simp add: remember_verified_def Let_def)
  have t: "only_mail_added cfg s (snd (get_principal_by_token hs raw now s))" for raw
  proof (rule only_mail_same)
    show "registers (snd (get_principal_by_token hs raw now s)) = registers s"
      using ordinary_token [of s hs raw now] by (simp add: ordinary_def)
  qed (simp_all add: get_principal_by_token_def Let_def rem split: option.split)
  show ?thesis by (simp add: dispatch_def enforce_def enrich_def split_beta t split: option.split)
qed

text \<open>Whether logins are enforced or not, a token of a relay passes the middleware on the routes of
  a relay and on the exempt ones only.\<close>

lemma relay_is_fenced:
  assumes "bearer rq = Some tok" and "fst (get_principal_by_token h tok now s) = Some p" and "is_owner_relay cfg (Some p)"
    and "\<not> relay_route_allowed (rq_method rq) (rq_path rq)" and "\<not> exempt_path rq"
  shows "fst (dispatch h cfg rq now s) = Refuse 403"
  using assms
  by (cases "get_principal_by_token h tok now s")
    (simp add: dispatch_def enforce_def enrich_def admit_def fence_owner_relay_def)

text \<open>C3. A relay that acts for the owner only carries mail. Whatever request its token makes, and whether
  logins are enforced or not, the registers and the audit log stay as they are, no row is deleted, moved or
  given other content, and the only rows added are messages of the inbox.\<close>

theorem owner_relay_only_adds_mail:
  assumes "bearer (request_for authorization h c) = Some tok"
    and "fst (get_principal_by_token (ev_hash ev) tok now s) = Some p" and "is_owner_relay (ev_cfg ev) (Some p)"
  shows "only_mail_added (ev_cfg ev) s (snd (serve ev authorization h c now s))"
proof -
  let ?cfg = "ev_cfg ev"
  let ?rq = "request_for authorization h c"
  let ?d = "dispatch (ev_hash ev) ?cfg ?rq now s"
  have d: "only_mail_added ?cfg s (snd ?d)" by (rule only_mail_dispatch)
  show ?thesis
  proof (cases "relay_route_allowed (fst (route c)) (snd (route c)) \<or> exempt_path ?rq")
    case False
    then have "fst ?d = Refuse 403" by (intro relay_is_fenced [OF assms]) (simp_all add: request_for_def)
    with d show ?thesis by (simp add: serve_unfold)
  next
    case True
    have s: "only_mail_added ?cfg x (snd (parsed pr x f))" if "\<And>r. only_mail_added ?cfg x (snd (f r x))"
      for x and pr :: "'c res" and f :: "'c \<Rightarrow> server \<Rightarrow> 'd res \<times> server"
      using that by (simp add: parsed_def split: sum.split)
    have "only_mail_added ?cfg x (snd (handle ev h q src c now x))" for x q src
      using relay_routes [OF True]
      by (auto simp: handle_def serve_mail_def Let_def only_mail_relay_calls only_mail_signal_poll
          intro!: s only_mail_send)
    then have "only_mail_added ?cfg s (snd (handle ev h q src c now (snd ?d)))" for q src
      by (rule only_mail_trans [OF d])
    with d show ?thesis by (simp add: serve_unfold split: passage.split)
  qed
qed

definition relay_env :: "int env" where
  "relay_env = demo_env\<lparr>ev_cfg := default_settings\<lparr>cfg_require_auth := True, cfg_owner_principal_name := ''dana'',
     cfg_owner_relay_principals := ''codex''\<rparr>\<rparr>"

definition relay_call :: api_call where
  "relay_call = MailCall (AckInbox ''inbox/0'' ''codex'')"

definition relay_demo :: server where
  "relay_demo = agent_demo\<lparr>memories := [(new_row ''fleet'' ''inbox/0'' ''body'' ''inbox'' ''dana'' None 1)\<lparr>r_metadata := Some []\<rparr>]\<rparr>"

theorem owner_relay_only_adds_mail_witness:
  "let s = snd (serve relay_env ''Bearer engram_r1'' [] relay_call 5 relay_demo)
   in only_mail_added (ev_cfg relay_env) relay_demo s \<and> map (\<lambda>r. jget (md r) ''read_by'') (memories s) = [Some (JArr [JStr ''codex''])]"
proof -
  let ?s = "snd (serve relay_env ''Bearer engram_r1'' [] relay_call 5 relay_demo)"
  have b: "bearer (request_for ''Bearer engram_r1'' [] relay_call) = Some ''engram_r1''" by code_simp
  have h: "ev_hash relay_env = demo_hashing" by (simp add: relay_env_def demo_env_def)
  have c: "fst (get_principal_by_token (ev_hash relay_env) ''engram_r1'' 5 relay_demo) = Some (hd (principals relay_demo))"
    unfolding h by code_simp
  have d: "is_owner_relay (ev_cfg relay_env) (Some (hd (principals relay_demo)))" by code_simp
  have k: "map (\<lambda>r. jget (md r) ''read_by'') (memories ?s) = [Some (JArr [JStr ''codex''])]" by code_simp
  show ?thesis using owner_relay_only_adds_mail [OF b c d] k by (simp only: Let_def simp_thms)
qed

end
