(* ===== verification/Bridge_Scoping.thy ===== *)
theory Bridge_Scoping
  imports Identity "HOL-Library.AList"
begin

text \<open>
  \<^verbatim>\<open>engram_mcp/scoping.py\<close> of the command line bridge: which project a working directory belongs
  to, read from the nearest configuration file above it, and the partition (scope, user, project)
  a memory call goes to. The path functions are those of \<^verbatim>\<open>posixpath\<close>. The file system is an
  association list from paths to contents, \<open>None\<close> for a file that cannot be read; the home
  directory, the host name and the working directory of the process are arguments.
\<close>

section \<open>Paths\<close>

abbreviation sep :: char where "sep \<equiv> CHR ''/''"

definition isabs :: "string \<Rightarrow> bool" where
  "isabs p \<longleftrightarrow> startswith p ''/''"

definition rstrip_char :: "char \<Rightarrow> string \<Rightarrow> string" where
  "rstrip_char c s = rev (dropWhile (\<lambda>x. x = c) (rev s))"

definition strip_char :: "char \<Rightarrow> string \<Rightarrow> string" where
  "strip_char c s = rstrip_char c (dropWhile (\<lambda>x. x = c) s)"

text \<open>Everything up to and including the last separator, and everything after it.\<close>

definition head_of :: "string \<Rightarrow> string" where
  "head_of p = rev (dropWhile (\<lambda>x. x \<noteq> sep) (rev p))"

definition basename :: "string \<Rightarrow> string" where
  "basename p = rev (takeWhile (\<lambda>x. x \<noteq> sep) (rev p))"

definition dirname :: "string \<Rightarrow> string" where
  "dirname p = (let h = head_of p in if list_all (\<lambda>x. x = sep) h then h else rstrip_char sep h)"

definition path_join :: "string \<Rightarrow> string \<Rightarrow> string" where
  "path_join a b =
     (if startswith b ''/'' then b else if a = '''' \<or> endswith a ''/'' then a @ b else a @ ''/'' @ b)"

fun intersperse_sep :: "string list \<Rightarrow> string" where
  "intersperse_sep [] = ''''"
| "intersperse_sep [x] = x"
| "intersperse_sep (x # xs) = x @ ''/'' @ intersperse_sep xs"

text \<open>One component of \<^verbatim>\<open>normpath\<close>; the accumulator is reversed.\<close>

definition norm_comp :: "nat \<Rightarrow> string list \<Rightarrow> string \<Rightarrow> string list" where
  "norm_comp slashes acc part =
     (if part = '''' \<or> part = ''.'' then acc
      else if part \<noteq> ''..'' \<or> (slashes = 0 \<and> acc = []) \<or> (acc \<noteq> [] \<and> hd acc = ''..'') then part # acc
      else tl acc)"

definition initial_slashes :: "string \<Rightarrow> nat" where
  "initial_slashes p =
     (if startswith p ''//'' \<and> \<not> startswith p ''///'' then 2 else if startswith p ''/'' then 1 else 0)"

definition normpath :: "string \<Rightarrow> string" where
  "normpath p =
     (let n = initial_slashes p;
          q = replicate n sep @ intersperse_sep (rev (foldl (norm_comp n) [] (py_split sep p)))
      in if q = '''' then ''.'' else q)"

definition abspath :: "string \<Rightarrow> string \<Rightarrow> string" where
  "abspath cwd p = normpath (if isabs p then p else path_join cwd p)"

section \<open>Configuration files\<close>

type_synonym files = "(string \<times> string option) list"

definition isfile :: "files \<Rightarrow> string \<Rightarrow> bool" where
  "isfile fs p \<longleftrightarrow> p \<in> fst ` set fs"

definition PROJECT_CFG_FILENAME :: string where "PROJECT_CFG_FILENAME = ''.engram.cfg''"

definition PROJECT_CFG_READ_FILENAMES :: "string list" where
  "PROJECT_CFG_READ_FILENAMES = [''.tiding.cfg'', PROJECT_CFG_FILENAME]"

definition name_char :: "char \<Rightarrow> bool" where
  "name_char c \<longleftrightarrow> is_alnum c \<or> c \<in> {CHR ''.'', CHR ''_'', CHR ''-''}"

text \<open>\<^verbatim>\<open>^[A-Za-z0-9._-]+$\<close> below \<^verbatim>\<open>match\<close>: the end may be followed by one newline.\<close>

definition VALID_NAME :: "string \<Rightarrow> bool" where
  "VALID_NAME s =
     (let s' = (if s \<noteq> [] \<and> last s = CHR 0x0A then butlast s else s) in s' \<noteq> [] \<and> list_all name_char s')"

definition SENTINEL_NAMES :: "string list" where
  "SENTINEL_NAMES =
     [''prod'', ''dev'', ''staging'', ''main'', ''trunk'', ''current'', ''release'', ''live'',
      ''default'', ''changeme'', ''placeholder'', ''unset'', ''todo'', ''example'', ''template'']"

definition is_real_project_name :: "string option \<Rightarrow> bool" where
  "is_real_project_name name =
     (case Option.bind name or_none of None \<Rightarrow> False | Some n \<Rightarrow> py_lower n \<notin> set SENTINEL_NAMES)"

definition cfg_text :: "string \<Rightarrow> string" where
  "cfg_text name =
     ''# Canonical project identifier '' @ [CHR 0xE2, CHR 0x80, CHR 0x94] @
     '' git-tracked so every clone agrees on the name.'' @ [CHR 0x0A] @ ''project = '' @ name @ [CHR 0x0A]"

definition write_project_cfg :: "files \<Rightarrow> string \<Rightarrow> string \<Rightarrow> string res \<times> files" where
  "write_project_cfg fs directory name =
     (if \<not> VALID_NAME name then (Inl ValueError, fs)
      else let p = path_join directory PROJECT_CFG_FILENAME in (Inr p, AList.update p (Some (cfg_text name)) fs))"

text \<open>The lines of a text file; a carriage return ends a line too, and blank lines never count.\<close>

fun text_lines :: "string \<Rightarrow> string \<Rightarrow> string list" where
  "text_lines acc [] = [rev acc]"
| "text_lines acc (c # cs) =
     (if c = CHR 0x0A \<or> c = CHR 0x0D then rev acc # text_lines [] cs else text_lines (c # acc) cs)"

definition cfg_key :: "string \<Rightarrow> string" where
  "cfg_key line = py_lower (py_strip (before (CHR ''='') line))"

definition cfg_value :: "string \<Rightarrow> string" where
  "cfg_value line = strip_char (CHR 0x27) (strip_char (CHR 0x22) (py_strip (after (CHR ''='') line)))"

definition cfg_line :: "string \<Rightarrow> string \<Rightarrow> bool" where
  "cfg_line key line \<longleftrightarrow>
     line \<noteq> '''' \<and> \<not> startswith line ''#'' \<and> CHR ''='' \<in> set line \<and> cfg_key line = key"

definition parse_engram_cfg :: "files \<Rightarrow> string \<Rightarrow> string \<Rightarrow> bool \<Rightarrow> string option" where
  "parse_engram_cfg fs path key raw =
     (case Option.bind (map_of fs path) id of
        None \<Rightarrow> None
      | Some text \<Rightarrow>
          (case find (cfg_line key) (map py_strip (text_lines [] text)) of
             None \<Rightarrow> None
           | Some line \<Rightarrow> (let name = cfg_value line in if raw \<or> VALID_NAME name then Some name else None)))"

section \<open>The walk up\<close>

text \<open>The configuration files of one directory, in the order they are read.\<close>

definition cfgs_in :: "files \<Rightarrow> string \<Rightarrow> string list" where
  "cfgs_in fs d = filter (isfile fs) (map (path_join d) PROJECT_CFG_READ_FILENAMES)"

lemma length_rstrip_char: "length (rstrip_char c s) \<le> length s"
  by (simp add: rstrip_char_def) (metis length_dropWhile_le length_rev)

lemma length_head_of: "length (head_of p) \<le> length p"
  by (simp add: head_of_def) (metis length_dropWhile_le length_rev)

lemma dirname_shorter: "dirname p \<noteq> p \<Longrightarrow> length (dirname p) < length p"
proof -
  assume ne: "dirname p \<noteq> p"
  have le: "length (dirname p) \<le> length (head_of p)"
    by (simp add: dirname_def Let_def length_rstrip_char)
  have pre: "prefix (dirname p) p"
  proof -
    have "prefix (head_of p) p"
      unfolding head_of_def by (metis rev_swap suffix_dropWhile suffix_to_prefix)
    moreover have "prefix (rstrip_char sep h) h" for h
      unfolding rstrip_char_def by (metis rev_swap suffix_dropWhile suffix_to_prefix)
    ultimately show ?thesis by (auto simp: dirname_def Let_def intro: prefix_order.trans)
  qed
  with ne show ?thesis by (metis prefix_length_less strict_prefix_def)
qed

text \<open>The loops of \<^verbatim>\<open>_find_cfg_path\<close> and \<^verbatim>\<open>ensure_project_identity\<close> walk the same way; \<open>pick\<close> is what
  they do with the files of one directory, \<open>bound\<close> where the walk stops. The set of visited
  directories is kept as the code keeps it.\<close>

function walk_up ::
  "files \<Rightarrow> string \<Rightarrow> string \<Rightarrow> bool \<Rightarrow> (string list \<Rightarrow> 'a option) \<Rightarrow> string list \<Rightarrow> string \<Rightarrow> 'a option" where
  "walk_up fs home start below pick seen current =
     (if current = '''' \<or> current \<in> set seen then None
      else case (if current \<noteq> home \<or> start = home then pick (cfgs_in fs current) else None) of
             Some x \<Rightarrow> Some x
           | None \<Rightarrow>
               if below \<and> current = path_join home ''projects'' \<or> current = home \<or> dirname current = current then None
               else walk_up fs home start below pick (current # seen) (dirname current))"
  by pat_completeness auto

termination
  by (relation "measure (\<lambda>(_, _, _, _, _, _, current). length current)") (auto intro: dirname_shorter)

definition find_cfg_path :: "files \<Rightarrow> string \<Rightarrow> string option \<Rightarrow> string option" where
  "find_cfg_path fs home project_dir =
     (case Option.bind project_dir or_none of
        None \<Rightarrow> None
      | Some d \<Rightarrow>
          if \<not> isabs d then None
          else let p = abspath '''' d; root = path_join home ''projects'';
                   below = (p = root \<or> startswith p (root @ ''/''))
               in walk_up fs home p below (\<lambda>cs. case cs of [] \<Rightarrow> None | c # _ \<Rightarrow> Some c) [] p)"

definition resolve_project_name :: "files \<Rightarrow> string \<Rightarrow> string option \<Rightarrow> string option" where
  "resolve_project_name fs home project_dir =
     (case find_cfg_path fs home project_dir of
        None \<Rightarrow> None
      | Some path \<Rightarrow> (let n = parse_engram_cfg fs path ''project'' False
                     in if is_real_project_name n then n else None))"

definition resolve_inbox_identity :: "files \<Rightarrow> string \<Rightarrow> string option \<Rightarrow> string option" where
  "resolve_inbox_identity fs home project_dir =
     Option.bind (find_cfg_path fs home project_dir) (\<lambda>path. parse_engram_cfg fs path ''inbox_identity'' False)"

definition add_group :: "string list \<Rightarrow> string \<Rightarrow> string list" where
  "add_group out entry0 =
     (let entry = py_lower (py_strip entry0)
      in if entry \<noteq> '''' \<and> \<not> startswith entry ''#'' \<and> VALID_NAME entry \<and> entry \<notin> set out then out @ [entry] else out)"

definition resolve_inbox_groups :: "files \<Rightarrow> string \<Rightarrow> string option \<Rightarrow> string list" where
  "resolve_inbox_groups fs home project_dir =
     foldl add_group [] (py_split (CHR '','')
       (or_empty (Option.bind (find_cfg_path fs home project_dir) (\<lambda>path. parse_engram_cfg fs path ''groups'' True))))"

text \<open>\<^verbatim>\<open>AmbiguousIdentity\<close> carries the directory and the name to suggest.\<close>

datatype ambiguous = AmbiguousIdentity string string

definition suggested :: "string \<Rightarrow> string" where
  "suggested p = (let b = basename p in if is_real_project_name (Some b) then b else '''')"

definition first_real :: "files \<Rightarrow> string list \<Rightarrow> string option" where
  "first_real fs cs =
     Option.bind (find (\<lambda>c. is_real_project_name (parse_engram_cfg fs c ''project'' False)) cs)
       (\<lambda>c. parse_engram_cfg fs c ''project'' False)"

definition ensure_project_identity ::
  "files \<Rightarrow> string \<Rightarrow> string option \<Rightarrow> (ambiguous + string) \<times> files" where
  "ensure_project_identity fs home project_dir =
     (let d = or_empty project_dir
      in if d = '''' \<or> \<not> isabs d then (Inl (AmbiguousIdentity d (suggested d)), fs)
         else let p = abspath '''' d; root = path_join home ''projects''
              in if p = home
                 then (Inr ''admin'',
                       if isfile fs (path_join home PROJECT_CFG_FILENAME) then fs
                       else snd (write_project_cfg fs home ''admin''))
                 else case walk_up fs home p (startswith p (root @ ''/'')) (first_real fs) [] p of
                        Some n \<Rightarrow> (Inr n, fs)
                      | None \<Rightarrow> (Inl (AmbiguousIdentity p (suggested p)), fs))"

section \<open>Partitions\<close>

definition short_hostname :: "string \<Rightarrow> string" where
  "short_hostname h = py_lower (before (CHR ''.'') h)"

definition declared_or_base :: "files \<Rightarrow> string \<Rightarrow> string \<Rightarrow> string option \<Rightarrow> string" where
  "declared_or_base fs home cwd project_dir =
     (case Option.bind (resolve_project_name fs home project_dir) or_none of
        Some n \<Rightarrow> n
      | None \<Rightarrow> (case Option.bind project_dir or_none of Some d \<Rightarrow> basename d | None \<Rightarrow> basename cwd))"

definition resolve_scope_and_user_id ::
  "files \<Rightarrow> string \<Rightarrow> string \<Rightarrow> string \<Rightarrow> string option \<Rightarrow> string \<Rightarrow> string option \<Rightarrow> string \<times> string" where
  "resolve_scope_and_user_id fs home cwd host scope default_scope project_dir =
     (let sc = (case Option.bind scope or_none of None \<Rightarrow> default_scope | Some x \<Rightarrow> x)
      in if sc = ''machine'' then (''machine'', short_hostname host)
         else if sc = ''shared'' then (''shared'', ''global'')
         else if sc = ''project'' then (''project'', declared_or_base fs home cwd project_dir)
         else (sc, sc))"

definition resolve_partition ::
  "files \<Rightarrow> string \<Rightarrow> string \<Rightarrow> string \<Rightarrow> string option \<Rightarrow> string \<Rightarrow> string option \<Rightarrow> string option
     \<Rightarrow> string \<times> string \<times> string option" where
  "resolve_partition fs home cwd host scope default_scope project_dir principal_name =
     (let sc = (case Option.bind scope or_none of None \<Rightarrow> default_scope | Some x \<Rightarrow> x)
      in if sc = ''machine'' then (''machine'', short_hostname host, None)
         else if sc = ''shared'' then (''shared'', ''global'', None)
         else if sc = ''project''
         then (''project'', (case Option.bind principal_name or_none of None \<Rightarrow> ''unknown'' | Some n \<Rightarrow> n),
               Some (declared_or_base fs home cwd project_dir))
         else (sc, sc, None))"

section \<open>Lemmas on paths\<close>

lemma rstrip_char_append:
  "rstrip_char c (a @ b) = (if list_all (\<lambda>x. x = c) b then rstrip_char c a else a @ rstrip_char c b)"
  by (auto simp: rstrip_char_def dropWhile_append list_all_iff)

lemma rstrip_char_id: "s \<noteq> [] \<Longrightarrow> last s \<noteq> c \<Longrightarrow> rstrip_char c s = s"
  by (cases s rule: rev_cases) (simp_all add: rstrip_char_def)

lemma head_of_below: "head_of (a @ sep # r) = a @ sep # head_of r"
  by (simp add: head_of_def dropWhile_append)

text \<open>Below the home directory the walk stays there until it reaches it.\<close>

lemma dirname_below:
  assumes "startswith p (home @ ''/'')" and "home \<noteq> []" and "last home \<noteq> sep"
  shows "dirname p = home \<or> startswith (dirname p) (home @ ''/'')"
proof -
  obtain r where p: "p = home @ sep # r" using assms(1) by (auto simp: startswith_def prefix_def)
  have "\<not> list_all (\<lambda>x. x = sep) (home @ sep # head_of r)"
    using assms(3) last_in_set [OF assms(2)] unfolding list_all_iff set_append by blast
  then have d: "dirname p = rstrip_char sep (home @ sep # head_of r)"
    unfolding dirname_def p head_of_below Let_def by (simp only: if_False)
  show ?thesis
  proof (cases "list_all (\<lambda>x. x = sep) (head_of r)")
    case True
    then show ?thesis using d assms(2,3) by (simp add: rstrip_char_append rstrip_char_id)
  next
    case False
    then have "dirname p = (home @ [sep]) @ rstrip_char sep (head_of r)"
      using d rstrip_char_append [of sep "home @ [sep]" "head_of r"] by simp
    then show ?thesis by (simp add: startswith_def)
  qed
qed

text \<open>The directories above a path, itself first.\<close>

function ancestors :: "string \<Rightarrow> string list" where
  "ancestors p = p # (if dirname p = p then [] else ancestors (dirname p))"
  by pat_completeness auto

termination
  by (relation "measure length") (auto intro: dirname_shorter)

declare walk_up.simps [simp del] ancestors.simps [simp del]

lemma walk_up_seen:
  "(\<And>s. s \<in> set seen \<Longrightarrow> length current < length s) \<Longrightarrow>
   walk_up fs home start below pick seen current = walk_up fs home start below pick [] current"
proof (induction "length current" arbitrary: seen current rule: less_induct)
  case less
  have not_seen: "current \<notin> set seen" using less.prems by blast
  show ?case
  proof (cases "dirname current = current")
    case True
    then show ?thesis using not_seen by (simp add: walk_up.simps [of _ _ _ _ _ _ current])
  next
    case False
    then have l: "length (dirname current) < length current" by (rule dirname_shorter)
    have "walk_up fs home start below pick (current # seen) (dirname current) =
        walk_up fs home start below pick [] (dirname current)"
      using less.hyps [OF l, of "current # seen"] less.prems l by fastforce
    moreover have "walk_up fs home start below pick [current] (dirname current) =
        walk_up fs home start below pick [] (dirname current)"
      using less.hyps [OF l, of "[current]"] l by fastforce
    ultimately show ?thesis
      unfolding walk_up.simps [of _ _ _ _ _ seen current] walk_up.simps [of _ _ _ _ _ "[]" current]
      by (simp only: list.set empty_iff simp_thms not_seen)
  qed
qed

text \<open>The walk without its set of visited directories.\<close>

lemma walk_up_step:
  "walk_up fs home start below pick [] current =
     (if current = '''' then None
      else case (if current \<noteq> home \<or> start = home then pick (cfgs_in fs current) else None) of
             Some x \<Rightarrow> Some x
           | None \<Rightarrow>
               if below \<and> current = path_join home ''projects'' \<or> current = home \<or> dirname current = current then None
               else walk_up fs home start below pick [] (dirname current))"
proof (cases "dirname current = current")
  case False
  then have "walk_up fs home start below pick [current] (dirname current) =
      walk_up fs home start below pick [] (dirname current)"
    by (intro walk_up_seen) (simp add: dirname_shorter)
  then show ?thesis
    by (subst walk_up.simps) (simp only: list.set empty_iff simp_thms)
qed (simp add: walk_up.simps [of _ _ _ _ _ "[]" current])

lemma walk_up_induct [case_names step]:
  assumes "\<And>current. (dirname current \<noteq> current \<Longrightarrow> P (dirname current)) \<Longrightarrow> P current"
  shows "P current"
  by (induction "length current" arbitrary: current rule: less_induct) (use assms dirname_shorter in blast)

text \<open>What the walk finds is on the way up, nothing on the way there had anything to pick, and the
  home directory counts only for a walk that starts there.\<close>

lemma walk_up_found:
  assumes "walk_up fs home start below pick [] current = Some x"
  shows "\<exists>way d rest. ancestors current = way @ d # rest \<and> pick (cfgs_in fs d) = Some x \<and>
    (d = home \<longrightarrow> start = home) \<and> home \<notin> set way \<and> (\<forall>e \<in> set way. pick (cfgs_in fs e) = None)"
  using assms
proof (induction current rule: walk_up_induct)
  case (step current)
  let ?here = "if current \<noteq> home \<or> start = home then pick (cfgs_in fs current) else None"
  show ?case
  proof (cases ?here)
    case (Some y)
    then have "y = x" using step.prems by (simp add: walk_up_step [of _ _ _ _ _ current] split: if_splits)
    moreover have "ancestors current = [] @ current # tl (ancestors current)" by (simp add: ancestors.simps [of current])
    moreover from Some have "pick (cfgs_in fs current) = Some y" "current = home \<longrightarrow> start = home"
      by (auto split: if_splits)
    ultimately show ?thesis by (metis empty_iff list.set(1))
  next
    case None
    then have go: "walk_up fs home start below pick [] (dirname current) = Some x"
        "current \<noteq> home" "dirname current \<noteq> current"
      using step.prems by (auto simp: walk_up_step [of _ _ _ _ _ current] split: if_splits)
    with step.IH obtain way d rest where r: "ancestors (dirname current) = way @ d # rest" "pick (cfgs_in fs d) = Some x"
      "d = home \<longrightarrow> start = home" "home \<notin> set way" "\<forall>e \<in> set way. pick (cfgs_in fs e) = None" by blast
    have "ancestors current = (current # way) @ d # rest" using r(1) go(3) by (simp add: ancestors.simps [of current])
    moreover have "pick (cfgs_in fs current) = None" using None go(2) by simp
    ultimately have "ancestors current = (current # way) @ d # rest \<and> pick (cfgs_in fs d) = Some x \<and>
        (d = home \<longrightarrow> start = home) \<and> home \<notin> set (current # way) \<and> (\<forall>e \<in> set (current # way). pick (cfgs_in fs e) = None)"
      using r go(2) by simp
    then show ?thesis by blast
  qed
qed

lemma ancestors_below:
  assumes "startswith p (home @ ''/'')" and "home \<noteq> []" and "last home \<noteq> sep"
    and "ancestors p = way @ d # rest" and "home \<notin> set way"
  shows "d = home \<or> startswith d (home @ ''/'')"
  using assms
proof (induction p arbitrary: way rule: walk_up_induct)
  case (step p)
  show ?case
  proof (cases way)
    case Nil
    with step.prems show ?thesis by (simp add: ancestors.simps [of p])
  next
    case (Cons e way')
    then have e: "dirname p \<noteq> p" "ancestors (dirname p) = way' @ d # rest"
      using step.prems(4) by (auto simp: ancestors.simps [of p] split: if_splits)
    from dirname_below [OF step.prems(1-3)] show ?thesis
    proof
      assume h: "dirname p = home"
      then have "way' = []" using e(2) step.prems(5) Cons by (cases way') (auto simp: ancestors.simps [of home])
      then show ?thesis using e(2) h by (simp add: ancestors.simps [of home])
    next
      assume "startswith (dirname p) (home @ ''/'')"
      from step.IH [OF e(1) this step.prems(2,3) e(2)] Cons step.prems(5) show ?thesis by simp
    qed
  qed
qed


text \<open>A walk that takes the first file anywhere, compared with the walk that takes the first file
  with a real name.\<close>

abbreviation first_file :: "string list \<Rightarrow> string option" where
  "first_file cs \<equiv> (case cs of [] \<Rightarrow> None | c # _ \<Rightarrow> Some c)"

lemma first_real_follows:
  assumes "walk_up fs home start below first_file [] current = Some c"
    and "is_real_project_name (parse_engram_cfg fs c ''project'' False)" and "below' \<longrightarrow> below"
  shows "walk_up fs home start below' (first_real fs) [] current = parse_engram_cfg fs c ''project'' False"
  using assms(1)
proof (induction current rule: walk_up_induct)
  case (step current)
  obtain n where n: "parse_engram_cfg fs c ''project'' False = Some n"
    using assms(2) by (cases "parse_engram_cfg fs c ''project'' False") (auto simp: is_real_project_name_def)
  show ?case
  proof (cases "cfgs_in fs current")
    case Nil
    then show ?thesis
      using step assms(3) by (auto simp: walk_up_step [of _ _ _ _ _ current] first_real_def split: if_splits)
  next
    case (Cons a cs)
    then have "current \<noteq> home \<or> start = home \<Longrightarrow> a = c \<and> current \<noteq> ''''"
      using step.prems by (auto simp: walk_up_step [of _ _ _ _ _ current] split: if_splits)
    moreover have "current \<noteq> home \<or> start = home"
      using step.prems by (auto simp: walk_up_step [of _ _ _ _ _ current] split: if_splits)
    ultimately show ?thesis
      using Cons assms(2) n by (auto simp: walk_up_step [of _ _ _ _ _ current] first_real_def)
  qed
qed

section \<open>Properties\<close>

text \<open>Identity comes from the nearest configuration file and never leaks down from the home
  directory. The file a directory is resolved to lies on the way up from it; no directory passed
  on the way has a configuration file or is the home directory; the file of the home directory
  counts only for a session started there; and from below the home directory the walk never
  reaches a file outside of it.\<close>

theorem configuration_is_the_nearest:
  assumes "find_cfg_path fs home (Some dir) = Some c" and "home \<noteq> ''''" and "last home \<noteq> sep"
  shows "\<exists>way d rest. ancestors (abspath '''' dir) = way @ d # rest \<and>
    (\<exists>f \<in> set PROJECT_CFG_READ_FILENAMES. c = path_join d f) \<and> isfile fs c \<and>
    (\<forall>e \<in> set way. cfgs_in fs e = [] \<and> e \<noteq> home) \<and> (d = home \<longrightarrow> abspath '''' dir = home) \<and>
    (startswith (abspath '''' dir) (home @ ''/'') \<longrightarrow> startswith d (home @ ''/''))"
proof -
  let ?p = "abspath '''' dir"
  from assms(1) obtain b where "walk_up fs home ?p b first_file [] ?p = Some c"
    by (auto simp: find_cfg_path_def Let_def bind_eq_Some_conv or_none_def split: if_splits option.splits)
  from walk_up_found [OF this] obtain way d rest where w: "ancestors ?p = way @ d # rest"
    "first_file (cfgs_in fs d) = Some c" "d = home \<longrightarrow> ?p = home" "home \<notin> set way"
    "\<forall>e \<in> set way. first_file (cfgs_in fs e) = None" by blast
  have c: "c \<in> set (cfgs_in fs d)" using w(2) by (auto split: list.splits)
  have "cfgs_in fs e = [] \<and> e \<noteq> home" if "e \<in> set way" for e
    using w(4,5) that by (cases "cfgs_in fs e") auto
  then have "\<forall>e \<in> set way. cfgs_in fs e = [] \<and> e \<noteq> home" by blast
  moreover have "startswith d (home @ ''/'')" if s: "startswith ?p (home @ ''/'')"
  proof -
    have "?p \<noteq> home" using s by (auto simp: startswith_def prefix_def)
    with ancestors_below [OF s assms(2,3) w(1,4)] w(3) show ?thesis by blast
  qed
  ultimately show ?thesis using w(1,3) c by (auto simp: cfgs_in_def)
qed

text \<open>The gate and the bucket agree on every declared name. Whenever the lenient resolver reads
  a real project name for a directory, the strict one admits the same name without asking and
  without writing a file; the memory of a project call then goes to the bucket of that name.\<close>

theorem resolvers_agree_on_declared_names:
  assumes "resolve_project_name fs home (Some dir) = Some n" and "abspath '''' dir \<noteq> home"
  shows "ensure_project_identity fs home (Some dir) = (Inr n, fs) \<and>
    snd (snd (resolve_partition fs home cwd host (Some ''project'') default_scope (Some dir) who)) = Some n"
proof -
  let ?p = "abspath '''' dir" and ?root = "path_join home ''projects''"
  from assms(1) obtain c where c: "find_cfg_path fs home (Some dir) = Some c"
      "parse_engram_cfg fs c ''project'' False = Some n" "is_real_project_name (Some n)"
    by (auto simp: resolve_project_name_def Let_def split: option.splits if_splits)
  have d: "dir \<noteq> ''''" "isabs dir"
      "walk_up fs home ?p (?p = ?root \<or> startswith ?p (?root @ ''/'')) first_file [] ?p = Some c"
    using c(1) by (auto simp: find_cfg_path_def Let_def bind_eq_Some_conv or_none_def split: if_splits option.splits)
  have "walk_up fs home ?p (startswith ?p (?root @ ''/'')) (first_real fs) [] ?p = Some n"
    using first_real_follows [OF d(3), of "startswith ?p (?root @ ''/'')"] c by simp
  moreover have "n \<noteq> ''''" using c(3) by (auto simp: is_real_project_name_def or_none_def)
  ultimately show ?thesis
    using assms d(1,2)
    by (simp add: ensure_project_identity_def resolve_partition_def declared_or_base_def or_empty_def or_none_def Let_def)
qed


definition demo_files :: files where
  "demo_files =
     [(''/home/u/projects/app/.engram.cfg'', Some ''project = app''),
      (''/home/u/projects/app/sub/.engram.cfg'', Some ''project = prod''),
      (''/home/u/.engram.cfg'', Some ''project = boss'')]"

theorem configuration_is_the_nearest_witness:
  "\<exists>way d rest. ancestors ''/home/u/projects/app/x'' = way @ d # rest \<and> startswith d ''/home/u/'' \<and>
     (\<forall>e \<in> set way. cfgs_in demo_files e = [] \<and> e \<noteq> ''/home/u'')"
proof -
  have c: "find_cfg_path demo_files ''/home/u'' (Some ''/home/u/projects/app/x'') = Some ''/home/u/projects/app/.engram.cfg''"
      "abspath '''' ''/home/u/projects/app/x'' = ''/home/u/projects/app/x''"
      "startswith ''/home/u/projects/app/x'' ''/home/u/''" by code_simp+
  from configuration_is_the_nearest [OF c(1), unfolded c(2)] c(3) show ?thesis by auto
qed

theorem resolvers_agree_on_declared_names_witness:
  "ensure_project_identity demo_files ''/home/u'' (Some ''/home/u/projects/app/x'') = (Inr ''app'', demo_files)"
proof -
  have "resolve_project_name demo_files ''/home/u'' (Some ''/home/u/projects/app/x'') = Some ''app''"
      "abspath '''' ''/home/u/projects/app/x'' \<noteq> ''/home/u''" by code_simp+
  from resolvers_agree_on_declared_names [OF this] show ?thesis by blast
qed

text \<open>The converse fails: below a configuration file that carries a deploy label the gate admits the
  name declared further up, while the call goes to a bucket named after the directory.\<close>

lemma gate_and_bucket_can_differ:
  "fst (ensure_project_identity demo_files ''/home/u'' (Some ''/home/u/projects/app/sub'')) = Inr ''app'' \<and>
   resolve_partition demo_files ''/home/u'' ''/'' ''box'' (Some ''project'') ''machine''
     (Some ''/home/u/projects/app/sub'') (Some ''codex'') = (''project'', ''codex'', Some ''sub'')"
  by code_simp

text \<open>In the home directory the gate answers \<open>admin\<close> whatever the file there declares.\<close>

lemma home_gate_ignores_the_file:
  "fst (ensure_project_identity demo_files ''/home/u'' (Some ''/home/u'')) = Inr ''admin'' \<and>
   resolve_project_name demo_files ''/home/u'' (Some ''/home/u'') = Some ''boss''"
  by code_simp

section \<open>Declaring a project\<close>

lemma name_char_plain: "name_char c \<Longrightarrow> \<not> is_space c \<and> c \<noteq> CHR 0x22 \<and> c \<noteq> CHR 0x27 \<and> c \<noteq> CHR 0x0A \<and> c \<noteq> CHR 0x0D"
  by (auto simp: name_char_def is_alnum_def is_space_def Let_def)

lemma strip_char_id: "c \<notin> set s \<Longrightarrow> strip_char c s = s"
proof -
  assume c: "c \<notin> set s"
  then have "dropWhile (\<lambda>x. x = c) s = s" "dropWhile (\<lambda>x. x = c) (rev s) = rev s"
    by (cases s; force) (use c in \<open>cases s rule: rev_cases; force\<close>)
  then show ?thesis by (simp add: strip_char_def rstrip_char_def)
qed

lemma py_strip_id: "s \<noteq> [] \<Longrightarrow> \<not> is_space (hd s) \<Longrightarrow> \<not> is_space (last s) \<Longrightarrow> py_strip s = s"
proof -
  assume s: "s \<noteq> []" "\<not> is_space (hd s)" "\<not> is_space (last s)"
  have "dropWhile is_space s = s" using s(1,2) by (cases s) simp_all
  moreover have "dropWhile is_space (rev s) = rev s" using s(1,3) by (cases s rule: rev_cases) simp_all
  ultimately show ?thesis by (simp add: py_strip_def py_lstrip_def py_rstrip_def)
qed

lemma text_lines_run:
  "list_all (\<lambda>c. c \<noteq> CHR 0x0A \<and> c \<noteq> CHR 0x0D) s \<Longrightarrow> text_lines acc (s @ CHR 0x0A # t) = (rev acc @ s) # text_lines [] t"
  by (induction s arbitrary: acc) auto

lemma plain_name:
  assumes "VALID_NAME name" and "last name \<noteq> CHR 0x0A"
  shows "name \<noteq> []" and "list_all name_char name"
  using assms by (auto simp: VALID_NAME_def Let_def split: if_splits)

lemma parse_written:
  assumes "VALID_NAME name" and "last name \<noteq> CHR 0x0A" and "map_of fs path = Some (Some (cfg_text name))"
  shows "parse_engram_cfg fs path ''project'' False = Some name"
proof -
  note n = plain_name [OF assms(1,2)]
  then have np: "\<And>c. c \<in> set name \<Longrightarrow> \<not> is_space c \<and> c \<noteq> CHR 0x22 \<and> c \<noteq> CHR 0x27 \<and> c \<noteq> CHR 0x0A \<and> c \<noteq> CHR 0x0D"
    using name_char_plain by (auto simp: list_all_iff)
  have l: "\<not> is_space (last name)" "\<not> is_space (hd name)" using np n(1) by simp_all
  let ?top = "''# Canonical project identifier '' @ [CHR 0xE2, CHR 0x80, CHR 0x94] @ '' git-tracked so every clone agrees on the name.''"
  have "list_all (\<lambda>c. c \<noteq> CHR 0x0A \<and> c \<noteq> CHR 0x0D) ?top" by simp
  moreover have "list_all (\<lambda>c. c \<noteq> CHR 0x0A \<and> c \<noteq> CHR 0x0D) (''project = '' @ name)" using np by (simp add: list_all_iff)
  ultimately have lines: "text_lines [] (cfg_text name) = [?top, ''project = '' @ name, []]"
    using text_lines_run [of ?top "[]"] text_lines_run [of "''project = '' @ name" "[]" "[]"]
    by (simp add: cfg_text_def)
  have top: "\<not> cfg_line ''project'' (py_strip ?top)" by code_simp
  have "py_strip (''project = '' @ name) = ''project = '' @ name"
    using l(1) n(1) by (intro py_strip_id) (simp_all add: is_space_def)
  moreover have "after (CHR ''='') (''project = '' @ name) = CHR '' '' # name" "before (CHR ''='') (''project = '' @ name) = ''project ''"
    by (simp_all add: after_def before_def)
  moreover have "py_strip (CHR '' '' # name) = name"
    using py_strip_id [OF n(1) l(2,1)] by (simp add: py_strip_def py_lstrip_def is_space_def)
  moreover have "py_lower (py_strip ''project '') = ''project''" by code_simp
  moreover have "strip_char (CHR 0x22) name = name" "strip_char (CHR 0x27) name = name"
    using np by (auto intro!: strip_char_id)
  ultimately have "cfg_line ''project'' (py_strip (''project = '' @ name))" "cfg_value (py_strip (''project = '' @ name)) = name"
    by (simp_all add: cfg_line_def cfg_key_def cfg_value_def startswith_code)
  then show ?thesis using assms(1,3) lines top by (simp add: parse_engram_cfg_def Let_def del: append.simps)
qed


text \<open>Declaring a project settles it. After a valid, real name has been written to the
  configuration file of a directory that has no file of the newer spelling, the file reads back
  as that name, the directory resolves to it and its project calls go to its bucket.\<close>

theorem declared_project_is_resolved:
  assumes "write_project_cfg fs dir name = (Inr p, fs')" and "last name \<noteq> CHR 0x0A" and "is_real_project_name (Some name)"
    and "isabs dir" and "abspath '''' dir = dir" and "\<not> isfile fs (path_join dir ''.tiding.cfg'')"
  shows "parse_engram_cfg fs' p ''project'' False = Some name \<and>
    resolve_project_name fs' home (Some dir) = Some name \<and>
    resolve_partition fs' home cwd host (Some ''project'') default_scope (Some dir) (Some who) =
      (''project'', (if who = '''' then ''unknown'' else who), Some name)"
proof -
  have v: "VALID_NAME name" and p: "p = path_join dir PROJECT_CFG_FILENAME"
      and fs': "fs' = AList.update p (Some (cfg_text name)) fs"
    using assms(1) by (auto simp: write_project_cfg_def Let_def split: if_splits)
  have parse: "parse_engram_cfg fs' p ''project'' False = Some name"
    using v assms(2) by (intro parse_written) (simp_all add: fs' update_conv)
  have "path_join dir ''.tiding.cfg'' \<noteq> p"
    by (auto simp: p path_join_def PROJECT_CFG_FILENAME_def startswith_code)
  then have "cfgs_in fs' dir = [p]"
    using assms(6) by (auto simp: cfgs_in_def PROJECT_CFG_READ_FILENAMES_def p [symmetric] isfile_def fs' dom_update)
  moreover have "dir \<noteq> ''''" using assms(4) by (auto simp: isabs_def startswith_code)
  ultimately have "find_cfg_path fs' home (Some dir) = Some p"
    using assms(4,5) by (simp add: find_cfg_path_def or_none_def Let_def walk_up_step [of _ _ _ _ _ dir])
  with parse assms(3) have "resolve_project_name fs' home (Some dir) = Some name"
    by (simp add: resolve_project_name_def)
  moreover have "name \<noteq> ''''" using assms(3) by (auto simp: is_real_project_name_def or_none_def)
  ultimately show ?thesis using parse by (simp add: resolve_partition_def declared_or_base_def or_none_def Let_def)
qed

theorem declared_project_is_resolved_witness:
  "resolve_project_name (snd (write_project_cfg demo_files ''/srv/tool'' ''tool'')) ''/home/u'' (Some ''/srv/tool'') = Some ''tool''"
proof -
  have "write_project_cfg demo_files ''/srv/tool'' ''tool'' =
      (Inr ''/srv/tool/.engram.cfg'', snd (write_project_cfg demo_files ''/srv/tool'' ''tool''))" by code_simp
  moreover have "last ''tool'' \<noteq> CHR 0x0A" "is_real_project_name (Some ''tool'')" "isabs ''/srv/tool''"
      "abspath '''' ''/srv/tool'' = ''/srv/tool''" "\<not> isfile demo_files (path_join ''/srv/tool'' ''.tiding.cfg'')" by code_simp+
  ultimately show ?thesis using declared_project_is_resolved by blast
qed


end
