(* ===== verification/Bridge_Identity.thy ===== *)
theory Bridge_Identity
  imports Bridge_Scoping
begin

text \<open>
  \<^verbatim>\<open>engram_mcp/identity.py\<close> of the command line bridge: who a session is and which addresses it
  listens on. The globals of the module, the environment, the files the bridge and its watcher
  share and the answers of \<^verbatim>\<open>ps\<close> are the fields of one record; a function that assigns a global
  or writes a file returns the record updated. Writing a file may fail (\<open>pb_writable\<close>), which the
  code ignores. Text is ASCII.
\<close>

section \<open>The process\<close>

text \<open>What \<^verbatim>\<open>ps\<close> says of a process: nothing could be learned, it printed too little to read (with
  its exit status), or the parent and the start time.\<close>

datatype ps_answer = CouldNotAsk | Unreadable nat | Running nat string

record bridge =
  pb_env :: "(string \<times> string) list"
  pb_files :: files
  pb_writable :: bool
  pb_home :: string
  pb_gethostname :: string
  pb_startup_cwd :: "string option"
  pb_session_dir :: "string option"
  pb_anchor :: "string option"
  pb_seat :: "string option"
  pb_discovered :: "string option"
  pb_override :: "(string \<times> string) option"
    \<comment> \<open>the declared identity that is not in effect, and the one that is\<close>
  pb_pid :: nat
  pb_ppid :: nat
  pb_ps :: "(nat \<times> ps_answer) list"
  pb_ps_local :: "(nat \<times> ps_answer) list"
    \<comment> \<open>the same with the time zone of the machine\<close>

definition ask :: "(nat \<times> ps_answer) list \<Rightarrow> nat \<Rightarrow> ps_answer" where
  "ask ps pid = (case map_of ps pid of None \<Rightarrow> Unreadable 1 | Some a \<Rightarrow> a)"

definition environ :: "bridge \<Rightarrow> string \<Rightarrow> string" where
  "environ b k = or_empty (map_of (pb_env b) k)"

definition ADMIN_NAME :: string where "ADMIN_NAME = ''admin''"

definition ADMIN_EXEMPT_LANE_PROJECTS :: "string list" where
  "ADMIN_EXEMPT_LANE_PROJECTS = [ADMIN_NAME]"

definition hostname :: "bridge \<Rightarrow> string" where
  "hostname b = short_hostname (pb_gethostname b)"

section \<open>Anchors\<close>

definition usable_dir :: "string option \<Rightarrow> string option" where
  "usable_dir d = Option.bind (Option.bind d or_none) (\<lambda>x. if isabs x then Some x else None)"

definition set_identity_anchor :: "string option \<Rightarrow> bridge \<Rightarrow> bridge" where
  "set_identity_anchor d b = (case usable_dir d of None \<Rightarrow> b | Some x \<Rightarrow> b\<lparr>pb_anchor := Some x\<rparr>)"

text \<open>Python's \<^verbatim>\<open>a or b\<close> on optional strings.\<close>

definition py_or :: "string option \<Rightarrow> string option \<Rightarrow> string option" where
  "py_or a c = (case Option.bind a or_none of None \<Rightarrow> c | Some x \<Rightarrow> Some x)"

definition identity_anchor_dir :: "bridge \<Rightarrow> string option" where
  "identity_anchor_dir b = py_or (pb_anchor b) (py_or (pb_startup_cwd b) (pb_session_dir b))"

definition remember_project_dir :: "string option \<Rightarrow> bridge \<Rightarrow> string option \<times> bridge" where
  "remember_project_dir d b =
     (case usable_dir d of
        Some x \<Rightarrow> (Some x, b\<lparr>pb_session_dir := Some x\<rparr>)
      | None \<Rightarrow> (py_or (pb_session_dir b) (pb_startup_cwd b), b))"

definition reset_session_pin :: "bridge \<Rightarrow> bridge" where
  "reset_session_pin b = b\<lparr>pb_session_dir := None\<rparr>"

section \<open>Session keys and seat files\<close>

definition AUTO_KEY_PREFIX :: string where "AUTO_KEY_PREFIX = ''auto-''"

definition safe_chars :: "char \<Rightarrow> string \<Rightarrow> string" where
  "safe_chars fill s = map (\<lambda>c. if is_alnum c \<or> c \<in> {CHR ''-'', CHR ''_'', CHR ''.''} then c else fill) s"

definition proc_info :: "bridge \<Rightarrow> nat \<Rightarrow> (nat \<times> string) option" where
  "proc_info b pid = (case ask (pb_ps b) pid of Running pp start \<Rightarrow> Some (pp, start) | _ \<Rightarrow> None)"

definition auto_session_key_for :: "bridge \<Rightarrow> nat \<Rightarrow> string \<Rightarrow> string" where
  "auto_session_key_for b pid start =
     py_lower (AUTO_KEY_PREFIX @ hostname b @ ''-'' @ nat_str pid @ ''-'' @ strip_char (CHR ''-'') (safe_chars (CHR ''-'') start))"

definition derive_session_key :: "bridge \<Rightarrow> string option" where
  "derive_session_key b =
     (if pb_ppid b \<le> 1 then None
      else map_option (\<lambda>i. auto_session_key_for b (pb_ppid b) (snd i)) (proc_info b (pb_ppid b)))"

definition resolve_session_key :: "bridge \<Rightarrow> string option" where
  "resolve_session_key b =
     (let e = py_lower (py_strip (environ b ''ENGRAM_SESSION_KEY''))
      in if e \<noteq> '''' then Some e else derive_session_key b)"

text \<open>\<^verbatim>\<open>os.path.expanduser\<close> for the own home directory.\<close>

definition expanduser :: "bridge \<Rightarrow> string \<Rightarrow> string" where
  "expanduser b p = (if p = ''~'' \<or> startswith p ''~/'' then rstrip_char sep (pb_home b) @ tl p else p)"

definition seats_dir :: "bridge \<Rightarrow> string" where
  "seats_dir b =
     expanduser b (let d = py_strip (environ b ''ENGRAM_SEATS_DIR'')
                   in if d = '''' then ''~/.local/state/engram/seats'' else d)"

text \<open>The file of a session key with the given suffix; the code cuts the suffix of the seat file to
  name the process file.\<close>

definition key_file :: "bridge \<Rightarrow> string \<Rightarrow> string \<Rightarrow> string option" where
  "key_file b ext key =
     (let s = take 128 (safe_chars (CHR ''_'') key) in if s = '''' then None else Some (path_join (seats_dir b) (s @ ext)))"

definition seat_file_path :: "bridge \<Rightarrow> string option \<Rightarrow> string option" where
  "seat_file_path b key = Option.bind (py_or key (resolve_session_key b)) (key_file b ''.seat'')"

definition proc_file_path :: "bridge \<Rightarrow> string option \<Rightarrow> string option" where
  "proc_file_path b key = Option.bind (py_or key (resolve_session_key b)) (key_file b ''.proc'')"

definition seat_char :: "char \<Rightarrow> bool" where
  "seat_char c \<longleftrightarrow> (is_alnum c \<and> lower_char c = c) \<or> c \<in> {CHR ''.'', CHR ''_'', CHR ''-''}"

definition is_valid_seat :: "string \<Rightarrow> bool" where
  "is_valid_seat v \<longleftrightarrow> v \<noteq> '''' \<and> length v \<le> 128 \<and> list_all seat_char v"

definition read_seat_at :: "bridge \<Rightarrow> string option \<Rightarrow> string option" where
  "read_seat_at b path =
     (case Option.bind path (\<lambda>p. Option.bind (map_of (pb_files b) p) id) of
        None \<Rightarrow> None
      | Some text \<Rightarrow> (let v = py_lower (py_strip (take 256 text)) in if is_valid_seat v then Some v else None))"

text \<open>The walk over the ancestors of the process, twelve at most; \<open>hit\<close> is what a process key is
  probed for.\<close>

fun ancestor_walk :: "bridge \<Rightarrow> (string \<Rightarrow> 'a option) \<Rightarrow> nat \<Rightarrow> nat list \<Rightarrow> nat \<Rightarrow> 'a option" where
  "ancestor_walk b hit 0 seen pid = None"
| "ancestor_walk b hit (Suc n) seen pid =
     (if pid \<le> 1 \<or> pid \<in> set seen then None
      else case proc_info b pid of
             None \<Rightarrow> None
           | Some (pp, start) \<Rightarrow>
               (case hit (auto_session_key_for b pid start) of
                  Some x \<Rightarrow> Some x
                | None \<Rightarrow> ancestor_walk b hit n (pid # seen) pp))"

definition existing_seat :: "bridge \<Rightarrow> string \<Rightarrow> string option" where
  "existing_seat b key =
     Option.bind (seat_file_path b (Some key)) (\<lambda>p. if isfile (pb_files b) p then Some p else None)"

definition discover_seat_file :: "bridge \<Rightarrow> string option \<times> bridge" where
  "discover_seat_file b =
     (case Option.bind (pb_discovered b) (\<lambda>p. if p \<noteq> '''' \<and> isfile (pb_files b) p then Some p else None) of
        Some p \<Rightarrow> (Some p, b)
      | None \<Rightarrow> (let r = ancestor_walk b (existing_seat b) 12 [] (pb_pid b) in (r, b\<lparr>pb_discovered := r\<rparr>)))"

definition read_seat_file :: "bridge \<Rightarrow> string option \<times> bridge" where
  "read_seat_file b =
     (case read_seat_at b (seat_file_path b None) of
        Some v \<Rightarrow> (Some v, b)
      | None \<Rightarrow> (case discover_seat_file b of (p, b') \<Rightarrow> (read_seat_at b' p, b')))"

definition write_file :: "string \<Rightarrow> string \<Rightarrow> bridge \<Rightarrow> string option \<times> bridge" where
  "write_file p text b =
     (if pb_writable b then (Some p, b\<lparr>pb_files := AList.update p (Some text) (pb_files b)\<rparr>) else (None, b))"

definition write_seat_file :: "string \<Rightarrow> bridge \<Rightarrow> string option \<times> bridge" where
  "write_seat_file seat b =
     (case seat_file_path b None of None \<Rightarrow> (None, b) | Some p \<Rightarrow> write_file p (seat @ [CHR 0x0A]) b)"

definition assert_local_seat :: "string option \<Rightarrow> bridge \<Rightarrow> string res \<times> bridge" where
  "assert_local_seat name0 b =
     (let name = norm name0
      in if name = '''' \<or> \<not> is_valid_seat name then (Inl ValueError, b) else (Inr name, b\<lparr>pb_seat := Some name\<rparr>))"

definition take_seat :: "string option \<Rightarrow> bridge \<Rightarrow> string res \<times> bridge" where
  "take_seat name0 b =
     (case assert_local_seat name0 b of
        (Inl e, b') \<Rightarrow> (Inl e, b')
      | (Inr name, b') \<Rightarrow> (Inr name, snd (write_seat_file name b')))"

definition clear_seat :: "bridge \<Rightarrow> bridge" where
  "clear_seat b = b\<lparr>pb_seat := None\<rparr>"

section \<open>The process of the session\<close>

definition record_session_process :: "bridge \<Rightarrow> string option \<times> bridge" where
  "record_session_process b =
     (if pb_ppid b \<le> 1 then (None, b)
      else case proc_info b (pb_ppid b) of
             None \<Rightarrow> (None, b)
           | Some (_, start) \<Rightarrow>
               (case proc_file_path b None of
                  None \<Rightarrow> (None, b)
                | Some p \<Rightarrow> write_file p (nat_str (pb_ppid b) @ '' '' @ start @ [CHR 0x0A]) b))"

definition digits_val :: "string \<Rightarrow> nat" where
  "digits_val s = foldl (\<lambda>n c. 10 * n + (of_char c - 48)) 0 s"

definition is_digit :: "char \<Rightarrow> bool" where
  "is_digit c \<longleftrightarrow> 48 \<le> (of_char c :: nat) \<and> (of_char c :: nat) \<le> 57"

text \<open>\<^verbatim>\<open>int(pid)\<close>, on the unsigned decimals the file is written with.\<close>

definition read_proc_at :: "bridge \<Rightarrow> string option \<Rightarrow> (nat \<times> string) option" where
  "read_proc_at b path =
     (case Option.bind path (\<lambda>p. Option.bind (map_of (pb_files b) p) id) of
        None \<Rightarrow> None
      | Some text \<Rightarrow>
          (let raw = py_strip text; pid = before (CHR '' '') raw
           in if pid \<noteq> '''' \<and> list_all is_digit pid then Some (digits_val pid, py_strip (after (CHR '' '') raw)) else None))"

definition discover_session_process :: "bridge \<Rightarrow> (nat \<times> string) option" where
  "discover_session_process b =
     (case read_proc_at b (proc_file_path b None) of
        Some x \<Rightarrow> Some x
      | None \<Rightarrow> ancestor_walk b (\<lambda>key. read_proc_at b (proc_file_path b (Some key))) 12 [] (pb_pid b))"

definition process_is_gone :: "bridge \<Rightarrow> nat \<Rightarrow> string \<Rightarrow> bool" where
  "process_is_gone b pid start =
     (case ask (pb_ps b) pid of
        CouldNotAsk \<Rightarrow> False
      | Running _ s \<Rightarrow>
          s \<noteq> start \<and> (case ask (pb_ps_local b) pid of
                          CouldNotAsk \<Rightarrow> False | Running _ s' \<Rightarrow> s' \<noteq> start | Unreadable _ \<Rightarrow> True)
      | Unreadable rc \<Rightarrow> rc = 1)"

section \<open>Who am I\<close>

definition derive_project_name :: "bridge \<Rightarrow> string option \<Rightarrow> string" where
  "derive_project_name b d =
     (case Option.bind (resolve_project_name (pb_files b) (pb_home b) d) or_none of
        Some n \<Rightarrow> py_lower n
      | None \<Rightarrow>
          (let parts = filter (\<lambda>x. x \<noteq> '''') (py_split sep (py_strip (or_empty d)))
           in case dropWhile (\<lambda>x. x \<noteq> ''projects'') parts of
                _ # n # _ \<Rightarrow> py_lower n
              | _ \<Rightarrow> ADMIN_NAME))"

definition is_admin_context :: "bridge \<Rightarrow> string option \<Rightarrow> bool" where
  "is_admin_context b d \<longleftrightarrow> derive_project_name b d = ADMIN_NAME"

definition admin_was_fallback :: "bridge \<Rightarrow> string option \<Rightarrow> bool" where
  "admin_was_fallback b d \<longleftrightarrow>
     derive_project_name b d = ADMIN_NAME \<and>
     Option.bind (resolve_project_name (pb_files b) (pb_home b) d) or_none = None"

definition resolve_provider :: "bridge \<Rightarrow> string" where
  "resolve_provider b = (let p = py_lower (py_strip (environ b ''ENGRAM_PROVIDER'')) in if p = '''' then ''claude'' else p)"

definition declared_identity :: "bridge \<Rightarrow> string option \<Rightarrow> string option" where
  "declared_identity b d =
     map_option py_lower (Option.bind (resolve_inbox_identity (pb_files b) (pb_home b) d) or_none)"

definition resolve_session_identity :: "string option \<Rightarrow> bridge \<Rightarrow> string option \<times> bridge" where
  "resolve_session_identity d b0 =
     (case read_seat_file b0 of
        (from_file, b) \<Rightarrow>
          (case Option.bind (pb_seat b) or_none of
             Some seat \<Rightarrow>
               (case from_file of
                  Some f \<Rightarrow> (Some f, b\<lparr>pb_seat := Some f\<rparr>)
                | None \<Rightarrow> (Some seat, b))
           | None \<Rightarrow>
               (case from_file of
                  Some f \<Rightarrow> (Some f, b)
                | None \<Rightarrow>
                    (let env = py_lower (py_strip (environ b ''ENGRAM_INBOX_IDENTITY'')); decl = declared_identity b d
                     in if env \<noteq> ''''
                        then (Some env,
                              case decl of None \<Rightarrow> b | Some x \<Rightarrow> if x \<noteq> env then b\<lparr>pb_override := Some (x, env)\<rparr> else b)
                        else (decl, b)))))"

definition lane_of :: "bridge \<Rightarrow> string \<Rightarrow> string" where
  "lane_of b project =
     (if project \<in> set ADMIN_EXEMPT_LANE_PROJECTS then ''''
      else let lane = project @ ''-'' @ resolve_provider b
           in if lane \<noteq> project \<and> is_valid_seat lane then lane else '''')"

definition group_entries :: "bridge \<Rightarrow> string \<Rightarrow> string \<Rightarrow> string \<Rightarrow> string list" where
  "group_entries b project override lane =
     concat (map (\<lambda>g. [g, g @ ''@'' @ hostname b])
       (filter (\<lambda>g. g \<noteq> project \<and> g \<noteq> override \<and> g \<noteq> lane \<and> is_valid_seat g)
          (resolve_inbox_groups (pb_files b) (pb_home b) (identity_anchor_dir b))))"

definition lane_entries :: "bridge \<Rightarrow> string \<Rightarrow> string list" where
  "lane_entries b lane = (if lane = '''' then [] else [lane, lane @ ''@'' @ hostname b])"

definition addresses_of :: "bridge \<Rightarrow> string \<Rightarrow> string \<times> string list" where
  "addresses_of b override =
     (let host = hostname b; project = derive_project_name b (identity_anchor_dir b); lane = lane_of b project;
          groups = group_entries b project override lane
      in if override \<noteq> '''' \<and> override \<noteq> project
         then let reader = override @ ''@'' @ host
              in (reader,
                  [override] @ (if lane = override then [] else lane_entries b lane) @ [project, project @ ''@'' @ host] @
                  groups @ [''machine:'' @ host, reader])
         else let reader = project @ ''@'' @ host
              in (reader,
                  [project] @ lane_entries b lane @ groups @ (if project = ADMIN_ROLE then [ADMIN_FLEET] else []) @
                  [''machine:'' @ host, reader]))"

definition compute_identity :: "string option \<Rightarrow> bridge \<Rightarrow> (string \<times> string list) \<times> bridge" where
  "compute_identity d b0 =
     (case resolve_session_identity d (snd (remember_project_dir d b0)) of
        (override, b) \<Rightarrow> (addresses_of b (or_empty override), b))"

definition sender_lane :: "bridge \<Rightarrow> string option \<Rightarrow> string" where
  "sender_lane b d = lane_of b (derive_project_name b (py_or (identity_anchor_dir b) d))"

definition qualify_admin_target :: "string \<Rightarrow> string \<Rightarrow> string" where
  "qualify_admin_target address from_identity =
     (if py_lower (py_strip address) \<noteq> ADMIN_ROLE then address
      else let src = py_lower (py_strip from_identity)
           in if startswith src (ADMIN_ROLE @ ''@'') \<and> src \<noteq> ADMIN_FLEET then src else address)"

definition reader_to_address :: "string \<Rightarrow> string" where
  "reader_to_address r = (if startswith r ''machine:'' then r else before (CHR ''@'') r)"

section \<open>What a call leaves alone\<close>

text \<open>The process without the globals a call may assign. Everything that names files and reads seats
  depends on it only.\<close>

definition core :: "bridge \<Rightarrow> bridge" where
  "core b = b\<lparr>pb_session_dir := None, pb_seat := None, pb_discovered := None, pb_override := None\<rparr>"

lemma core_fields [simp]:
  "pb_env (core b) = pb_env b" "pb_files (core b) = pb_files b" "pb_home (core b) = pb_home b"
  "pb_gethostname (core b) = pb_gethostname b" "pb_ps (core b) = pb_ps b" "pb_pid (core b) = pb_pid b"
  "pb_ppid (core b) = pb_ppid b" "pb_anchor (core b) = pb_anchor b" "pb_startup_cwd (core b) = pb_startup_cwd b"
  by (simp_all add: core_def)

lemma core_updates [simp]:
  "core (b\<lparr>pb_session_dir := x\<rparr>) = core b" "core (b\<lparr>pb_seat := x\<rparr>) = core b"
  "core (b\<lparr>pb_discovered := x\<rparr>) = core b" "core (b\<lparr>pb_override := y\<rparr>) = core b"
  by (simp_all add: core_def)

lemma core_reads:
  "environ (core b) = environ b" "hostname (core b) = hostname b" "proc_info (core b) = proc_info b"
  by (simp_all add: fun_eq_iff environ_def hostname_def proc_info_def)

lemma core_keys:
  "auto_session_key_for (core b) = auto_session_key_for b" "resolve_session_key (core b) = resolve_session_key b"
  by (simp_all add: fun_eq_iff auto_session_key_for_def resolve_session_key_def derive_session_key_def core_reads)

lemma core_paths:
  "key_file (core b) = key_file b" "seat_file_path (core b) = seat_file_path b"
proof -
  show k: "key_file (core b) = key_file b"
    by (simp add: fun_eq_iff key_file_def seats_dir_def expanduser_def core_reads)
  show "seat_file_path (core b) = seat_file_path b" unfolding fun_eq_iff seat_file_path_def k core_keys by simp
qed

lemma core_seats:
  "read_seat_at (core b) = read_seat_at b" "existing_seat (core b) = existing_seat b"
  by (simp_all add: fun_eq_iff read_seat_at_def existing_seat_def core_paths)

lemma core_walk: "ancestor_walk (core b) hit n seen pid = ancestor_walk b hit n seen pid"
  by (induction n arbitrary: seen pid) (simp_all add: core_keys core_reads split: option.split)

definition known_seat :: "bridge \<Rightarrow> string option" where
  "known_seat b = Option.bind (pb_discovered b) (\<lambda>p. if p \<noteq> '''' \<and> isfile (pb_files b) p then Some p else None)"

text \<open>The file of the ancestors, as the process finds it or remembers it.\<close>

definition found_seat :: "bridge \<Rightarrow> string option" where
  "found_seat b =
     (case known_seat b of Some p \<Rightarrow> Some p | None \<Rightarrow> ancestor_walk b (existing_seat b) 12 [] (pb_pid b))"

lemma discover_is_found:
  "discover_seat_file b = (found_seat b, case known_seat b of Some _ \<Rightarrow> b | None \<Rightarrow> b\<lparr>pb_discovered := found_seat b\<rparr>)"
  by (simp add: discover_seat_file_def found_seat_def known_seat_def Let_def split: option.split)

lemma read_seat_value:
  "fst (read_seat_file b) =
     (case read_seat_at b (seat_file_path b None) of Some v \<Rightarrow> Some v | None \<Rightarrow> read_seat_at b (found_seat b))"
proof -
  have "core (snd (discover_seat_file b)) = core b" by (simp add: discover_is_found split: option.split)
  then have "read_seat_at (snd (discover_seat_file b)) = read_seat_at b" by (metis core_seats(1))
  then show ?thesis by (simp add: read_seat_file_def discover_is_found split_beta split: option.split)
qed

lemma key_file_nonempty: "key_file b ext key \<noteq> Some ''''"
  by (auto simp: key_file_def path_join_def Let_def split: if_splits)

lemma walk_seat_exists:
  "ancestor_walk b (existing_seat b) n seen pid = Some p \<Longrightarrow> isfile (pb_files b) p \<and> p \<noteq> ''''"
  by (induction n arbitrary: seen pid)
    (auto simp: existing_seat_def seat_file_path_def bind_eq_Some_conv key_file_nonempty split: if_splits option.splits)

lemma found_seat_exists: "found_seat b = Some p \<Longrightarrow> isfile (pb_files b) p \<and> p \<noteq> ''''"
  by (auto simp: found_seat_def known_seat_def bind_eq_Some_conv dest: walk_seat_exists split: option.splits if_splits)

lemma found_seat_stable:
  assumes "core b' = core b" and "pb_discovered b' \<in> {pb_discovered b, found_seat b}"
  shows "found_seat b' = found_seat b"
proof -
  have files: "pb_files b' = pb_files b" "pb_pid b' = pb_pid b" using assms(1) by (metis core_fields(2,6))+
  have walk: "ancestor_walk b' (existing_seat b') 12 [] (pb_pid b') = ancestor_walk b (existing_seat b) 12 [] (pb_pid b)"
    using assms(1) files by (metis core_walk core_seats(2))
  show ?thesis
  proof (cases "pb_discovered b' = pb_discovered b")
    case True
    then have "known_seat b' = known_seat b" using files(1) by (simp add: known_seat_def)
    then show ?thesis using walk unfolding found_seat_def by (simp split: option.split)
  next
    case False
    then have d: "pb_discovered b' = found_seat b" using assms(2) by blast
    show ?thesis
    proof (cases "found_seat b")
      case None
      then have "known_seat b' = None" using d by (simp add: known_seat_def)
      moreover have "known_seat b = None" using None by (simp add: found_seat_def split: option.splits)
      ultimately show ?thesis using walk unfolding found_seat_def by simp
    next
      case (Some p)
      then have "known_seat b' = Some p" using found_seat_exists [OF Some] d files(1) by (simp add: known_seat_def)
      then show ?thesis using Some by (simp add: found_seat_def [of b'])
    qed
  qed
qed


lemma read_seat_state:
  "core (snd (read_seat_file b)) = core b"
  "pb_discovered (snd (read_seat_file b)) \<in> {pb_discovered b, found_seat b}"
  "pb_seat (snd (read_seat_file b)) = pb_seat b" "pb_session_dir (snd (read_seat_file b)) = pb_session_dir b"
  by (auto simp: read_seat_file_def discover_is_found split: option.splits)

lemma read_seat_stable:
  assumes "core b' = core b" and "pb_discovered b' \<in> {pb_discovered b, found_seat b}"
  shows "fst (read_seat_file b') = fst (read_seat_file b)"
  using found_seat_stable [OF assms] assms(1) unfolding read_seat_value by (metis core_paths(2) core_seats(1))

text \<open>The identity in effect, without the assignments on the way.\<close>

definition identity_value :: "string option \<Rightarrow> bridge \<Rightarrow> string option" where
  "identity_value d b =
     (case fst (read_seat_file b) of
        Some f \<Rightarrow> Some f
      | None \<Rightarrow>
          (case Option.bind (pb_seat b) or_none of
             Some seat \<Rightarrow> Some seat
           | None \<Rightarrow> (let env = py_lower (py_strip (environ b ''ENGRAM_INBOX_IDENTITY''))
                     in if env \<noteq> '''' then Some env else declared_identity b d)))"

lemma core_declared: "declared_identity (core b) d = declared_identity b d"
  by (simp add: declared_identity_def)

lemma resolve_is_identity:
  assumes "resolve_session_identity d b = (v, b')"
  shows "v = identity_value d b" and "core b' = core b" and "pb_discovered b' \<in> {pb_discovered b, found_seat b}"
    and "pb_session_dir b' = pb_session_dir b"
    and "fst (read_seat_file b) = None \<Longrightarrow> pb_seat b' = pb_seat b"
proof -
  obtain f b1 where r: "read_seat_file b = (f, b1)" by force
  note st = read_seat_state [of b, unfolded r snd_conv]
  have e: "environ b1 = environ b" "declared_identity b1 d = declared_identity b d"
    using st(1) by (metis core_reads(1), metis core_declared)
  show "v = identity_value d b" "core b' = core b" "pb_discovered b' \<in> {pb_discovered b, found_seat b}"
      "pb_session_dir b' = pb_session_dir b" "fst (read_seat_file b) = None \<Longrightarrow> pb_seat b' = pb_seat b"
    using assms st e r
    by (auto simp: resolve_session_identity_def identity_value_def Let_def split: option.splits if_splits)
qed

lemma identity_value_stable:
  assumes "core b' = core b" and "pb_discovered b' \<in> {pb_discovered b, found_seat b}"
    and "fst (read_seat_file b) = None \<Longrightarrow> pb_seat b' = pb_seat b"
  shows "identity_value d b' = identity_value d b"
proof -
  have "environ b' = environ b" "declared_identity b' d = declared_identity b d"
    using assms(1) by (metis core_reads(1), metis core_declared)
  then show ?thesis
    using read_seat_stable [OF assms(1,2)] assms(3) by (auto simp: identity_value_def split: option.splits)
qed


text \<open>The addresses depend on what no call assigns, once the process knows its own directory.\<close>

definition anchored :: "bridge \<Rightarrow> bool" where
  "anchored b \<longleftrightarrow> Option.bind (pb_anchor b) or_none \<noteq> None \<or> Option.bind (pb_startup_cwd b) or_none \<noteq> None"

lemma anchored_core:
  "core b' = core b \<Longrightarrow> anchored b' = anchored b"
  "core b' = core b \<Longrightarrow> anchored b \<Longrightarrow> identity_anchor_dir b' = identity_anchor_dir b"
proof -
  assume c: "core b' = core b"
  then have f: "pb_anchor b' = pb_anchor b" "pb_startup_cwd b' = pb_startup_cwd b" by (metis core_fields(8,9))+
  then show "anchored b' = anchored b" by (simp add: anchored_def)
  show "anchored b \<Longrightarrow> identity_anchor_dir b' = identity_anchor_dir b"
    using f by (auto simp: anchored_def identity_anchor_dir_def py_or_def split: option.splits)
qed

lemma addresses_core:
  assumes "core b' = core b" and "anchored b"
  shows "addresses_of b' v = addresses_of b v"
proof -
  have f: "pb_files b' = pb_files b" "pb_home b' = pb_home b" using assms(1) by (metis core_fields(2,3))+
  have r: "environ b' = environ b" "hostname b' = hostname b" using assms(1) by (metis core_reads(1,2))+
  note a = anchored_core(2) [OF assms]
  have "derive_project_name b' = derive_project_name b" by (simp add: fun_eq_iff derive_project_name_def f)
  moreover have "lane_of b' = lane_of b" by (simp add: fun_eq_iff lane_of_def resolve_provider_def r)
  moreover have "group_entries b' = group_entries b" by (simp add: fun_eq_iff group_entries_def f r a)
  moreover have "lane_entries b' = lane_entries b" by (simp add: fun_eq_iff lane_entries_def r)
  ultimately show ?thesis by (simp add: addresses_of_def a r Let_def)
qed

lemma remember_state:
  "core (snd (remember_project_dir d b)) = core b" "pb_discovered (snd (remember_project_dir d b)) = pb_discovered b"
  "pb_seat (snd (remember_project_dir d b)) = pb_seat b"
  by (simp_all add: remember_project_dir_def split: option.split)

text \<open>The session has an identity of its own: a seat taken at run time, a seat file or one injected
  by its launcher.\<close>

definition in_its_seat :: "bridge \<Rightarrow> bool" where
  "in_its_seat b \<longleftrightarrow> fst (read_seat_file b) \<noteq> None \<or> Option.bind (pb_seat b) or_none \<noteq> None \<or>
     py_lower (py_strip (environ b ''ENGRAM_INBOX_IDENTITY'')) \<noteq> ''''"

lemma in_its_seat_value: "in_its_seat b \<Longrightarrow> identity_value d b = identity_value d' b"
  by (auto simp: in_its_seat_def identity_value_def Let_def split: option.split)

lemma compute_step:
  assumes "compute_identity d b = (out, b')" and "anchored b"
  shows "out = addresses_of b (or_empty (identity_value d b))" and "core b' = core b" and "anchored b'"
    and "identity_value x b' = identity_value x b" and "in_its_seat b \<Longrightarrow> in_its_seat b'"
proof -
  define b1 where "b1 = snd (remember_project_dir d b)"
  note rem = remember_state [of d b, folded b1_def]
  obtain v where res: "resolve_session_identity d b1 = (v, b')" and out: "out = addresses_of b' (or_empty v)"
    using assms(1) by (auto simp: compute_identity_def b1_def split: prod.splits)
  note r = resolve_is_identity [OF res]
  have found: "found_seat b1 = found_seat b" using rem by (intro found_seat_stable) simp_all
  have c: "core b' = core b" using r(2) rem(1) by simp
  have disc: "pb_discovered b' \<in> {pb_discovered b, found_seat b}" using r(3) rem(2) found by simp
  have read1: "fst (read_seat_file b1) = fst (read_seat_file b)" using rem by (intro read_seat_stable) simp_all
  have seat: "fst (read_seat_file b) = None \<Longrightarrow> pb_seat b' = pb_seat b" using r(5) read1 rem(3) by simp
  have id1: "identity_value x b1 = identity_value x b" for x using rem by (intro identity_value_stable) simp_all
  show "core b' = core b" by (rule c)
  show "anchored b'" using assms(2) anchored_core(1) [OF c] by simp
  show "out = addresses_of b (or_empty (identity_value d b))"
    using out r(1) id1 addresses_core [OF c assms(2)] by simp
  show "identity_value x b' = identity_value x b" by (rule identity_value_stable [OF c disc seat])
  have "environ b' = environ b" using c by (metis core_reads(1))
  then show "in_its_seat b \<Longrightarrow> in_its_seat b'"
    using read_seat_stable [OF c disc] seat by (auto simp: in_its_seat_def)
qed

lemma compute_core: "core (snd (compute_identity d b)) = core b"
proof -
  obtain v b' where r: "resolve_session_identity d (snd (remember_project_dir d b)) = (v, b')" by force
  from resolve_is_identity(2) [OF this] show ?thesis by (simp add: compute_identity_def r remember_state)
qed

section \<open>Properties\<close>

text \<open>The process after a sequence of tool calls, each with the directory it was given.\<close>

definition after_calls :: "string option list \<Rightarrow> bridge \<Rightarrow> bridge" where
  "after_calls ds b = fold (\<lambda>d s. snd (compute_identity d s)) ds b"

lemma after_calls_keeps:
  assumes "anchored b" and "in_its_seat b"
  shows "anchored (after_calls ds b) \<and> in_its_seat (after_calls ds b) \<and> core (after_calls ds b) = core b \<and>
    identity_value d (after_calls ds b) = identity_value d b"
  using assms
proof (induction ds arbitrary: b)
  case Nil
  then show ?case by (simp add: after_calls_def)
next
  case (Cons x ds)
  obtain out b' where c: "compute_identity x b = (out, b')" by (metis prod.collapse)
  note st = compute_step [OF c Cons.prems(1)]
  have "after_calls (x # ds) b = after_calls ds b'" using c by (simp add: after_calls_def)
  then show ?case using Cons.IH [OF st(3)] st(2,4,5) Cons.prems(2) by simp
qed

text \<open>C19. A session does not lose its address by reading another project's memory. A bridge that
  knows its own directory and has a seat, however it got it, answers with the same identity and
  the same listen set after any sequence of tool calls, whichever directories they name.\<close>

theorem tool_calls_keep_the_address:
  assumes "anchored b" and "in_its_seat b"
  shows "fst (compute_identity d (after_calls ds b)) = fst (compute_identity d' b)"
proof -
  obtain o1 b1 where c1: "compute_identity d (after_calls ds b) = (o1, b1)" by (metis prod.collapse)
  obtain o2 b2 where c2: "compute_identity d' b = (o2, b2)" by (metis prod.collapse)
  have k: "anchored (after_calls ds b)" "core (after_calls ds b) = core b"
      "identity_value d (after_calls ds b) = identity_value d b"
    using after_calls_keeps [OF assms] by blast+
  have "o1 = addresses_of b (or_empty (identity_value d b))"
    using compute_step(1) [OF c1 k(1)] addresses_core [OF k(2) assms(1)] k(3) by simp
  moreover have "o2 = addresses_of b (or_empty (identity_value d' b))" by (rule compute_step(1) [OF c2 assms(1)])
  ultimately show ?thesis using c1 c2 in_its_seat_value [OF assms(2), of d d'] by simp
qed

definition demo_bridge :: bridge where
  "demo_bridge =
     \<lparr>pb_env = [(''ENGRAM_SESSION_KEY'', ''k1'')],
      pb_files = [(''/home/u/projects/app/.engram.cfg'', Some ''project = app''),
        (''/home/u/projects/other/.engram.cfg'', Some (''project = other'' @ [CHR 0x0A] @ ''inbox_identity = other-server''))],
      pb_writable = True, pb_home = ''/home/u'', pb_gethostname = ''Box.local'',
      pb_startup_cwd = Some ''/home/u/projects/app'', pb_session_dir = None, pb_anchor = None, pb_seat = None,
      pb_discovered = None, pb_override = None, pb_pid = 20, pb_ppid = 10, pb_ps = [], pb_ps_local = []\<rparr>"

theorem tool_calls_keep_the_address_witness:
  "fst (compute_identity None (after_calls [Some ''/home/u/projects/other''] (snd (take_seat (Some ''app-2'') demo_bridge)))) =
     (''app-2@box'', [''app-2'', ''app-claude'', ''app-claude@box'', ''app'', ''app@box'', ''machine:box'', ''app-2@box''])"
proof -
  let ?b = "snd (take_seat (Some ''app-2'') demo_bridge)"
  have "anchored ?b" "in_its_seat ?b" by code_simp+
  from tool_calls_keep_the_address [OF this, of None "[Some ''/home/u/projects/other'']" None]
  have "fst (compute_identity None (after_calls [Some ''/home/u/projects/other''] ?b)) = fst (compute_identity None ?b)" .
  moreover have "fst (compute_identity None ?b) =
      (''app-2@box'', [''app-2'', ''app-claude'', ''app-claude@box'', ''app'', ''app@box'', ''machine:box'', ''app-2@box''])" by code_simp
  ultimately show ?thesis by simp
qed

text \<open>Without a seat of its own the session takes the identity declared in the directory of the call,
  not of its anchor: one call into another project changes its address.\<close>

lemma call_moves_an_unseated_session:
  "anchored demo_bridge \<and> fst (fst (compute_identity None demo_bridge)) = ''app@box'' \<and>
   fst (fst (compute_identity (Some ''/home/u/projects/other'') demo_bridge)) = ''other-server@box''"
  by code_simp

text \<open>An identity asserted for this process only gives way to the seat file of the session.\<close>

lemma asserted_seat_yields_to_the_file:
  "let b = snd (take_seat (Some ''app-2'') demo_bridge); w = snd (assert_local_seat (Some ''app-7'') b)
   in pb_seat w = Some ''app-7'' \<and> fst (fst (compute_identity None w)) = ''app-2@box''"
  by code_simp

text \<open>A directory named \<open>admin\<close> under \<open>projects\<close> counts as fallen through.\<close>

lemma admin_directory_is_a_fallback: "admin_was_fallback demo_bridge (Some ''/srv/projects/admin'')"
  by code_simp


section \<open>The seat file\<close>

lemma seat_char_plain: "seat_char c \<Longrightarrow> \<not> is_space c \<and> lower_char c = c \<and> addr_char c"
  by (auto simp: seat_char_def addr_char_def is_alnum_def is_space_def lower_char_def Let_def)

lemma valid_seat_plain:
  assumes "is_valid_seat s"
  shows "py_lower s = s" and "s \<noteq> ''''" and "\<And>c. c \<in> set s \<Longrightarrow> \<not> is_space c \<and> addr_char c"
proof -
  have c: "\<And>c. c \<in> set s \<Longrightarrow> seat_char c" using assms by (simp add: is_valid_seat_def list_all_iff)
  then show "py_lower s = s" by (simp add: py_lower_def map_idI seat_char_plain)
  show "s \<noteq> ''''" using assms by (simp add: is_valid_seat_def)
  show "\<And>c. c \<in> set s \<Longrightarrow> \<not> is_space c \<and> addr_char c" using c seat_char_plain by blast
qed

lemma py_strip_line: "is_valid_seat s \<Longrightarrow> py_strip (s @ [CHR 0x0A]) = s"
proof -
  assume v: "is_valid_seat s"
  note p = valid_seat_plain [OF v]
  have "dropWhile is_space (s @ [CHR 0x0A]) = s @ [CHR 0x0A]" using p(2,3) by (cases s) auto
  moreover have "dropWhile is_space (rev (s @ [CHR 0x0A])) = rev s"
    using p(2,3) by (cases s rule: rev_cases) (auto simp: is_space_def)
  ultimately show ?thesis by (simp add: py_strip_def py_lstrip_def py_rstrip_def)
qed

lemma read_written_seat:
  assumes "is_valid_seat s" and "map_of (pb_files b) p = Some (Some (s @ [CHR 0x0A]))"
  shows "read_seat_at b (Some p) = Some s"
proof -
  have "length (s @ [CHR 0x0A]) \<le> 256" using assms(1) by (simp add: is_valid_seat_def)
  then have "take 256 (s @ [CHR 0x0A]) = s @ [CHR 0x0A]" by (rule take_all)
  then show ?thesis
    using assms py_strip_line [OF assms(1)] valid_seat_plain(1) [OF assms(1)] by (simp add: read_seat_at_def)
qed

lemma take_seat_done:
  assumes "take_seat name b = (Inr s, b')"
  shows "s = norm name" and "is_valid_seat s" and "b' = snd (write_seat_file s (b\<lparr>pb_seat := Some s\<rparr>))"
  using assms by (auto simp: take_seat_def assert_local_seat_def Let_def split: if_splits)

text \<open>C20. A seat taken at run time reaches the watcher of a launched session. After a session whose launcher
  gave it a session key has taken a seat and could write the seat file of that key, every process with the
  same key and the same files, whatever it believed to be its seat before, resolves to exactly that
  seat, which is a valid name.\<close>

theorem taken_seat_reaches_the_watcher:
  assumes "take_seat name b = (Inr s, b')" and "pb_writable b"
    and "py_lower (py_strip (environ b ''ENGRAM_SESSION_KEY'')) \<noteq> ''''"
    and "pb_files w = pb_files b'" and "pb_env w = pb_env b" and "pb_home w = pb_home b"
  shows "fst (resolve_session_identity d w) = Some s \<and> s = norm name \<and> is_valid_seat s"
proof -
  note t = take_seat_done [OF assms(1)]
  let ?b1 = "b\<lparr>pb_seat := Some s\<rparr>" and ?k = "py_lower (py_strip (environ b ''ENGRAM_SESSION_KEY''))"
  have path: "seat_file_path x None = key_file b ''.seat'' ?k" if "pb_env x = pb_env b" "pb_home x = pb_home b" for x
  proof -
    have e: "environ x = environ b" using that by (simp add: fun_eq_iff environ_def)
    have "key_file x ''.seat'' k = key_file b ''.seat'' k" for k
      using that e by (simp add: key_file_def seats_dir_def expanduser_def)
    then show ?thesis
      using assms(3) e by (simp add: seat_file_path_def py_or_def resolve_session_key_def Let_def)
  qed
  have "safe_chars (CHR ''_'') ?k \<noteq> ''''" using assms(3) by (simp add: safe_chars_def)
  then obtain p where p: "key_file b ''.seat'' ?k = Some p" by (simp add: key_file_def Let_def)
  have "map_of (pb_files b') p = Some (Some (s @ [CHR 0x0A]))"
    using t(3) path [of ?b1] p assms(2) by (simp add: write_seat_file_def write_file_def update_conv)
  then have "read_seat_at w (Some p) = Some s" using t(2) assms(4) by (intro read_written_seat) simp_all
  then have "fst (read_seat_file w) = Some s"
    using path [OF assms(5,6)] p by (simp add: read_seat_value)
  moreover obtain v w' where r: "resolve_session_identity d w = (v, w')" by force
  ultimately show ?thesis using resolve_is_identity(1) [OF r] t(1,2) by (simp add: identity_value_def)
qed

theorem taken_seat_reaches_the_watcher_witness:
  "fst (resolve_session_identity None ((snd (take_seat (Some '' App-2'') demo_bridge))\<lparr>pb_seat := Some ''old'', pb_pid := 77\<rparr>)) = Some ''app-2''"
proof -
  let ?b' = "snd (take_seat (Some '' App-2'') demo_bridge)"
  have "take_seat (Some '' App-2'') demo_bridge = (Inr ''app-2'', ?b')" by code_simp
  moreover have "pb_writable demo_bridge" "py_lower (py_strip (environ demo_bridge ''ENGRAM_SESSION_KEY'')) \<noteq> ''''"
      "pb_env ?b' = pb_env demo_bridge" "pb_home ?b' = pb_home demo_bridge" by code_simp+
  ultimately show ?thesis
    using taken_seat_reaches_the_watcher [of "Some '' App-2''" demo_bridge "''app-2''" ?b' "?b'\<lparr>pb_seat := Some ''old'', pb_pid := 77\<rparr>" None]
    by simp
qed

section \<open>What the server accepts\<close>

text \<open>A name the server takes as an address, alone and with the host.\<close>

definition addressable :: "string \<Rightarrow> string \<Rightarrow> bool" where
  "addressable host n \<longleftrightarrow> is_valid_seat n \<and> is_alnum (hd n) \<and> length n + length host \<le> 127"

lemma seat_string_valid:
  assumes "list_all seat_char host" and "addressable host n"
  shows "validate_address n = Inr n" and "validate_address (n @ ''@'' @ host) = Inr (n @ ''@'' @ host)"
proof -
  note p = valid_seat_plain [of n]
  have v: "is_valid_seat n" using assms(2) by (simp add: addressable_def)
  have h: "py_lower host = host" using assms(1) by (simp add: py_lower_def map_idI seat_char_plain list_all_iff)
  obtain c cs where n: "n = c # cs" using p(2) [OF v] by (cases n) auto
  have alnum: "is_alnum c" "c \<noteq> CHR ''#''" using assms(2) n by (auto simp: addressable_def is_alnum_def Let_def)
  have cs: "list_all addr_char cs" "list_all addr_char host"
    using p(3) [OF v] assms(1) n seat_char_plain by (auto simp: list_all_iff)
  have re: "ADDRESS_RE n" "ADDRESS_RE (n @ ''@'' @ host)"
    using alnum cs assms(2) n by (auto simp: ADDRESS_RE_def startswith_code addressable_def addr_char_def)
  show "validate_address n = Inr n" "validate_address (n @ ''@'' @ host) = Inr (n @ ''@'' @ host)"
    using re p(1) [OF v] h by (simp_all add: validate_address_Inr ADDRESS_RE_strip lower_char_def)
qed

lemma machine_valid:
  assumes "list_all seat_char host" and "length host \<le> 119"
  shows "validate_address (''machine:'' @ host) = Inr (''machine:'' @ host)"
proof -
  have "py_lower host = host" using assms(1) by (simp add: py_lower_def map_idI seat_char_plain list_all_iff)
  moreover have "py_lower ''machine:'' = ''machine:''" by code_simp
  moreover have "list_all addr_char host" using assms(1) seat_char_plain by (auto simp: list_all_iff)
  then have "ADDRESS_RE (''machine:'' @ host)"
    using assms(2) by (simp add: ADDRESS_RE_def startswith_code addr_char_def is_alnum_def)
  ultimately show ?thesis by (simp only: validate_address_Inr ADDRESS_RE_strip py_lower_append)
qed

lemma validate_all: "(\<And>a. a \<in> set ls \<Longrightarrow> validate_address a = Inr a) \<Longrightarrow> validate_listen_set ls = Inr ls"
  by (induction ls) simp_all


lemma lane_addressable:
  assumes "addressable host project" and "length project + length (resolve_provider b) + length host \<le> 126"
    and "lane_of b project \<noteq> ''''"
  shows "addressable host (lane_of b project)"
  using assms valid_seat_plain(2) [of project]
  by (auto simp: lane_of_def addressable_def Let_def split: if_splits)

text \<open>C21. When a listen set is accepted. If the host name consists of the characters of an address and has
  between one and 119 of them, and the project, the seat, where there is one, and the groups of the session consist of
  such characters, begin with a letter or a digit and are short enough to be qualified with the host, the
  server takes the whole listen set the bridge computes, unchanged; it contains the identity the session
  signs with, the project alone and on this host, and the machine. (A seat outside these conditions
  makes the whole set refused, \<open>seat_the_server_refuses\<close> below.)\<close>

theorem listen_set_is_accepted:
  assumes "fst (compute_identity d b) = (reader, ls)" and "anchored b"
    and host: "hostname b \<noteq> ''''" "list_all seat_char (hostname b)" "length (hostname b) \<le> 119"
    and project: "project = derive_project_name b (identity_anchor_dir b)" "addressable (hostname b) project"
      "length project + length (resolve_provider b) + length (hostname b) \<le> 126"
    and seat: "\<And>s. identity_value d b = Some s \<Longrightarrow> s \<noteq> '''' \<Longrightarrow> addressable (hostname b) s"
    and groups: "\<And>g. g \<in> set (resolve_inbox_groups (pb_files b) (pb_home b) (identity_anchor_dir b)) \<Longrightarrow>
      is_valid_seat g \<Longrightarrow> addressable (hostname b) g"
  shows "validate_listen_set ls = Inr ls \<and> {reader, project, project @ ''@'' @ hostname b, ''machine:'' @ hostname b} \<subseteq> set ls"
proof -
  let ?h = "hostname b"
  obtain b' where "compute_identity d b = ((reader, ls), b')" using assms(1) by (metis prod.collapse)
  from compute_step(1) [OF this assms(2)]
  have out: "(reader, ls) = addresses_of b (or_empty (identity_value d b))" (is "_ = addresses_of b ?o") .
  let ?lane = "lane_of b project"
  have o: "?o \<noteq> '''' \<Longrightarrow> addressable ?h ?o" using seat by (cases "identity_value d b") (auto simp: or_empty_def)
  have lane: "?lane \<noteq> '''' \<Longrightarrow> addressable ?h ?lane" using lane_addressable project by blast
  have ok: "validate_address n = Inr n \<and> validate_address (n @ ''@'' @ ?h) = Inr (n @ ''@'' @ ?h)" if "addressable ?h n" for n
    using seat_string_valid [OF host(2) that] by blast
  have le: "a \<in> set (lane_entries b ?lane) \<Longrightarrow> validate_address a = Inr a" for a
    using ok lane by (auto simp: lane_entries_def split: if_splits)
  have ge: "a \<in> set (group_entries b project x y) \<Longrightarrow> validate_address a = Inr a" for a x y
    using ok groups by (auto simp: group_entries_def)
  have fleet: "validate_address ADMIN_FLEET = Inr ADMIN_FLEET" by code_simp
  have "a \<in> set ls \<Longrightarrow> validate_address a = Inr a" for a
    using out ok project(2) o le ge fleet machine_valid [OF host(2,3)]
    by (auto simp: addresses_of_def project(1) [symmetric] Let_def split: if_splits)
  moreover have "{reader, project, project @ ''@'' @ ?h, ''machine:'' @ ?h} \<subseteq> set ls"
    using out by (auto simp: addresses_of_def project(1) [symmetric] Let_def split: if_splits)
  ultimately show ?thesis using validate_all [of ls] by blast
qed

theorem listen_set_is_accepted_witness:
  "let ls = snd (fst (compute_identity None (snd (take_seat (Some ''app-2'') demo_bridge))))
   in validate_listen_set ls = Inr ls"
proof -
  let ?b = "snd (take_seat (Some ''app-2'') demo_bridge)"
  let ?out = "fst (compute_identity None ?b)"
  have v: "identity_value None ?b = Some ''app-2''" by code_simp
  have g: "resolve_inbox_groups (pb_files ?b) (pb_home ?b) (identity_anchor_dir ?b) = []" by code_simp
  have "?out = (fst ?out, snd ?out)" by simp
  moreover have "anchored ?b" "hostname ?b \<noteq> ''''" "list_all seat_char (hostname ?b)" "length (hostname ?b) \<le> 119"
      "addressable (hostname ?b) ''app-2''" "''app'' = derive_project_name ?b (identity_anchor_dir ?b)"
      "addressable (hostname ?b) ''app''" "length ''app'' + length (resolve_provider ?b) + length (hostname ?b) \<le> 126" by code_simp+
  ultimately have "validate_listen_set (snd ?out) = Inr (snd ?out)"
    using listen_set_is_accepted [of None ?b "fst ?out" "snd ?out" "''app''"] v g by (metis empty_iff list.set(1) option.inject)
  then show ?thesis by (simp add: Let_def)
qed

text \<open>The bridge also accepts seats the server refuses; such a session has no valid listen set.\<close>

lemma seat_the_server_refuses:
  "fst (take_seat (Some ''-x'') demo_bridge) = Inr ''-x'' \<and>
   validate_listen_set (snd (fst (compute_identity None (snd (take_seat (Some ''-x'') demo_bridge))))) = Inl ValueError"
  by code_simp


end
