(* ===== verification/Bridge_Session.thy ===== *)
theory Bridge_Session
  imports Bridge_Identity Session_Router
begin

text \<open>
  The session side of the bridge: \<^verbatim>\<open>engram_mcp/server.py\<close> up to its memory tools, and the request
  wrapper of \<^verbatim>\<open>engram_mcp/client.py\<close>. A session claims its address and refreshes the claim with
  every heartbeat, follows what the server granted, tells its agent about refusals, supervises its
  watcher and certifies its own exit. The globals of the module are the fields of one record. The
  server is an argument: for every call, the function from the request to the answers of the (at
  most two) attempts. The wording of the banners is left out; what decides whether one is shown, and
  the names in it, is kept.
\<close>

section \<open>The wire\<close>

text \<open>What an attempt came to: an exception that is retried (connecting or reading timed out, the
  connection was refused), another exception, or a status with the parsed body, \<^term>\<open>None\<close> when
  the body is not what the caller reads.\<close>

datatype 'a attempt = Transient | Broken string | Response nat "'a option"

datatype call_error = TimedOut | Raised string | HTTPStatusError nat | NotJson

record auth_state =
  au_failures :: nat
  au_status :: "nat option"
  au_path :: "string option"

definition AUTH_REFUSAL_LIMIT :: nat where "AUTH_REFUSAL_LIMIT = 3"

definition note_auth_failure :: "nat \<Rightarrow> string \<Rightarrow> auth_state \<Rightarrow> auth_state" where
  "note_auth_failure st path a =
     a\<lparr>au_failures := au_failures a + 1, au_status := Some st, au_path := Some path\<rparr>"

definition note_auth_ok :: "auth_state \<Rightarrow> auth_state" where
  "note_auth_ok a = (if au_failures a \<noteq> 0 then a\<lparr>au_failures := 0\<rparr> else a)"

definition auth_is_refused :: "auth_state \<Rightarrow> bool" where
  "auth_is_refused a \<longleftrightarrow> AUTH_REFUSAL_LIMIT \<le> au_failures a"

definition received :: "string \<Rightarrow> 'a attempt \<Rightarrow> auth_state \<Rightarrow> (call_error + 'a) \<times> auth_state" where
  "received path r a =
     (case r of
        Transient \<Rightarrow> (Inl TimedOut, a)
      | Broken m \<Rightarrow> (Inl (Raised m), a)
      | Response st body \<Rightarrow>
          (if st < 200 \<or> 300 \<le> st then Inl (HTTPStatusError st)
           else case body of None \<Rightarrow> Inl NotJson | Some x \<Rightarrow> Inr x,
           if st = 401 \<or> st = 403 then note_auth_failure st path a else note_auth_ok a))"

text \<open>\<^verbatim>\<open>_request\<close>: the second attempt is made only when the first one timed out.\<close>

type_synonym 'a wire = "'a attempt \<times> 'a attempt"

definition bridge_request :: "string \<Rightarrow> 'a wire \<Rightarrow> auth_state \<Rightarrow> (call_error + 'a) \<times> auth_state" where
  "bridge_request path w a =
     (case received path (fst w) a of
        (Inl TimedOut, a') \<Rightarrow> received path (snd w) a'
      | x \<Rightarrow> x)"

section \<open>The session\<close>

text \<open>What to say goodbye as, with the process that claimed it.\<close>

record exit_stash =
  xs_session_key :: string
  xs_seat :: string
  xs_lane :: string
  xs_project :: string
  xs_provider :: string
  xs_host :: string
  xs_pid :: nat

datatype claim_failure = NoSessionKey | CallFailed call_error | BadSeat

text \<open>A refused runtime seat: the warning of the server, or the seat the session fell back to.\<close>

datatype revert_notice = ServerWarning string | RevertedTo string

record watch_sight =
  wv_state :: "string option"
  wv_checked :: instant
  wv_seat :: "string option"
  wv_last_beat :: json
  wv_armed_by :: json

record session =
  ss_bridge :: bridge
  ss_auth :: auth_state
  ss_nonce :: string
  ss_claimed :: bool
  ss_failures :: nat
  ss_error :: "claim_failure option"
  ss_claim_shown :: bool
  ss_auth_shown :: bool
  ss_revert :: "revert_notice option"
  ss_rename :: "(string \<times> string) option"
    \<comment> \<open>the name the session was launched with, and the one it was granted\<close>
  ss_rename_shown :: bool
  ss_override_shown :: bool
  ss_fallback_shown :: bool
  ss_exit :: "exit_stash option"
  ss_beat :: instant
  ss_activity :: instant
  ss_collision :: "collision option"
  ss_watch :: watch_sight
  ss_started :: bool
  ss_fifo :: "string option"
  ss_shown :: "string list"

definition resolve_session_nonce :: "bridge \<Rightarrow> string \<Rightarrow> string" where
  "resolve_session_nonce b fresh =
     (let injected = py_strip (environ b ''ENGRAM_SESSION_NONCE'') in if injected \<noteq> '''' then injected else fresh)"

definition own_project :: "bridge \<Rightarrow> string" where
  "own_project b = derive_project_name b (identity_anchor_dir b)"

definition current_seat :: "bridge \<Rightarrow> string option" where
  "current_seat b = pb_seat b"

text \<open>The local part of the identity a session signs with.\<close>

definition own_name :: "string \<Rightarrow> string" where
  "own_name reader = before (CHR ''@'') reader"

section \<open>Claiming the seat\<close>

text \<open>What the session reads of the answer to a claim.\<close>

record claim_body =
  cb_seat :: "string option"
  cb_warning :: "string option"

definition claim_failed :: "claim_failure \<Rightarrow> session \<Rightarrow> session" where
  "claim_failed e s = s\<lparr>ss_failures := ss_failures s + 1, ss_error := Some e\<rparr>"

definition implicit_lane :: "string \<Rightarrow> bridge \<Rightarrow> string" where
  "implicit_lane project b = project @ ''-'' @ resolve_provider b"

definition seat_claim_request :: "string \<Rightarrow> string \<Rightarrow> string \<Rightarrow> bool \<Rightarrow> session \<Rightarrow> seat_req" where
  "seat_claim_request key project preferred runtime s =
     (let b = ss_bridge s
      in \<lparr>sr_session_key = key, sr_project = Some project, sr_provider = Some (resolve_provider b),
          sr_nonce = Some (ss_nonce s), sr_host = Some (hostname b),
          sr_preferred = (if preferred = implicit_lane project b \<and> \<not> runtime then None else Some preferred),
          sr_runtime = runtime\<rparr>)"

definition exit_record :: "string \<Rightarrow> string \<Rightarrow> string \<Rightarrow> bridge \<Rightarrow> exit_stash" where
  "exit_record key project granted b =
     \<lparr>xs_session_key = key, xs_seat = granted, xs_lane = implicit_lane project b, xs_project = project,
      xs_provider = resolve_provider b, xs_host = hostname b, xs_pid = pb_pid b\<rparr>"

text \<open>What follows a grant: the farewell is prepared, the failures are forgotten, and a seat other
  than the one asked for is taken, with a notice. Taking a seat that is not a legal name raises,
  which counts as a failure.\<close>

definition granted_seat :: "string \<Rightarrow> string \<Rightarrow> string \<Rightarrow> bool \<Rightarrow> claim_body \<Rightarrow> session \<Rightarrow> session" where
  "granted_seat key project preferred runtime resp s0 =
     (let granted = norm (cb_seat resp);
          s = s0\<lparr>ss_exit := (if granted \<noteq> '''' then Some (exit_record key project granted (ss_bridge s0)) else ss_exit s0),
                 ss_claimed := True, ss_failures := 0, ss_error := None\<rparr>
      in if granted \<noteq> '''' \<and> granted \<noteq> preferred
         then (case take_seat (Some granted) (ss_bridge s) of
                 (Inl _, b) \<Rightarrow> claim_failed BadSeat (s\<lparr>ss_bridge := b\<rparr>)
               | (Inr _, b) \<Rightarrow>
                   (if runtime
                    then s\<lparr>ss_bridge := b,
                           ss_revert := Some (case Option.bind (cb_warning resp) or_none of
                                                Some w \<Rightarrow> ServerWarning w | None \<Rightarrow> RevertedTo granted)\<rparr>
                    else s\<lparr>ss_bridge := b, ss_rename := Some (preferred, granted)\<rparr>))
         else if runtime \<and> granted = preferred then s\<lparr>ss_revert := None\<rparr> else s)"

definition bridge_claim :: "(seat_req \<Rightarrow> claim_body wire) \<Rightarrow> string option \<Rightarrow> session \<Rightarrow> session" where
  "bridge_claim srv d s0 =
     (case Option.bind (resolve_session_key (ss_bridge s0)) or_none of
        None \<Rightarrow> claim_failed NoSessionKey s0
      | Some key \<Rightarrow>
          (case compute_identity (Option.bind d or_none) (ss_bridge s0) of
             ((reader, _), b) \<Rightarrow>
               (let project = own_project (ss_bridge s0); preferred = own_name reader; runtime = (current_seat b \<noteq> None); s = s0\<lparr>ss_bridge := b\<rparr>
                in case bridge_request ''/session/claim'' (srv (seat_claim_request key project preferred runtime s)) (ss_auth s) of
                     (Inl e, a) \<Rightarrow> claim_failed (CallFailed e) (s\<lparr>ss_auth := a\<rparr>)
                   | (Inr resp, a) \<Rightarrow> granted_seat key project preferred runtime resp (s\<lparr>ss_auth := a\<rparr>))))"

section \<open>The watch of the own seat\<close>

definition WATCH_CHECK_COVERED_EVERY :: int where "WATCH_CHECK_COVERED_EVERY = seconds 120"
definition WATCH_CHECK_UNCOVERED_EVERY :: int where "WATCH_CHECK_UNCOVERED_EVERY = seconds 10"

record watch_body =
  wy_state :: "string option"
  wy_last_beat :: json
  wy_armed_by :: json

definition refresh_watch_state :: "(string \<Rightarrow> watch_body wire) \<Rightarrow> instant \<Rightarrow> string option \<Rightarrow> session \<Rightarrow> session" where
  "refresh_watch_state srv now d s0 =
     (let every = (if wv_state (ss_watch s0) = Some ''covered'' then WATCH_CHECK_COVERED_EVERY
                   else WATCH_CHECK_UNCOVERED_EVERY)
      in if \<not> ss_started s0 \<or> Option.bind (ss_fifo s0) or_none = None \<or> now - wv_checked (ss_watch s0) < every then s0
         else case compute_identity (Option.bind d or_none) (ss_bridge s0) of
                ((reader, _), b) \<Rightarrow>
                  (let v = (ss_watch s0)\<lparr>wv_checked := now\<rparr>; seat = own_name reader;
                       (r, a) = bridge_request ''/session/watch/status'' (srv seat) (ss_auth s0);
                       s = s0\<lparr>ss_bridge := b, ss_auth := a, ss_watch := v\<rparr>
                   in case r of
                        Inl _ \<Rightarrow> s
                      | Inr y \<Rightarrow>
                          (case Option.bind (wy_state y) or_none of
                             None \<Rightarrow> s
                           | Some st \<Rightarrow>
                               s\<lparr>ss_watch := v\<lparr>wv_state := Some st, wv_seat := Some seat,
                                               wv_last_beat := wy_last_beat y, wv_armed_by := wy_armed_by y\<rparr>\<rparr>)))"

section \<open>The watcher's supervisor\<close>

definition wake_state_dir :: "bridge \<Rightarrow> string" where
  "wake_state_dir b = path_join (rstrip_char sep (pb_home b)) ''.local/state/engram/wake''"

text \<open>The named pipe of a session, set when the supervisor thread starts.\<close>

definition fifo_path :: "bridge \<Rightarrow> string" where
  "fifo_path b =
     path_join (wake_state_dir b)
       (safe_chars (CHR ''-'') (or_empty (py_or (resolve_session_key b) (Some ''unkeyed''))) @ ''.fifo'')"

definition watcher_attach_command :: "session \<Rightarrow> string option" where
  "watcher_attach_command s =
     map_option (\<lambda>fifo. ''while true; do cat '' @ fifo @ '' 2>/dev/null; sleep 1; done'')
       (Option.bind (ss_fifo s) or_none)"

definition ensure_watcher_supervisor :: "session \<Rightarrow> session" where
  "ensure_watcher_supervisor s =
     (if ss_started s \<or>
         py_lower (or_empty (case map_of (pb_env (ss_bridge s)) ''ENGRAM_BRIDGE_WATCHER'' of None \<Rightarrow> Some ''on'' | x \<Rightarrow> x))
           \<in> {''off'', ''0'', ''false''}
      then s else s\<lparr>ss_started := True, ss_fifo := Some (fifo_path (ss_bridge s))\<rparr>)"

text \<open>A round of the supervisor: how the child ended, how long it lived and the back-off so far give
  the pause before the next child and the next back-off. Exit 4 is a displaced watcher, 5 a
  configuration that cannot work.\<close>

definition supervisor_pause :: "int option \<Rightarrow> int \<Rightarrow> int \<Rightarrow> int \<times> int" where
  "supervisor_pause rc lived backoff0 =
     (let backoff = (if lived > seconds 120 then seconds 5 else backoff0)
      in (if rc = Some 4 then seconds 150 else if rc = Some 5 then seconds 300 else backoff,
          min (2 * backoff) (seconds 300)))"

fun supervise :: "(int option \<times> int) list \<Rightarrow> int \<Rightarrow> int list" where
  "supervise [] backoff = []"
| "supervise ((rc, lived) # rest) backoff =
     (case supervisor_pause rc lived backoff of (pause, backoff') \<Rightarrow> pause # supervise rest backoff')"

section \<open>Heartbeats\<close>

definition HEARTBEAT_EVERY :: int where "HEARTBEAT_EVERY = seconds 120"

text \<open>The server a session talks to at one moment.\<close>

record api =
  ap_claim :: "seat_req \<Rightarrow> claim_body wire"
  ap_presence :: "beat_req \<Rightarrow> collision option wire"
  ap_watch :: "string \<Rightarrow> watch_body wire"

definition presence_payload :: "string \<Rightarrow> bool \<Rightarrow> session \<Rightarrow> beat_req" where
  "presence_payload identity activity s =
     (let b = ss_bridge s
      in \<lparr>be_identity = identity, be_project = own_project b, be_state = ''running'',
          be_provider = Some (resolve_provider b), be_overlays = [], be_nonce = Some (ss_nonce s),
          be_host = Some (hostname b), be_activity = activity\<rparr>)"

definition beat_presence :: "(beat_req \<Rightarrow> collision option wire) \<Rightarrow> string option \<Rightarrow> bool \<Rightarrow> session \<Rightarrow> session" where
  "beat_presence srv d activity s0 =
     (case compute_identity (Option.bind d or_none) (ss_bridge s0) of
        ((reader, _), b) \<Rightarrow>
          (let s = s0\<lparr>ss_bridge := b\<rparr>
           in case bridge_request ''/memory/presence'' (srv (presence_payload (own_name reader) activity s)) (ss_auth s) of
                (Inl _, a) \<Rightarrow> s\<lparr>ss_auth := a\<rparr>
              | (Inr c, a) \<Rightarrow> s\<lparr>ss_auth := a, ss_collision := c\<rparr>))"

definition beat_due :: "instant \<Rightarrow> bool \<Rightarrow> session \<Rightarrow> bool" where
  "beat_due now activity s \<longleftrightarrow>
     HEARTBEAT_EVERY \<le> now - ss_beat s \<or> (activity \<and> HEARTBEAT_EVERY \<le> now - ss_activity s)"

definition bridge_heartbeat :: "api \<Rightarrow> instant \<Rightarrow> string option \<Rightarrow> bool \<Rightarrow> session \<Rightarrow> session" where
  "bridge_heartbeat srv now d activity s0 =
     (if \<not> beat_due now activity s0 then s0
      else let s = ensure_watcher_supervisor
                     (s0\<lparr>ss_beat := now, ss_activity := (if activity then now else ss_activity s0)\<rparr>)
           in if auth_is_refused (ss_auth s) then s
              else refresh_watch_state (ap_watch srv) now d
                     (beat_presence (ap_presence srv) d activity (bridge_claim (ap_claim srv) d s)))"

section \<open>A seat taken at run time\<close>

datatype take_outcome =
    TakeError exc
  | NotTaken string string
      \<comment> \<open>the seat asked for, and the one the session stays on\<close>
  | Taken string bool
      \<comment> \<open>whether the server has registered it\<close>

definition memory_take_seat ::
  "(seat_req \<Rightarrow> claim_body wire) \<Rightarrow> string \<Rightarrow> string option \<Rightarrow> session \<Rightarrow> take_outcome \<times> session" where
  "memory_take_seat srv name d s0 =
     (case take_seat (Some name) (ss_bridge s0) of
        (Inl e, b) \<Rightarrow> (TakeError e, s0\<lparr>ss_bridge := b\<rparr>)
      | (Inr seat, b) \<Rightarrow>
          (let s = bridge_claim srv d (s0\<lparr>ss_bridge := b, ss_claimed := False\<rparr>);
               final = (case Option.bind (current_seat (ss_bridge s)) or_none of Some f \<Rightarrow> f | None \<Rightarrow> seat)
           in if final \<noteq> seat then (NotTaken seat final, s)
              else (Taken seat (ss_claimed s),
                    s\<lparr>ss_bridge := snd (compute_identity (Option.bind d or_none) (ss_bridge s))\<rparr>)))"

section \<open>The partition of a memory call\<close>

text \<open>\<^verbatim>\<open>_get_principal_name\<close>: the name behind the token. Only a definitive answer is remembered; after
  a failure the server is left alone for a while.\<close>

definition PRINCIPAL_RETRY :: int where "PRINCIPAL_RETRY = seconds 30"

record principal_cache =
  pc_name :: "string option"
  pc_fetched :: bool
  pc_retry_at :: instant

definition get_principal_name ::
  "string \<Rightarrow> (call_error + string option) \<Rightarrow> instant \<Rightarrow> principal_cache \<Rightarrow> string option \<times> principal_cache" where
  "get_principal_name token answer now pc =
     (if pc_fetched pc then (pc_name pc, pc)
      else if token = '''' then (None, pc\<lparr>pc_fetched := True\<rparr>)
      else if now < pc_retry_at pc then (None, pc)
      else case answer of
             Inl _ \<Rightarrow> (None, pc\<lparr>pc_name := None, pc_retry_at := now + PRINCIPAL_RETRY\<rparr>)
           | Inr n \<Rightarrow> (n, pc\<lparr>pc_name := n, pc_fetched := True\<rparr>))"

text \<open>\<^verbatim>\<open>_resolve_partition_with_identity\<close>: for the project scope the directory must be a declared
  project, unless the caller states both the owner and the project.\<close>

definition resolve_partition_with_identity ::
  "string \<Rightarrow> string option \<Rightarrow> string option \<Rightarrow> string option \<Rightarrow> string option \<Rightarrow> string \<Rightarrow> string
     \<Rightarrow> (call_error + string option) \<Rightarrow> instant \<Rightarrow> bridge \<Rightarrow> principal_cache
     \<Rightarrow> (ambiguous + string \<times> string \<times> string option) \<times> bridge \<times> principal_cache" where
  "resolve_partition_with_identity default_scope scope d user project cwd token answer now b0 pc0 =
     (let sc = or_empty (py_or scope (Some default_scope));
          both = (Option.bind user or_none \<noteq> None \<and> Option.bind project or_none \<noteq> None);
          (eff, b) = remember_project_dir (Option.bind d or_none) b0;
          (gate, fs) = (if sc = ''project'' \<and> \<not> both \<and> usable_dir eff \<noteq> None
                        then ensure_project_identity (pb_files b) (pb_home b) eff else (Inr '''', pb_files b));
          b' = b\<lparr>pb_files := fs\<rparr>
      in case gate of
           Inl e \<Rightarrow> (Inl e, b', pc0)
         | Inr _ \<Rightarrow>
             (let (who, pc) = (if sc = ''project'' then get_principal_name token answer now pc0 else (None, pc0));
                  (s, u, p) = resolve_partition fs (pb_home b) cwd (pb_gethostname b) scope default_scope eff who
              in (Inr (s, or_empty (py_or user (Some u)), py_or project p), b', pc)))"

section \<open>The farewell\<close>

text \<open>The certificate the exit hook posts, in the process with the given number.\<close>

definition exit_notice :: "nat \<Rightarrow> string \<Rightarrow> instant \<Rightarrow> session \<Rightarrow> death_req option" where
  "exit_notice pid token now s =
     (case ss_exit s of
        None \<Rightarrow> None
      | Some x \<Rightarrow>
          if xs_seat x = '''' \<or> xs_session_key x = '''' \<or> xs_pid x \<noteq> pid \<or> token = '''' then None
          else Some \<lparr>dr_session_key = xs_session_key x, dr_seat = xs_seat x, dr_lane = xs_lane x,
                     dr_project = Some (xs_project x), dr_provider = xs_provider x, dr_host = xs_host x,
                     dr_died_at = now, dr_cause = ''session-exit'', dr_graceful = Some True,
                     dr_certified_by = None, dr_nonce = None\<rparr>)"

section \<open>Banners\<close>

definition first_time :: "string \<Rightarrow> session \<Rightarrow> bool \<times> session" where
  "first_time kind s =
     (if kind \<in> set (ss_shown s) then (False, s) else (True, s\<lparr>ss_shown := kind # ss_shown s\<rparr>))"

datatype alert =
    CredentialRefused "nat option" nat "string option"
  | WakeStreamNotCovered string "string option" string bool
      \<comment> \<open>the state, the seat, the command to attach, and whether in full\<close>
  | SeatCollision nat "string list" string bool
  | SeatNotRegistered revert_notice
  | SeatedElsewhere string string
  | DeclaredNotInEffect string string
  | AdminByFallback
  | SeatClaimFailing nat "claim_failure option"

definition auth_health_banner :: "session \<Rightarrow> alert list \<times> session" where
  "auth_health_banner s =
     (let a = ss_auth s
      in if ss_auth_shown s \<or> au_failures a < AUTH_REFUSAL_LIMIT then ([], s)
         else ([CredentialRefused (au_status a) (au_failures a) (au_path a)], s\<lparr>ss_auth_shown := True\<rparr>))"

definition wake_stream_banner :: "session \<Rightarrow> alert list \<times> session" where
  "wake_stream_banner s =
     (case wv_state (ss_watch s) of
        Some st \<Rightarrow>
          if st \<in> {''expired'', ''unheld''} then
            (if resolve_provider (ss_bridge s) \<noteq> ''claude'' then ([], s)
             else case watcher_attach_command s of
                    None \<Rightarrow> ([], s)
                  | Some attach \<Rightarrow>
                      (case first_time ''banner:wake'' s of
                         (full, s') \<Rightarrow> ([WakeStreamNotCovered st (wv_seat (ss_watch s)) attach full], s')))
          else ([], s\<lparr>ss_shown := removeAll ''banner:wake'' (ss_shown s)\<rparr>)
      | None \<Rightarrow> ([], s\<lparr>ss_shown := removeAll ''banner:wake'' (ss_shown s)\<rparr>))"

definition seat_collision_banner :: "session \<Rightarrow> alert list \<times> session" where
  "seat_collision_banner s0 =
     (case ss_collision s0 of
        None \<Rightarrow> ([], s0\<lparr>ss_shown := removeAll ''banner:collision'' (ss_shown s0)\<rparr>)
      | Some c \<Rightarrow>
          (case compute_identity None (ss_bridge s0) of
             ((reader, _), b) \<Rightarrow>
               (case first_time ''banner:collision'' (s0\<lparr>ss_bridge := b\<rparr>) of
                  (full, s) \<Rightarrow> ([SeatCollision (co_live_sessions c) (co_providers c) (own_name reader) full], s))))"

definition seat_revert_banner :: "session \<Rightarrow> alert list" where
  "seat_revert_banner s = (case ss_revert s of None \<Rightarrow> [] | Some n \<Rightarrow> [SeatNotRegistered n])"

definition seat_rename_banner :: "session \<Rightarrow> alert list \<times> session" where
  "seat_rename_banner s =
     (case ss_rename s of
        Some (asked, granted) \<Rightarrow>
          if ss_rename_shown s then ([], s) else ([SeatedElsewhere asked granted], s\<lparr>ss_rename_shown := True\<rparr>)
      | None \<Rightarrow> ([], s))"

definition identity_override_banner :: "session \<Rightarrow> alert list \<times> session" where
  "identity_override_banner s =
     (case pb_override (ss_bridge s) of
        Some (declared, used) \<Rightarrow>
          if ss_override_shown s then ([], s)
          else ([DeclaredNotInEffect declared used], s\<lparr>ss_override_shown := True\<rparr>)
      | None \<Rightarrow> ([], s))"

definition admin_fallback_banner :: "session \<Rightarrow> alert list \<times> session" where
  "admin_fallback_banner s0 =
     (if ss_fallback_shown s0 then ([], s0)
      else let (pinned, b0) = remember_project_dir None (ss_bridge s0);
               (ident, b) = resolve_session_identity pinned b0; s = s0\<lparr>ss_bridge := b\<rparr>
           in if Option.bind ident or_none \<noteq> None \<or> \<not> admin_was_fallback b pinned then ([], s)
              else ([AdminByFallback], s\<lparr>ss_fallback_shown := True\<rparr>))"

definition seat_claim_health_banner :: "session \<Rightarrow> alert list \<times> session" where
  "seat_claim_health_banner s =
     (if ss_claim_shown s \<or> ss_failures s < 3 then ([], s)
      else ([SeatClaimFailing (ss_failures s) (ss_error s)], s\<lparr>ss_claim_shown := True\<rparr>))"

text \<open>The banners before a tool result, in the order of \<^verbatim>\<open>_append_guidance\<close>.\<close>

definition alerts :: "session \<Rightarrow> alert list \<times> session" where
  "alerts s0 =
     (let (b1, s1) = auth_health_banner s0; (b2, s2) = wake_stream_banner s1; (b3, s3) = seat_collision_banner s2;
          b4 = seat_revert_banner s3; (b5, s4) = seat_rename_banner s3; (b6, s5) = identity_override_banner s4;
          (b7, s6) = admin_fallback_banner s5; (b8, s7) = seat_claim_health_banner s6
      in (b1 @ b2 @ b3 @ b4 @ b5 @ b6 @ b7 @ b8, s7))"

section \<open>The address a session goes by\<close>

lemma seat_path_parts:
  assumes "pb_env b' = pb_env b" "pb_home b' = pb_home b" "pb_gethostname b' = pb_gethostname b"
    "pb_ppid b' = pb_ppid b" "pb_ps b' = pb_ps b"
  shows "resolve_session_key b' = resolve_session_key b" and "seat_file_path b' None = seat_file_path b None"
proof -
  have e: "environ b' = environ b" "hostname b' = hostname b" "proc_info b' = proc_info b"
    using assms by (simp_all add: fun_eq_iff environ_def hostname_def proc_info_def)
  then have "auto_session_key_for b' = auto_session_key_for b" by (simp add: fun_eq_iff auto_session_key_for_def)
  with e show k: "resolve_session_key b' = resolve_session_key b"
    using assms(4) by (simp add: resolve_session_key_def derive_session_key_def)
  have "key_file b' = key_file b" using assms(2) e by (simp add: fun_eq_iff key_file_def seats_dir_def expanduser_def)
  with k show "seat_file_path b' None = seat_file_path b None" by (simp add: seat_file_path_def)
qed

lemma take_seat_state:
  assumes "take_seat name b = (r, b')"
  shows "pb_env b' = pb_env b" "pb_home b' = pb_home b" "pb_gethostname b' = pb_gethostname b" "pb_ppid b' = pb_ppid b"
    "pb_ps b' = pb_ps b" "pb_pid b' = pb_pid b" "anchored b' = anchored b"
  using assms
  by (auto simp: take_seat_def assert_local_seat_def Let_def write_seat_file_def write_file_def anchored_def
      split: if_splits option.splits)

lemma taken_seat_is_read:
  assumes "take_seat name b = (Inr s, b')" and "pb_writable b" and "resolve_session_key b = Some key" and "key \<noteq> ''''"
  shows "read_seat_at b' (seat_file_path b' None) = Some s"
proof -
  note t = take_seat_done [OF assms(1)] and st = take_seat_state [OF assms(1)]
  let ?b1 = "b\<lparr>pb_seat := Some s\<rparr>"
  obtain p where p: "seat_file_path b None = Some p"
    using assms(3,4) by (auto simp: seat_file_path_def py_or_def key_file_def safe_chars_def Let_def)
  then have "seat_file_path ?b1 None = Some p" using seat_path_parts(2) [of ?b1 b] by simp
  then have "map_of (pb_files b') p = Some (Some (s @ [CHR 0x0A]))"
    using t(3) assms(2) by (simp add: write_seat_file_def write_file_def update_conv)
  moreover have "seat_file_path b' None = Some p" using seat_path_parts(2) [OF st(1-5)] p by simp
  ultimately show ?thesis using read_written_seat [OF t(2)] by simp
qed

lemma before_absent: "c \<notin> set s \<Longrightarrow> before c (s @ c # r) = s"
  by (induction s) (auto simp: before_def py_partition_def)

lemma own_name_of_seat:
  assumes "is_valid_seat g"
  shows "own_name (fst (addresses_of b g)) = g"
proof -
  have "CHR ''@'' \<notin> set g" using assms by (auto simp: is_valid_seat_def list_all_iff seat_char_def is_alnum_def Let_def)
  then have "own_name (g @ ''@'' @ h) = g" for h by (simp add: own_name_def before_absent)
  moreover have "fst (addresses_of b g) = g @ ''@'' @ hostname b"
    using assms by (auto simp: addresses_of_def Let_def is_valid_seat_def)
  ultimately show ?thesis by metis
qed

text \<open>What the session signs its mail with, for a call that names the given directory.\<close>

definition signs_as :: "string option \<Rightarrow> bridge \<Rightarrow> string" where
  "signs_as d b = own_name (fst (fst (compute_identity (Option.bind d or_none) b)))"

lemma signs_as_seat:
  assumes "read_seat_at b (seat_file_path b None) = Some g" and "anchored b" and "is_valid_seat g"
  shows "signs_as d b = g"
proof -
  let ?d = "Option.bind d or_none"
  obtain out b' where c: "compute_identity ?d b = (out, b')" by (metis prod.collapse)
  have "identity_value ?d b = Some g" using assms(1) by (simp add: identity_value_def read_seat_value)
  then show ?thesis
    using compute_step(1) [OF c assms(2)] c own_name_of_seat [OF assms(3), of b] by (simp add: signs_as_def or_empty_def)
qed

lemma signs_as_again:
  assumes "compute_identity (Option.bind d or_none) b = (out, b')" and "anchored b"
  shows "signs_as d b' = own_name (fst out)" and "signs_as d b = own_name (fst out)"
proof -
  let ?d = "Option.bind d or_none"
  note st = compute_step [OF assms]
  obtain out2 b2 where c: "compute_identity ?d b' = (out2, b2)" by (metis prod.collapse)
  have "out2 = out"
    using compute_step(1) [OF c st(3)] st(1) st(4) [of ?d] addresses_core [OF st(2) assms(2)] by simp
  then show "signs_as d b' = own_name (fst out)" "signs_as d b = own_name (fst out)"
    using c assms(1) by (simp_all add: signs_as_def)
qed

section \<open>What a claim leaves\<close>

text \<open>The claim a session makes next.\<close>

definition claim_of :: "string option \<Rightarrow> string \<Rightarrow> session \<Rightarrow> seat_req" where
  "claim_of d key s =
     (case compute_identity (Option.bind d or_none) (ss_bridge s) of
        ((reader, _), b) \<Rightarrow>
          seat_claim_request key (own_project (ss_bridge s)) (own_name reader) (current_seat b \<noteq> None) (s\<lparr>ss_bridge := b\<rparr>))"

text \<open>The outcome of a claim that was answered, after the request.\<close>

lemma bridge_claim_answered:
  assumes "resolve_session_key (ss_bridge s) = Some key" and "key \<noteq> ''''"
    and "compute_identity (Option.bind d or_none) (ss_bridge s) = (out, b)"
    and "fst (bridge_request ''/session/claim'' (srv (claim_of d key s)) (ss_auth s)) = Inr resp"
  obtains a where "bridge_claim srv d s =
    granted_seat key (own_project (ss_bridge s)) (own_name (fst out)) (current_seat b \<noteq> None) resp
      (s\<lparr>ss_bridge := b, ss_auth := a\<rparr>)"
proof -
  obtain a where "bridge_request ''/session/claim'' (srv (claim_of d key s)) (ss_auth s) = (Inr resp, a)"
    using assms(4) by (metis prod.collapse)
  then show thesis using assms(1-3)
    by (intro that [of a]) (simp add: bridge_claim_def claim_of_def or_none_def Let_def split_beta)
qed

lemma granted_seat_kept:
  assumes "norm (cb_seat resp) = preferred" and "preferred \<noteq> ''''"
  shows "ss_bridge (granted_seat key project preferred runtime resp s) = ss_bridge s"
    and "ss_exit (granted_seat key project preferred runtime resp s) = Some (exit_record key project preferred (ss_bridge s))"
    and "ss_failures (granted_seat key project preferred runtime resp s) = 0"
  using assms by (simp_all add: granted_seat_def Let_def)

lemma granted_seat_taken:
  assumes "norm (cb_seat resp) = g" and "is_valid_seat g" and "g \<noteq> preferred"
  obtains b where "take_seat (Some g) (ss_bridge s) = (Inr g, b)"
    and "ss_bridge (granted_seat key project preferred runtime resp s) = b"
    and "ss_exit (granted_seat key project preferred runtime resp s) = Some (exit_record key project g (ss_bridge s))"
    and "ss_failures (granted_seat key project preferred runtime resp s) = 0"
    and "if runtime then ss_revert (granted_seat key project preferred runtime resp s) \<noteq> None
         else ss_rename (granted_seat key project preferred runtime resp s) = Some (preferred, g)"
proof -
  have n: "norm (Some g) = g"
  proof -
    have "py_strip g = g"
      using valid_seat_plain [OF assms(2)] by (intro py_strip_id) auto
    then show ?thesis using valid_seat_plain(1) [OF assms(2)] by (simp add: norm_def or_empty_def)
  qed
  then have t: "fst (take_seat (Some g) (ss_bridge s)) = Inr g"
    using assms(2) valid_seat_plain(2) [OF assms(2)] by (auto simp: take_seat_def assert_local_seat_def Let_def split: prod.splits)
  then obtain b where b: "take_seat (Some g) (ss_bridge s) = (Inr g, b)" by (metis prod.collapse)
  show thesis
    by (rule that [OF b]) (use assms b valid_seat_plain(2) [OF assms(2)] in \<open>simp_all add: granted_seat_def Let_def\<close>)
qed

lemma core_writable: "pb_writable (core b) = pb_writable b"
  by (simp add: core_def)

text \<open>A session goes by the seat it was granted. When that is not the name it went by before, it has
  been recorded in the file the watcher follows, and the agent has a notice.\<close>

lemma granted_seat_is_the_address:
  assumes "resolve_session_key (ss_bridge s) = Some key" and "key \<noteq> ''''" and "anchored (ss_bridge s)"
    and "pb_writable (ss_bridge s)" and "fst (bridge_request ''/session/claim'' (srv (claim_of d key s)) (ss_auth s)) = Inr resp"
    and "g = norm (cb_seat resp)" and "is_valid_seat g" and "s' = bridge_claim srv d s"
  shows "signs_as d (ss_bridge s') = g \<and> ss_failures s' = 0 \<and>
    (\<exists>x. ss_exit s' = Some x \<and> xs_seat x = g \<and> xs_session_key x = key \<and> xs_pid x = pb_pid (ss_bridge s)) \<and>
    (signs_as d (ss_bridge s) \<noteq> g \<longrightarrow>
      read_seat_at (ss_bridge s') (seat_file_path (ss_bridge s') None) = Some g \<and>
      (ss_revert s' \<noteq> None \<or> ss_rename s' = Some (signs_as d (ss_bridge s), g)))"
proof -
  obtain out b where c: "compute_identity (Option.bind d or_none) (ss_bridge s) = (out, b)" by (metis prod.collapse)
  note st = compute_step [OF c assms(3)] and sig = signs_as_again [OF c assms(3)]
  have core: "core b = core (ss_bridge s)" using st(2) .
  then have f: "pb_writable b" "pb_pid b = pb_pid (ss_bridge s)" using assms(4) by (metis core_writable, metis core_fields(6))
  have key: "resolve_session_key b = Some key" using core assms(1) by (metis core_keys(2))
  let ?p = "own_project (ss_bridge s)" and ?n = "own_name (fst out)" and ?r = "current_seat b \<noteq> None"
  obtain a where "bridge_claim srv d s = granted_seat key ?p ?n ?r resp (s\<lparr>ss_bridge := b, ss_auth := a\<rparr>)" (is "_ = granted_seat _ _ _ _ _ ?s")
    by (rule bridge_claim_answered [where srv = srv and d = d, OF assms(1,2) c assms(5)])
  then have s': "s' = granted_seat key ?p ?n ?r resp ?s" using assms(8) by simp
  have ne: "g \<noteq> ''''" using valid_seat_plain(2) [OF assms(7)] .
  show ?thesis
  proof (cases "g = ?n")
    case True
    then show ?thesis
      using granted_seat_kept [of resp ?n key ?p ?r ?s] assms(6) ne sig f by (simp add: s' exit_record_def)
  next
    case False
    from granted_seat_taken [OF assms(6) [symmetric] assms(7) False, of ?s key ?p ?r]
    obtain b' where t: "take_seat (Some g) b = (Inr g, b')" "ss_bridge s' = b'"
      "ss_exit s' = Some (exit_record key ?p g b)" "ss_failures s' = 0"
      "if ?r then ss_revert s' \<noteq> None else ss_rename s' = Some (?n, g)"
      unfolding s' [symmetric] by auto
    have fil: "read_seat_at b' (seat_file_path b' None) = Some g" using taken_seat_is_read [OF t(1) f(1) key assms(2)] .
    have "anchored b'" using take_seat_state(7) [OF t(1)] st(3) by simp
    then show ?thesis
      using signs_as_seat [OF fil _ assms(7)] fil t sig f(2) by (auto simp: exit_record_def split: if_splits)
  qed
qed


section \<open>What the registry answers\<close>

text \<open>The row of a seat held by the session a claim is for.\<close>

definition held_by :: "settings \<Rightarrow> seat_req \<Rightarrow> row \<Rightarrow> bool" where
  "held_by cfg c r \<longleftrightarrow>
     seat_row cfg r \<and> r_project r = Some (norm (sr_project c)) \<and> jget_text (md r) ''session_key'' = Some (sr_session_key c)"

lemma held_by_rewatch:
  "seat_row cfg r \<Longrightarrow> r_project r = Some (norm (sr_project c)) \<Longrightarrow> jget_text m ''session_key'' = Some (sr_session_key c) \<Longrightarrow>
   held_by cfg c (rewatch m now r)"
  by (simp add: held_by_def rewatch_def seat_row_def)

lemma held_by_new:
  "p = norm (sr_project c) \<Longrightarrow> jget_text m ''session_key'' = Some (sr_session_key c) \<Longrightarrow>
   held_by cfg c ((new_seat cfg seat p m now)\<lparr>r_id := i\<rparr>)"
  by (simp add: held_by_def new_seat_def new_row_def seat_row_def md_def)

lemma seat_name_simps [simp]:
  "seat_name (rewatch m now r) = seat_name r" "seat_name ((new_seat cfg seat p m now)\<lparr>r_id := i\<rparr>) = seat"
  "r_key ((new_seat cfg seat p m now)\<lparr>r_id := i\<rparr>) = ''seat/'' @ seat" "r_key (rewatch m now r) = r_key r"
  by (simp_all add: seat_name_def rewatch_def new_seat_def new_row_def)

lemma granted_held:
  assumes "takeable cfg a now t seat" and "ac_project a = norm (sr_project c)"
  shows "\<exists>x \<in> set (granted_table cfg c a seat now t). held_by cfg c x \<and> seat_name x = seat"
proof (cases "fetchrow (seat_at cfg (ac_project a) seat) t")
  case None
  then show ?thesis using assms(2) by (auto simp: granted_table_def granted_meta_def intro!: held_by_new)
next
  case (Some r)
  let ?hit = "\<lambda>s. seat_at cfg (ac_project a) seat s \<and> r_last_used_at s < takeover_cutoff r now"
  let ?w = "rewatch (granted_meta c a seat now) now"
  obtain s where s: "s \<in> set t" "?hit s" using assms(1) Some by (auto simp: takeable_def list_ex_iff)
  then have "?w s \<in> set (granted_table cfg c a seat now t)" using Some by (force simp: granted_table_def sql_update_def)
  moreover have "held_by cfg c (?w s)" using s(2) assms(2) by (intro held_by_rewatch) (simp_all add: seat_at_def granted_meta_def)
  ultimately show ?thesis using s(2) by (intro bexI [of _ "?w s"]) (simp_all add: seat_at_def seat_name_def)
qed

lemma refreshed_held:
  assumes "rows \<noteq> []" and "p = norm (sr_project c)" and "set rows \<subseteq> {r \<in> set t. seat_row cfg r \<and> r_project r = Some p}"
    and "refresh_seat cfg c p pv pf ws rows now t = (r, u)"
  shows "\<exists>x \<in> set u. held_by cfg c x \<and> seat_name x = cr_seat r"
proof -
  let ?h = "held_row c rows"
  let ?x = "rewatch (refreshed_meta c (base_name p pv) pv pf rows now) now ?h"
  have h: "?h \<in> set t" "seat_row cfg ?h" "r_project ?h = Some p" using held_row_in [OF assms(1), of c] assms(3) by auto
  have u: "u = fold (drop_duplicate cfg c p ?h) rows
      (sql_update (\<lambda>s. seat_row cfg s \<and> r_project s = Some p \<and> r_key s = r_key ?h)
        (rewatch (refreshed_meta c (base_name p pv) pv pf rows now) now) t)" "cr_seat r = seat_name ?h"
    using assms(4) by (auto simp: refresh_seat_def Let_def)
  have "?x \<in> set u" unfolding u(1) using h by (intro drops_keep_held) (force simp: sql_update_def, simp)
  moreover have "held_by cfg c ?x" using h assms(2) by (intro held_by_rewatch) (simp_all add: refreshed_meta_def Let_def)
  ultimately show ?thesis using u(2) by (intro bexI [of _ ?x]) simp_all
qed

lemma moved_held:
  assumes "try_move cfg c p pv name rows now t = (True, u)" and "p = norm (sr_project c)"
  shows "\<exists>x \<in> set u. held_by cfg c x \<and> r_key x = ''seat/'' @ name"
proof (cases "fetchrow (seat_at cfg p name) t")
  case None
  then show ?thesis
    using assms by (auto simp: try_move_cases move_meta_def intro!: held_by_new)
next
  case (Some r)
  then have r: "r \<in> set t" "seat_at cfg p name r" by (auto dest: fetchrow_Some)
  let ?w = "rewatch (move_meta c pv name rows now) now"
  have "?w r \<in> set u" using assms(1) Some r by (force simp: try_move_cases sql_update_def split: if_splits)
  moreover have "held_by cfg c (?w r)" using r(2) assms(2) by (intro held_by_rewatch) (simp_all add: seat_at_def move_meta_def)
  ultimately show ?thesis using r(2) by (intro bexI [of _ "?w r"]) (simp_all add: seat_at_def)
qed

lemma continue_claim_cases:
  assumes "continue_claim cfg c p pv pf ws rows now t = (r, u)"
  obtains (refresh) ws' where "refresh_seat cfg c p pv pf ws' rows now t = (r, u)"
    | (still) "cr_seat r = seat_name (held_row c rows)" "u = t"
    | (moved) name v where "name \<noteq> seat_name (held_row c rows)" "cr_seat r = name"
        "try_move cfg c p pv name rows now t = (True, v)" "u = v \<or> u = delete_seat cfg p (r_key (held_row c rows)) v"
proof (cases pf)
  case None
  then show thesis using assms by (intro refresh [of ws]) (simp add: continue_claim_def Let_def)
next
  case (Some name)
  let ?h = "held_row c rows"
  note cc = assms [unfolded continue_claim_def Let_def Some option.case]
  obtain b v where mv: "try_move cfg c p pv name rows now t = (b, v)" by force
  consider "\<not> (sr_runtime c \<and> name \<noteq> seat_name ?h \<and> same_process c rows)"
    | "sr_runtime c \<and> name \<noteq> seat_name ?h \<and> same_process c rows"
      "is_reserved_lane cfg name p \<or> is_reserved_root cfg name p \<or> name \<in> set (fetch_known_roots cfg t)"
    | "sr_runtime c \<and> name \<noteq> seat_name ?h \<and> same_process c rows"
      "\<not> is_reserved_lane cfg name p" "\<not> (is_reserved_root cfg name p \<or> name \<in> set (fetch_known_roots cfg t))"
    by blast
  then show thesis
  proof cases
    case 1
    then show thesis using cc Some by (intro refresh [of ws]) simp
  next
    case 2
    then have "cr_seat r = seat_name ?h \<and> u = t" using cc by (auto simp: still_def split: if_splits)
    then show thesis by (intro still) simp_all
  next
    case 3
    show thesis
    proof (cases b)
      case True
      have "cr_seat r = name \<and> (u = v \<or> u = delete_seat cfg p (r_key ?h) v)" using cc 3 mv True by (auto simp: still_def)
      with 3 mv True show thesis by (intro moved [of name v]) simp_all
    next
      case False
      then have "v = t" using mv by (auto simp: try_move_cases split: option.splits if_splits)
      with cc 3 mv False Some show thesis by (intro refresh [of "[RuntimeUnavailable name]"]) simp
    qed
  qed
qed

lemma answered_seat_is_held:
  assumes "seat_claim cfg c now t = (Inr r, t')" and "norm (sr_project c) \<notin> set SEAT_EXEMPT_IDENTITIES"
    and "\<not> list_ex (\<lambda>y. or_none (norm (sr_preferred c)) = Some y) SEAT_EXEMPT_IDENTITIES"
  shows "\<exists>x \<in> set t'. held_by cfg c x \<and> seat_name x = cr_seat r"
proof -
  let ?p = "norm (sr_project c)"
  let ?t0 = "register_project cfg ?p now t"
  let ?rows = "in_order (base_name ?p (provider_of c)) (held_rows cfg ?p (sr_session_key c) ?t0)"
  have rows: "set ?rows \<subseteq> {r \<in> set ?t0. seat_row cfg r \<and> r_project r = Some ?p}" by (auto simp: held_rows_def)
  have mine: "y \<in> set ?rows \<Longrightarrow> held_by cfg c y" for y by (auto simp: held_rows_def held_by_def)
  from refl refl refl assms(2,3) show ?thesis
  proof (cases rule: seat_claim_cases [where cfg = cfg and now = now and t = t])
    case (alloc ws)
    let ?a = "alloc_context cfg c ?p (provider_of c) (fst (admitted_preference cfg c ?p)) now ?t0"
    have "allocate cfg c ?a now ?t0 (seat_candidates ?p (provider_of c) (fst (admitted_preference cfg c ?p))) ws None = (Inr r, t')"
      using alloc(2) assms(1) by (simp add: start_allocation_def)
    from allocate_Inr [OF this] obtain s where s: "takeable cfg ?a now ?t0 s" "cr_seat r = s"
      "t' = inherit cfg c ?a s now (granted_table cfg c ?a s now ?t0)" by (auto simp: grant_def)
    have a: "ac_project ?a = ?p" by (simp add: alloc_context_def)
    from granted_held [OF s(1) a] s(2,3) show ?thesis
      by (auto simp: held_by_def inherit_def intro!: keep_inherit)
  next
    case (hold r' u)
    note hm = held_row_in [OF hold(1), of c]
    note refr = refreshed_held [OF hold(1) refl rows]
    from hold(3) assms(1) have ru: "r' = r" "u = t'" by simp_all
    from hold(4) [unfolded ru] show ?thesis
    proof (cases rule: continue_claim_cases)
      case (refresh ws')
      then show ?thesis by (rule refr)
    next
      case still
      moreover have "held_row c ?rows \<in> set ?t0" "held_by cfg c (held_row c ?rows)" using hm mine rows by blast+
      ultimately show ?thesis by metis
    next
      case (moved name v)
      from moved_held [OF moved(3) refl] obtain x where x: "x \<in> set v" "held_by cfg c x" "r_key x = ''seat/'' @ name" by blast
      have n: "seat_name x = name" using x(3) by (simp add: seat_name_def)
      then have "r_key x \<noteq> r_key (held_row c ?rows)" using moved(1) by (metis seat_name_def)
      then have "x \<in> set (delete_seat cfg ?p (r_key (held_row c ?rows)) v)" by (rule keep_delete_seat [OF x(1)])
      then have "x \<in> set t'" using x(1) moved(4) by metis
      then show ?thesis using x(2) n moved(2) by metis
    qed
  qed
qed


text \<open>The endpoint as the bridge reaches it, and its answer as the bridge reads it; \<open>say\<close> is the
  wording of the warnings.\<close>

definition claim_endpoint ::
  "settings \<Rightarrow> principal option \<Rightarrow> instant \<Rightarrow> server \<Rightarrow> seat_req \<Rightarrow> claim_result res \<times> server" where
  "claim_endpoint cfg p now v c =
     (case parse_claim c of Inl _ \<Rightarrow> (Inl (HTTPException 422), v) | Inr c' \<Rightarrow> claim_seat cfg p c' now v)"

definition claim_api ::
  "settings \<Rightarrow> principal option \<Rightarrow> (claim_note list \<Rightarrow> string) \<Rightarrow> instant \<Rightarrow> server \<Rightarrow> seat_req \<Rightarrow> claim_body wire" where
  "claim_api cfg p say now v c =
     (let r = (case fst (claim_endpoint cfg p now v c) of
                 Inr x \<Rightarrow> Response 200 (Some \<lparr>cb_seat = Some (cr_seat x),
                            cb_warning = (if cr_warning x = [] then None else Some (say (cr_warning x)))\<rparr>)
               | Inl (HTTPException n) \<Rightarrow> Response n None
               | Inl _ \<Rightarrow> Response 500 None)
      in (r, r))"

lemma claim_endpoint_answered:
  assumes "claim_endpoint cfg p now v c = (Inr r, v')"
  obtains c' where "seat_claim cfg c' now (memories v) = (Inr r, memories v')"
    "sr_session_key c' = py_lower (py_strip (sr_session_key c))" "norm (sr_project c') = norm (sr_project c)"
    "sr_preferred c' = sr_preferred c"
proof -
  obtain c' where c': "parse_claim c = Inr c'" "claim_seat cfg p c' now v = (Inr r, v')"
    using assms by (auto simp: claim_endpoint_def split: sum.splits)
  then have "seat_claim cfg c' now (memories v) = (Inr r, memories v')"
    by (auto simp: claim_seat_def on_table_def split: sum.splits prod.splits if_splits)
  moreover have "sr_session_key c' = py_lower (py_strip (sr_session_key c))"
      "norm (sr_project c') = norm (sr_project c)" "sr_preferred c' = sr_preferred c"
    using c'(1) by (auto simp: parse_claim_def valid_def Let_def split: if_splits)
  ultimately show thesis using that by blast
qed

lemma claim_api_answered:
  assumes "claim_endpoint cfg p now v c = (Inr r, v')"
  shows "\<exists>w. fst (bridge_request path (claim_api cfg p say now v c) a) = Inr \<lparr>cb_seat = Some (cr_seat r), cb_warning = w\<rparr>"
  using assms by (simp add: claim_api_def bridge_request_def received_def Let_def)

lemma norm_valid_seat: "is_valid_seat g \<Longrightarrow> norm (Some g) = g"
  using py_strip_id [of g] valid_seat_plain [of g] by (simp add: norm_def or_empty_def)

text \<open>C32. The bridge, its watcher and the registry agree on who a session is. Take a session with a
  session key, a fixed anchor and a seat file it can write, whose project and name are no shared roles. After a
  claim the registry answered with a legal name, the session signs its mail with that name; the table
  has a seat of that name in the session's project, held by the session's key; the farewell the
  session would file names the same seat, the key and its own process. When the name is not the
  one the session went by before, it has been recorded in the file the watcher follows, and its
  agent has a notice, of the refusal or of the new name.\<close>

theorem session_and_registry_agree:
  assumes "resolve_session_key (ss_bridge s) = Some key" and "key \<noteq> ''''" and "anchored (ss_bridge s)"
    and "pb_writable (ss_bridge s)" and "claim_endpoint cfg p now v (claim_of d key s) = (Inr r, v')"
    and "is_valid_seat (cr_seat r)" and "norm (Some (own_project (ss_bridge s))) \<notin> set SEAT_EXEMPT_IDENTITIES"
    and "norm (Some (signs_as d (ss_bridge s))) \<notin> set SEAT_EXEMPT_IDENTITIES"
    and "s' = bridge_claim (claim_api cfg p say now v) d s"
  shows "signs_as d (ss_bridge s') = cr_seat r \<and>
    (\<exists>row \<in> set (memories v'). seat_row cfg row \<and> seat_name row = cr_seat r \<and>
       r_project row = Some (norm (Some (own_project (ss_bridge s)))) \<and>
       jget_text (md row) ''session_key'' = Some (py_lower (py_strip key))) \<and>
    (\<exists>x. ss_exit s' = Some x \<and> xs_seat x = cr_seat r \<and> xs_session_key x = key \<and> xs_pid x = pb_pid (ss_bridge s)) \<and>
    (signs_as d (ss_bridge s) \<noteq> cr_seat r \<longrightarrow>
      read_seat_at (ss_bridge s') (seat_file_path (ss_bridge s') None) = Some (cr_seat r) \<and>
      (ss_revert s' \<noteq> None \<or> ss_rename s' = Some (signs_as d (ss_bridge s), cr_seat r)))"
proof -
  let ?c = "claim_of d key s"
  obtain w where "fst (bridge_request ''/session/claim'' (claim_api cfg p say now v ?c) (ss_auth s)) =
      Inr \<lparr>cb_seat = Some (cr_seat r), cb_warning = w\<rparr>" using claim_api_answered [OF assms(5)] by blast
  note adopt = granted_seat_is_the_address [where srv = "claim_api cfg p say now v" and d = d, OF assms(1-4) this _ _ assms(9)]
  obtain c' where c': "seat_claim cfg c' now (memories v) = (Inr r, memories v')"
    "sr_session_key c' = py_lower (py_strip (sr_session_key ?c))" "norm (sr_project c') = norm (sr_project ?c)"
    "sr_preferred c' = sr_preferred ?c" by (rule claim_endpoint_answered [OF assms(5)])
  have req: "sr_session_key ?c = key" "sr_project ?c = Some (own_project (ss_bridge s))"
    "sr_preferred ?c \<in> {None, Some (signs_as d (ss_bridge s))}"
    by (auto simp: claim_of_def seat_claim_request_def signs_as_def Let_def split: prod.splits)
  have wish: "\<not> list_ex (\<lambda>y. or_none (norm (sr_preferred c')) = Some y) SEAT_EXEMPT_IDENTITIES"
    using req(3) assms(8) by (auto simp: c'(4) list_ex_iff or_none_def norm_def or_empty_def py_strip_def py_lstrip_def py_rstrip_def py_lower_def split: if_splits)
  obtain x where "x \<in> set (memories v')" "held_by cfg c' x" "seat_name x = cr_seat r"
    using answered_seat_is_held [OF c'(1) _ wish] assms(7) c'(3) req(2) by auto
  then have "\<exists>row \<in> set (memories v'). seat_row cfg row \<and> seat_name row = cr_seat r \<and>
       r_project row = Some (norm (Some (own_project (ss_bridge s)))) \<and>
       jget_text (md row) ''session_key'' = Some (py_lower (py_strip key))"
    using c'(2,3) req(1,2) by (auto simp: held_by_def)
  then show ?thesis using adopt norm_valid_seat [OF assms(6)] assms(6) by simp
qed


section \<open>A refused credential\<close>

lemma received_failures: "au_failures (snd (received path r a)) \<le> au_failures a + 1"
  by (simp add: received_def note_auth_failure_def note_auth_ok_def split: attempt.split)

lemma received_timed_out: "fst (received path r a) = Inl TimedOut \<Longrightarrow> snd (received path r a) = a"
  by (auto simp: received_def split: attempt.splits option.splits if_splits)

text \<open>A call is refused at most once.\<close>

lemma request_failures: "bridge_request path w a = (e, a') \<Longrightarrow> au_failures a' \<le> Suc (au_failures a)"
  using received_failures [of path "fst w" a] received_failures [of path "snd w" a] received_timed_out [of path "fst w" a]
  by (auto simp: bridge_request_def split: prod.splits sum.splits call_error.splits)

lemma claim_failed_simps [simp]:
  "ss_auth (claim_failed e s) = ss_auth s" "ss_exit (claim_failed e s) = ss_exit s" "ss_bridge (claim_failed e s) = ss_bridge s"
  by (simp_all add: claim_failed_def)

lemma granted_auth [simp]: "ss_auth (granted_seat key p preferred runtime resp s) = ss_auth s"
  by (simp add: granted_seat_def Let_def split: prod.split sum.split)

lemma claim_failures: "au_failures (ss_auth (bridge_claim srv d s)) \<le> au_failures (ss_auth s) + 1"
  by (auto simp: bridge_claim_def Let_def split: option.splits prod.splits sum.splits dest!: request_failures)

lemma presence_failures: "au_failures (ss_auth (beat_presence srv d activity s)) \<le> au_failures (ss_auth s) + 1"
  by (auto simp: beat_presence_def Let_def split: option.splits prod.splits sum.splits dest!: request_failures)

lemma watch_failures: "au_failures (ss_auth (refresh_watch_state srv now d s)) \<le> au_failures (ss_auth s) + 1"
  by (auto simp: refresh_watch_state_def Let_def split: option.splits prod.splits sum.splits dest!: request_failures)

lemma supervisor_simps [simp]:
  "ss_auth (ensure_watcher_supervisor s) = ss_auth s" "ss_exit (ensure_watcher_supervisor s) = ss_exit s"
  "ss_bridge (ensure_watcher_supervisor s) = ss_bridge s"
  by (simp_all add: ensure_watcher_supervisor_def)

text \<open>A heartbeat once the credential counts as refused: the clock is read and the supervisor is
  looked after; nothing else happens.\<close>

definition idle_beat :: "instant \<Rightarrow> bool \<Rightarrow> session \<Rightarrow> session" where
  "idle_beat now activity s =
     (if beat_due now activity s
      then ensure_watcher_supervisor (s\<lparr>ss_beat := now, ss_activity := (if activity then now else ss_activity s)\<rparr>)
      else s)"

lemma heartbeat_refused: "auth_is_refused (ss_auth s) \<Longrightarrow> bridge_heartbeat srv now d activity s = idle_beat now activity s"
  by (simp add: bridge_heartbeat_def idle_beat_def Let_def)

lemma idle_beat_auth [simp]: "ss_auth (idle_beat now activity s) = ss_auth s"
  by (simp add: idle_beat_def)

lemma heartbeat_failures:
  "\<not> auth_is_refused (ss_auth s) \<Longrightarrow>
   au_failures (ss_auth (bridge_heartbeat srv now d activity s)) \<le> au_failures (ss_auth s) + 3"
proof -
  let ?s = "ensure_watcher_supervisor (s\<lparr>ss_beat := now, ss_activity := (if activity then now else ss_activity s)\<rparr>)"
  let ?c = "bridge_claim (ap_claim srv) d ?s"
  let ?p = "beat_presence (ap_presence srv) d activity ?c"
  assume "\<not> auth_is_refused (ss_auth s)"
  then show ?thesis
    using claim_failures [of "ap_claim srv" d ?s] presence_failures [of "ap_presence srv" d activity ?c]
      watch_failures [of "ap_watch srv" now d ?p]
    by (simp add: bridge_heartbeat_def Let_def)
qed

text \<open>The heartbeats of a session: the server as it is then, the time, the directory of the call and
  whether a tool call caused it.\<close>

type_synonym beat = "api \<times> instant \<times> string option \<times> bool"

definition beats :: "beat list \<Rightarrow> session \<Rightarrow> session" where
  "beats bs s = fold (\<lambda>(srv, now, d, activity). bridge_heartbeat srv now d activity) bs s"

definition idle_beats :: "beat list \<Rightarrow> session \<Rightarrow> session" where
  "idle_beats bs s = fold (\<lambda>(srv, now, d, activity). idle_beat now activity) bs s"

lemma beats_simps [simp]:
  "beats [] s = s" "beats (b # bs) s = beats bs (bridge_heartbeat (fst b) (fst (snd b)) (fst (snd (snd b))) (snd (snd (snd b))) s)"
  by (simp_all add: beats_def split_beta)

text \<open>A refused credential goes quiet. However long the heartbeats go on, whoever answers them, they
  alone never bring the count of refusals in a row above five, or above what it was before, were
  that more; and once it was refused three times in a row, every further
  heartbeat leaves the server alone: what happens does not depend on what the server would
  answer, and of the session only the throttles and the supervisor's start change.\<close>

theorem refused_credential_goes_quiet:
  "au_failures (ss_auth (beats bs s)) \<le> max (au_failures (ss_auth s)) (AUTH_REFUSAL_LIMIT + 2) \<and>
   (auth_is_refused (ss_auth s) \<longrightarrow> beats bs s = idle_beats bs s)"
proof (induction bs arbitrary: s)
  case Nil
  then show ?case by (simp add: idle_beats_def)
next
  case (Cons b bs)
  obtain srv now d activity where b: "b = (srv, now, d, activity)" by (cases b)
  let ?s = "bridge_heartbeat srv now d activity s"
  note ih = Cons.IH [of ?s]
  show ?case
  proof (cases "auth_is_refused (ss_auth s)")
    case True
    then have e: "?s = idle_beat now activity s" by (rule heartbeat_refused)
    then have "au_failures (ss_auth (beats bs ?s)) \<le> max (au_failures (ss_auth s)) (AUTH_REFUSAL_LIMIT + 2)"
      using conjunct1 [OF ih] by simp
    moreover have "beats bs ?s = idle_beats bs ?s" using conjunct2 [OF ih] True e by simp
    moreover have "beats (b # bs) s = beats bs ?s" "idle_beats (b # bs) s = idle_beats bs ?s" by (simp add: b, simp add: b e idle_beats_def)
    ultimately show ?thesis by metis
  next
    case False
    then have "au_failures (ss_auth ?s) \<le> AUTH_REFUSAL_LIMIT + 2"
      using heartbeat_failures [OF False, of srv now d activity] by (simp add: auth_is_refused_def)
    then have "au_failures (ss_auth (beats bs ?s)) \<le> AUTH_REFUSAL_LIMIT + 2" using conjunct1 [OF ih] by simp
    then show ?thesis using False by (simp add: b le_max_iff_disj)
  qed
qed

text \<open>Any authorised answer, also of a tool call, lets the heartbeats go on.\<close>

lemma authorised_call_revives:
  assumes "fst (bridge_request path w a) = Inr x"
  shows "\<not> auth_is_refused (snd (bridge_request path w a))"
  using assms
  by (auto simp: bridge_request_def received_def note_auth_ok_def note_auth_failure_def auth_is_refused_def AUTH_REFUSAL_LIMIT_def
      split: attempt.splits option.splits if_splits)

section \<open>The farewell is the claimer's\<close>

text \<open>The stash stands for a grant: the process is the session's own, and some claim it made, for the
  stashed key and project, was answered with the stashed seat.\<close>

definition granted_in :: "api list \<Rightarrow> bridge \<Rightarrow> exit_stash \<Rightarrow> bool" where
  "granted_in srvs b x \<longleftrightarrow>
     xs_pid x = pb_pid b \<and> xs_seat x \<noteq> '''' \<and>
     (\<exists>srv \<in> set srvs. \<exists>c a resp. fst (bridge_request ''/session/claim'' (ap_claim srv c) a) = Inr resp \<and>
        norm (cb_seat resp) = xs_seat x \<and> sr_session_key c = xs_session_key x \<and> sr_project c = Some (xs_project x))"

lemma compute_pid: "pb_pid (snd (compute_identity d b)) = pb_pid b"
  using compute_core [of d b] by (metis core_fields(6))

lemma granted_pid: "pb_pid (ss_bridge (granted_seat key p preferred runtime resp s)) = pb_pid (ss_bridge s)"
  by (auto simp: granted_seat_def Let_def take_seat_state(6) split: prod.split sum.split)

lemma granted_exit:
  "ss_exit (granted_seat key p preferred runtime resp s) =
     (if norm (cb_seat resp) \<noteq> '''' then Some (exit_record key p (norm (cb_seat resp)) (ss_bridge s)) else ss_exit s)"
  by (auto simp: granted_seat_def Let_def split: prod.split sum.split)

lemma claim_exit:
  assumes "ss_exit (bridge_claim (ap_claim srv) d s) = Some x"
  shows "ss_exit s = Some x \<or> granted_in [srv] (ss_bridge s) x"
proof -
  obtain reader ls b where c: "compute_identity (Option.bind d or_none) (ss_bridge s) = ((reader, ls), b)" by (metis prod.collapse)
  have pid: "pb_pid b = pb_pid (ss_bridge s)" using compute_pid [of "Option.bind d or_none" "ss_bridge s"] c by simp
  show ?thesis
  proof (cases "Option.bind (resolve_session_key (ss_bridge s)) or_none")
    case None
    then show ?thesis using assms by (simp add: bridge_claim_def)
  next
    case (Some key)
    let ?p = "own_project (ss_bridge s)" and ?n = "own_name reader" and ?r = "current_seat b \<noteq> None"
    let ?c = "seat_claim_request key ?p ?n ?r (s\<lparr>ss_bridge := b\<rparr>)"
    obtain e a where w: "bridge_request ''/session/claim'' (ap_claim srv ?c) (ss_auth s) = (e, a)" by force
    have req: "sr_session_key ?c = key" "sr_project ?c = Some ?p" by (simp_all add: seat_claim_request_def Let_def)
    show ?thesis
    proof (cases e)
      case (Inl f)
      then show ?thesis using assms c Some w by (simp add: bridge_claim_def Let_def)
    next
      case (Inr resp)
      let ?s = "s\<lparr>ss_bridge := b, ss_auth := a\<rparr>"
      have "ss_exit (granted_seat key ?p ?n ?r resp ?s) = Some x"
        using assms c Some w Inr by (simp add: bridge_claim_def Let_def)
      then consider "ss_exit s = Some x" | "norm (cb_seat resp) \<noteq> ''''" "x = exit_record key ?p (norm (cb_seat resp)) b"
        by (auto simp: granted_exit split: if_splits)
      then show ?thesis
      proof cases
        case 2
        have "fst (bridge_request ''/session/claim'' (ap_claim srv ?c) (ss_auth s)) = Inr resp" using w Inr by simp
        then have "granted_in [srv] (ss_bridge s) x"
          using 2 req pid by (auto simp: granted_in_def exit_record_def)
        then show ?thesis ..
      qed simp
    qed
  qed
qed

lemma heartbeat_parts:
  "ss_exit (beat_presence srv d activity s) = ss_exit s" "pb_pid (ss_bridge (beat_presence srv d activity s)) = pb_pid (ss_bridge s)"
  "ss_exit (refresh_watch_state srv' now d s) = ss_exit s" "pb_pid (ss_bridge (refresh_watch_state srv' now d s)) = pb_pid (ss_bridge s)"
  using compute_pid [of "Option.bind d or_none" "ss_bridge s"]
  by (auto simp: beat_presence_def refresh_watch_state_def Let_def split_beta split: prod.splits sum.splits option.splits)

lemma claim_pid: "pb_pid (ss_bridge (bridge_claim srv d s)) = pb_pid (ss_bridge s)"
  using compute_pid [of "Option.bind d or_none" "ss_bridge s"]
  by (auto simp: bridge_claim_def Let_def granted_pid split: prod.splits sum.splits option.splits)

lemma heartbeat_exit:
  "pb_pid (ss_bridge (bridge_heartbeat srv now d activity s)) = pb_pid (ss_bridge s)"
  "ss_exit (bridge_heartbeat srv now d activity s) = Some x \<Longrightarrow> ss_exit s = Some x \<or> granted_in [srv] (ss_bridge s) x"
proof -
  let ?s = "ensure_watcher_supervisor (s\<lparr>ss_beat := now, ss_activity := (if activity then now else ss_activity s)\<rparr>)"
  show "pb_pid (ss_bridge (bridge_heartbeat srv now d activity s)) = pb_pid (ss_bridge s)"
    by (simp add: bridge_heartbeat_def Let_def heartbeat_parts claim_pid)
  show "ss_exit (bridge_heartbeat srv now d activity s) = Some x \<Longrightarrow> ss_exit s = Some x \<or> granted_in [srv] (ss_bridge s) x"
    using claim_exit [of srv d ?s x] by (auto simp: bridge_heartbeat_def Let_def heartbeat_parts split: if_splits)
qed

lemma granted_in_mono:
  "granted_in srvs b x \<Longrightarrow> set srvs \<subseteq> set srvs' \<Longrightarrow> pb_pid b' = pb_pid b \<Longrightarrow> granted_in srvs' b' x"
  unfolding granted_in_def by (simp only:) (blast dest: subsetD)

lemma beats_exit:
  assumes "ss_exit (beats bs s) = Some x"
  shows "ss_exit s = Some x \<or> granted_in (map fst bs) (ss_bridge s) x"
  using assms
proof (induction bs arbitrary: s)
  case (Cons b bs)
  obtain srv now d activity where b: "b = (srv, now, d, activity)" by (cases b)
  let ?s = "bridge_heartbeat srv now d activity s"
  have pid: "pb_pid (ss_bridge s) = pb_pid (ss_bridge ?s)" by (simp add: heartbeat_exit(1))
  from Cons have "ss_exit ?s = Some x \<or> granted_in (map fst bs) (ss_bridge ?s) x" by (simp add: b)
  then consider "ss_exit s = Some x" | "granted_in [srv] (ss_bridge s) x" | "granted_in (map fst bs) (ss_bridge ?s) x"
    using heartbeat_exit(2) by blast
  then show ?case
  proof cases
    case 2
    then have "granted_in (map fst (b # bs)) (ss_bridge s) x" by (rule granted_in_mono) (simp_all add: b)
    then show ?thesis ..
  next
    case 3
    then have "granted_in (map fst (b # bs)) (ss_bridge s) x" by (rule granted_in_mono) (auto simp: b pid)
    then show ?thesis ..
  qed simp
qed simp

text \<open>Only the process that claimed a seat certifies its own exit. If, after any heartbeats of a
  session that held nothing before, some process runs the exit hook and a certificate is posted,
  then it is the session's own process, and the certificate names, for the key and the project of
  a claim this session made, a seat the server granted to that claim. A forked child, or a session
  never granted a seat, certifies nothing.\<close>

theorem farewell_is_the_claimers:
  assumes "ss_exit s = None" and "exit_notice pid token now (beats bs s) = Some q"
  shows "pid = pb_pid (ss_bridge s) \<and> token \<noteq> '''' \<and> dr_seat q \<noteq> '''' \<and> dr_session_key q \<noteq> '''' \<and> dr_died_at q = now \<and>
    (\<exists>b \<in> set bs. \<exists>c a resp. fst (bridge_request ''/session/claim'' (ap_claim (fst b) c) a) = Inr resp \<and>
       norm (cb_seat resp) = dr_seat q \<and> sr_session_key c = dr_session_key q \<and> sr_project c = dr_project q)"
proof -
  obtain x where x: "ss_exit (beats bs s) = Some x" "xs_seat x \<noteq> ''''" "xs_session_key x \<noteq> ''''" "xs_pid x = pid" "token \<noteq> ''''"
    and q: "dr_seat q = xs_seat x" "dr_session_key q = xs_session_key x" "dr_project q = Some (xs_project x)" "dr_died_at q = now"
    using assms(2) by (auto simp: exit_notice_def split: option.splits if_splits)
  from beats_exit [OF x(1)] assms(1) have "granted_in (map fst bs) (ss_bridge s) x" by simp
  then show ?thesis using x q by (auto simp: granted_in_def)
qed


section \<open>The supervisor's pauses\<close>

lemma pause_bounds:
  assumes "seconds 5 \<le> b" and "b \<le> seconds 300" and "supervisor_pause rc lived b = (pause, b')"
  shows "seconds 5 \<le> pause \<and> pause \<le> seconds 300 \<and> seconds 5 \<le> b' \<and> b' \<le> seconds 300"
  using assms by (auto simp: supervisor_pause_def Let_def split: if_splits)

text \<open>A watcher that keeps dying is respawned for ever, never sooner than after five seconds and never
  later than after five minutes.\<close>

lemma supervisor_pauses_bounded:
  "seconds 5 \<le> b \<Longrightarrow> b \<le> seconds 300 \<Longrightarrow>
   length (supervise rounds b) = length rounds \<and> (\<forall>p \<in> set (supervise rounds b). seconds 5 \<le> p \<and> p \<le> seconds 300)"
proof (induction rounds b rule: supervise.induct)
  case (2 rc lived rest b)
  obtain pause b' where p: "supervisor_pause rc lived b = (pause, b')" by force
  from pause_bounds [OF "2.prems" p] "2.IH" [OF p [symmetric]] p show ?case by simp
qed simp

text \<open>A displaced watcher asks again at the pace of claims, one with a broken configuration crawls, and
  a crash is paused for twice as long as the one before unless the child lived for two minutes.\<close>

lemma supervisor_example:
  "supervise [(Some 1, 0), (Some 1, 0), (None, 0), (Some 4, seconds 60), (Some 1, seconds 121), (Some 5, 0)] (seconds 5) =
     [seconds 5, seconds 10, seconds 20, seconds 150, seconds 5, seconds 300]"
  by code_simp

section \<open>The principal's name\<close>

text \<open>A failure to learn the name is never remembered: once the pause is over, a server that answers
  is believed, and from then on the name is what it said.\<close>

lemma failure_is_not_latched:
  assumes "\<not> pc_fetched pc" and "token \<noteq> ''''" and "pc_retry_at pc \<le> now" and "now + PRINCIPAL_RETRY \<le> later"
  shows "fst (get_principal_name token (Inr n) later (snd (get_principal_name token (Inl e) now pc))) = n \<and>
    fst (get_principal_name token any t (snd (get_principal_name token (Inr n) later
      (snd (get_principal_name token (Inl e) now pc))))) = n"
  using assms by (simp add: get_principal_name_def)

text \<open>A project-scoped call without a declared project never reaches the server, unless the caller
  states the owner and the project.\<close>

lemma undeclared_project_is_refused:
  assumes "fst (resolve_partition_with_identity dflt scope d user project cwd token answer now b pc) = Inr (s, u, q)"
    and "or_empty (py_or scope (Some dflt)) = ''project''"
    and "Option.bind user or_none = None \<or> Option.bind project or_none = None"
    and "usable_dir (fst (remember_project_dir (Option.bind d or_none) b)) \<noteq> None"
  shows "\<exists>n. fst (ensure_project_identity (pb_files b) (pb_home b) (fst (remember_project_dir (Option.bind d or_none) b))) = Inr n"
proof -
  have f: "pb_files (snd (remember_project_dir x b)) = pb_files b" "pb_home (snd (remember_project_dir x b)) = pb_home b" for x
    by (simp_all add: remember_project_dir_def split: option.split)
  obtain eff b1 where r: "remember_project_dir (Option.bind d or_none) b = (eff, b1)" by force
  then have "pb_files b1 = pb_files b" "pb_home b1 = pb_home b" using f [of "Option.bind d or_none"] by simp_all
  then show ?thesis
    using assms r by (auto simp: resolve_partition_with_identity_def Let_def split: prod.splits sum.splits if_splits)
qed

section \<open>Witnesses\<close>

text \<open>A session of the example bridge, freshly started.\<close>

definition demo_session :: session where
  "demo_session =
     \<lparr>ss_bridge = demo_bridge, ss_auth = \<lparr>au_failures = 0, au_status = None, au_path = None\<rparr>, ss_nonce = ''n1'',
      ss_claimed = False, ss_failures = 0, ss_error = None, ss_claim_shown = False, ss_auth_shown = False,
      ss_revert = None, ss_rename = None, ss_rename_shown = False, ss_override_shown = False, ss_fallback_shown = False,
      ss_exit = None, ss_beat = 0, ss_activity = 0, ss_collision = None,
      ss_watch = \<lparr>wv_state = None, wv_checked = 0, wv_seat = None, wv_last_beat = JNull, wv_armed_by = JNull\<rparr>,
      ss_started = False, ss_fifo = None, ss_shown = []\<rparr>"

definition demo_say :: "claim_note list \<Rightarrow> string" where "demo_say ns = ''taken''"

definition demo_answer :: "claim_result res \<times> server" where
  "demo_answer = claim_endpoint default_settings None 5 empty_server (claim_of None ''k1'' demo_session)"

theorem session_and_registry_agree_witness:
  "signs_as None (ss_bridge (bridge_claim (claim_api default_settings None demo_say 5 empty_server) None demo_session)) =
     cr_seat (projr (fst demo_answer)) \<and> cr_seat (projr (fst demo_answer)) \<noteq> ''''"
proof -
  let ?s = "demo_session"
  let ?s' = "bridge_claim (claim_api default_settings None demo_say 5 empty_server) None ?s"
  have k: "resolve_session_key (ss_bridge ?s) = Some ''k1''" "''k1'' \<noteq> ''''" "anchored (ss_bridge ?s)" "pb_writable (ss_bridge ?s)"
    by code_simp+
  have d: "case fst demo_answer of Inr x \<Rightarrow> is_valid_seat (cr_seat x) | Inl _ \<Rightarrow> False" by code_simp
  then have a: "claim_endpoint default_settings None 5 empty_server (claim_of None ''k1'' ?s) = (Inr (projr (fst demo_answer)), snd demo_answer)"
    by (cases "demo_answer") (auto simp: demo_answer_def split: sum.splits)
  have v: "is_valid_seat (cr_seat (projr (fst demo_answer)))" using d by (auto split: sum.splits)
  have x: "norm (Some (own_project (ss_bridge ?s))) \<notin> set SEAT_EXEMPT_IDENTITIES"
      "norm (Some (signs_as None (ss_bridge ?s))) \<notin> set SEAT_EXEMPT_IDENTITIES" by code_simp+
  from session_and_registry_agree [where say = demo_say, OF k a v x refl] valid_seat_plain(2) [OF v] show ?thesis by simp
qed

text \<open>The answers of a server that refuses everything, and of one that grants.\<close>

definition refusing :: api where
  "refusing = \<lparr>ap_claim = (\<lambda>c. (Response 401 None, Transient)), ap_presence = (\<lambda>b. (Response 401 None, Transient)),
     ap_watch = (\<lambda>w. (Response 401 None, Transient))\<rparr>"

definition granting :: "string \<Rightarrow> api" where
  "granting seat =
     \<lparr>ap_claim = (\<lambda>c. (Response 200 (Some \<lparr>cb_seat = Some seat, cb_warning = None\<rparr>), Transient)),
      ap_presence = (\<lambda>b. (Response 200 (Some None), Transient)),
      ap_watch = (\<lambda>w. (Response 200 (Some \<lparr>wy_state = Some ''covered'', wy_last_beat = JNull, wy_armed_by = JNull\<rparr>), Transient))\<rparr>"

definition demo_beat_of :: "api \<Rightarrow> beat list" where
  "demo_beat_of srv = [(srv, seconds 200, None, True)]"

theorem refused_credential_goes_quiet_witness:
  "let s = beats (demo_beat_of refusing) demo_session;
       s' = beats (demo_beat_of (granting ''app-claude'')) (s\<lparr>ss_beat := 0, ss_activity := 0\<rparr>)
   in auth_is_refused (ss_auth s) \<and> au_failures (ss_auth s) \<le> 5 \<and> ss_exit s' = ss_exit s"
proof -
  let ?s = "beats (demo_beat_of refusing) demo_session"
  let ?s0 = "?s\<lparr>ss_beat := 0, ss_activity := 0\<rparr>"
  have r: "auth_is_refused (ss_auth ?s)" by code_simp
  then have "auth_is_refused (ss_auth ?s0)" by simp
  with refused_credential_goes_quiet [of "demo_beat_of (granting ''app-claude'')" ?s0]
  have "beats (demo_beat_of (granting ''app-claude'')) ?s0 = idle_beats (demo_beat_of (granting ''app-claude'')) ?s0" by blast
  moreover have "ss_exit (idle_beats (demo_beat_of (granting ''app-claude'')) ?s0) = ss_exit ?s"
    by (simp add: idle_beats_def demo_beat_of_def idle_beat_def)
  moreover have "au_failures (ss_auth demo_session) = 0" by (simp add: demo_session_def)
  then have "au_failures (ss_auth ?s) \<le> 5"
    using refused_credential_goes_quiet [of "demo_beat_of refusing" demo_session] by (simp add: AUTH_REFUSAL_LIMIT_def)
  ultimately show ?thesis using r by (simp add: Let_def)
qed

theorem farewell_is_the_claimers_witness:
  "\<exists>q. exit_notice 20 ''t'' 9 (beats (demo_beat_of (granting ''app-2'')) demo_session) = Some q \<and> dr_seat q = ''app-2'' \<and>
     (\<exists>b \<in> set (demo_beat_of (granting ''app-2'')). \<exists>c a resp. fst (bridge_request ''/session/claim'' (ap_claim (fst b) c) a) = Inr resp \<and>
        norm (cb_seat resp) = ''app-2'' \<and> sr_session_key c = ''k1'')"
proof -
  let ?x = "exit_notice 20 ''t'' 9 (beats (demo_beat_of (granting ''app-2'')) demo_session)"
  have "map_option (\<lambda>q. (dr_seat q, dr_session_key q)) ?x = Some (''app-2'', ''k1'')" by code_simp
  then obtain q where q: "?x = Some q" "dr_seat q = ''app-2''" "dr_session_key q = ''k1''" by auto
  have "ss_exit demo_session = None" by code_simp
  from farewell_is_the_claimers [OF this q(1)] show ?thesis using q by auto
qed

text \<open>A forked child of the same session certifies nothing.\<close>

lemma forked_child_stays_silent:
  "exit_notice 21 ''t'' 9 (beats (demo_beat_of (granting ''app-2'')) demo_session) = None"
proof (rule ccontr)
  assume "\<not> ?thesis"
  then obtain q where "exit_notice 21 ''t'' 9 (beats (demo_beat_of (granting ''app-2'')) demo_session) = Some q" by blast
  moreover have "ss_exit demo_session = None" "pb_pid (ss_bridge demo_session) = 20" by code_simp+
  ultimately show False using farewell_is_the_claimers [of demo_session 21 "''t''" 9] by fastforce
qed

text \<open>A bridge started within two minutes of its machine claims no seat with its first tool call: the
  throttle compares the clock of the machine with zero.\<close>

lemma first_call_can_be_throttled:
  "let s = bridge_heartbeat (granting ''app-2'') (seconds 119) None True demo_session in s = demo_session \<and> \<not> ss_claimed s"
  by (simp add: bridge_heartbeat_def beat_due_def HEARTBEAT_EVERY_def demo_session_def)

text \<open>A name for the environment that carries a host splits the address: the session claims and signs
  as the part before the host, and listens on the whole.\<close>

lemma qualified_launch_name_splits_the_address:
  "let b = demo_bridge\<lparr>pb_env := [(''ENGRAM_SESSION_KEY'', ''k1''), (''ENGRAM_INBOX_IDENTITY'', ''app-x@box'')]\<rparr>
   in signs_as None b = ''app-x'' \<and> ''app-x'' \<notin> set (snd (fst (compute_identity None b))) \<and>
      ''app-x@box'' \<in> set (snd (fst (compute_identity None b)))"
  by code_simp

end
