(* ===== verification/Watcher.thy ===== *)
theory Watcher
  imports Bridge_Identity Watch_Claim
begin

text \<open>
  \<^verbatim>\<open>engram_mcp/inbox_wait.py\<close>: the process that wakes a dormant session when mail arrives. A watcher
  is started beside its session, claims the watch of its seat, and then takes turns: it follows the
  seat, beats, polls mail and wakes and writes one line for each that is new. What it does is the
  list of its acts (lines it writes, calls that change the server); what it is answered, and what
  it finds in the files and the process table, are the fields of a turn. Times of messages are the texts
  the server sends, compared as texts. Left out are the log, the texts of notes and reasons, the
  quotation of bodies as data (\<^verbatim>\<open>fence.py\<close>), and the waiting for a reader of the pipe, during which nothing
  else happens.
\<close>

section \<open>Exit codes, arguments, messages\<close>

definition EXIT_AUTH_FAILED :: nat where "EXIT_AUTH_FAILED = 2"
definition EXIT_IDENTITY_CONFLICT :: nat where "EXIT_IDENTITY_CONFLICT = 3"
definition EXIT_DISPLACED :: nat where "EXIT_DISPLACED = 4"
definition EXIT_PARTIAL_CLAIM :: nat where "EXIT_PARTIAL_CLAIM = 5"

text \<open>The command line. \<open>ar_timed\<close>: a timeout was given.\<close>

record watch_args =
  ar_project_dir :: string
  ar_address :: string
  ar_identity :: string
  ar_follow :: bool
  ar_timed :: bool
  ar_include_existing :: bool
  ar_claim :: bool
  ar_fifo :: string

definition explicit :: "watch_args \<Rightarrow> bool" where
  "explicit a \<longleftrightarrow> ar_identity a \<noteq> ''''"

definition watch_dir :: "watch_args \<Rightarrow> string option" where
  "watch_dir a = or_none (ar_project_dir a)"

text \<open>\<^verbatim>\<open>_identity_conflict\<close>: whether the watcher refuses the identity it found.\<close>

definition identity_conflict :: "string \<Rightarrow> string \<Rightarrow> bool \<Rightarrow> bool" where
  "identity_conflict reader_identity project asserted \<longleftrightarrow>
     \<not> asserted \<and> (let name = before (CHR ''@'') reader_identity in name \<noteq> project \<and> \<not> startswith name (project @ ''-''))"

record mail_item =
  ml_id :: "string option"
  ml_to :: "string option"
  ml_from :: "string option"
  ml_from_field :: "string option"
  ml_intent :: "string option"
  ml_subject :: "string option"
  ml_thread_id :: "string option"
  ml_created_at :: "string option"
  ml_body :: "string option"

record wake_item =
  wi_id :: "string option"
  wi_ref :: "string option"
  wi_from :: "string option"
  wi_from_field :: "string option"
  wi_from_principal :: "string option"
  wi_relayed_from :: "string option"
  wi_note :: "string option"
  wi_at :: "string option"

section \<open>Lines\<close>

record mail_line =
  me_id :: string
  me_from :: "string option"
  me_subject :: string
  me_thread_id :: "string option"
  me_created_at :: "string option"
  me_intent :: "string option"
  me_body_truncated :: bool
  me_body :: string

record wake_line =
  we_id :: string
  we_ref :: "string option"
  we_from :: "string option"
  we_from_principal :: "string option"
  we_relayed_from :: "string option"
  we_note :: string
  we_at :: "string option"

text \<open>One address of the digest: how much is unread, from when to when, and how often each sender
  wrote, in the order of their first message.\<close>

record box =
  bx_unread_count :: nat
  bx_oldest_at :: "string option"
  bx_newest_at :: "string option"
  bx_senders :: "(string \<times> nat) list"

datatype owner_state = OwnerLive | OwnerDead | OwnerNone | OwnerUnknown

datatype out_line =
    MailLine mail_line
  | WakeLine wake_line
  | DigestLine "(string \<times> nat \<times> string option \<times> string option \<times> string list) list" nat
  | AuthorityLine nat string
  | SurveyLine string nat "(string \<times> nat \<times> owner_state) list"
  | DyingLine

text \<open>What the watcher does: writes a line, or makes a call that changes the server.\<close>

datatype act =
    Out out_line
  | ClaimCall claim_req
  | BeatCall string string "string option"
  | ReleaseCall string string
  | AliveCall string string
  | FarewellCall string string

definition WAKE_BODY_CAP :: nat where "WAKE_BODY_CAP = 4000"

text \<open>\<^verbatim>\<open>m.get("from") or m.get("from_")\<close>.\<close>

definition py_or2 :: "string option \<Rightarrow> string option \<Rightarrow> string option" where
  "py_or2 x y = (case Option.bind x or_none of None \<Rightarrow> y | Some v \<Rightarrow> Some v)"

definition emit :: "mail_item \<Rightarrow> act" where
  "emit m =
     (let raw = or_empty (ml_body m)
      in Out (MailLine \<lparr>me_id = or_empty (ml_id m), me_from = py_or2 (ml_from m) (ml_from_field m),
           me_subject = or_empty (ml_subject m), me_thread_id = ml_thread_id m, me_created_at = ml_created_at m,
           me_intent = ml_intent m, me_body_truncated = (WAKE_BODY_CAP < length raw), me_body = take WAKE_BODY_CAP raw\<rparr>))"

definition emit_wake :: "wake_item \<Rightarrow> act" where
  "emit_wake w =
     Out (WakeLine \<lparr>we_id = or_empty (wi_id w), we_ref = wi_ref w, we_from = py_or2 (wi_from_field w) (wi_from w),
       we_from_principal = wi_from_principal w, we_relayed_from = wi_relayed_from w, we_note = or_empty (wi_note w), we_at = wi_at w\<rparr>)"

section \<open>What waits at arm time\<close>

definition DIGEST_DIRECTIVE_INTENTS :: "string list" where
  "DIGEST_DIRECTIVE_INTENTS = [''action'', ''proceed'', ''escalate'']"

definition AUTHORITY_INTENT :: string where "AUTHORITY_INTENT = ''authority-directive''"

definition is_immortal_address :: "string \<Rightarrow> string \<Rightarrow> string \<Rightarrow> bool" where
  "is_immortal_address to occupant project \<longleftrightarrow>
     to \<noteq> '''' \<and> \<not> startswith to ''machine:'' \<and> \<not> (before (CHR ''@'') to = occupant \<and> occupant \<noteq> project)"

text \<open>\<^verbatim>\<open>min(filter(None, [a, c]))\<close> and \<^verbatim>\<open>max\<close> of a time that is there.\<close>

definition extreme :: "(string \<Rightarrow> string \<Rightarrow> string) \<Rightarrow> string option \<Rightarrow> string option \<Rightarrow> string option" where
  "extreme f a c =
     (case Option.bind c or_none of
        None \<Rightarrow> a
      | Some x \<Rightarrow> (case Option.bind a or_none of None \<Rightarrow> Some x | Some y \<Rightarrow> Some (f y x)))"

definition count_mail :: "mail_item \<Rightarrow> (string \<times> box) list \<Rightarrow> (string \<times> box) list" where
  "count_mail m boxes =
     (let to = or_empty (ml_to m);
          b = (case map_of boxes to of
                 Some b \<Rightarrow> b
               | None \<Rightarrow> \<lparr>bx_unread_count = 0, bx_oldest_at = None, bx_newest_at = None, bx_senders = []\<rparr>);
          frm = (case Option.bind (py_or2 (ml_from m) (ml_from_field m)) or_none of None \<Rightarrow> ''?'' | Some x \<Rightarrow> x);
          n = (case map_of (bx_senders b) frm of None \<Rightarrow> 0 | Some k \<Rightarrow> k)
      in AList.update to
           \<lparr>bx_unread_count = Suc (bx_unread_count b), bx_oldest_at = extreme min (bx_oldest_at b) (ml_created_at m),
            bx_newest_at = extreme max (bx_newest_at b) (ml_created_at m),
            bx_senders = AList.update frm (Suc n) (bx_senders b)\<rparr> boxes)"

definition top_senders :: "(string \<times> nat) list \<Rightarrow> string list" where
  "top_senders senders = take 3 (map fst (sort_key (\<lambda>(_, n). - int n) senders))"

text \<open>\<^verbatim>\<open>max(authority, key=...)\<close>: the first of the latest.\<close>

fun latest_of :: "mail_item \<Rightarrow> mail_item list \<Rightarrow> mail_item" where
  "latest_of m [] = m"
| "latest_of m (x # xs) =
     latest_of (if or_empty (ml_created_at m) < or_empty (ml_created_at x) then x else m) xs"

definition emit_backlog_digest :: "mail_item list \<Rightarrow> string \<Rightarrow> string \<Rightarrow> nat \<times> act list" where
  "emit_backlog_digest backlog occupant project =
     (let immortal = filter (\<lambda>m. is_immortal_address (or_empty (ml_to m)) occupant project) backlog;
          authority = filter (\<lambda>m. norm (ml_intent m) = AUTHORITY_INTENT) backlog;
          boxes = fold count_mail immortal [];
          directives = length (filter (\<lambda>m. norm (ml_intent m) \<in> set DIGEST_DIRECTIVE_INTENTS) immortal)
      in (length immortal + length authority,
          (if immortal = [] then []
           else [Out (DigestLine (map (\<lambda>(to, b). (to, bx_unread_count b, bx_oldest_at b, bx_newest_at b, top_senders (bx_senders b))) boxes)
                   directives)]) @
          (case authority of [] \<Rightarrow> [] | m # ms \<Rightarrow> [Out (AuthorityLine (length authority) (or_empty (ml_id (latest_of m ms))))])))"

record estate_entry =
  en_address :: string
  en_undrained :: nat
  en_reason :: string
  en_death :: bool
  en_farewell :: bool
  en_entry_type :: string

definition owner_of :: "estate_entry \<Rightarrow> owner_state" where
  "owner_of e =
     (if en_reason e = ''live-holder'' then OwnerLive
      else if en_death e \<or> en_farewell e then OwnerDead
      else if en_entry_type e = ''mail-only'' then OwnerNone else OwnerUnknown)"

definition emit_estate_survey :: "estate_entry list \<Rightarrow> string \<Rightarrow> act list" where
  "emit_estate_survey entries project =
     (let es = filter (\<lambda>e. en_undrained e \<noteq> 0) entries;
          nodes = fold (\<lambda>e. AList.update (en_address e) (en_undrained e, owner_of e)) es []
      in if nodes = [] then [] else [Out (SurveyLine project (sum_list (map en_undrained es)) nodes)])"

section \<open>Polling\<close>

datatype 'a answer = Answer 'a | AuthRefused nat | Unreachable

definition own_addresses :: "string \<Rightarrow> string list" where
  "own_addresses reader =
     filter (\<lambda>a. a \<noteq> '''') (if reader = '''' then [] else [norm (Some reader), norm (Some (reader_to_address reader))])"

text \<open>The loop of \<^verbatim>\<open>_poll\<close> over what the server returned: an id seen before is passed over, the session's own
  mail and what is only for information are noted as seen and passed over.\<close>

fun sift :: "string list \<Rightarrow> string list \<Rightarrow> mail_item list \<Rightarrow> mail_item list \<times> string list" where
  "sift own seen [] = ([], seen)"
| "sift own seen (m # ms) =
     (case Option.bind (ml_id m) or_none of
        None \<Rightarrow> sift own seen ms
      | Some i \<Rightarrow>
          if i \<in> set seen then sift own seen ms
          else let sender = norm (py_or2 (ml_from m) (ml_from_field m)); (fresh, seen') = sift own (i # seen) ms
               in if sender \<noteq> '''' \<and> sender \<in> set own then (fresh, seen')
                  else if norm (ml_intent m) = ''fyi'' then (fresh, seen')
                  else (m # fresh, seen'))"

fun sift_wakes :: "string list \<Rightarrow> wake_item list \<Rightarrow> wake_item list \<times> string list" where
  "sift_wakes seen [] = ([], seen)"
| "sift_wakes seen (w # ws) =
     (case Option.bind (wi_id w) or_none of
        None \<Rightarrow> sift_wakes seen ws
      | Some i \<Rightarrow>
          if i \<in> set seen then sift_wakes seen ws
          else let (fresh, seen') = sift_wakes (i # seen) ws in (w # fresh, seen'))"

definition poll_mail :: "string list \<Rightarrow> string list \<Rightarrow> mail_item list answer \<Rightarrow> mail_item list \<times> string list" where
  "poll_mail own seen r = (case r of Answer ms \<Rightarrow> sift own seen ms | _ \<Rightarrow> ([], seen))"

definition poll_wake_socket :: "string list \<Rightarrow> wake_item list answer \<Rightarrow> wake_item list \<times> string list" where
  "poll_wake_socket seen r = (case r of Answer ws \<Rightarrow> sift_wakes seen ws | _ \<Rightarrow> ([], seen))"

section \<open>The claim\<close>

record claim_state =
  cs_seat :: string
  cs_nonce :: string
  cs_seat_nonce :: "string option"
  cs_held :: bool
  cs_unheld_mode :: bool
  cs_fetched_through :: "string option"
  cs_catch_up_after :: "string option"

definition new_claim :: "bridge \<Rightarrow> string \<Rightarrow> string \<Rightarrow> claim_state" where
  "new_claim b reader nonce =
     \<lparr>cs_seat = before (CHR ''@'') reader, cs_nonce = nonce,
      cs_seat_nonce = or_none (py_strip (environ b ''ENGRAM_SEAT_NONCE'')), cs_held = False, cs_unheld_mode = False,
      cs_fetched_through = None, cs_catch_up_after = None\<rparr>"

definition claim_request :: "string \<Rightarrow> string list \<Rightarrow> claim_state \<Rightarrow> claim_req" where
  "claim_request dir listen c =
     \<lparr>cl_seat = Some (cs_seat c), cl_nonce = cs_nonce c, cl_armed_by = ''bridge'', cl_project_dir = dir,
      cl_listen_set = listen, cl_host = None, cl_seat_nonce = cs_seat_nonce c\<rparr>"

datatype claim_answer = ClaimUnreachable | ClaimGranted "string option" | ClaimPartial | ClaimHeld

text \<open>\<^verbatim>\<open>acquire\<close>, on the answers to its repeated calls; it has not returned when they run out
  (\<open>None\<close>).\<close>

fun claim_acquire :: "string \<Rightarrow> string list \<Rightarrow> claim_answer list \<Rightarrow> claim_state \<Rightarrow> act list \<times> (claim_state \<times> nat option) option" where
  "claim_acquire dir listen [] c = ([], None)"
| "claim_acquire dir listen (v # vs) c =
     (case v of
        ClaimUnreachable \<Rightarrow> ([ClaimCall (claim_request dir listen c)], Some (c\<lparr>cs_unheld_mode := True\<rparr>, None))
      | ClaimGranted mark \<Rightarrow>
          ([ClaimCall (claim_request dir listen c)], Some (c\<lparr>cs_held := True, cs_catch_up_after := mark\<rparr>, None))
      | ClaimPartial \<Rightarrow> ([ClaimCall (claim_request dir listen c)], Some (c, Some EXIT_PARTIAL_CLAIM))
      | ClaimHeld \<Rightarrow> (case claim_acquire dir listen vs c of (acts, r) \<Rightarrow> (ClaimCall (claim_request dir listen c) # acts, r)))"

datatype beat_answer = BeatLost | BeatHolder | BeatNotHolder

datatype beat_verdict = Holder | Displaced | Unknown

definition claim_beat :: "beat_answer \<Rightarrow> claim_state \<Rightarrow> act list \<times> beat_verdict" where
  "claim_beat v c =
     (if cs_unheld_mode c then ([], Holder)
      else ([BeatCall (cs_seat c) (cs_nonce c) (cs_fetched_through c)],
            case v of BeatLost \<Rightarrow> Unknown | BeatHolder \<Rightarrow> Holder | BeatNotHolder \<Rightarrow> Displaced))"

definition claim_release :: "claim_state \<Rightarrow> act list \<times> claim_state" where
  "claim_release c =
     (if cs_held c then ([ReleaseCall (cs_seat c) (cs_nonce c)], c\<lparr>cs_held := False\<rparr>) else ([], c))"

text \<open>The newest time this process has emitted.\<close>

definition advance :: "mail_item \<Rightarrow> claim_state \<Rightarrow> claim_state" where
  "advance m c =
     (case Option.bind (ml_created_at m) or_none of
        None \<Rightarrow> c
      | Some x \<Rightarrow> (case cs_fetched_through c of
                     None \<Rightarrow> c\<lparr>cs_fetched_through := Some x\<rparr>
                   | Some y \<Rightarrow> if y < x then c\<lparr>cs_fetched_through := Some x\<rparr> else c))"

section \<open>Farewells\<close>

text \<open>Whether the session was positively gone twice in a row before the window closed. The list holds the
  answers of the polls up to the end of the window.\<close>

fun observed :: "bool list \<Rightarrow> nat \<Rightarrow> bool" where
  "observed [] n = False"
| "observed (g # gs) n = (let n' = (if g then Suc n else 0) in if 2 \<le> n' then True else observed gs n')"

section \<open>A turn of the loop\<close>

record watcher =
  w_bridge :: bridge
  w_reader :: string
  w_listen :: "string list"
  w_claim :: "claim_state option"
  w_active :: "claim_state option"
    \<comment> \<open>the claim the exit by a signal releases\<close>
  w_watched :: "(nat \<times> string) option"
  w_armed_as :: string
    \<comment> \<open>the identity at arm time, which the exit by a signal reports gone\<close>
  w_seen :: "string list"
  w_gone_seen :: nat

text \<open>What the process finds when it looks: files, the process table, its parent.\<close>

record look =
  lk_files :: files
  lk_ps :: "(nat \<times> ps_answer) list"
  lk_ps_local :: "(nat \<times> ps_answer) list"
  lk_ppid :: nat

definition looked :: "look \<Rightarrow> bridge \<Rightarrow> bridge" where
  "looked l b = b\<lparr>pb_files := lk_files l, pb_ps := lk_ps l, pb_ps_local := lk_ps_local l, pb_ppid := lk_ppid l\<rparr>"

record turn_input =
  ti_look :: look
  ti_nonce :: string
    \<comment> \<open>drawn when the seat changes\<close>
  ti_claims :: "claim_answer list"
  ti_window :: "bool list"
  ti_beat :: beat_answer
  ti_mail :: "mail_item list answer"
  ti_wakes :: "wake_item list answer"
  ti_late :: bool
    \<comment> \<open>the deadline has passed\<close>

text \<open>How a turn ends: with the next one, with an exit code and the claim that the \<^verbatim>\<open>finally\<close> block
  gives back, waiting for a claim, or with an exception before anything was started.\<close>

datatype outcome = Go watcher | Exit nat "claim_state option" | Waiting | Crash

definition orphaned :: "watch_args \<Rightarrow> bridge \<Rightarrow> bool" where
  "orphaned a b \<longleftrightarrow> ar_fifo a \<noteq> '''' \<and> pb_ppid b = 1"

definition farewell :: "watch_args \<Rightarrow> bridge \<Rightarrow> string \<Rightarrow> act" where
  "farewell a b reader = FarewellCall (before (CHR ''@'') reader) (derive_project_name b (watch_dir a))"

definition alive :: "watch_args \<Rightarrow> watcher \<Rightarrow> act" where
  "alive a w = AliveCall (before (CHR ''@'') (w_reader w)) (derive_project_name (w_bridge w) (watch_dir a))"

definition follow_seat :: "watch_args \<Rightarrow> turn_input \<Rightarrow> watcher \<Rightarrow> act list \<times> (watcher \<times> nat option) option" where
  "follow_seat a t w0 =
     (if ar_address a \<noteq> '''' then ([], Some (w0, None))
      else case compute_identity (watch_dir a) (w_bridge w0) of
        ((reader, listen), b) \<Rightarrow>
          (let w = w0\<lparr>w_bridge := b\<rparr>
           in if reader = w_reader w then ([], Some (w, None))
              else if identity_conflict reader (derive_project_name b (watch_dir a)) (explicit a) then ([], Some (w, None))
              else let w' = w\<lparr>w_reader := reader, w_listen := listen\<rparr>
                   in case w_claim w of
                        None \<Rightarrow> ([], Some (w', None))
                      | Some old \<Rightarrow>
                          (case claim_acquire (ar_project_dir a) listen (ti_claims t) (new_claim b reader (ti_nonce t)) of
                             (acts, None) \<Rightarrow> (ReleaseCall (cs_seat old) (cs_nonce old) # acts, None)
                           | (acts, Some (c, code)) \<Rightarrow>
                               (ReleaseCall (cs_seat old) (cs_nonce old) # acts,
                                Some (w'\<lparr>w_claim := Some c, w_active := (if cs_held c then Some c else w_active w)\<rparr>, code)))))"

text \<open>The bridge is gone: observe the session, report it gone if it is, give the watch back.\<close>

definition orphan_acts :: "watch_args \<Rightarrow> turn_input \<Rightarrow> watcher \<Rightarrow> act list" where
  "orphan_acts a t w =
     (if w_watched w \<noteq> None \<and> w_reader w \<noteq> '''' \<and> observed (ti_window t) 0 then [farewell a (w_bridge w) (w_reader w)] else []) @
     (case w_claim w of None \<Rightarrow> [] | Some c \<Rightarrow> if cs_held c then [ReleaseCall (cs_seat c) (cs_nonce c)] else [])"

definition session_gone :: "watcher \<Rightarrow> bool" where
  "session_gone w = (case w_watched w of None \<Rightarrow> False | Some (pid, start) \<Rightarrow> process_is_gone (w_bridge w) pid start)"

definition end_of_turn :: "watch_args \<Rightarrow> turn_input \<Rightarrow> bool \<Rightarrow> watcher \<Rightarrow> act list \<times> outcome" where
  "end_of_turn a t woken w =
     (if woken \<and> \<not> ar_follow a then ([], Exit 0 (w_claim w))
      else if ar_timed a \<and> ti_late t then ([Out DyingLine], Exit 0 (w_claim w))
      else if session_gone w
      then if 2 \<le> Suc (w_gone_seen w) then ([farewell a (w_bridge w) (w_reader w)], Exit 0 (w_claim w))
           else ([], Go (w\<lparr>w_gone_seen := Suc (w_gone_seen w)\<rparr>))
      else ([], Go (w\<lparr>w_gone_seen := 0\<rparr>)))"

definition listen_turn :: "watch_args \<Rightarrow> turn_input \<Rightarrow> watcher \<Rightarrow> act list \<times> outcome" where
  "listen_turn a t w0 =
     (let (fresh, seen) = poll_mail (own_addresses (w_reader w0)) (w_seen w0) (ti_mail t);
          w = w0\<lparr>w_seen := seen, w_claim := map_option (fold advance fresh) (w_claim w0)\<rparr>;
          (wakes, seen') = poll_wake_socket seen (ti_wakes t)
      in case (ti_mail t, ti_wakes t) of
           (AuthRefused _, _) \<Rightarrow> ([Out DyingLine], Exit EXIT_AUTH_FAILED (w_claim w))
         | (_, AuthRefused _) \<Rightarrow> (map emit fresh @ [Out DyingLine], Exit EXIT_AUTH_FAILED (w_claim w))
         | _ \<Rightarrow> (case end_of_turn a t (fresh \<noteq> [] \<or> wakes \<noteq> []) (w\<lparr>w_seen := seen'\<rparr>) of
                  (acts, out) \<Rightarrow> (map emit fresh @ map emit_wake wakes @ acts, out)))"

definition watch_turn :: "watch_args \<Rightarrow> turn_input \<Rightarrow> watcher \<Rightarrow> act list \<times> outcome" where
  "watch_turn a t w0 =
     (case follow_seat a t (w0\<lparr>w_bridge := looked (ti_look t) (w_bridge w0)\<rparr>) of
        (acts, None) \<Rightarrow> (acts, Waiting)
      | (acts, Some (w, Some code)) \<Rightarrow> (acts, Exit code (w_claim w))
      | (acts, Some (w, None)) \<Rightarrow>
          if orphaned a (w_bridge w) then (acts @ orphan_acts a t w, Exit 0 (w_claim w))
          else case (case w_claim w of None \<Rightarrow> ([], Holder) | Some c \<Rightarrow> claim_beat (ti_beat t) c) of
                 (beats, Displaced) \<Rightarrow> (acts @ beats, Exit EXIT_DISPLACED (w_claim w))
               | (beats, Unknown) \<Rightarrow> (acts @ beats, Go w)
               | (beats, Holder) \<Rightarrow>
                   (case listen_turn a t w of (acts', out) \<Rightarrow> (acts @ beats @ alive a w # acts', out)))"

fun watch_run :: "watch_args \<Rightarrow> turn_input list \<Rightarrow> watcher \<Rightarrow> act list \<times> outcome" where
  "watch_run a [] w = ([], Go w)"
| "watch_run a (t # ts) w =
     (case watch_turn a t w of
        (acts, Go w') \<Rightarrow> (case watch_run a ts w' of (acts', out) \<Rightarrow> (acts @ acts', out))
      | r \<Rightarrow> r)"

text \<open>The \<^verbatim>\<open>finally\<close> block.\<close>

definition closing :: "outcome \<Rightarrow> act list" where
  "closing out = (case out of Exit _ (Some c) \<Rightarrow> fst (claim_release c) | _ \<Rightarrow> [])"

section \<open>Start and end\<close>

record arm_input =
  am_look :: look
  am_attached :: bool
    \<comment> \<open>a reader came before the bridge was gone\<close>
  am_attach_look :: look
  am_nonce :: string
  am_claims :: "claim_answer list"
  am_mail :: "mail_item list answer"
  am_register :: "estate_entry list answer"

definition gap_of :: "string option \<Rightarrow> mail_item list \<Rightarrow> mail_item list \<times> mail_item list" where
  "gap_of mark backlog =
     (case mark of None \<Rightarrow> ([], backlog) | Some x \<Rightarrow> partition (\<lambda>m. x < or_empty (ml_created_at m)) backlog)"

text \<open>The backlog at arm time. Mail newer than what a displaced holder delivered is emitted, the rest
  goes to the digest.\<close>

definition seed :: "watch_args \<Rightarrow> arm_input \<Rightarrow> watcher \<Rightarrow> act list \<times> outcome" where
  "seed a i w =
     (if ar_include_existing a then ([], Go w)
      else case am_mail i of
        AuthRefused _ \<Rightarrow> ([Out DyingLine], Exit EXIT_AUTH_FAILED (w_claim w))
      | Unreachable \<Rightarrow> ([], Go w)
      | Answer ms \<Rightarrow>
          (let (backlog, seen) = sift (own_addresses (w_reader w)) (w_seen w) ms;
               occupant = reader_to_address (w_reader w);
               project = derive_project_name (w_bridge w) (watch_dir a);
               mark = Option.bind (Option.bind (w_claim w) cs_catch_up_after) or_none;
               (gap, rest) = gap_of mark backlog;
               w' = w\<lparr>w_seen := seen, w_claim := map_option (fold advance gap) (w_claim w)\<rparr>;
               (hits, digest) = emit_backlog_digest rest occupant project;
               survey = (case am_register i of Answer es \<Rightarrow> emit_estate_survey es project | _ \<Rightarrow> [])
           in (map emit gap @ digest @ survey,
               if hits \<noteq> 0 \<and> \<not> ar_follow a then Exit 0 (w_claim w') else Go w')))"

definition address_list :: "string \<Rightarrow> string list" where
  "address_list v = map py_strip (filter (\<lambda>x. py_strip x \<noteq> '''') (py_split (CHR '','') v))"

text \<open>The identity is resolved again before the claim.\<close>

definition reread :: "watch_args \<Rightarrow> watcher \<Rightarrow> watcher" where
  "reread a w =
     (if ar_address a \<noteq> '''' then w
      else case compute_identity (watch_dir a) (w_bridge w) of
             ((reader, listen), b) \<Rightarrow> w\<lparr>w_bridge := b, w_reader := reader, w_listen := listen\<rparr>)"

definition claim_at_arm :: "watch_args \<Rightarrow> arm_input \<Rightarrow> watcher \<Rightarrow> act list \<times> (watcher \<times> nat option) option" where
  "claim_at_arm a i w0 =
     (if \<not> ar_claim a then ([], Some (w0, None))
      else let w = reread a w0
           in case claim_acquire (ar_project_dir a) (w_listen w) (am_claims i) (new_claim (w_bridge w) (w_reader w) (am_nonce i)) of
                (acts, None) \<Rightarrow> (acts, None)
              | (acts, Some (c, code)) \<Rightarrow>
                  (acts, Some (w\<lparr>w_claim := Some c, w_active := (if cs_held c then Some c else None)\<rparr>, code)))"

definition arm :: "watch_args \<Rightarrow> arm_input \<Rightarrow> watcher \<Rightarrow> act list \<times> outcome" where
  "arm a i w0 =
     (case claim_at_arm a i w0 of
        (acts, None) \<Rightarrow> (acts, Waiting)
      | (acts, Some (w, Some code)) \<Rightarrow> (acts, Exit code None)
      | (acts, Some (w, None)) \<Rightarrow>
          (case seed a i (w\<lparr>w_watched := discover_session_process (w_bridge w), w_armed_as := w_reader w\<rparr>) of
             (acts', out) \<Rightarrow> (acts @ acts', out)))"

text \<open>\<^verbatim>\<open>_run\<close> up to its loop. A claim refused as partial ends the process before the \<^verbatim>\<open>finally\<close> block is entered;
  nothing is held then.\<close>

definition start :: "watch_args \<Rightarrow> arm_input \<Rightarrow> bridge \<Rightarrow> act list \<times> outcome" where
  "start a i b0 =
     (let b1 = set_identity_anchor (watch_dir a) (looked (am_look i) b0);
          (asserted, b2) = (if explicit a then map_prod (map_sum id (\<lambda>_. ())) id (assert_local_seat (Some (ar_identity a)) b1)
                            else (Inr (), b1));
          ((reader, listen0), b3) = compute_identity (watch_dir a) b2;
          listen = (if ar_address a = '''' then listen0 else address_list (ar_address a));
          w = \<lparr>w_bridge = looked (am_attach_look i) b3, w_reader = reader, w_listen = listen, w_claim = None, w_active = None,
               w_watched = None, w_armed_as = reader, w_seen = [], w_gone_seen = 0\<rparr>
      in if asserted \<noteq> Inr () then ([], Crash)
         else if identity_conflict reader (derive_project_name b3 (watch_dir a)) (explicit a)
         then ([], Exit EXIT_IDENTITY_CONFLICT None)
         else if ar_fifo a \<noteq> '''' \<and> \<not> am_attached i then ([], Exit 0 None)
         else arm a i w)"

text \<open>The exit by a signal: give the watch back, observe the session, then say what is the case.\<close>

definition signal_exit :: "watch_args \<Rightarrow> watcher \<Rightarrow> bool list \<Rightarrow> act list" where
  "signal_exit a w window =
     (case w_active w of None \<Rightarrow> [] | Some c \<Rightarrow> fst (claim_release c)) @
     (if w_watched w \<noteq> None \<and> w_armed_as w \<noteq> '''' \<and> observed window 0 then [farewell a (w_bridge w) (w_armed_as w)]
      else [Out DyingLine])"

section \<open>What a run writes\<close>

definition emitted :: "act list \<Rightarrow> string list" where
  "emitted acts =
     List.map_filter (\<lambda>x. case x of Out (MailLine l) \<Rightarrow> Some (me_id l) | Out (WakeLine l) \<Rightarrow> Some (we_id l) | _ \<Rightarrow> None) acts"

definition mail_id :: "mail_item \<Rightarrow> string" where
  "mail_id m = or_empty (ml_id m)"

definition wake_id :: "wake_item \<Rightarrow> string" where
  "wake_id w = or_empty (wi_id w)"

lemma emitted_simps [simp]:
  "emitted [] = []" "emitted (xs @ ys) = emitted xs @ emitted ys"
  "emitted (ClaimCall c # xs) = emitted xs" "emitted (BeatCall p q r # xs) = emitted xs"
  "emitted (ReleaseCall p q # xs) = emitted xs" "emitted (AliveCall p q # xs) = emitted xs"
  "emitted (FarewellCall p q # xs) = emitted xs" "emitted (Out DyingLine # xs) = emitted xs"
  "emitted (Out (DigestLine d n) # xs) = emitted xs" "emitted (Out (AuthorityLine n i) # xs) = emitted xs"
  "emitted (Out (SurveyLine p n ns) # xs) = emitted xs"
  "emitted (map emit ms) = map mail_id ms" "emitted (map emit_wake ws) = map wake_id ws"
  by (simp_all add: emitted_def List.map_filter_def emit_def emit_wake_def Let_def mail_id_def wake_id_def comp_def)

lemma sift_ids:
  assumes "sift own seen ms = (fresh, seen')"
  shows "distinct (map mail_id fresh) \<and> (\<forall>x \<in> set fresh. mail_id x \<notin> set seen \<and> mail_id x \<in> set seen') \<and> set seen \<subseteq> set seen'"
  using assms
proof (induction ms arbitrary: seen fresh seen')
  case (Cons m ms)
  show ?case
  proof (cases "Option.bind (ml_id m) or_none")
    case None
    with Cons show ?thesis by simp
  next
    case (Some i)
    then have i: "mail_id m = i" by (auto simp: mail_id_def or_none_def or_empty_def split: if_splits option.splits)
    show ?thesis
    proof (cases "i \<in> set seen")
      case True
      with Cons Some show ?thesis by simp
    next
      case False
      obtain f s where r: "sift own (i # seen) ms = (f, s)" by force
      from Cons.IH [OF r] i False Cons.prems Some r show ?thesis
        by (auto simp: Let_def split: if_splits) blast+
    qed
  qed
qed simp

lemma sift_wakes_ids:
  assumes "sift_wakes seen ws = (fresh, seen')"
  shows "distinct (map wake_id fresh) \<and> (\<forall>x \<in> set fresh. wake_id x \<notin> set seen \<and> wake_id x \<in> set seen') \<and> set seen \<subseteq> set seen'"
  using assms
proof (induction ws arbitrary: seen fresh seen')
  case (Cons w ws)
  show ?case
  proof (cases "Option.bind (wi_id w) or_none")
    case None
    with Cons show ?thesis by simp
  next
    case (Some i)
    then have i: "wake_id w = i" by (auto simp: wake_id_def or_none_def or_empty_def split: if_splits option.splits)
    show ?thesis
    proof (cases "i \<in> set seen")
      case True
      with Cons Some show ?thesis by simp
    next
      case False
      obtain f s where r: "sift_wakes (i # seen) ws = (f, s)" by force
      from Cons.IH [OF r] i False Cons.prems Some r show ?thesis by auto blast
    qed
  qed
qed simp

text \<open>The poll against its specification: of messages with different ids, those are fresh that were not
  seen, are not the session's own and ask for attention, in the order of the server.\<close>

definition wanted :: "string list \<Rightarrow> mail_item \<Rightarrow> bool" where
  "wanted own m \<longleftrightarrow> mail_id m \<noteq> '''' \<and> norm (ml_intent m) \<noteq> ''fyi'' \<and>
     (norm (py_or2 (ml_from m) (ml_from_field m)) = '''' \<or> norm (py_or2 (ml_from m) (ml_from_field m)) \<notin> set own)"

lemma sift_exact:
  "distinct (map mail_id (filter (\<lambda>m. mail_id m \<noteq> '''') ms)) \<Longrightarrow>
   fst (sift own seen ms) = filter (\<lambda>m. wanted own m \<and> mail_id m \<notin> set seen) ms"
proof (induction ms arbitrary: seen)
  case (Cons m ms)
  show ?case
  proof (cases "mail_id m = ''''")
    case True
    then have "Option.bind (ml_id m) or_none = None"
      by (auto simp: mail_id_def or_none_def or_empty_def split: option.splits)
    with Cons True show ?thesis by (simp add: wanted_def)
  next
    case False
    then have b: "Option.bind (ml_id m) or_none = Some (mail_id m)"
      by (auto simp: mail_id_def or_none_def or_empty_def split: option.splits)
    have later: "filter (\<lambda>x. wanted own x \<and> mail_id x \<notin> set (mail_id m # seen)) ms =
        filter (\<lambda>x. wanted own x \<and> mail_id x \<notin> set seen) ms"
      using Cons.prems False by (intro filter_cong) (auto simp: wanted_def image_iff)
    have d: "distinct (map mail_id (filter (\<lambda>m. mail_id m \<noteq> '''') ms))" using Cons.prems False by simp
    show ?thesis
      using Cons.IH [OF d, of seen] Cons.IH [OF d, of "mail_id m # seen"] False b
      unfolding later by (auto simp: Let_def split_beta wanted_def)
  qed
qed simp

lemma sift_wanted: "sift own seen ms = (fresh, seen') \<Longrightarrow> list_all (wanted own) fresh"
proof (induction ms arbitrary: seen fresh seen')
  case (Cons m ms)
  show ?case
  proof (cases "Option.bind (ml_id m) or_none")
    case None
    with Cons show ?thesis by simp
  next
    case (Some i)
    then have "mail_id m \<noteq> ''''" by (cases "ml_id m") (auto simp: mail_id_def or_none_def or_empty_def split: if_splits)
    moreover obtain f s where r: "sift own (i # seen) ms = (f, s)" by force
    ultimately show ?thesis using Cons.IH [OF r] Cons.IH [of seen] Cons.prems Some
      by (auto simp: Let_def wanted_def split: if_splits)
  qed
qed simp

definition mail_lines :: "act list \<Rightarrow> mail_line list" where
  "mail_lines acts = List.map_filter (\<lambda>x. case x of Out (MailLine l) \<Rightarrow> Some l | _ \<Rightarrow> None) acts"

definition line_of :: "mail_item \<Rightarrow> mail_line" where
  "line_of m = hd (mail_lines [emit m])"

lemma mail_lines_simps [simp]:
  "mail_lines [] = []" "mail_lines (xs @ ys) = mail_lines xs @ mail_lines ys"
  "mail_lines (ClaimCall c # xs) = mail_lines xs" "mail_lines (BeatCall p q r # xs) = mail_lines xs"
  "mail_lines (ReleaseCall p q # xs) = mail_lines xs" "mail_lines (AliveCall p q # xs) = mail_lines xs"
  "mail_lines (FarewellCall p q # xs) = mail_lines xs" "mail_lines (Out DyingLine # xs) = mail_lines xs"
  "mail_lines (Out (DigestLine d n) # xs) = mail_lines xs" "mail_lines (Out (AuthorityLine n i) # xs) = mail_lines xs"
  "mail_lines (Out (SurveyLine p n ns) # xs) = mail_lines xs"
  "mail_lines (map emit ms) = map line_of ms" "mail_lines (map emit_wake ws) = []"
  by (simp_all add: mail_lines_def List.map_filter_def emit_def emit_wake_def Let_def line_of_def comp_def)

lemma line_of_simps [simp]:
  "me_id (line_of m) = mail_id m" "me_intent (line_of m) = ml_intent m"
  "me_from (line_of m) = py_or2 (ml_from m) (ml_from_field m)" "me_created_at (line_of m) = ml_created_at m"
  by (simp_all add: line_of_def mail_lines_def List.map_filter_def emit_def Let_def mail_id_def)

text \<open>Acts that say nothing of single messages, and the parts of a turn that have only such acts.\<close>

definition silent :: "act list \<Rightarrow> bool" where
  "silent acts \<longleftrightarrow> emitted acts = [] \<and> mail_lines acts = []"

lemma silent_simps [simp]:
  "silent []" "silent (xs @ ys) \<longleftrightarrow> silent xs \<and> silent ys"
  "silent (ClaimCall c # xs) = silent xs" "silent (BeatCall p q r # xs) = silent xs"
  "silent (ReleaseCall p q # xs) = silent xs" "silent (AliveCall p q # xs) = silent xs"
  "silent (FarewellCall p q # xs) = silent xs" "silent (Out DyingLine # xs) = silent xs"
  "silent (Out (DigestLine d n) # xs) = silent xs" "silent (Out (AuthorityLine n i) # xs) = silent xs"
  "silent (Out (SurveyLine p n ns) # xs) = silent xs"
  by (auto simp: silent_def)

named_theorems quiet

lemma claim_acquire_quiet [quiet]: "silent (fst (claim_acquire dir listen vs c))"
  by (induction vs) (auto simp: split_beta split: claim_answer.split)

lemma follow_seat_quiet [quiet]: "silent (fst (follow_seat a t w))"
  using claim_acquire_quiet
  by (auto simp: follow_seat_def Let_def split_beta split: option.split)

lemma claim_beat_quiet [quiet]: "silent (fst (claim_beat v c))"
  by (simp add: claim_beat_def)

lemma orphan_quiet [quiet]: "silent (orphan_acts a t w)"
  by (auto simp: orphan_acts_def farewell_def split: option.split)

lemma end_of_turn_quiet [quiet]: "silent (fst (end_of_turn a t woken w))"
  by (simp add: end_of_turn_def farewell_def)

lemma claim_at_arm_quiet [quiet]: "silent (fst (claim_at_arm a i w))"
  using claim_acquire_quiet
  by (auto simp: claim_at_arm_def Let_def split_beta split: option.split)

lemma digest_quiet [quiet]: "silent (snd (emit_backlog_digest backlog occupant project))" "silent (emit_estate_survey es project)"
  by (auto simp: emit_backlog_digest_def emit_estate_survey_def Let_def split: list.split)

lemma silentD: "silent acts \<Longrightarrow> emitted acts = []" "silent acts \<Longrightarrow> mail_lines acts = []"
  by (simp_all add: silent_def)

text \<open>What the turns do with the ids: none comes twice, none that was seen, and all that come are seen
  from then on. No line is mail that is only for information.\<close>

definition news :: "watcher \<Rightarrow> act list \<times> outcome \<Rightarrow> bool" where
  "news w r \<longleftrightarrow> distinct (emitted (fst r)) \<and> set (emitted (fst r)) \<inter> set (w_seen w) = {} \<and>
     list_all (\<lambda>l. norm (me_intent l) \<noteq> ''fyi'') (mail_lines (fst r)) \<and>
     (\<forall>w'. snd r = Go w' \<longrightarrow> set (w_seen w) \<union> set (emitted (fst r)) \<subseteq> set (w_seen w'))"

lemma news_silent: "silent (fst r) \<Longrightarrow> (\<And>w'. snd r = Go w' \<Longrightarrow> w_seen w' = w_seen w) \<Longrightarrow> news w r"
  by (simp add: news_def silentD)

lemma follow_seat_keeps:
  assumes "follow_seat a t w = (acts, Some (w', code))"
  shows "w_seen w' = w_seen w" "w_gone_seen w' = w_gone_seen w" "w_watched w' = w_watched w"
  using assms by (auto simp: follow_seat_def Let_def split: if_splits prod.splits option.splits)

lemma end_of_turn_keeps: "snd (end_of_turn a t woken w) = Go w' \<Longrightarrow> w_seen w' = w_seen w"
  by (auto simp: end_of_turn_def split: if_splits)

lemma listen_turn_cases:
  assumes "poll_mail (own_addresses (w_reader w)) (w_seen w) (ti_mail t) = (fresh, seen)"
    and "poll_wake_socket seen (ti_wakes t) = (wakes, seen')"
  obtains (refused) acts c where "listen_turn a t w = (acts, Exit EXIT_AUTH_FAILED c)"
      and "acts = [Out DyingLine] \<or> acts = map emit fresh @ [Out DyingLine]"
    | (heard) acts out where "listen_turn a t w = (map emit fresh @ map emit_wake wakes @ acts, out)"
      and "end_of_turn a t (fresh \<noteq> [] \<or> wakes \<noteq> [])
             (w\<lparr>w_claim := map_option (fold advance fresh) (w_claim w), w_seen := seen'\<rparr>) = (acts, out)"
proof -
  let ?w = "w\<lparr>w_claim := map_option (fold advance fresh) (w_claim w), w_seen := seen'\<rparr>"
  obtain acts out where e: "end_of_turn a t (fresh \<noteq> [] \<or> wakes \<noteq> []) ?w = (acts, out)" by force
  show thesis
    using assms e refused heard [of acts out]
    by (cases "ti_mail t"; cases "ti_wakes t") (simp_all add: listen_turn_def Let_def)
qed

lemma listen_turn_news: "news w (listen_turn a t w)"
proof -
  obtain fresh seen where s: "poll_mail (own_addresses (w_reader w)) (w_seen w) (ti_mail t) = (fresh, seen)" by force
  obtain wakes seen' where k: "poll_wake_socket seen (ti_wakes t) = (wakes, seen')" by force
  have m: "distinct (map mail_id fresh)" "\<forall>x \<in> set fresh. mail_id x \<notin> set (w_seen w) \<and> mail_id x \<in> set seen"
    "set (w_seen w) \<subseteq> set seen" "list_all (wanted (own_addresses (w_reader w))) fresh"
    using s sift_ids sift_wanted by (auto simp: poll_mail_def split: answer.splits)
  have n: "distinct (map wake_id wakes)" "\<forall>x \<in> set wakes. wake_id x \<notin> set seen \<and> wake_id x \<in> set seen'" "set seen \<subseteq> set seen'"
    using k sift_wakes_ids by (auto simp: poll_wake_socket_def split: answer.splits)
  have f: "list_all (\<lambda>l. norm (me_intent l) \<noteq> ''fyi'') (map line_of fresh)"
    using m(4) by (simp add: list.pred_map comp_def wanted_def list_all_iff)
  show ?thesis
    using s k
  proof (cases rule: listen_turn_cases [where a = a])
    case (refused acts c)
    with m(1-3) f show ?thesis by (auto simp: news_def)
  next
    case (heard acts out)
    have "emitted acts = []" "mail_lines acts = []" using end_of_turn_quiet [unfolded silent_def] heard(2) by (metis fst_conv)+
    moreover have "w_seen w' = seen'" if "out = Go w'" for w'
    proof -
      have "snd (end_of_turn a t (fresh \<noteq> [] \<or> wakes \<noteq> [])
          (w\<lparr>w_claim := map_option (fold advance fresh) (w_claim w), w_seen := seen'\<rparr>)) = Go w'" using heard(2) that by simp
      from end_of_turn_keeps [OF this] show ?thesis by simp
    qed
    ultimately show ?thesis using m(1-3) n f by (auto simp: news_def heard(1))
  qed
qed

lemma watch_turn_news: "news w (watch_turn a t w)"
proof -
  let ?w = "w\<lparr>w_bridge := looked (ti_look t) (w_bridge w)\<rparr>"
  obtain acts r where f: "follow_seat a t ?w = (acts, r)" by force
  have q: "silent acts" using follow_seat_quiet [of a t ?w] by (simp add: f)
  show ?thesis
  proof (cases r)
    case None
    with q show ?thesis by (intro news_silent) (simp_all add: watch_turn_def f)
  next
    case (Some x)
    obtain w1 code where x: "x = (w1, code)" by force
    have seen: "w_seen w1 = w_seen w" using follow_seat_keeps [of a t ?w acts w1 code] f Some x by simp
    let ?b = "case w_claim w1 of None \<Rightarrow> ([], Holder) | Some c \<Rightarrow> claim_beat (ti_beat t) c"
    have b: "silent (fst ?b)" using claim_beat_quiet by (simp split: option.split)
    show ?thesis
    proof (cases "code = None \<and> \<not> orphaned a (w_bridge w1) \<and> snd ?b = Holder")
      case True
      then have "watch_turn a t w = (acts @ fst ?b @ alive a w1 # fst (listen_turn a t w1), snd (listen_turn a t w1))"
        using f Some x by (auto simp: watch_turn_def split_beta split: beat_verdict.split)
      with listen_turn_news [of w1 a t] q b seen show ?thesis
        by (simp add: news_def silentD alive_def)
    next
      case False
      then have "silent (fst (watch_turn a t w)) \<and> (\<forall>w'. snd (watch_turn a t w) = Go w' \<longrightarrow> w' = w1)"
        using f Some x q b orphan_quiet [of a t w1]
        by (cases code; cases "snd ?b") (auto simp: watch_turn_def split_beta)
      with seen show ?thesis by (intro news_silent) auto
    qed
  qed
qed

lemma watch_run_news: "news w (watch_run a ts w)"
proof (induction ts arbitrary: w)
  case (Cons t ts)
  obtain acts out where r: "watch_turn a t w = (acts, out)" by force
  note n = watch_turn_news [of w a t, unfolded r]
  show ?case
  proof (cases out)
    case (Go w')
    obtain acts' out' where r': "watch_run a ts w' = (acts', out')" by force
    note n' = Cons.IH [of w', unfolded r']
    have "emitted (acts @ acts') = emitted acts @ emitted acts'" by simp
    with n n' Go r r' show ?thesis by (auto simp: news_def) blast+
  qed (use n r in \<open>simp_all add: news_def\<close>)
qed (simp add: news_def)

lemma seed_unfold:
  assumes "am_mail i = Answer ms" and "\<not> ar_include_existing a"
    and "sift (own_addresses (w_reader w)) (w_seen w) ms = (backlog, seen)"
  obtains mark gap rest hits digest where
    "mark = Option.bind (Option.bind (w_claim w) cs_catch_up_after) or_none" and "gap_of mark backlog = (gap, rest)"
    and "emit_backlog_digest rest (reader_to_address (w_reader w)) (derive_project_name (w_bridge w) (watch_dir a)) = (hits, digest)"
    and "seed a i w =
      (map emit gap @ digest @ (case am_register i of Answer es \<Rightarrow> emit_estate_survey es (derive_project_name (w_bridge w) (watch_dir a)) | _ \<Rightarrow> []),
       let w' = w\<lparr>w_seen := seen, w_claim := map_option (fold advance gap) (w_claim w)\<rparr>
       in if hits \<noteq> 0 \<and> \<not> ar_follow a then Exit 0 (w_claim w') else Go w')"
proof -
  let ?mark = "Option.bind (Option.bind (w_claim w) cs_catch_up_after) or_none"
  obtain gap rest where g: "gap_of ?mark backlog = (gap, rest)" by force
  obtain hits digest where d: "emit_backlog_digest rest (reader_to_address (w_reader w)) (derive_project_name (w_bridge w) (watch_dir a)) = (hits, digest)"
    by force
  show thesis by (rule that [OF refl g d]) (simp add: seed_def assms g d Let_def del: Option.bind_assoc)
qed

lemma seed_news: "news w (seed a i w)"
proof (cases "ar_include_existing a \<or> (\<forall>ms. am_mail i \<noteq> Answer ms)")
  case True
  then show ?thesis by (intro news_silent) (auto simp: seed_def split: answer.splits if_splits)
next
  case False
  then obtain ms where ms: "am_mail i = Answer ms" "\<not> ar_include_existing a" by blast
  obtain backlog seen where s: "sift (own_addresses (w_reader w)) (w_seen w) ms = (backlog, seen)" by force
  obtain mark gap rest hits digest where g: "gap_of mark backlog = (gap, rest)"
    and d: "emit_backlog_digest rest (reader_to_address (w_reader w)) (derive_project_name (w_bridge w) (watch_dir a)) = (hits, digest)"
    and r: "seed a i w =
      (map emit gap @ digest @ (case am_register i of Answer es \<Rightarrow> emit_estate_survey es (derive_project_name (w_bridge w) (watch_dir a)) | _ \<Rightarrow> []),
       let w' = w\<lparr>w_seen := seen, w_claim := map_option (fold advance gap) (w_claim w)\<rparr>
       in if hits \<noteq> 0 \<and> \<not> ar_follow a then Exit 0 (w_claim w') else Go w')"
    by (rule seed_unfold [OF ms s])
  have "silent digest" using digest_quiet(1) [of rest "reader_to_address (w_reader w)" "derive_project_name (w_bridge w) (watch_dir a)"]
    by (simp add: d)
  moreover have "silent (case am_register i of Answer es \<Rightarrow> emit_estate_survey es project | _ \<Rightarrow> [])" for project
    using digest_quiet(2) by (simp split: answer.split)
  moreover have "set gap \<subseteq> set backlog" "distinct (map mail_id backlog) \<Longrightarrow> distinct (map mail_id gap)"
    using g by (auto simp: gap_of_def distinct_map_filter split: option.splits)
  ultimately show ?thesis
    unfolding r using sift_ids [OF s] sift_wanted [OF s]
    by (auto simp: news_def silentD list_all_iff wanted_def Let_def)
qed

text \<open>C22. A watcher wakes its session at most once for each message and each wake, from arming on and whatever it
  is answered: no id comes twice in the lines it writes, and mail that is only for information never comes.\<close>

theorem watcher_wakes_once:
  assumes "start a i b = (acts, Go w)" and "watch_run a ts w = (acts', out)"
  shows "distinct (emitted (acts @ acts')) \<and> (\<forall>l \<in> set (mail_lines (acts @ acts')). norm (me_intent l) \<noteq> ''fyi'')"
proof -
  obtain w1 where "arm a i w1 = (acts, Go w)"
    using assms(1) by (auto simp: start_def Let_def split_beta split: if_splits)
  then obtain w0 acts0 acts1 where s: "acts = acts0 @ acts1" "silent acts0" "seed a i w0 = (acts1, Go w)"
    using claim_at_arm_quiet [of a i w1]
    by (auto simp: arm_def split_beta split: option.splits prod.splits) (metis prod.collapse)
  then have "news w0 (acts1, Go w)" using seed_news [of w0 a i] by simp
  moreover have "news w (acts', out)" using watch_run_news [of w a ts] assms(2) by simp
  ultimately show ?thesis using s by (auto simp: news_def silentD list_all_iff)
qed

section \<open>One voice\<close>

text \<open>C23. The watch has one voice. Once the server has granted the watch of a seat to another process, a
  watcher that still believes it holds it writes no line for mail or wakes at its next turn, whatever is
  waiting for it, and ends.\<close>

theorem displaced_watcher_falls_silent:
  assumes "watch_claim cfg c now tb = (v, tb')" and "is_grant v" and "watch_ok cfg tb"
    and "norm (cl_seat c) \<notin> set SEAT_EXEMPT_IDENTITIES"
    and "norm (Some (cs_seat k)) = norm (cl_seat c)" and "cs_nonce k \<noteq> cl_nonce c" and "\<not> cs_unheld_mode k"
    and "follow_seat a t (w\<lparr>w_bridge := looked (ti_look t) (w_bridge w)\<rparr>) = (acts, Some (w', None))" and "w_claim w' = Some k"
    and "ti_beat t = (if fst (watch_beat cfg (Some (cs_seat k)) (cs_nonce k) f later tb') then BeatHolder else BeatNotHolder)"
  shows "emitted (fst (watch_turn a t w)) = [] \<and> (\<exists>code. snd (watch_turn a t w) = Exit code (Some k) \<and> code \<in> {0, EXIT_DISPLACED})"
proof -
  have "\<not> fst (watch_beat cfg (Some (cs_seat k)) (cs_nonce k) f later tb')"
    using grant_holder [OF assms(1-4), of "cs_nonce k"] assms(5,6) by (simp add: watch_beat_def)
  then have "claim_beat (ti_beat t) k = ([BeatCall (cs_seat k) (cs_nonce k) (cs_fetched_through k)], Displaced)"
    using assms(7,10) by (simp add: claim_beat_def)
  moreover have "emitted acts = []" using follow_seat_quiet [of a t "w\<lparr>w_bridge := looked (ti_look t) (w_bridge w)\<rparr>"] assms(8)
    by (simp add: silent_def)
  ultimately show ?thesis using assms(8,9) orphan_quiet [of a t w'] by (simp add: watch_turn_def silent_def)
qed

section \<open>The gap after a displaced holder\<close>

lemma acquire_after_waiting:
  "claim_acquire dir listen (replicate n ClaimHeld @ ClaimGranted mark # vs) c =
     (replicate (Suc n) (ClaimCall (claim_request dir listen c)), Some (c\<lparr>cs_held := True, cs_catch_up_after := mark\<rparr>, None))"
  by (induction n) simp_all

lemma gap_of_fst: "fst (gap_of (Some x) backlog) = filter (\<lambda>m. x < or_empty (ml_created_at m)) backlog"
  by (simp add: gap_of_def partition_filter1 split_beta)

lemma seed_lines:
  assumes "am_mail i = Answer ms" and "\<not> ar_include_existing a" and "w_claim w = Some c"
    and "cs_catch_up_after c = Some mark" and "mark \<noteq> ''''"
    and "distinct (map mail_id (filter (\<lambda>m. mail_id m \<noteq> '''') ms))"
  shows "mail_lines (fst (seed a i w)) =
    map line_of (filter (\<lambda>m. mark < or_empty (ml_created_at m))
      (filter (\<lambda>m. wanted (own_addresses (w_reader w)) m \<and> mail_id m \<notin> set (w_seen w)) ms))"
proof -
  obtain backlog seen where s: "sift (own_addresses (w_reader w)) (w_seen w) ms = (backlog, seen)" by force
  obtain m gap rest hits digest where m: "m = Option.bind (Option.bind (w_claim w) cs_catch_up_after) or_none"
    and g: "gap_of m backlog = (gap, rest)"
    and d: "emit_backlog_digest rest (reader_to_address (w_reader w)) (derive_project_name (w_bridge w) (watch_dir a)) = (hits, digest)"
    and r: "seed a i w =
      (map emit gap @ digest @ (case am_register i of Answer es \<Rightarrow> emit_estate_survey es (derive_project_name (w_bridge w) (watch_dir a)) | _ \<Rightarrow> []),
       let w' = w\<lparr>w_seen := seen, w_claim := map_option (fold advance gap) (w_claim w)\<rparr>
       in if hits \<noteq> 0 \<and> \<not> ar_follow a then Exit 0 (w_claim w') else Go w')"
    by (rule seed_unfold [OF assms(1,2) s])
  have "m = Some mark" using assms(3-5) by (simp add: m or_none_def)
  then have "gap = filter (\<lambda>x. mark < or_empty (ml_created_at x)) (fst (sift (own_addresses (w_reader w)) (w_seen w) ms))"
    using gap_of_fst [of mark backlog] g s by simp
  moreover have "mail_lines digest = []" using digest_quiet(1) [of rest "reader_to_address (w_reader w)" "derive_project_name (w_bridge w) (watch_dir a)"]
    by (simp add: d silent_def)
  moreover have "mail_lines (case am_register i of Answer es \<Rightarrow> emit_estate_survey es p | _ \<Rightarrow> []) = []" for p
    using digest_quiet(2) by (simp add: silent_def split: answer.split)
  ultimately show ?thesis by (simp add: r sift_exact [OF assms(6)])
qed

text \<open>C24. A watcher that takes the watch over, however long it had to wait for the grant, and is handed a
  mark with it, writes a line at arm time for exactly those messages of the page of unread mail the server
  lists then (their ids being different) that have an id, are newer than the mark, are not from the session itself and
  are not for information only, in the order of the page. (The mark is what the server recorded as fetched by the
  old holder.)\<close>

theorem stolen_watch_is_caught_up:
  assumes "ar_claim a" and "\<not> ar_include_existing a" and "w_seen w = []"
    and "am_claims i = replicate n ClaimHeld @ ClaimGranted (Some mark) # vs" and "mark \<noteq> ''''"
    and "am_mail i = Answer ms" and "distinct (map mail_id (filter (\<lambda>m. mail_id m \<noteq> '''') ms))"
    and "reader = (if ar_address a \<noteq> '''' then w_reader w else fst (fst (compute_identity (watch_dir a) (w_bridge w))))"
  shows "mail_lines (fst (arm a i w)) =
    map line_of (filter (\<lambda>m. mark < or_empty (ml_created_at m)) (filter (wanted (own_addresses reader)) ms))"
proof -
  have v: "w_seen (reread a w) = []" "w_reader (reread a w) = reader"
    using assms(3,8) by (auto simp: reread_def split: prod.split)
  obtain acts w1 where c: "claim_at_arm a i w = (acts, Some (w1, None))"
    and k: "w_claim w1 \<noteq> None" "cs_catch_up_after (the (w_claim w1)) = Some mark" "w_seen w1 = []" "w_reader w1 = reader"
    using assms(1,4) v by (simp add: claim_at_arm_def Let_def acquire_after_waiting)
  have q: "silent acts" using claim_at_arm_quiet [of a i w] by (simp add: c)
  let ?w = "w1\<lparr>w_watched := discover_session_process (w_bridge w1), w_armed_as := w_reader w1\<rparr>"
  have l: "mail_lines (fst (seed a i ?w)) =
      map line_of (filter (\<lambda>m. mark < or_empty (ml_created_at m)) (filter (wanted (own_addresses reader)) ms))"
    using seed_lines [of i ms a ?w "the (w_claim w1)" mark] assms(2,5-7) k by simp
  have "fst (arm a i w) = acts @ fst (seed a i ?w)" using c by (simp add: arm_def split_beta)
  with l q show ?thesis by (simp add: silent_def)
qed

section \<open>No farewell for the living\<close>

text \<open>Two polls in a row, as the loop over the window counts them.\<close>

lemma observed_iff: "observed gs 0 \<longleftrightarrow> sublist [True, True] gs"
proof -
  have n: "observed gs (Suc 0) \<longleftrightarrow> (gs \<noteq> [] \<and> hd gs) \<or> observed gs 0" for gs
    by (cases gs) (auto simp: Let_def)
  show ?thesis
  proof (induction gs)
    case (Cons g gs)
    have "sublist [True, True] (g # gs) \<longleftrightarrow> g \<and> gs \<noteq> [] \<and> hd gs \<or> sublist [True, True] gs"
      by (cases gs) (auto simp: sublist_Cons_right)
    with Cons n [of gs] show ?case by (auto simp: Let_def)
  qed simp
qed

definition farewell_in :: "act list \<Rightarrow> bool" where
  "farewell_in acts \<longleftrightarrow> (\<exists>who project. FarewellCall who project \<in> set acts)"

text \<open>Whether the session looks gone at a turn; what the process remembers otherwise plays no part.\<close>

definition gone_at :: "watcher \<Rightarrow> turn_input \<Rightarrow> bool" where
  "gone_at w t = session_gone (w\<lparr>w_bridge := looked (ti_look t) (w_bridge w)\<rparr>)"

lemma process_is_gone_by_ps:
  assumes "pb_ps b' = pb_ps b" and "pb_ps_local b' = pb_ps_local b"
  shows "process_is_gone b' = process_is_gone b"
  by (intro ext) (simp add: process_is_gone_def assms cong: ps_answer.case_cong)

lemma session_gone_core: "w_watched w' = w_watched w \<Longrightarrow> core (w_bridge w') = core (w_bridge w) \<Longrightarrow> session_gone w' = session_gone w"
proof -
  assume w: "w_watched w' = w_watched w" "core (w_bridge w') = core (w_bridge w)"
  have "process_is_gone (core b) = process_is_gone b" for b
    by (rule process_is_gone_by_ps) (simp_all add: core_def)
  then have "process_is_gone (w_bridge w') = process_is_gone (w_bridge w)" using w(2) by metis
  with w(1) show ?thesis by (simp add: session_gone_def split: option.split)
qed

lemma follow_seat_core:
  assumes "follow_seat a t w = (acts, Some (w', code))"
  shows "core (w_bridge w') = core (w_bridge w)"
  using assms compute_core [of "watch_dir a" "w_bridge w"]
  by (auto simp: follow_seat_def Let_def split: if_splits prod.splits option.splits)

definition seen_gone :: "watcher \<times> turn_input \<Rightarrow> bool" where
  "seen_gone x = gone_at (fst x) (snd x)"

text \<open>A turn that ends before it looks at the session: its beat was lost and its claim is one that has to be
  beaten.\<close>

definition blind :: "watch_args \<Rightarrow> watcher \<times> turn_input \<Rightarrow> bool" where
  "blind a x \<longleftrightarrow>
     (case follow_seat a (snd x) ((fst x)\<lparr>w_bridge := looked (ti_look (snd x)) (w_bridge (fst x))\<rparr>) of
        (_, Some (w, None)) \<Rightarrow> \<not> orphaned a (w_bridge w) \<and>
          (case w_claim w of None \<Rightarrow> False | Some c \<Rightarrow> snd (claim_beat (ti_beat (snd x)) c) = Unknown)
      | _ \<Rightarrow> False)"

text \<open>A turn that finds its bridge gone, and its session at two polls in a row.\<close>

definition orphan_sighting :: "watch_args \<Rightarrow> watcher \<times> turn_input \<Rightarrow> bool" where
  "orphan_sighting a x \<longleftrightarrow>
     orphaned a (looked (ti_look (snd x)) (w_bridge (fst x))) \<and> sublist [True, True] (ti_window (snd x))"

text \<open>The turns a run makes, each with the state it starts from.\<close>

fun turns_made :: "watch_args \<Rightarrow> turn_input list \<Rightarrow> watcher \<Rightarrow> (watcher \<times> turn_input) list" where
  "turns_made a [] w = []"
| "turns_made a (t # ts) w = (w, t) # (case snd (watch_turn a t w) of Go w' \<Rightarrow> turns_made a ts w' | _ \<Rightarrow> [])"

text \<open>What one turn does for the count of sightings: only a turn that finds the session gone raises it, and
  only a blind one leaves it as it is.\<close>

definition sightings_step :: "watch_args \<Rightarrow> turn_input \<Rightarrow> watcher \<Rightarrow> act list \<times> outcome \<Rightarrow> bool" where
  "sightings_step a t w r \<longleftrightarrow>
     (farewell_in (fst r) \<longrightarrow> orphan_sighting a (w, t) \<or> gone_at w t \<and> 0 < w_gone_seen w) \<and>
     (\<forall>w'. snd r = Go w' \<longrightarrow> \<not> farewell_in (fst r) \<and>
        (0 < w_gone_seen w' \<longrightarrow> gone_at w t \<or> blind a (w, t) \<and> w_gone_seen w' = w_gone_seen w))"

lemma farewell_in_simps [simp]:
  "\<not> farewell_in []" "farewell_in (xs @ ys) \<longleftrightarrow> farewell_in xs \<or> farewell_in ys"
  "farewell_in (ClaimCall c # xs) = farewell_in xs" "farewell_in (BeatCall p q r # xs) = farewell_in xs"
  "farewell_in (ReleaseCall p q # xs) = farewell_in xs" "farewell_in (AliveCall p q # xs) = farewell_in xs"
  "farewell_in (FarewellCall p q # xs)" "farewell_in (Out l # xs) = farewell_in xs"
  "\<not> farewell_in (map emit ms)" "\<not> farewell_in (map emit_wake ws)"
  by (auto simp: farewell_in_def emit_def emit_wake_def Let_def)

lemma no_farewell:
  "\<not> farewell_in (fst (claim_acquire dir listen vs c))" "\<not> farewell_in (fst (follow_seat a t w))"
  "\<not> farewell_in (fst (claim_beat v c))"
proof -
  show c: "\<not> farewell_in (fst (claim_acquire dir listen vs c))" for dir listen vs c
    by (induction vs) (auto simp: split_beta split: claim_answer.split)
  show "\<not> farewell_in (fst (follow_seat a t w))" using c
    by (auto simp: follow_seat_def Let_def split_beta split: option.split)
qed (simp add: claim_beat_def)

lemma end_of_turn_sightings:
  "farewell_in (fst (end_of_turn a t woken w)) \<Longrightarrow> session_gone w \<and> 0 < w_gone_seen w"
  "snd (end_of_turn a t woken w) = Go w' \<Longrightarrow>
     \<not> farewell_in (fst (end_of_turn a t woken w)) \<and> w_watched w' = w_watched w \<and> (0 < w_gone_seen w' \<longrightarrow> session_gone w)"
  by (auto simp: end_of_turn_def split: if_splits)

lemma listen_turn_sightings:
  assumes "listen_turn a t w = (acts, out)"
  shows "farewell_in acts \<Longrightarrow> session_gone w \<and> 0 < w_gone_seen w"
    and "out = Go w' \<Longrightarrow> \<not> farewell_in acts \<and> w_watched w' = w_watched w \<and> (0 < w_gone_seen w' \<longrightarrow> session_gone w)"
proof -
  obtain fresh seen where s: "poll_mail (own_addresses (w_reader w)) (w_seen w) (ti_mail t) = (fresh, seen)" by force
  obtain wakes seen' where k: "poll_wake_socket seen (ti_wakes t) = (wakes, seen')" by force
  let ?w = "w\<lparr>w_claim := map_option (fold advance fresh) (w_claim w), w_seen := seen'\<rparr>"
  have g: "session_gone ?w = session_gone w" by (rule session_gone_core) simp_all
  have "(farewell_in acts \<longrightarrow> session_gone w \<and> 0 < w_gone_seen w) \<and>
      (out = Go w' \<longrightarrow> \<not> farewell_in acts \<and> w_watched w' = w_watched w \<and> (0 < w_gone_seen w' \<longrightarrow> session_gone w))"
    using s k
  proof (cases rule: listen_turn_cases [where a = a])
    case (refused acts' c)
    with assms show ?thesis by auto
  next
    case (heard acts' out')
    with assms end_of_turn_sightings [of a t "fresh \<noteq> [] \<or> wakes \<noteq> []" ?w, unfolded heard(2) g] show ?thesis by auto
  qed
  then show "farewell_in acts \<Longrightarrow> session_gone w \<and> 0 < w_gone_seen w"
    and "out = Go w' \<Longrightarrow> \<not> farewell_in acts \<and> w_watched w' = w_watched w \<and> (0 < w_gone_seen w' \<longrightarrow> session_gone w)"
    by blast+
qed

lemma watch_turn_sightings: "sightings_step a t w (watch_turn a t w)"
proof -
  let ?w = "w\<lparr>w_bridge := looked (ti_look t) (w_bridge w)\<rparr>"
  obtain acts r where f: "follow_seat a t ?w = (acts, r)" by force
  have q: "\<not> farewell_in acts" using no_farewell(2) [of a t ?w] by (simp add: f)
  show ?thesis
  proof (cases r)
    case None
    with q show ?thesis by (simp add: sightings_step_def watch_turn_def f)
  next
    case (Some x)
    obtain w1 code where x: "x = (w1, code)" by force
    have k: "w_gone_seen w1 = w_gone_seen w" "w_watched w1 = w_watched w"
      using follow_seat_keeps [of a t ?w acts w1 code] f Some x by simp_all
    have g: "session_gone w1 = gone_at w t" unfolding gone_at_def
      using follow_seat_core [of a t ?w acts w1 code] f Some x k by (intro session_gone_core) simp_all
    let ?b = "case w_claim w1 of None \<Rightarrow> ([], Holder) | Some c \<Rightarrow> claim_beat (ti_beat t) c"
    obtain beats v where b: "?b = (beats, v)" by force
    have nb: "\<not> farewell_in beats" using b by (auto simp: claim_beat_def split: option.splits if_splits)
    have lost: "code = None \<Longrightarrow> \<not> orphaned a (w_bridge w1) \<Longrightarrow> v = Unknown \<Longrightarrow> blind a (w, t)"
      using b f Some x by (auto simp: blind_def split: option.splits)
    obtain acts' out where l: "listen_turn a t w1 = (acts', out)" by force
    note ls = listen_turn_sightings [OF l]
    have "pb_ppid (w_bridge w1) = lk_ppid (ti_look t)"
      using follow_seat_core [of a t ?w acts w1 code, THEN arg_cong, of pb_ppid] f Some x by (simp add: core_def looked_def)
    then have o: "farewell_in (orphan_acts a t w1) \<Longrightarrow> orphaned a (w_bridge w1) \<Longrightarrow> orphan_sighting a (w, t)"
      by (auto simp: orphan_acts_def orphan_sighting_def orphaned_def looked_def observed_iff split: option.splits if_splits)
    show ?thesis
    proof (cases code)
      case (Some n)
      with \<open>r = Some x\<close> q show ?thesis by (simp add: sightings_step_def watch_turn_def f x)
    next
      case None
      with \<open>r = Some x\<close> q nb lost ls o k g show ?thesis
        by (cases v; cases "orphaned a (w_bridge w1)") (auto simp: sightings_step_def watch_turn_def f x b l alive_def)
    qed
  qed
qed

text \<open>The next sighting, after blind turns only; and a pair of sightings with only blind turns
  between them.\<close>

definition sighted_again :: "watch_args \<Rightarrow> (watcher \<times> turn_input) list \<Rightarrow> bool" where
  "sighted_again a xs \<longleftrightarrow> (\<exists>vs y ws. xs = vs @ y # ws \<and> seen_gone y \<and> list_all (blind a) vs)"

definition sighted_twice :: "watch_args \<Rightarrow> (watcher \<times> turn_input) list \<Rightarrow> bool" where
  "sighted_twice a xs \<longleftrightarrow>
     (\<exists>us x vs y ws. xs = us @ x # vs @ y # ws \<and> seen_gone x \<and> seen_gone y \<and> list_all (blind a) vs)"

lemma sighted_again_Cons: "seen_gone x \<Longrightarrow> sighted_again a (x # xs)" "blind a x \<Longrightarrow> sighted_again a xs \<Longrightarrow> sighted_again a (x # xs)"
proof -
  assume g: "seen_gone x"
  show "sighted_again a (x # xs)" unfolding sighted_again_def
    by (rule exI [of _ "[]"], rule exI [of _ x], rule exI [of _ xs]) (simp add: g)
next
  assume b: "blind a x" and "sighted_again a xs"
  then obtain vs y ws where "xs = vs @ y # ws" "seen_gone y" "list_all (blind a) vs" by (auto simp: sighted_again_def)
  with b show "sighted_again a (x # xs)" unfolding sighted_again_def
    by (intro exI [of _ "x # vs"] exI [of _ y] exI [of _ ws]) simp
qed

lemma sighted_twice_Cons: "seen_gone x \<Longrightarrow> sighted_again a xs \<Longrightarrow> sighted_twice a (x # xs)" "sighted_twice a xs \<Longrightarrow> sighted_twice a (x # xs)"
proof -
  assume g: "seen_gone x" and "sighted_again a xs"
  then obtain vs y ws where "xs = vs @ y # ws" "seen_gone y" "list_all (blind a) vs" by (auto simp: sighted_again_def)
  with g show "sighted_twice a (x # xs)" unfolding sighted_twice_def
    by (intro exI [of _ "[]"] exI [of _ x] exI [of _ vs] exI [of _ y] exI [of _ ws]) simp
next
  assume "sighted_twice a xs"
  then obtain us z vs y ws where "xs = us @ z # vs @ y # ws" "seen_gone z" "seen_gone y" "list_all (blind a) vs"
    by (auto simp: sighted_twice_def)
  then show "sighted_twice a (x # xs)" unfolding sighted_twice_def
    by (intro exI [of _ "x # us"] exI [of _ z] exI [of _ vs] exI [of _ y] exI [of _ ws]) simp
qed

lemma run_sightings:
  "farewell_in (fst (watch_run a ts w)) \<Longrightarrow>
   (\<exists>x \<in> set (turns_made a ts w). orphan_sighting a x) \<or>
   0 < w_gone_seen w \<and> sighted_again a (turns_made a ts w) \<or> sighted_twice a (turns_made a ts w)"
proof (induction ts arbitrary: w)
  case (Cons t ts)
  obtain acts out where r: "watch_turn a t w = (acts, out)" by force
  note s = watch_turn_sightings [of a t w, unfolded r sightings_step_def fst_conv snd_conv]
  show ?case
  proof (cases out)
    case (Go w')
    then have f: "farewell_in (fst (watch_run a ts w'))" using Cons.prems s r by (auto simp: split_beta)
    have m: "turns_made a (t # ts) w = (w, t) # turns_made a ts w'" using r Go by simp
    have n: "0 < w_gone_seen w' \<Longrightarrow> seen_gone (w, t) \<or> blind a (w, t) \<and> 0 < w_gone_seen w"
      using s Go by (auto simp: seen_gone_def)
    show ?thesis using Cons.IH [OF f] n unfolding m
      by (auto intro: sighted_again_Cons sighted_twice_Cons)
  qed (use Cons.prems s r in \<open>auto simp: seen_gone_def intro: sighted_again_Cons(1)\<close>)
qed simp

text \<open>C25. A watcher never reports its session gone on one sighting. A run sends a farewell only after it found the session
  gone at two turns with nothing between them but turns that lost their beat before they looked, or, when its
  bridge was gone, at two polls in a row of the window it waits for; and the exit by a signal sends one
  only after two such polls in a row, and never when it watches no process.\<close>

theorem farewell_needs_two_sightings:
  assumes "watch_run a ts w = (acts, out)" and "w_gone_seen w = 0"
  shows "(farewell_in acts \<longrightarrow> sighted_twice a (turns_made a ts w) \<or>
      (\<exists>x \<in> set (turns_made a ts w). orphan_sighting a x)) \<and>
    (farewell_in (signal_exit b v window) \<longrightarrow> w_watched v \<noteq> None \<and> sublist [True, True] window)"
proof -
  have "sublist [True, True] window \<and> w_watched v \<noteq> None" if "farewell_in (signal_exit b v window)"
    using that by (auto simp: signal_exit_def claim_release_def observed_iff split: option.splits if_splits)
  with run_sightings [of a ts w] assms show ?thesis by auto
qed

section \<open>Witnesses\<close>

definition demo_watch_args :: watch_args where
  "demo_watch_args = \<lparr>ar_project_dir = ''/home/u/projects/app'', ar_address = '''', ar_identity = '''', ar_follow = True,
     ar_timed = False, ar_include_existing = False, ar_claim = True, ar_fifo = ''''\<rparr>"

definition demo_look :: "(nat \<times> ps_answer) list \<Rightarrow> look" where
  "demo_look ps = \<lparr>lk_files = pb_files demo_bridge, lk_ps = ps, lk_ps_local = ps, lk_ppid = 10\<rparr>"

definition demo_item :: "string \<Rightarrow> string \<Rightarrow> string \<Rightarrow> mail_item" where
  "demo_item i intent at = \<lparr>ml_id = Some i, ml_to = Some ''app'', ml_from = Some ''web@box'', ml_from_field = None, ml_intent = Some intent,
     ml_subject = None, ml_thread_id = None, ml_created_at = Some at, ml_body = Some ''hi''\<rparr>"

definition demo_backlog :: "mail_item list" where
  "demo_backlog = [demo_item ''m3'' ''fyi'' ''2026-01-03'', demo_item ''m2'' ''question'' ''2026-01-02'', demo_item ''m1'' ''question'' ''2026-01-01'']"

definition demo_arming :: arm_input where
  "demo_arming = \<lparr>am_look = demo_look [], am_attached = True, am_attach_look = demo_look [], am_nonce = ''n1'',
     am_claims = replicate 1 ClaimHeld @ ClaimGranted (Some ''2026-01-01'') # [], am_mail = Answer demo_backlog, am_register = Unreachable\<rparr>"

definition demo_turn :: "(nat \<times> ps_answer) list \<Rightarrow> mail_item list \<Rightarrow> beat_answer \<Rightarrow> turn_input" where
  "demo_turn ps ms b = \<lparr>ti_look = demo_look ps, ti_nonce = ''n9'', ti_claims = [], ti_window = [], ti_beat = b, ti_mail = Answer ms,
     ti_wakes = Answer [], ti_late = False\<rparr>"

definition addressed_args :: watch_args where
  "addressed_args = demo_watch_args\<lparr>ar_address := ''engram-1''\<rparr>"

definition demo_started :: "act list \<times> outcome" where
  "demo_started = start addressed_args demo_arming demo_bridge"

definition going :: "outcome \<Rightarrow> watcher list" where
  "going out = (case out of Go w \<Rightarrow> [w] | _ \<Rightarrow> [])"

lemma going_Go: "going out \<noteq> [] \<Longrightarrow> out = Go (hd (going out))"
  by (simp add: going_def split: outcome.splits)

theorem watcher_wakes_once_witness:
  "let w = hd (going (snd demo_started));
       acts = fst (watch_run addressed_args [demo_turn [] (demo_item ''m4'' ''question'' ''2026-01-04'' # demo_backlog) BeatHolder] w)
   in distinct (emitted (fst demo_started @ acts)) \<and> emitted (fst demo_started @ acts) = [''m2'', ''m4'']"
proof -
  let ?w = "hd (going (snd demo_started))"
  let ?r = "watch_run addressed_args [demo_turn [] (demo_item ''m4'' ''question'' ''2026-01-04'' # demo_backlog) BeatHolder] ?w"
  have g: "going (snd demo_started) \<noteq> []" by code_simp
  have s: "start addressed_args demo_arming demo_bridge = (fst demo_started, Go ?w)"
    using going_Go [OF g] by (metis demo_started_def prod.collapse)
  have e1: "emitted (fst demo_started) = [''m2'']" by code_simp
  have e2: "emitted (fst ?r) = [''m4'']" by code_simp
  have e: "emitted (fst demo_started @ fst ?r) = [''m2'', ''m4'']" using e1 e2 by simp
  have "distinct (emitted (fst demo_started @ fst ?r))"
    by (rule conjunct1 [OF watcher_wakes_once [OF s prod.collapse [symmetric]]])
  then show ?thesis unfolding Let_def using e by (rule conjI)
qed

definition seated_watcher :: watcher where
  "seated_watcher = \<lparr>w_bridge = demo_bridge, w_reader = ''engram-1@box'', w_listen = [''engram-1''],
     w_claim = Some \<lparr>cs_seat = ''engram-1'', cs_nonce = ''n1'', cs_seat_nonce = None, cs_held = True, cs_unheld_mode = False,
       cs_fetched_through = None, cs_catch_up_after = None\<rparr>,
     w_active = None, w_watched = Some (7, ''s''), w_armed_as = ''engram-1@box'', w_seen = [], w_gone_seen = 0\<rparr>"

theorem displaced_watcher_falls_silent_witness:
  "emitted (fst (watch_turn addressed_args (demo_turn [] demo_backlog BeatNotHolder) seated_watcher)) = [] \<and>
   emitted (fst (watch_turn addressed_args (demo_turn [] demo_backlog BeatHolder) seated_watcher)) = [''m2'', ''m1'']"
proof -
  let ?c = "demo_claim ''n2''"
  let ?r = "watch_claim default_settings ?c (seconds 200) watch_demo"
  let ?t = "demo_turn [] demo_backlog BeatNotHolder"
  let ?k = "the (w_claim seated_watcher)"
  have o: "watch_ok default_settings watch_demo" and g: "is_grant (fst ?r)"
    and s: "norm (cl_seat ?c) \<notin> set SEAT_EXEMPT_IDENTITIES" by code_simp+
  have n: "norm (Some (cs_seat ?k)) = norm (cl_seat ?c)" "cs_nonce ?k \<noteq> cl_nonce ?c" "\<not> cs_unheld_mode ?k" by code_simp+
  have f: "follow_seat addressed_args ?t (seated_watcher\<lparr>w_bridge := looked (ti_look ?t) (w_bridge seated_watcher)\<rparr>) =
      ([], Some (seated_watcher\<lparr>w_bridge := looked (ti_look ?t) (w_bridge seated_watcher)\<rparr>, None))"
    by (simp add: follow_seat_def addressed_args_def)
  have k: "w_claim (seated_watcher\<lparr>w_bridge := looked (ti_look ?t) (w_bridge seated_watcher)\<rparr>) = Some ?k"
    by (simp add: seated_watcher_def)
  have b: "ti_beat ?t = (if fst (watch_beat default_settings (Some (cs_seat ?k)) (cs_nonce ?k) None (seconds 201) (snd ?r)) then BeatHolder else BeatNotHolder)"
    by code_simp
  have e: "emitted (fst (watch_turn addressed_args (demo_turn [] demo_backlog BeatHolder) seated_watcher)) = [''m2'', ''m1'']" by code_simp
  from displaced_watcher_falls_silent [OF prod.collapse [symmetric] g o s n f k b] e show ?thesis by blast
qed

theorem stolen_watch_is_caught_up_witness:
  "map me_id (mail_lines (fst (arm demo_watch_args demo_arming (seated_watcher\<lparr>w_claim := None\<rparr>)))) = [''m2'']"
proof -
  let ?w = "seated_watcher\<lparr>w_claim := None\<rparr>"
  have a: "ar_claim demo_watch_args" "\<not> ar_include_existing demo_watch_args" "w_seen ?w = []"
    by (simp_all add: demo_watch_args_def seated_watcher_def)
  have i: "am_claims demo_arming = replicate 1 ClaimHeld @ ClaimGranted (Some ''2026-01-01'') # []" "''2026-01-01'' \<noteq> ''''"
    "am_mail demo_arming = Answer demo_backlog" by (simp_all add: demo_arming_def)
  have d: "distinct (map mail_id (filter (\<lambda>m. mail_id m \<noteq> '''') demo_backlog))" by code_simp
  let ?r = "if ar_address demo_watch_args \<noteq> '''' then w_reader ?w
            else fst (fst (compute_identity (watch_dir demo_watch_args) (w_bridge ?w)))"
  have f: "map mail_id (filter (\<lambda>m. ''2026-01-01'' < or_empty (ml_created_at m)) (filter (wanted (own_addresses ?r)) demo_backlog)) = [''m2'']"
    by code_simp
  show ?thesis unfolding stolen_watch_is_caught_up [OF a i d refl] using f by (simp add: comp_def)
qed

theorem farewell_needs_two_sightings_witness:
  "let ts = [demo_turn [(7, Unreadable 1)] [] BeatHolder, demo_turn [(7, Unreadable 1)] [] BeatLost, demo_turn [(7, Unreadable 1)] [] BeatHolder]
   in sighted_twice addressed_args (turns_made addressed_args ts seated_watcher) \<or>
      (\<exists>x \<in> set (turns_made addressed_args ts seated_watcher). orphan_sighting addressed_args x)"
proof -
  let ?ts = "[demo_turn [(7, Unreadable 1)] [] BeatHolder, demo_turn [(7, Unreadable 1)] [] BeatLost, demo_turn [(7, Unreadable 1)] [] BeatHolder]"
  let ?r = "watch_run addressed_args ?ts seated_watcher"
  have g: "w_gone_seen seated_watcher = 0" by (simp add: seated_watcher_def)
  have "FarewellCall ''engram-1'' ''app'' \<in> set (fst ?r)" by code_simp
  then have f: "farewell_in (fst ?r)" by (auto simp: farewell_in_def)
  show ?thesis unfolding Let_def
    by (rule mp [OF conjunct1 [OF farewell_needs_two_sightings [OF prod.collapse [symmetric] g]] f])
qed

text \<open>A beat that is refused like any failed call is taken for a lost one, and the turn ends before the poll: a
  watcher with a claim whose token was revoked goes on for ever, though the poll would end it.\<close>

lemma revoked_token_goes_unnoticed:
  assumes "ar_address a \<noteq> ''''" and "w_claim w = Some c" and "\<not> cs_unheld_mode c"
    and "\<not> orphaned a (looked (ti_look t) (w_bridge w))" and "ti_beat t = BeatLost"
  shows "snd (watch_turn a t w) = Go (w\<lparr>w_bridge := looked (ti_look t) (w_bridge w)\<rparr>)"
  using assms by (simp add: watch_turn_def follow_seat_def claim_beat_def)

end
