(* ===== verification/Spec2Isabelle.thy ===== *)
theory Spec2Isabelle
  imports Identity Project_Alias Address_Roles Memory Inbox Watch_Claim Principals Access Mail_Signal Climb Seat_Refinement
    Mail_Router Administration Session_Router Service Bridge_Identity Bridge_Session Watcher
begin

text \<open>
  A verification library for this repository: a memory and messaging service for agent sessions. The
  server is a FastAPI application over one PostgreSQL database; beside each session run a bridge, which
  decides who the session is, and a watcher, which wakes it when mail arrives.

  \<^bold>\<open>The program and its parts.\<close> Every fact the server keeps about agents is a row of the table
  \<^verbatim>\<open>memories\<close>, told apart by its scope: memories proper, letters (\<^verbatim>\<open>inbox\<close>), wakes, presence rows,
  seats, watch claims, death certificates, lane cursors, project roots. The services of
  \<^verbatim>\<open>server/services\<close> are the operations on it, the routers of \<^verbatim>\<open>server/routers\<close> check a request and call
  them, and \<^verbatim>\<open>server/main.py\<close> puts authentication before the routers and runs the periodic tasks. A session
  claims a seat (its address), beats its heartbeat, arms a watcher that holds the watch claim of the seat,
  reads and answers letters, writes memories under optimistic versions, and is certified dead by whoever
  spawned it. The register tells which names are held and what the allocator would do with them, and two
  janitors move unanswered asks up the address tree and resolve spent chatter. Beside the table
  \<^verbatim>\<open>memories\<close> stand principals with their tokens, project renames, address roles, mail-signal keys and the
  audit log.

  \<^bold>\<open>Theories and sources.\<close> Names of files are those under \<^verbatim>\<open>src/server\<close> and \<^verbatim>\<open>src/server/services\<close>; the
  bridge is \<^verbatim>\<open>src/integrations/claude-code/src/engram_mcp\<close>.
  \<^item> \<open>Prelude\<close>, \<open>Jsonb\<close>, \<open>Store\<close>, \<open>Database\<close>: Python's string operations, JSON documents with the
    operators of \<^verbatim>\<open>jsonb\<close>, the table \<^verbatim>\<open>memories\<close> with its unique index and the SQL statements as
    functions on lists of rows (\<open>fetchrow\<close>, \<open>sql_update\<close>, \<open>insert_do_nothing\<close>, \<open>insert_do_update\<close>), the
    server's state and the settings of \<^verbatim>\<open>config.py\<close>. The locale \<open>row_writer\<close> is the interface of every
    update that keeps a row's id and unique key; each writer of the model is an interpretation of
    it, and the invariants of the table are proved once inside it.
  \<^item> \<open>Identity\<close>: \<^verbatim>\<open>identity.py\<close>, the syntax of addresses.
  \<^item> \<open>Project_Alias\<close>: \<^verbatim>\<open>project_alias.py\<close>, renames and merges of projects and their undoing.
  \<^item> \<open>Address_Roles\<close>: \<^verbatim>\<open>address_roles.py\<close>, and the widening of listen sets by siblings and roles.
  \<^item> \<open>Memory_Text\<close>, \<open>Memory\<close>: the memory part of \<^verbatim>\<open>memory_service.py\<close>: guarded writes, reads, search order,
    key listings, superseding, deletion with its review queue, transfers of an estate.
  \<^item> \<open>Inbox\<close>: the mail part of \<^verbatim>\<open>memory_service.py\<close>: sending, listing, acknowledging, archiving,
    resolving, sweeping, counting, wakes.
  \<^item> \<open>Watch_Claim\<close>: \<^verbatim>\<open>watch_claim.py\<close>, the single-holder claim on a seat's wake stream; the locale
    \<open>nonce_lease\<close> is what a process relies on that holds something by its nonce.
  \<^item> \<open>Presence\<close>, \<open>Roster\<close>: the presence part of \<^verbatim>\<open>memory_service.py\<close>: heartbeats with the map of live
    nonces, watcher beats, farewells, the roster, the liveness of recipients, the cost line of a
    send, the retargeting of replies.
  \<^item> \<open>Seats\<close>, \<open>Seat_Claims\<close>, \<open>Seat_Refinement\<close>: the write side of \<^verbatim>\<open>session_registry.py\<close>: the ladder
    \<^verbatim>\<open>allocation_decision\<close>, \<^verbatim>\<open>seat_claim\<close> in its parts (continuity, rename at run time, allocation,
    take-over, inheritance of the lane's read cursor), \<^verbatim>\<open>death_certify\<close>, \<^verbatim>\<open>seat_release\<close>.
  \<^item> \<open>Register\<close>: its read side: \<^verbatim>\<open>seat_list\<close>, \<^verbatim>\<open>address_register\<close>, \<^verbatim>\<open>project_registry\<close>,
    \<^verbatim>\<open>unknown_root_advisories\<close>.
  \<^item> \<open>Climb\<close>: its janitors: \<^verbatim>\<open>_parse_tree_node\<close>, \<^verbatim>\<open>climb_pass\<close>, \<^verbatim>\<open>sweep_pass\<close>.
  \<^item> \<open>Principals\<close>, \<open>Access\<close>, \<open>Mail_Signal\<close>: \<^verbatim>\<open>principal_service.py\<close>, \<^verbatim>\<open>auth.py\<close> with \<^verbatim>\<open>dependencies.py\<close>,
    \<^verbatim>\<open>mail_signal.py\<close>.
  \<^item> \<open>Requests\<close>: the requests of \<^verbatim>\<open>models.py\<close> as records, their validators as functions that refuse or
    return the normalised request.
  \<^item> \<open>Memory_Router\<close>, \<open>Mail_Router\<close>: \<^verbatim>\<open>routers/memory.py\<close> with \<^verbatim>\<open>audit_service.py\<close>: the endpoints on memories,
    and those on mail, wakes (with the long poll), presence, names and signals.
  \<^item> \<open>Session_Router\<close>: \<^verbatim>\<open>routers/session.py\<close>.
  \<^item> \<open>Administration\<close>: \<^verbatim>\<open>admin_service.py\<close>, \<^verbatim>\<open>routers/admin.py\<close>, \<^verbatim>\<open>principals.py\<close>, \<^verbatim>\<open>identity.py\<close> and the turns
    of \<^verbatim>\<open>cleanup_task.py\<close>.
  \<^item> \<open>Service\<close>: \<^verbatim>\<open>main.py\<close>. \<open>api_call\<close> is a request by its route, \<open>serve\<close> the way of a request through the
    middleware to its handler, \<open>service_step\<close> a request, a start or a background turn. The locale
    \<open>lawful_system\<close> carries the invariant along runs and is interpreted on \<open>service_step\<close>.
  \<^item> \<open>Bridge_Scoping\<close>, \<open>Bridge_Identity\<close>: \<^verbatim>\<open>scoping.py\<close> and \<^verbatim>\<open>identity.py\<close> of the bridge: configuration files and
    the walk that finds them, the resolvers of project names, seat files and session keys, the identity
    and the listen set of a session. The process with its environment, files and process table is the
    record \<open>bridge\<close>.
  \<^item> \<open>Bridge_Session\<close>: \<^verbatim>\<open>server.py\<close> of the bridge up to its memory tools, and the requests of \<^verbatim>\<open>client.py\<close>: one record
    \<open>session\<close> for the globals of the module, \<open>bridge_request\<close> for a call with its retry, \<open>bridge_claim\<close>,
    \<open>bridge_heartbeat\<close>, \<open>memory_take_seat\<close>, the supervisor of the watcher, the exit certificate and the banners.
  \<^item> \<open>Watcher\<close>: \<^verbatim>\<open>inbox_wait.py\<close>. \<open>start\<close> and \<open>watch_run\<close> give what the process does, as a list of acts, from what
    it is answered and what it finds (\<open>arm_input\<close>, \<open>turn_input\<close>).

  \<^bold>\<open>How state and operations correspond.\<close> A row of a table is a record, a JSON document an
  association list, an instant a number of microseconds. An operation takes the settings, its
  arguments, the time, and the table (or the whole server where it needs several tables), and
  returns its answer with the new state; an exception is a value of the error type, a refusal of an endpoint the
  \<open>HTTPException\<close> with its status. Texts built
  for the reader (warnings, advisories, skip counters) are values of datatypes in the order in
  which the code joins or counts them. A transaction is one step; where the code runs several
  statements outside one (the collapse after a write), the steps are separate definitions and
  their interleaving is a theorem. What the code does not define is an argument: the
  hash functions, random parts, UUIDs and salts, and the distance of two embeddings.

  \<^bold>\<open>What is shown.\<close> For the memory store: no lost update, read after write, ownership, the one live
  row of a project key, the deletion review as a round trip. For mail: runs of the mailbox lose
  nothing, what is sent is listed, counts agree with listings, the stale sweep is safe. For
  watches: one holder per seat, which changes only by a release of the holder or a lawful claim, exclusive
  grants, waiting for the living. For renames and roles:
  one-hop resolution, nothing lost in a merge, one open entry of a role's history. For presence:
  collisions are two live processes, activity cannot be forged by idle beats, roster and
  heartbeat agree. For seats: a live seat is never taken, a repeated claim keeps its seat, mail
  waits for its addressee, displaced processes stay out, releases and certificates are fenced
  and idempotent, a claim fails only when every candidate is unavailable, names have one holder;
  \<open>Seat_Refinement\<close> gives the abstract system of who sits where and shows that every step of the
  registry is a step of it. For the register: it lists exactly the names that are held and its
  verdicts are the allocator's. For the janitors: climbing runs out after at most two moves a
  message, each to the parent, and the sweep spares asks and roots. For access: no enforced
  request passes unauthenticated, the admin surface is never anonymous, revocation is immediate.
  For the endpoints: rows of the protocols are out of reach of the generic calls, authors and envelopes cannot be
  forged, a refused send stores nothing, a long poll answers within the timeout it asks for, what a bulk deletion
  destroys is what its preview counted. For the application: every run keeps the invariants of all tables and the
  audit log; in every configuration it is said who can change the registers; an owner's relay only adds mail. For the
  bridge: tool calls keep the address of a session, its listen set is, under the conditions stated, one the server
  accepts, and after a claim the session, its watcher and the registry agree on its name; a refused credential goes
  quiet, and only the process that claimed a seat certifies its exit. For the watcher: one line for each message,
  silence after displacement, the gap of a displaced holder delivered, no farewell on a single sighting.
  Where the code departs from its comments the departure is a lemma on a concrete state.

  \<^bold>\<open>Bounds and termination.\<close> Loops that are not structural have
  termination proofs (the strip of call trailers shortens the text; the search for a free archive
  key is bounded by the keys taken; a walk over directories shortens the path). The allocation loop runs over
  64 or 65 candidates, the walk over the ancestors of a process over 12, as in the code. The expiry sweep is a
  \<open>partial_function\<close>, because it does not end when its batch is zero, and is shown to end otherwise. The long
  poll runs over the turns it is given, and 151 are shown to be enough for the largest timeout. A run of the
  watcher is as long as the list of its turns; it need not end.

  \<^bold>\<open>Not modelled.\<close> The connection pool, migrations, logging and the request log, the embedding model and full-text
  ranking (the search takes distance and score as arguments), response models that only repeat the
  result of a service, the dashboard and the health probes, the tools of the bridge that only call one endpoint and
  format its answer, the pipe between the watcher and its reader, the clerk, the Python client and the scripts, which call the interface verified
  here. An identifier of a row is one more than the largest in the table, where the database never reuses one of a
  deleted row; the letter case is that of ASCII; the files of a
  process are a map from paths to contents, so the test whether a seat file exists does not see a directory of that name. Concurrency of statements is modelled where the code's guards speak of it (insert on conflict, take-over by
  age, the collapse race); otherwise an operation is one step, and so is a request.
\<close>

end
